(* ===== verification/Prelude.thy ===== *)
theory Prelude
  imports Main "HOL-Library.Word"
begin

text \<open>
  The vocabulary every other theory shares: the machine words of the source, the big-endian
  byte image of a word (both processors of the console, the PowerPC that runs the game and the
  ARM core that runs the launcher kernel, are big-endian, so a C structure of \<open>unsigned int\<close>
  fields is the concatenation of these images), C's test of an \<open>unsigned int\<close> used as a truth
  value, and the facts about word comparisons, ranges and lists that several components use.
\<close>

unbundle bit_operations_syntax

type_synonym u8 = "8 word"
type_synonym u16 = "16 word"
type_synonym u32 = "32 word"
type_synonym u64 = "64 word"
type_synonym bytes = "8 word list"

section \<open>Bits\<close>

lemma xor_right_cancel [simp]: "(a :: 'a :: len word) XOR x = b XOR x \<longleftrightarrow> a = b"
  by (metis xor.assoc xor.right_neutral xor_self_eq)

lemma xor_left_cancel [simp]: "x XOR (a :: 'a :: len word) = x XOR b \<longleftrightarrow> a = b"
  by (metis xor.commute xor_right_cancel)

lemma single_bit: "k < 32 \<Longrightarrow> bit (push_bit k (1 :: u32)) j \<longleftrightarrow> j = k"
  unfolding bit_push_bit_iff bit_1_iff by (auto simp: possible_bit_def)

lemma single_bit_and: "k < 32 \<Longrightarrow> (w :: u32) AND push_bit k 1 \<noteq> 0 \<longleftrightarrow> bit w k"
  by (auto simp: bit_eq_iff [of _ 0] bit_and_iff single_bit simp del: push_bit_of_1)

section \<open>Bytes and words\<close>

definition be32 :: "u32 \<Rightarrow> bytes" where
  "be32 w = [ucast (drop_bit 24 w), ucast (drop_bit 16 w), ucast (drop_bit 8 w), ucast w]"

definition de32 :: "u8 \<Rightarrow> u8 \<Rightarrow> u8 \<Rightarrow> u8 \<Rightarrow> u32" where
  "de32 a b c d = push_bit 24 (ucast a) OR push_bit 16 (ucast b) OR push_bit 8 (ucast c) OR ucast d"

lemma length_be32 [simp]: "length (be32 w) = 4"
  by (simp add: be32_def)

lemma de32_be32 [simp]:
  "de32 (ucast (drop_bit 24 w)) (ucast (drop_bit 16 w)) (ucast (drop_bit 8 w)) (ucast (w :: u32)) = w"
proof (rule bit_word_eqI)
  fix n assume "n < LENGTH(32)"
  then consider "n < 8" | "8 \<le> n" "n < 16" | "16 \<le> n" "n < 24" | "24 \<le> n" "n < 32"
    by fastforce
  then show "bit (de32 (ucast (drop_bit 24 w)) (ucast (drop_bit 16 w)) (ucast (drop_bit 8 w)) (ucast w)) n = bit w n"
    by cases (auto simp: de32_def bit_or_iff bit_push_bit_iff bit_ucast_iff bit_drop_bit_eq)
qed

lemma be32_inj: "be32 v = be32 w \<longleftrightarrow> v = w"
proof
  assume "be32 v = be32 w"
  then have "de32 (ucast (drop_bit 24 v)) (ucast (drop_bit 16 v)) (ucast (drop_bit 8 v)) (ucast v)
    = de32 (ucast (drop_bit 24 w)) (ucast (drop_bit 16 w)) (ucast (drop_bit 8 w)) (ucast w)"
    unfolding be32_def by (simp only: list.inject)
  then show "v = w" by (simp only: de32_be32)
qed simp

definition word_at :: "bytes \<Rightarrow> nat \<Rightarrow> u32" where
  "word_at bs i = de32 (bs ! i) (bs ! (i + 1)) (bs ! (i + 2)) (bs ! (i + 3))"

text \<open>The byte image of a structure whose fields are all 32-bit words.\<close>

definition image32 :: "u32 list \<Rightarrow> bytes" where
  "image32 ws = concat (map be32 ws)"

lemma length_image32 [simp]: "length (image32 ws) = 4 * length ws"
  by (induction ws) (auto simp: image32_def)

lemma image32_Nil [simp]: "image32 [] = []"
  and image32_Cons [simp]: "image32 (w # ws) = be32 w @ image32 ws"
  by (simp_all add: image32_def)

lemma image32_append [simp]: "image32 (vs @ ws) = image32 vs @ image32 ws"
  by (simp add: image32_def)

lemma image32_inj: "length vs = length ws \<Longrightarrow> image32 vs = image32 ws \<longleftrightarrow> vs = ws"
  by (induction vs ws rule: list_induct2) (auto simp: be32_inj)

text \<open>The bytes of a file as characters and back.\<close>

definition chars :: "bytes \<Rightarrow> string" where
  "chars = map (\<lambda>b. char_of (unat b))"

definition octets :: "string \<Rightarrow> bytes" where
  "octets = map (\<lambda>c. word_of_nat (of_char c))"

lemma length_octets [simp]: "length (octets s) = length s"
  by (simp add: octets_def)

lemma octets_append [simp]: "octets (s @ t) = octets s @ octets t"
  by (simp add: octets_def)

lemma octets_Nil [simp]: "octets [] = []"
  by (simp add: octets_def)

lemma chars_octets [simp]: "chars (octets s) = s"
proof -
  have "char_of (unat (word_of_nat (of_char c :: nat) :: u8)) = c" for c
    by (simp add: unat_of_nat take_bit_nat_eq_self)
  then show ?thesis by (simp add: chars_def octets_def comp_def)
qed

section \<open>Ranges of addresses\<close>

text \<open>
  The guard the headers repeat under many names: an aligned, non-empty range
  \<open>[base, base + size)\<close> inside \<open>[start, stop)\<close>, written so that no addition wraps.
\<close>

definition range_inside :: "u32 \<Rightarrow> u32 \<Rightarrow> u32 \<Rightarrow> u32 \<Rightarrow> bool" where
  "range_inside base sz start stop \<longleftrightarrow>
     base AND 3 = 0 \<and> start \<le> base \<and> base < stop \<and> sz \<noteq> 0 \<and> sz \<le> stop - base"

text \<open>Two half-open ranges given as base and sz, compared the way the code does it.\<close>

definition ranges_overlap :: "u32 \<Rightarrow> u32 \<Rightarrow> u32 \<Rightarrow> u32 \<Rightarrow> bool" where
  "ranges_overlap a sizeA b sizeB \<longleftrightarrow> a < b + sizeB \<and> b < a + sizeA"

lemma unat_u32_less: "unat (w :: u32) < 2 ^ 32"
proof -
  have "(unsigned w :: nat) < 2 ^ LENGTH(32)"
    by (rule unsigned_less)
  then show ?thesis by simp
qed

lemma unat_minus_le: "(b :: u32) \<le> a \<Longrightarrow> unat (a - b) = unat a - unat b"
  by (simp add: unat_sub)

lemma range_inside_unat:
  "range_inside base sz start stop \<longleftrightarrow>
     base AND 3 = 0 \<and> unat start \<le> unat base \<and> 0 < unat sz \<and> unat base + unat sz \<le> unat stop"
proof -
  have nz: "sz \<noteq> 0 \<longleftrightarrow> 0 < unat sz"
    by (rule unat_gt_0 [symmetric])
  show ?thesis
    by (cases "base \<le> stop")
      (auto simp: range_inside_def nz word_le_nat_alt word_less_nat_alt unat_sub simp del: unat_gt_0)
qed

text \<open>Rounding down to a multiple of 32.\<close>

lemma and_minus_32: "(x :: u32) AND - 32 = push_bit 5 (drop_bit 5 x)"
proof (rule bit_word_eqI)
  fix n assume n: "n < LENGTH(32)"
  have "(- 32 :: u32) = NOT (mask 5)" by (simp add: mask_eq_exp_minus_1)
  then have "bit (- 32 :: u32) n \<longleftrightarrow> 5 \<le> n"
    using n by (simp only: bit_not_iff bit_mask_iff) (simp add: not_less)
  then show "bit (x AND - 32) n = bit (push_bit 5 (drop_bit 5 x)) n"
    using n by (simp only: bit_and_iff bit_push_bit_iff bit_drop_bit_eq) auto
qed

lemma unat_and_minus_32: "unat ((x :: u32) AND - 32) = unat x div 32 * 32"
proof -
  have "unat x div 32 * 32 < 2 ^ 32" using unat_u32_less [of x] by linarith
  then show ?thesis
    unfolding and_minus_32
    by (simp add: push_bit_eq_mult drop_bit_eq_div unat_word_ariths unat_div)
qed

lemma unat_plus_bound: "unat (a :: u32) + unat b < 2 ^ 32 \<Longrightarrow> unat (a + b) = unat a + unat b"
  by (simp add: unat_word_ariths)

text \<open>The overlap test means what it says as long as neither range runs past the address space.\<close>

lemma ranges_overlap_unat:
  assumes "unat a + unat sizeA < 2 ^ 32" and "unat b + unat sizeB < 2 ^ 32"
  shows "ranges_overlap a sizeA b sizeB \<longleftrightarrow>
    unat a < unat b + unat sizeB \<and> unat b < unat a + unat sizeA"
  using assms by (simp add: ranges_overlap_def word_less_nat_alt unat_plus_bound)

end
