(* ===== verification/Crc.thy ===== *)
theory Crc
  imports Prelude
begin

text \<open>
  CRC-32 as the program computes it: the table-driven byte step of
  \<open>include/susamune/lm_crc32.h\<close> and the bit loop that every record checksum of the launcher
  kernel and of the shared headers writes out in place.  The two are shown to be the same function;
  the step is a bijection of the running state, which gives the error-detection facts the record
  formats rest on.
\<close>

section \<open>The two byte steps\<close>

text \<open>One turn of the inner loop
  \<^verbatim>\<open>crc = (crc >> 1) ^ ((0u - (crc & 1u)) & 0xEDB88320u)\<close>.\<close>

definition crc_bit :: "u32 \<Rightarrow> u32" where
  "crc_bit crc = drop_bit 1 crc XOR ((0 - (crc AND 1)) AND 0xEDB88320)"

definition crc_bits :: "u32 \<Rightarrow> u32" where
  "crc_bits crc = crc_bit (crc_bit (crc_bit (crc_bit (crc_bit (crc_bit (crc_bit (crc_bit crc)))))))"

text \<open>One byte of the bit-loop form: the exclusive or, then eight turns.\<close>

definition crc_byte :: "u32 \<Rightarrow> u8 \<Rightarrow> u32" where
  "crc_byte crc b = crc_bits (crc XOR ucast b)"

definition lm_crc32_table :: "u32 list" where
  "lm_crc32_table = [
    0x00000000, 0x77073096, 0xEE0E612C, 0x990951BA, 0x076DC419, 0x706AF48F, 0xE963A535, 0x9E6495A3,
    0x0EDB8832, 0x79DCB8A4, 0xE0D5E91E, 0x97D2D988, 0x09B64C2B, 0x7EB17CBD, 0xE7B82D07, 0x90BF1D91,
    0x1DB71064, 0x6AB020F2, 0xF3B97148, 0x84BE41DE, 0x1ADAD47D, 0x6DDDE4EB, 0xF4D4B551, 0x83D385C7,
    0x136C9856, 0x646BA8C0, 0xFD62F97A, 0x8A65C9EC, 0x14015C4F, 0x63066CD9, 0xFA0F3D63, 0x8D080DF5,
    0x3B6E20C8, 0x4C69105E, 0xD56041E4, 0xA2677172, 0x3C03E4D1, 0x4B04D447, 0xD20D85FD, 0xA50AB56B,
    0x35B5A8FA, 0x42B2986C, 0xDBBBC9D6, 0xACBCF940, 0x32D86CE3, 0x45DF5C75, 0xDCD60DCF, 0xABD13D59,
    0x26D930AC, 0x51DE003A, 0xC8D75180, 0xBFD06116, 0x21B4F4B5, 0x56B3C423, 0xCFBA9599, 0xB8BDA50F,
    0x2802B89E, 0x5F058808, 0xC60CD9B2, 0xB10BE924, 0x2F6F7C87, 0x58684C11, 0xC1611DAB, 0xB6662D3D,
    0x76DC4190, 0x01DB7106, 0x98D220BC, 0xEFD5102A, 0x71B18589, 0x06B6B51F, 0x9FBFE4A5, 0xE8B8D433,
    0x7807C9A2, 0x0F00F934, 0x9609A88E, 0xE10E9818, 0x7F6A0DBB, 0x086D3D2D, 0x91646C97, 0xE6635C01,
    0x6B6B51F4, 0x1C6C6162, 0x856530D8, 0xF262004E, 0x6C0695ED, 0x1B01A57B, 0x8208F4C1, 0xF50FC457,
    0x65B0D9C6, 0x12B7E950, 0x8BBEB8EA, 0xFCB9887C, 0x62DD1DDF, 0x15DA2D49, 0x8CD37CF3, 0xFBD44C65,
    0x4DB26158, 0x3AB551CE, 0xA3BC0074, 0xD4BB30E2, 0x4ADFA541, 0x3DD895D7, 0xA4D1C46D, 0xD3D6F4FB,
    0x4369E96A, 0x346ED9FC, 0xAD678846, 0xDA60B8D0, 0x44042D73, 0x33031DE5, 0xAA0A4C5F, 0xDD0D7CC9,
    0x5005713C, 0x270241AA, 0xBE0B1010, 0xC90C2086, 0x5768B525, 0x206F85B3, 0xB966D409, 0xCE61E49F,
    0x5EDEF90E, 0x29D9C998, 0xB0D09822, 0xC7D7A8B4, 0x59B33D17, 0x2EB40D81, 0xB7BD5C3B, 0xC0BA6CAD,
    0xEDB88320, 0x9ABFB3B6, 0x03B6E20C, 0x74B1D29A, 0xEAD54739, 0x9DD277AF, 0x04DB2615, 0x73DC1683,
    0xE3630B12, 0x94643B84, 0x0D6D6A3E, 0x7A6A5AA8, 0xE40ECF0B, 0x9309FF9D, 0x0A00AE27, 0x7D079EB1,
    0xF00F9344, 0x8708A3D2, 0x1E01F268, 0x6906C2FE, 0xF762575D, 0x806567CB, 0x196C3671, 0x6E6B06E7,
    0xFED41B76, 0x89D32BE0, 0x10DA7A5A, 0x67DD4ACC, 0xF9B9DF6F, 0x8EBEEFF9, 0x17B7BE43, 0x60B08ED5,
    0xD6D6A3E8, 0xA1D1937E, 0x38D8C2C4, 0x4FDFF252, 0xD1BB67F1, 0xA6BC5767, 0x3FB506DD, 0x48B2364B,
    0xD80D2BDA, 0xAF0A1B4C, 0x36034AF6, 0x41047A60, 0xDF60EFC3, 0xA867DF55, 0x316E8EEF, 0x4669BE79,
    0xCB61B38C, 0xBC66831A, 0x256FD2A0, 0x5268E236, 0xCC0C7795, 0xBB0B4703, 0x220216B9, 0x5505262F,
    0xC5BA3BBE, 0xB2BD0B28, 0x2BB45A92, 0x5CB36A04, 0xC2D7FFA7, 0xB5D0CF31, 0x2CD99E8B, 0x5BDEAE1D,
    0x9B64C2B0, 0xEC63F226, 0x756AA39C, 0x026D930A, 0x9C0906A9, 0xEB0E363F, 0x72076785, 0x05005713,
    0x95BF4A82, 0xE2B87A14, 0x7BB12BAE, 0x0CB61B38, 0x92D28E9B, 0xE5D5BE0D, 0x7CDCEFB7, 0x0BDBDF21,
    0x86D3D2D4, 0xF1D4E242, 0x68DDB3F8, 0x1FDA836E, 0x81BE16CD, 0xF6B9265B, 0x6FB077E1, 0x18B74777,
    0x88085AE6, 0xFF0F6A70, 0x66063BCA, 0x11010B5C, 0x8F659EFF, 0xF862AE69, 0x616BFFD3, 0x166CCF45,
    0xA00AE278, 0xD70DD2EE, 0x4E048354, 0x3903B3C2, 0xA7672661, 0xD06016F7, 0x4969474D, 0x3E6E77DB,
    0xAED16A4A, 0xD9D65ADC, 0x40DF0B66, 0x37D83BF0, 0xA9BCAE53, 0xDEBB9EC5, 0x47B2CF7F, 0x30B5FFE9,
    0xBDBDF21C, 0xCABAC28A, 0x53B39330, 0x24B4A3A6, 0xBAD03605, 0xCDD70693, 0x54DE5729, 0x23D967BF,
    0xB3667A2E, 0xC4614AB8, 0x5D681B02, 0x2A6F2B94, 0xB40BBE37, 0xC30C8EA1, 0x5A05DF1B, 0x2D02EF8D]"

definition LmCrc32Byte :: "u32 \<Rightarrow> u8 \<Rightarrow> u32" where
  "LmCrc32Byte crc value = drop_bit 8 crc XOR (lm_crc32_table ! unat ((crc XOR ucast value) AND 255))"

section \<open>The table holds the eight-turn values\<close>

text \<open>Both byte steps are linear over exclusive or, so the 256 entries are spanned by eight of them.\<close>

lemma crc_bit_if: "crc_bit w = (if odd w then drop_bit 1 w XOR 0xEDB88320 else drop_bit 1 w)"
  by (cases "odd w") (simp_all add: crc_bit_def and_one_eq mod2_eq_if)

lemma crc_bit_xor: "crc_bit (v XOR w) = crc_bit v XOR crc_bit w"
proof -
  have "odd (v XOR w) \<longleftrightarrow> odd v \<noteq> odd w"
    using bit_xor_iff [of v w 0] by (simp add: bit_0)
  then show ?thesis
    by (auto simp: crc_bit_if xor.assoc xor.commute xor.left_commute)
qed

lemma crc_bits_xor: "crc_bits (v XOR w) = crc_bits v XOR crc_bits w"
  by (simp add: crc_bits_def crc_bit_xor)

lemma crc_bit_0 [simp]: "crc_bit 0 = 0"
  by (simp add: crc_bit_def)

lemma crc_bits_0 [simp]: "crc_bits 0 = 0"
  by (simp add: crc_bits_def)

fun xor_span :: "u32 list \<Rightarrow> u32 list" where
  "xor_span [] = [0]"
| "xor_span (b # bs) = (let t = xor_span bs in t @ map (\<lambda>w. b XOR w) t)"

lemma xor_span_crc_bits: "xor_span (map crc_bits bs) = map crc_bits (xor_span bs)"
  by (induction bs) (simp_all add: Let_def crc_bits_xor)

lemma crc_bits_basis:
  "map crc_bits [128, 64, 32, 16, 8, 4, 2, 1] =
    [0xEDB88320, 0x76DC4190, 0x3B6E20C8, 0x1DB71064, 0x0EDB8832, 0x076DC419, 0xEE0E612C, 0x77073096]"
  by (simp add: crc_bits_def crc_bit_def)

lemma lm_crc32_table_span:
  "lm_crc32_table = xor_span
    [0xEDB88320, 0x76DC4190, 0x3B6E20C8, 0x1DB71064, 0x0EDB8832, 0x076DC419, 0xEE0E612C, 0x77073096]"
  by (simp add: lm_crc32_table_def)

lemma xor_span_bytes: "xor_span [128, 64, 32, 16, 8, 4, 2, 1] = map word_of_nat [0..<256]"
  by (simp add: upt_rec)

lemma lm_crc32_table_eq: "lm_crc32_table = map (\<lambda>i. crc_bits (word_of_nat i)) [0..<256]"
proof -
  have "lm_crc32_table = xor_span (map crc_bits [128, 64, 32, 16, 8, 4, 2, 1])"
    by (simp only: crc_bits_basis lm_crc32_table_span)
  also have "\<dots> = map crc_bits (map word_of_nat [0..<256])"
    by (simp only: xor_span_crc_bits xor_span_bytes)
  finally show ?thesis by (simp add: comp_def)
qed

section \<open>The table step is the bit loop\<close>

lemma crc_bit_even: "even w \<Longrightarrow> crc_bit w = drop_bit 1 w"
  by (simp add: crc_bit_if)

lemma crc_bits_low_zero:
  assumes "take_bit 8 w = 0"
  shows "crc_bits w = drop_bit 8 w"
proof -
  have low: "\<not> bit w k" if "k < 8" for k
    using assms that bit_take_bit_iff [of 8 w k] by simp
  have even: "even (drop_bit k w)" if "k < 8" for k
    using low [OF that] by (simp add: bit_iff_odd_drop_bit)
  have step: "crc_bit (drop_bit k w) = drop_bit (Suc k) w" if "k < 8" for k
    using crc_bit_even [OF even [OF that]] by (simp add: drop_bit_drop_bit)
  have "crc_bit w = drop_bit 1 w"
    using step [of 0] by simp
  then show ?thesis
    using step [of 1] step [of 2] step [of 3] step [of 4] step [of 5] step [of 6] step [of 7]
    by (simp add: crc_bits_def eval_nat_numeral)
qed

lemma lm_crc32_table_nth:
  assumes "take_bit 8 w = w"
  shows "lm_crc32_table ! unat (w :: u32) = crc_bits w"
proof -
  have "unat w < 2 ^ 8"
    using assms by (metis take_bit_nat_less_exp unsigned_take_bit_eq)
  then show ?thesis
    by (simp add: lm_crc32_table_eq)
qed

lemma LmCrc32Byte_eq_crc_byte: "LmCrc32Byte crc v = crc_byte crc v"
proof -
  let ?x = "crc XOR ucast v :: u32"
  let ?lo = "?x AND 255" and ?hi = "?x AND NOT 255"
  have mask: "(255 :: u32) = mask 8"
    by (simp add: mask_eq_exp_minus_1)
  have split: "?x = ?hi XOR ?lo"
    by (rule bit_word_eqI) (auto simp: bit_simps)
  have hi: "crc_bits ?hi = drop_bit 8 ?hi"
    by (rule crc_bits_low_zero) (rule bit_word_eqI, auto simp: bit_simps mask)
  have hi': "drop_bit 8 ?hi = drop_bit 8 crc"
    by (rule bit_word_eqI) (auto simp: bit_simps mask dest: bit_imp_le_length)
  have lo: "lm_crc32_table ! unat ?lo = crc_bits ?lo"
    by (rule lm_crc32_table_nth) (simp add: mask take_bit_eq_mask and.assoc)
  have "crc_byte crc v = crc_bits ?hi XOR crc_bits ?lo"
    unfolding crc_byte_def by (subst split) (rule crc_bits_xor)
  with hi hi' lo show ?thesis
    by (simp add: LmCrc32Byte_def)
qed

section \<open>The step loses nothing\<close>

lemma bit_31_poly: "bit (0xEDB88320 :: u32) 31"
  by simp

lemma crc_bit_top: "bit (crc_bit w) 31 \<longleftrightarrow> odd w"
proof -
  have "\<not> bit (drop_bit 1 w) 31"
    by (auto simp: bit_drop_bit_eq dest: bit_imp_le_length)
  then show ?thesis
    using bit_31_poly by (auto simp: crc_bit_if bit_xor_iff)
qed

lemma crc_bit_inj: "crc_bit v = crc_bit w \<Longrightarrow> v = w"
proof -
  assume eq: "crc_bit v = crc_bit w"
  then have odd: "odd v \<longleftrightarrow> odd w"
    by (metis crc_bit_top)
  with eq have drop: "drop_bit 1 v = drop_bit 1 w"
    by (auto simp: crc_bit_if split: if_splits)
  show "v = w"
  proof (rule bit_word_eqI)
    fix n
    show "bit v n = bit w n"
    proof (cases n)
      case 0
      with odd show ?thesis by (simp add: bit_0)
    next
      case (Suc m)
      have "bit (drop_bit 1 v) m = bit (drop_bit 1 w) m"
        by (simp only: drop)
      with Suc show ?thesis by (simp add: bit_drop_bit_eq)
    qed
  qed
qed

lemma crc_bits_inj: "crc_bits v = crc_bits w \<Longrightarrow> v = w"
  unfolding crc_bits_def by (drule crc_bit_inj)+ simp

lemma crc_byte_inj_state: "crc_byte c b = crc_byte c' b \<Longrightarrow> c = c'"
  unfolding crc_byte_def by (drule crc_bits_inj) simp

lemma crc_byte_inj_byte: "crc_byte c b = crc_byte c b' \<Longrightarrow> b = b'"
proof -
  assume "crc_byte c b = crc_byte c b'"
  then have "(ucast b :: u32) = ucast b'"
    unfolding crc_byte_def by (auto dest: crc_bits_inj)
  then have eq: "bit (ucast b :: u32) n = bit (ucast b' :: u32) n" for n
    by simp
  show "b = b'"
  proof (rule bit_word_eqI)
    fix n assume "n < LENGTH(8)"
    then show "bit b n = bit b' n"
      using eq [of n] by (simp add: bit_ucast_iff)
  qed
qed

section \<open>Checksums over a byte image\<close>

text \<open>
  What a checksum needs of its byte step: no step merges two states or two bytes.  Every record
  format of the program relies on exactly this to notice a damaged byte.
\<close>

locale checksum_step =
  fixes step :: "u32 \<Rightarrow> u8 \<Rightarrow> u32"
  assumes step_inj_state: "step c b = step c' b \<Longrightarrow> c = c'"
    and step_inj_byte: "step c b = step c b' \<Longrightarrow> b = b'"
begin

lemma foldl_inj_state: "foldl step c bs = foldl step c' bs \<Longrightarrow> c = c'"
  by (induction bs arbitrary: c c') (auto dest: step_inj_state)

lemma foldl_one_byte:
  assumes "b \<noteq> b'"
  shows "foldl step c (xs @ b # ys) \<noteq> foldl step c (xs @ b' # ys)"
proof
  assume "foldl step c (xs @ b # ys) = foldl step c (xs @ b' # ys)"
  then have "step (foldl step c xs) b = step (foldl step c xs) b'"
    by (auto dest: foldl_inj_state)
  with assms show False by (auto dest: step_inj_byte)
qed

lemma foldl_byte_update:
  assumes "i < length bs" and "b \<noteq> bs ! i"
  shows "foldl step c (bs[i := b]) \<noteq> foldl step c bs"
  using assms foldl_one_byte [of b "bs ! i" c "take i bs" "drop (Suc i) bs"]
  by (simp add: upd_conv_take_nth_drop flip: id_take_nth_drop)

end

interpretation crc_loop: checksum_step crc_byte
  by unfold_locales (auto dest: crc_byte_inj_state crc_byte_inj_byte)

interpretation crc_table: checksum_step LmCrc32Byte
  by unfold_locales (auto simp: LmCrc32Byte_eq_crc_byte dest: crc_byte_inj_state crc_byte_inj_byte)

text \<open>
  The loops that skip the checksum field itself: byte \<open>i\<close> of the image enters as 0 where
  \<open>skip i\<close> holds.  \<open>crc_masked\<close> is the loop from index \<open>i\<close> with running state \<open>crc\<close>.
\<close>

fun crc_masked :: "(nat \<Rightarrow> bool) \<Rightarrow> nat \<Rightarrow> u32 \<Rightarrow> bytes \<Rightarrow> u32" where
  "crc_masked skip i crc [] = crc"
| "crc_masked skip i crc (b # bs) =
     crc_masked skip (Suc i) (crc_byte crc (if skip i then 0 else b)) bs"

lemma crc_masked_foldl:
  "crc_masked skip i crc bs =
    foldl crc_byte crc (map (\<lambda>k. if skip (i + k) then 0 else bs ! k) [0..<length bs])"
proof (induction bs arbitrary: i crc)
  case (Cons b bs)
  have "map (\<lambda>k. if skip (i + k) then 0 else (b # bs) ! k) [0..<length (b # bs)] =
    (if skip i then 0 else b) # map (\<lambda>k. if skip (Suc i + k) then 0 else bs ! k) [0..<length bs]"
    by (simp add: upt_conv_Cons map_Suc_upt [symmetric] comp_def del: upt_Suc)
  with Cons.IH show ?case by simp
qed simp

text \<open>Damage to one byte that is not skipped always shows; a skipped byte never matters.\<close>

lemma crc_masked_detects:
  assumes i: "i < length bs" and "\<not> skip i" and "b \<noteq> bs ! i"
  shows "crc_masked skip 0 crc (bs[i := b]) \<noteq> crc_masked skip 0 crc bs"
proof -
  let ?m = "\<lambda>bs. map (\<lambda>k. if skip k then 0 else bs ! k) [0..<length bs]"
  have upd: "?m (bs[i := b]) = (?m bs)[i := b]"
    by (rule nth_equalityI) (use assms in \<open>auto simp: nth_list_update\<close>)
  have "(?m bs) ! i = bs ! i"
    using assms by simp
  with assms have "foldl crc_byte crc ((?m bs)[i := b]) \<noteq> foldl crc_byte crc (?m bs)"
    by (intro crc_loop.foldl_byte_update) auto
  then show ?thesis
    unfolding crc_masked_foldl by (simp only: add_0 upd not_False_eq_True)
qed

lemma crc_masked_skip:
  assumes "length bs = length cs" and "\<And>i. i < length bs \<Longrightarrow> \<not> skip i \<Longrightarrow> bs ! i = cs ! i"
  shows "crc_masked skip 0 crc bs = crc_masked skip 0 crc cs"
proof -
  have "map (\<lambda>k. if skip k then 0 else bs ! k) [0..<length bs] =
      map (\<lambda>k. if skip k then 0 else cs ! k) [0..<length cs]"
    using assms by (intro nth_equalityI) auto
  then show ?thesis
    unfolding crc_masked_foldl by simp
qed

lemma crc_masked_none: "(\<And>k. \<not> skip k) \<Longrightarrow> crc_masked skip i crc bs = foldl crc_byte crc bs"
  by (induction bs arbitrary: i crc) simp_all

text \<open>C11: The table of \<open>LmCrc32Byte\<close> is right: over any bytes and from any running state it computes
  what the archive service's loop over single bits computes.\<close>

theorem table_is_bit_loop: "foldl LmCrc32Byte crc bs = foldl crc_byte crc bs"
  by (induction bs arbitrary: crc) (simp_all add: LmCrc32Byte_eq_crc_byte)

end
