(* ===== verification/StorageFormat.thy ===== *)
theory StorageFormat
  imports Crc
begin

text \<open>
  The durable and shared data of the state archive service: the constants, mailbox and archive
  header of \<open>include/susamune/lm_state_storage.h\<close>, and the name and key records, checksums and
  validity tests of \<open>launcher/kernel/LmStateStorage.c\<close>.
\<close>

section \<open>Constants\<close>

abbreviation LM_STATE_STORAGE_MAGIC :: u32 where "LM_STATE_STORAGE_MAGIC \<equiv> 0x4C4D5344"
abbreviation LM_STATE_STORAGE_VERSION :: u32 where "LM_STATE_STORAGE_VERSION \<equiv> 6"
abbreviation LM_STATE_CACHE_MAGIC :: u32 where "LM_STATE_CACHE_MAGIC \<equiv> 0x4C4D4348"
abbreviation LM_STATE_ARCHIVE_MAGIC :: u32 where "LM_STATE_ARCHIVE_MAGIC \<equiv> 0x4C4D5341"
abbreviation LM_STATE_ARCHIVE_VERSION :: u32 where "LM_STATE_ARCHIVE_VERSION \<equiv> 1"
abbreviation LM_STATE_ARCHIVE_PERSISTENT_VERSION :: u32 where "LM_STATE_ARCHIVE_PERSISTENT_VERSION \<equiv> 2"
abbreviation LM_STATE_PERSISTENT_PROFILE :: u32 where "LM_STATE_PERSISTENT_PROFILE \<equiv> 0x4C4D5031"
abbreviation LM_STATE_STORAGE_EXPORT :: u32 where "LM_STATE_STORAGE_EXPORT \<equiv> 1"
abbreviation LM_STATE_STORAGE_IMPORT :: u32 where "LM_STATE_STORAGE_IMPORT \<equiv> 2"
abbreviation LM_STATE_STORAGE_CATALOG :: u32 where "LM_STATE_STORAGE_CATALOG \<equiv> 3"
abbreviation LM_STATE_STORAGE_RENAME :: u32 where "LM_STATE_STORAGE_RENAME \<equiv> 4"
abbreviation LM_STATE_STORAGE_KEY :: u32 where "LM_STATE_STORAGE_KEY \<equiv> 5"
abbreviation LM_STATE_STORAGE_DELETE :: u32 where "LM_STATE_STORAGE_DELETE \<equiv> 6"
abbreviation LM_STATE_CATALOG_HEADER_VALID :: u32 where "LM_STATE_CATALOG_HEADER_VALID \<equiv> 1"
abbreviation LM_STATE_CATALOG_PERSISTENT :: u32 where "LM_STATE_CATALOG_PERSISTENT \<equiv> 2"
abbreviation LM_STATE_STORAGE_OK :: u32 where "LM_STATE_STORAGE_OK \<equiv> 0"
abbreviation LM_STATE_STORAGE_UNAVAILABLE :: u32 where "LM_STATE_STORAGE_UNAVAILABLE \<equiv> 1"
abbreviation LM_STATE_STORAGE_IO_ERROR :: u32 where "LM_STATE_STORAGE_IO_ERROR \<equiv> 2"
abbreviation LM_STATE_STORAGE_BAD_FILE :: u32 where "LM_STATE_STORAGE_BAD_FILE \<equiv> 3"
abbreviation LM_STATE_STORAGE_FULL :: u32 where "LM_STATE_STORAGE_FULL \<equiv> 4"
abbreviation LM_STATE_STORAGE_NOT_FOUND :: u32 where "LM_STATE_STORAGE_NOT_FOUND \<equiv> 5"
abbreviation LM_STATE_STORAGE_WRONG_SESSION :: u32 where "LM_STATE_STORAGE_WRONG_SESSION \<equiv> 6"
abbreviation LM_STATE_STORAGE_CANCELLED :: u32 where "LM_STATE_STORAGE_CANCELLED \<equiv> 7"
abbreviation LM_STATE_STORAGE_NAME_ERROR :: u32 where "LM_STATE_STORAGE_NAME_ERROR \<equiv> 8"
abbreviation LM_STATE_STORAGE_KEY_ERROR :: u32 where "LM_STATE_STORAGE_KEY_ERROR \<equiv> 9"
abbreviation LM_STATE_STORAGE_CONFIG_ERROR :: u32 where "LM_STATE_STORAGE_CONFIG_ERROR \<equiv> 10"
abbreviation LM_STATE_STORAGE_STALE_SELECTION :: u32 where "LM_STATE_STORAGE_STALE_SELECTION \<equiv> 11"
abbreviation LM_STATE_STORAGE_DELETE_CLEANUP :: u32 where "LM_STATE_STORAGE_DELETE_CLEANUP \<equiv> 12"
abbreviation LM_STATE_KEY_MAGIC :: u32 where "LM_STATE_KEY_MAGIC \<equiv> 0x4C4D4B50"
abbreviation LM_STATE_KEY_VERSION :: u32 where "LM_STATE_KEY_VERSION \<equiv> 1"
abbreviation LM_STATE_KEY_UNAVAILABLE :: u32 where "LM_STATE_KEY_UNAVAILABLE \<equiv> 0"
abbreviation LM_STATE_KEY_MISSING :: u32 where "LM_STATE_KEY_MISSING \<equiv> 1"
abbreviation LM_STATE_KEY_READY :: u32 where "LM_STATE_KEY_READY \<equiv> 2"
abbreviation LM_STATE_KEY_INVALID :: u32 where "LM_STATE_KEY_INVALID \<equiv> 3"
abbreviation LM_STATE_KEY_IO_ERROR :: u32 where "LM_STATE_KEY_IO_ERROR \<equiv> 4"
abbreviation LM_STATE_KEY_UNSUPPORTED :: u32 where "LM_STATE_KEY_UNSUPPORTED \<equiv> 5"
abbreviation LM_STATE_STORAGE_MAX_ID :: u32 where "LM_STATE_STORAGE_MAX_ID \<equiv> 99999999"
abbreviation LM_STATE_STORAGE_SLICE :: u32 where "LM_STATE_STORAGE_SLICE \<equiv> 0x4000"
abbreviation SUSAMUNE_MEM2_SNAPSHOT_SIZE :: u32 where "SUSAMUNE_MEM2_SNAPSHOT_SIZE \<equiv> 0x00FF0000"
abbreviation LM_STATE_STORAGE_PAYLOAD_MAX :: u32 where
  "LM_STATE_STORAGE_PAYLOAD_MAX \<equiv> SUSAMUNE_MEM2_SNAPSHOT_SIZE - 0x20000"
abbreviation SUSAMUNE_MOD_GAME_ID_LMJ :: u32 where "SUSAMUNE_MOD_GAME_ID_LMJ \<equiv> 0x474C4D4A"
abbreviation NIN_MEM2_FILE_PATCH_PHYS_BASE :: u32 where "NIN_MEM2_FILE_PATCH_PHYS_BASE \<equiv> 0x11900000"
abbreviation NIN_MEM2_FILE_PATCH_SIZE :: u32 where "NIN_MEM2_FILE_PATCH_SIZE \<equiv> 0x0057F000"
abbreviation LM_KEY_FILE_MAGIC :: u32 where "LM_KEY_FILE_MAGIC \<equiv> 0x4C4D4B46"
abbreviation LM_STATE_NAME_MAGIC :: u32 where "LM_STATE_NAME_MAGIC \<equiv> 0x4C4D534E"

section \<open>The archive header\<close>

record archive_header =
  ah_magic :: u32
  ah_version :: u32
  ah_headerSize :: u32
  ah_payloadSize :: u32
  ah_gameId :: u32
  ah_snapshotVersion :: u32
  ah_buildCrc :: u32
  ah_session :: u32
  ah_rawSize :: u32
  ah_trailerSize :: u32
  ah_payloadCrc :: u32
  ah_generation :: u32
  ah_authHigh :: u32
  ah_authLow :: u32
  ah_reserved0 :: u32
  ah_reserved1 :: u32

definition header_words :: "archive_header \<Rightarrow> u32 list" where
  "header_words h = [ah_magic h, ah_version h, ah_headerSize h, ah_payloadSize h,
     ah_gameId h, ah_snapshotVersion h, ah_buildCrc h, ah_session h,
     ah_rawSize h, ah_trailerSize h, ah_payloadCrc h, ah_generation h,
     ah_authHigh h, ah_authLow h, ah_reserved0 h, ah_reserved1 h]"

text \<open>The 64 bytes of the structure, in memory and in a file, and the structure behind them.\<close>

definition header_bytes :: "archive_header \<Rightarrow> bytes" where
  "header_bytes h = image32 (header_words h)"

definition header_of_bytes :: "bytes \<Rightarrow> archive_header" where
  "header_of_bytes bs = \<lparr>ah_magic = word_at bs 0, ah_version = word_at bs 4,
     ah_headerSize = word_at bs 8, ah_payloadSize = word_at bs 12, ah_gameId = word_at bs 16,
     ah_snapshotVersion = word_at bs 20, ah_buildCrc = word_at bs 24, ah_session = word_at bs 28,
     ah_rawSize = word_at bs 32, ah_trailerSize = word_at bs 36, ah_payloadCrc = word_at bs 40,
     ah_generation = word_at bs 44, ah_authHigh = word_at bs 48, ah_authLow = word_at bs 52,
     ah_reserved0 = word_at bs 56, ah_reserved1 = word_at bs 60\<rparr>"

text \<open>A read of \<open>data\<close> into a buffer that held \<open>old\<close>.\<close>

definition overlay :: "bytes \<Rightarrow> bytes \<Rightarrow> bytes" where
  "overlay new old = new @ drop (length new) old"

definition header_zero :: archive_header where
  "header_zero = header_of_bytes (replicate 64 0)"

definition ArchiveChecksum :: "archive_header \<Rightarrow> u32" where
  "ArchiveChecksum header = NOT (foldl crc_byte 0xFFFFFFFF (header_bytes header))"

definition ValidHeader :: "archive_header \<Rightarrow> bool" where
  "ValidHeader h \<longleftrightarrow>
     ah_magic h = LM_STATE_ARCHIVE_MAGIC \<and>
     (ah_version h = LM_STATE_ARCHIVE_VERSION \<or> ah_version h = LM_STATE_ARCHIVE_PERSISTENT_VERSION) \<and>
     ah_headerSize h = 64 \<and> ah_gameId h = SUSAMUNE_MOD_GAME_ID_LMJ \<and>
     ah_rawSize h \<ge> 256 \<and> ah_trailerSize h \<noteq> 0 \<and>
     ah_rawSize h \<le> SUSAMUNE_MEM2_SNAPSHOT_SIZE \<and>
     ah_trailerSize h \<le> SUSAMUNE_MEM2_SNAPSHOT_SIZE - ah_rawSize h \<and>
     ah_payloadSize h = ah_rawSize h + ah_trailerSize h \<and>
     ah_payloadSize h \<le> LM_STATE_STORAGE_PAYLOAD_MAX \<and>
     (if ah_version h = LM_STATE_ARCHIVE_VERSION
      then ah_reserved0 h = 0 \<and> ah_reserved1 h = 0
      else ah_reserved0 h = LM_STATE_PERSISTENT_PROFILE \<and> ah_reserved1 h \<noteq> 0 \<and> ah_session h \<noteq> 0)"

section \<open>Display names\<close>

record name_record =
  nr_magic :: u32
  nr_version :: u32
  nr_archiveId :: u32
  nr_generation :: u32
  nr_name :: bytes
  nr_checksum :: u32
  nr_archiveChecksum :: u32
  nr_reserved0 :: u32
  nr_reserved1 :: u32

definition name_bytes :: "name_record \<Rightarrow> bytes" where
  "name_bytes r = image32 [nr_magic r, nr_version r, nr_archiveId r, nr_generation r] @ nr_name r @
     image32 [nr_checksum r, nr_archiveChecksum r, nr_reserved0 r, nr_reserved1 r]"

definition name_of_bytes :: "bytes \<Rightarrow> name_record" where
  "name_of_bytes bs = \<lparr>nr_magic = word_at bs 0, nr_version = word_at bs 4, nr_archiveId = word_at bs 8,
     nr_generation = word_at bs 12, nr_name = take 32 (drop 16 bs), nr_checksum = word_at bs 48,
     nr_archiveChecksum = word_at bs 52, nr_reserved0 = word_at bs 56, nr_reserved1 = word_at bs 60\<rparr>"

definition name_zero :: name_record where
  "name_zero = name_of_bytes (replicate 64 0)"

definition NameChecksum :: "name_record \<Rightarrow> u32" where
  "NameChecksum record = NOT (crc_masked (\<lambda>i. 48 \<le> i \<and> i < 52) 0 0xFFFFFFFF (name_bytes record))"

fun name_valid_from :: "bool \<Rightarrow> bytes \<Rightarrow> bool" where
  "name_valid_from ended [] = ended"
| "name_valid_from ended (c # cs) =
     (if c = 0 then name_valid_from True cs
      else if ended \<or> c < 0x20 \<or> c > 0x7E then False
      else name_valid_from ended cs)"

definition LmStateNameValid :: "bytes \<Rightarrow> bool" where
  "LmStateNameValid name = name_valid_from False (take 32 name)"

section \<open>The archive key\<close>

record key_record =
  kr_magic :: u32
  kr_version :: u32
  kr_id :: u32
  kr_checksum :: u32
  kr_words :: "u32 list"
  kr_reserved :: "u32 list"

definition key_bytes :: "key_record \<Rightarrow> bytes" where
  "key_bytes r = image32 ([kr_magic r, kr_version r, kr_id r, kr_checksum r] @ kr_words r @ kr_reserved r)"

definition key_of_bytes :: "bytes \<Rightarrow> key_record" where
  "key_of_bytes bs = \<lparr>kr_magic = word_at bs 0, kr_version = word_at bs 4, kr_id = word_at bs 8,
     kr_checksum = word_at bs 12,
     kr_words = [word_at bs 16, word_at bs 20, word_at bs 24, word_at bs 28],
     kr_reserved = [word_at bs 32, word_at bs 36, word_at bs 40, word_at bs 44,
       word_at bs 48, word_at bs 52, word_at bs 56, word_at bs 60]\<rparr>"

definition key_zero :: key_record where
  "key_zero = key_of_bytes (replicate 64 0)"

definition KeyCrc :: "key_record \<Rightarrow> bool \<Rightarrow> u32" where
  "KeyCrc record identity =
     NOT (crc_masked (\<lambda>i. (12 \<le> i \<and> i < 16) \<or> (identity \<and> 8 \<le> i \<and> i < 12)) 0 0xFFFFFFFF
       (key_bytes record))"

text \<open>What \<open>ReadKeyCopy\<close> decides once the bytes are in memory: the record is intact.\<close>

definition key_status :: "key_record \<Rightarrow> u32" where
  "key_status r =
     (if kr_magic r \<noteq> LM_KEY_FILE_MAGIC \<or> kr_version r \<noteq> 1 \<or> kr_id r = 0 \<or>
         kr_id r \<noteq> KeyCrc r True \<or> kr_checksum r \<noteq> KeyCrc r False then LM_STATE_KEY_INVALID
      else if \<exists>w \<in> set (kr_reserved r). w \<noteq> 0 then LM_STATE_KEY_INVALID
      else if \<exists>w \<in> set (kr_words r). w \<noteq> 0 then LM_STATE_KEY_READY else LM_STATE_KEY_INVALID)"

section \<open>The boot configuration\<close>

text \<open>The launcher configuration fields that enter the identity, with their C types.\<close>

record nin_cfg =
  nc_Version :: u32
  nc_Config :: u32
  nc_VideoMode :: u32
  nc_Language :: u32
  nc_MaxPads :: u32
  nc_GameID :: u32
  nc_MemCardBlocks :: u8
  nc_VideoScale :: u8
  nc_VideoOffset :: u8
  nc_SramOffset :: u32
  nc_SkipProgAsk :: u32
  nc_CardDelay :: u32

definition boot_config_mask :: u32 where
  "boot_config_mask = foldr (\<lambda>k w. push_bit k 1 OR w) [0, 1, 2, 3, 5, 6, 8, 10, 13, 14, 15, 16, 18, 31] 0"

definition boot_config_fields :: "nin_cfg \<Rightarrow> u32 \<Rightarrow> u32 \<Rightarrow> u32 list" where
  "boot_config_fields ncfg GAME_ID BI2region =
     [0x000501E2, 8, nc_Version ncfg, nc_Config ncfg AND boot_config_mask,
      nc_VideoMode ncfg, nc_Language ncfg, nc_MaxPads ncfg, nc_GameID ncfg,
      ucast (nc_MemCardBlocks ncfg), scast (nc_VideoScale ncfg), scast (nc_VideoOffset ncfg),
      nc_SramOffset ncfg, nc_SkipProgAsk ncfg, nc_CardDelay ncfg, GAME_ID, BI2region]"

definition BootConfigId :: "nin_cfg \<Rightarrow> u32 \<Rightarrow> u32 \<Rightarrow> u32" where
  "BootConfigId ncfg GAME_ID BI2region =
     (let crc = foldl crc_byte 0xFFFFFFFF (image32 (boot_config_fields ncfg GAME_ID BI2region))
      in if NOT crc \<noteq> 0 then NOT crc else 1)"

section \<open>The mailbox\<close>

record catalog_entry =
  ce_id :: u32
  ce_bytes :: u32
  ce_buildCrc :: u32
  ce_session :: u32
  ce_snapshotVersion :: u32
  ce_generation :: u32
  ce_flags :: u32
  ce_reserved :: u32
  ce_name :: bytes

definition entry_zero :: catalog_entry where
  "entry_zero = \<lparr>ce_id = 0, ce_bytes = 0, ce_buildCrc = 0, ce_session = 0, ce_snapshotVersion = 0,
     ce_generation = 0, ce_flags = 0, ce_reserved = 0, ce_name = replicate 32 0\<rparr>"

text \<open>The lines of the mailbox, each owned by one side: the PowerPC's request, the ARM's response
  and receipt, its catalog and key publications, and the PowerPC's deletion proof.\<close>

record storage_mailbox =
  m_requestSeq :: u32
  m_command :: u32
  m_archiveId :: u32
  m_payloadSize :: u32
  m_processSession :: u32
  m_magic :: u32
  m_version :: u32
  m_ackSeq :: u32
  m_status :: u32
  m_resultId :: u32
  m_transferred :: u32
  m_available :: u32
  m_header :: archive_header
  m_cacheMagic :: u32
  m_cachePhysicalBase :: u32
  m_cacheSize :: u32
  m_filePatchCount :: u32
  m_responseSession :: u32
  m_responseCommand :: u32
  m_responseArchiveId :: u32
  m_responseSeq :: u32
  m_responseLength :: u32
  m_catalogCount :: u32
  m_catalogAfter :: u32
  m_catalogNext :: u32
  m_catalogMore :: u32
  m_catalog :: "catalog_entry list"
  m_requestName :: bytes
  m_keyMagic :: u32
  m_keyVersion :: u32
  m_keyStatus :: u32
  m_keyId :: u32
  m_keyWords :: "u32 list"
  m_keyConfigId :: u32
  m_keySeed :: "u32 list"
  m_keySeedReserved :: "u32 list"
  m_catalogIdentity :: "u32 list"
  m_deleteCatalogSeq :: u32
  m_deleteHeaderCrc :: u32
  m_deleteBytes :: u32
  m_deleteVersion :: u32
  m_deleteReserved :: "u32 list"

definition LmStateStorageReceiptMatches :: "storage_mailbox \<Rightarrow> u32 \<Rightarrow> u32 \<Rightarrow> u32 \<Rightarrow> u32 \<Rightarrow> bool" where
  "LmStateStorageReceiptMatches m sequence session command requestedId \<longleftrightarrow>
     m_magic m = LM_STATE_STORAGE_MAGIC \<and> m_version m = LM_STATE_STORAGE_VERSION \<and>
     m_ackSeq m = sequence \<and> m_responseSeq m = sequence \<and>
     m_responseSession m = session \<and> m_responseCommand m = command \<and>
     m_responseArchiveId m = requestedId"

definition LmStateCachePrefix :: "u32 \<Rightarrow> u32" where
  "LmStateCachePrefix count =
     (if count > (NIN_MEM2_FILE_PATCH_SIZE - 4) div 8 then NIN_MEM2_FILE_PATCH_SIZE
      else (4 + count * 8 + 31) AND NOT 31)"

end
