(* ===== verification/Format.thy ===== *)
theory Format
  imports Prelude "HOL-Library.Char_ord"
begin

text \<open>
  \<open>launcher/kernel/vsprintf.c\<close>: the kernel's own \<open>_sprintf\<close>, which builds every path name and
  every line of text the services write.  \<open>number\<close> and the format interpreter are translated whole;
  the facts the services need are the digit strings of \<open>%u\<close>, \<open>%08u\<close> and \<open>%08X\<close>.
\<close>

section \<open>Numbers\<close>

text \<open>The flag bits of \<open>number\<close>.\<close>

record num_flags =
  nf_zeropad :: bool
  nf_sign :: bool
  nf_plus :: bool
  nf_space :: bool
  nf_left :: bool
  nf_special :: bool
  nf_large :: bool

definition no_flags :: num_flags where
  "no_flags = \<lparr>nf_zeropad = False, nf_sign = False, nf_plus = False, nf_space = False,
     nf_left = False, nf_special = False, nf_large = False\<rparr>"

definition lower_digits :: string where
  "lower_digits = ''0123456789abcdefghijklmnopqrstuvwxyz''"

definition upper_digits :: string where
  "upper_digits = ''0123456789ABCDEFGHIJKLMNOPQRSTUVWXYZ''"

text \<open>\<open>while (num != 0) tmp[i++] = digits[do_div(num, base)];\<close> The remainder is unsigned.\<close>

fun digits_rev :: "string \<Rightarrow> nat \<Rightarrow> nat \<Rightarrow> string" where
  "digits_rev ds base n =
     (if n = 0 \<or> base < 2 then [] else ds ! (n mod base) # digits_rev ds base (n div base))"

declare digits_rev.simps [simp del]

text \<open>\<open>while (size-- > 0) *str++ = c;\<close>\<close>

definition pad_loop :: "int \<Rightarrow> char \<Rightarrow> string \<times> int" where
  "pad_loop sz c = (replicate (nat sz) c, if sz > 0 then -1 else sz - 1)"

definition number :: "u32 \<Rightarrow> nat \<Rightarrow> int \<Rightarrow> int \<Rightarrow> num_flags \<Rightarrow> string option" where
  "number num base sz precision fl =
     (if base < 2 \<or> base > 36 then None else
      let digits = (if nf_large fl then upper_digits else lower_digits);
          zeropad = (nf_zeropad fl \<and> \<not> nf_left fl);
          c = (if zeropad then CHR ''0'' else CHR '' '');
          (sign, num, sz) =
            (if nf_sign fl then
               (if sint num < 0 then (''-'', - num, sz - 1)
                else if nf_plus fl then (''+'', num, sz - 1)
                else if nf_space fl then ('' '', num, sz - 1) else ([], num, sz))
             else ([], num, sz));
          sz = (if nf_special fl then (if base = 16 then sz - 2 else if base = 8 then sz - 1 else sz)
                else sz);
          tmp = (if num = 0 then ''0'' else digits_rev digits base (unat num));
          i = int (length tmp);
          precision = max i precision;
          sz = sz - precision;
          (out1, sz) = (if \<not> zeropad \<and> \<not> nf_left fl then pad_loop sz (CHR '' '') else ([], sz));
          out2 = (if nf_special fl then
                    (if base = 8 then ''0'' else if base = 16 then [CHR ''0'', digits ! 33] else [])
                  else []);
          (out3, sz) = (if \<not> nf_left fl then pad_loop sz c else ([], sz));
          out4 = replicate (nat (precision - i)) (CHR ''0'');
          out5 = fst (pad_loop sz (CHR '' ''))
      in Some (out1 @ sign @ out2 @ out3 @ out4 @ rev tmp @ out5))"

section \<open>The format interpreter\<close>

text \<open>An argument is a 32-bit integer or a string without a 0.  \<open>None\<close> is a call outside the
  language: too few arguments or the wrong kind of argument (undefined in C), or \<open>%n\<close>, which no
  format of the program uses.\<close>

datatype fmt_arg = AInt u32 | AStr string

definition isdigit :: "char \<Rightarrow> bool" where
  "isdigit c \<longleftrightarrow> CHR ''0'' \<le> c \<and> c \<le> CHR ''9''"

fun skip_atoi :: "int \<Rightarrow> string \<Rightarrow> int \<times> string" where
  "skip_atoi i [] = (i, [])"
| "skip_atoi i (c # s) =
     (if isdigit c then skip_atoi (i * 10 + int (of_char c) - 48) s else (i, c # s))"

fun fmt_flags :: "num_flags \<Rightarrow> string \<Rightarrow> num_flags \<times> string" where
  "fmt_flags fl [] = (fl, [])"
| "fmt_flags fl (c # s) =
     (if c = CHR ''-'' then fmt_flags (fl\<lparr>nf_left := True\<rparr>) s
      else if c = CHR ''+'' then fmt_flags (fl\<lparr>nf_plus := True\<rparr>) s
      else if c = CHR '' '' then fmt_flags (fl\<lparr>nf_space := True\<rparr>) s
      else if c = CHR ''#'' then fmt_flags (fl\<lparr>nf_special := True\<rparr>) s
      else if c = CHR ''0'' then fmt_flags (fl\<lparr>nf_zeropad := True\<rparr>) s
      else (fl, c # s))"

text \<open>The field width: digits, or \<open>*\<close> and an argument, negative for left-justified.\<close>

definition fmt_width :: "num_flags \<Rightarrow> string \<Rightarrow> fmt_arg list \<Rightarrow>
    (num_flags \<times> int \<times> string \<times> fmt_arg list) option" where
  "fmt_width fl s args =
     (case s of
        [] \<Rightarrow> Some (fl, -1, s, args)
      | c # s' \<Rightarrow>
          if isdigit c then (let (w, r) = skip_atoi 0 s in Some (fl, w, r, args))
          else if c = CHR ''*'' then
            (case args of
               AInt w # args' \<Rightarrow>
                 if sint w < 0 then Some (fl\<lparr>nf_left := True\<rparr>, - sint w, s', args')
                 else Some (fl, sint w, s', args')
             | _ \<Rightarrow> None)
          else Some (fl, -1, s, args))"

definition fmt_precision :: "string \<Rightarrow> fmt_arg list \<Rightarrow> (int \<times> string \<times> fmt_arg list) option" where
  "fmt_precision s args =
     (case s of
        [] \<Rightarrow> Some (-1, s, args)
      | c # s' \<Rightarrow>
          if c \<noteq> CHR ''.'' then Some (-1, s, args)
          else (case s' of
             [] \<Rightarrow> Some (0, s', args)
           | d # s'' \<Rightarrow>
               if isdigit d then (let (p, r) = skip_atoi 0 s' in Some (max 0 p, r, args))
               else if d = CHR ''*'' then
                 (case args of AInt p # args' \<Rightarrow> Some (max 0 (sint p), s'', args') | _ \<Rightarrow> None)
               else Some (0, s', args)))"

definition fmt_qualifier :: "string \<Rightarrow> char option \<times> string" where
  "fmt_qualifier s =
     (case s of
        [] \<Rightarrow> (None, [])
      | c # s' \<Rightarrow> if c = CHR ''h'' \<or> c = CHR ''l'' \<or> c = CHR ''L'' then (Some c, s') else (None, s))"

text \<open>One conversion: the flags, width, precision and qualifier already read, the conversion
  character at the head of the rest.  The result is the text, the rest and the arguments left.\<close>

definition fmt_convert :: "num_flags \<Rightarrow> int \<Rightarrow> int \<Rightarrow> char option \<Rightarrow> string \<Rightarrow> fmt_arg list \<Rightarrow>
    (string \<times> string \<times> fmt_arg list) option" where
  "fmt_convert fl field_width precision qualifier s args =
     (case s of
        [] \<Rightarrow> Some (''%'', [], args)
      | c # s' \<Rightarrow>
          if c = CHR ''c'' then
            (case args of
               AInt v # args' \<Rightarrow>
                 let (out1, w) = (if \<not> nf_left fl then pad_loop (field_width - 1) (CHR '' '') else ([], field_width));
                     w = (if nf_left fl then field_width - 1 else w - 1)
                 in Some (out1 @ [char_of (unat v mod 256)] @ replicate (nat w) (CHR '' ''), s', args')
             | _ \<Rightarrow> None)
          else if c = CHR ''s'' then
            (case args of
               AStr v # args' \<Rightarrow>
                 let str = (if precision < 0 then v else take (nat precision) v);
                     len = int (length str);
                     (out1, w) = (if \<not> nf_left fl then pad_loop (field_width - len) (CHR '' '') else ([], field_width - len));
                     out2 = replicate (nat w) (CHR '' '')
                 in Some (out1 @ str @ out2, s', args')
             | _ \<Rightarrow> None)
          else if c = CHR ''p'' then
            (case args of
               AInt v # args' \<Rightarrow>
                 let (w, fl') = (if field_width = -1 then (8, fl\<lparr>nf_zeropad := True\<rparr>) else (field_width, fl))
                 in map_option (\<lambda>out. (out, s', args')) (number v 16 w precision fl')
             | _ \<Rightarrow> None)
          else if c = CHR ''n'' then None
          else if c = CHR ''%'' then Some (''%'', s', args)
          else if c \<in> set ''oXxdiu'' then
            (case args of
               AInt v # args' \<Rightarrow>
                 let base = (if c = CHR ''o'' then 8 else if c = CHR ''X'' \<or> c = CHR ''x'' then 16 else 10);
                     fl = (if c = CHR ''X'' then fl\<lparr>nf_large := True\<rparr> else fl);
                     fl = (if c = CHR ''d'' \<or> c = CHR ''i'' then fl\<lparr>nf_sign := True\<rparr> else fl);
                     num = (if qualifier = Some (CHR ''h'')
                            then (if nf_sign fl then scast (ucast v :: 16 word) else ucast (ucast v :: 16 word))
                            else v)
                 in map_option (\<lambda>out. (out, s', args')) (number num base field_width precision fl)
             | _ \<Rightarrow> None)
          else Some ([CHR ''%'', c], s', args))"

lemma skip_atoi_length: "length (snd (skip_atoi i s)) \<le> length s"
  by (induction i s rule: skip_atoi.induct) (auto simp: le_SucI)

lemma fmt_flags_length: "length (snd (fmt_flags fl s)) \<le> length s"
  by (induction fl s rule: fmt_flags.induct) (auto simp: le_SucI)

lemma fmt_width_length: "fmt_width fl s args = Some (fl', w, r, args') \<Longrightarrow> length r \<le> length s"
  using skip_atoi_length [of 0 s]
  by (auto simp: fmt_width_def split: list.splits if_splits prod.splits fmt_arg.splits)

lemma fmt_precision_length: "fmt_precision s args = Some (p, r, args') \<Longrightarrow> length r \<le> length s"
  using skip_atoi_length [of 0 "tl s"]
  by (cases s) (auto simp: fmt_precision_def split: list.splits if_splits prod.splits fmt_arg.splits)

lemma fmt_qualifier_length: "length (snd (fmt_qualifier s)) \<le> length s"
  by (auto simp: fmt_qualifier_def split: list.splits)

lemma fmt_convert_length:
  "fmt_convert fl w p q s args = Some (out, r, args') \<Longrightarrow> length r \<le> length s"
  by (auto simp: fmt_convert_def Let_def split: list.splits if_splits fmt_arg.splits prod.splits)

text \<open>What follows a \<open>%\<close>.\<close>

definition fmt_spec :: "string \<Rightarrow> fmt_arg list \<Rightarrow> (string \<times> string \<times> fmt_arg list) option" where
  "fmt_spec s args =
     (let (fl, s) = fmt_flags no_flags s in
      case fmt_width fl s args of
        None \<Rightarrow> None
      | Some (fl, field_width, s, args) \<Rightarrow>
          (case fmt_precision s args of
             None \<Rightarrow> None
           | Some (precision, s, args) \<Rightarrow>
               (let (qualifier, s) = fmt_qualifier s in
                fmt_convert fl field_width precision qualifier s args)))"

lemma fmt_spec_length: "fmt_spec s args = Some (out, r, args') \<Longrightarrow> length r \<le> length s"
proof -
  assume spec: "fmt_spec s args = Some (out, r, args')"
  obtain fl s1 where f: "fmt_flags no_flags s = (fl, s1)" by fastforce
  with spec obtain fl2 w s2 args2 where w: "fmt_width fl s1 args = Some (fl2, w, s2, args2)"
    by (auto simp: fmt_spec_def split: option.splits)
  with spec f obtain p s3 args3 where p: "fmt_precision s2 args2 = Some (p, s3, args3)"
    by (auto simp: fmt_spec_def split: option.splits)
  obtain q s4 where q: "fmt_qualifier s3 = (q, s4)" by fastforce
  have "fmt_convert fl2 w p q s4 args3 = Some (out, r, args')"
    using spec f w p q by (simp add: fmt_spec_def)
  then have "length r \<le> length s4" by (rule fmt_convert_length)
  also have "\<dots> \<le> length s3" using fmt_qualifier_length [of s3] q by simp
  also have "\<dots> \<le> length s2" using p by (rule fmt_precision_length)
  also have "\<dots> \<le> length s1" using w by (rule fmt_width_length)
  also have "\<dots> \<le> length s" using fmt_flags_length [of no_flags s] f by simp
  finally show ?thesis .
qed

function vsprintf :: "string \<Rightarrow> fmt_arg list \<Rightarrow> string option" where
  "vsprintf [] args = Some []"
| "vsprintf (c # s) args =
     (if c \<noteq> CHR ''%'' then map_option (Cons c) (vsprintf s args)
      else (case fmt_spec s args of
              None \<Rightarrow> None
            | Some (out, s', args') \<Rightarrow> map_option (append out) (vsprintf s' args')))"
  by pat_completeness auto
termination
  by (relation "measure (\<lambda>(s, args). length s)") (auto dest: fmt_spec_length)

text \<open>\<open>_sprintf\<close>: the text, empty where the call is outside the language.\<close>

definition sprintf :: "string \<Rightarrow> fmt_arg list \<Rightarrow> string" where
  "sprintf fmt args = (case vsprintf fmt args of None \<Rightarrow> [] | Some s \<Rightarrow> s)"


section \<open>What the formats of the services print\<close>

text \<open>The decimal and hexadecimal digit strings, and the padded one.\<close>

definition dec :: "u32 \<Rightarrow> string" where
  "dec n = (if n = 0 then ''0'' else rev (digits_rev lower_digits 10 (unat n)))"

definition dec8 :: "u32 \<Rightarrow> string" where
  "dec8 n = replicate (8 - length (dec n)) (CHR ''0'') @ dec n"

definition hex8 :: "u32 \<Rightarrow> string" where
  "hex8 n = (let d = (if n = 0 then ''0'' else rev (digits_rev upper_digits 16 (unat n)))
     in replicate (8 - length d) (CHR ''0'') @ d)"

lemma vsprintf_copy [simp]: "c \<noteq> CHR ''%'' \<Longrightarrow>
    vsprintf (c # s) args = map_option (Cons c) (vsprintf s args)"
  by simp

lemma length_dec_pos: "0 < length (dec n)"
  by (auto simp: dec_def digits_rev.simps [of _ _ "unat n"] unsigned_eq_0_iff)

lemma spec_u: "fmt_spec (CHR ''u'' # s) (AInt n # args) = Some (dec n, s, args)"
proof -
  have "int (length (dec n)) > 0" using length_dec_pos [of n] by simp
  then show ?thesis
    by (auto simp: fmt_spec_def fmt_width_def fmt_precision_def fmt_qualifier_def fmt_convert_def
      isdigit_def no_flags_def number_def pad_loop_def dec_def Let_def)
qed

lemma spec_08u: "fmt_spec (CHR ''0'' # CHR ''8'' # CHR ''u'' # s) (AInt n # args) = Some (dec8 n, s, args)"
proof -
  have "int (length (dec n)) > 0" using length_dec_pos [of n] by simp
  then show ?thesis
    by (auto simp: fmt_spec_def fmt_width_def fmt_precision_def fmt_qualifier_def fmt_convert_def
      isdigit_def no_flags_def number_def pad_loop_def dec_def dec8_def Let_def nat_diff_distrib)
qed

lemma spec_08X: "fmt_spec (CHR ''0'' # CHR ''8'' # CHR ''X'' # s) (AInt n # args) = Some (hex8 n, s, args)"
proof -
  have "n \<noteq> 0 \<Longrightarrow> 0 < length (digits_rev upper_digits 16 (unat n))"
    by (auto simp: digits_rev.simps [of _ _ "unat n"] unsigned_eq_0_iff)
  then show ?thesis
    by (auto simp: fmt_spec_def fmt_width_def fmt_precision_def fmt_qualifier_def fmt_convert_def
      isdigit_def no_flags_def number_def pad_loop_def hex8_def Let_def nat_diff_distrib)
qed

lemma spec_s: "fmt_spec (CHR ''s'' # s) (AStr v # args) = Some (v, s, args)"
  by (simp add: fmt_spec_def fmt_width_def fmt_precision_def fmt_qualifier_def fmt_convert_def
    isdigit_def no_flags_def pad_loop_def Let_def)

lemma vsprintf_spec:
  "fmt_spec s args = Some (out, s', args') \<Longrightarrow>
    vsprintf (CHR ''%'' # s) args = map_option (append out) (vsprintf s' args')"
  by simp

declare vsprintf.simps(2) [simp del]

lemmas vsprintf_specs [simp] =
  vsprintf_spec [OF spec_u] vsprintf_spec [OF spec_08u] vsprintf_spec [OF spec_08X] vsprintf_spec [OF spec_s]

section \<open>Digits\<close>

text \<open>The value a string of decimal digits stands for, as the scan loops of the services compute it.\<close>

definition digits_value :: "string \<Rightarrow> nat" where
  "digits_value s = foldl (\<lambda>v c. v * 10 + (of_char c - 48)) 0 s"

lemma lower_digit: "d < 10 \<Longrightarrow> lower_digits ! d = char_of (48 + d)"
proof -
  assume "d < 10"
  then have "d \<in> {0, 1, 2, 3, 4, 5, 6, 7, 8, 9}" by auto
  then show ?thesis
    by (auto simp: lower_digits_def char_of_def bit_0)
qed

lemma digits_rev_step: "0 < n \<Longrightarrow> digits_rev ds 10 n = ds ! (n mod 10) # digits_rev ds 10 (n div 10)"
  by (subst digits_rev.simps) simp

lemma digits_rev_0 [simp]: "digits_rev ds b 0 = []"
  by (subst digits_rev.simps) simp

lemma digits_value_rev: "digits_value (rev (digits_rev lower_digits 10 n)) = n"
proof (induction n rule: less_induct)
  case (less n)
  show ?case
  proof (cases "n = 0")
    case False
    then have "digits_value (rev (digits_rev lower_digits 10 (n div 10))) = n div 10"
      by (intro less) simp
    with False show ?thesis
      by (simp add: digits_rev_step digits_value_def lower_digit)
  qed (simp add: digits_value_def)
qed

lemma digits_rev_digits: "c \<in> set (digits_rev lower_digits 10 n) \<Longrightarrow> isdigit c"
proof (induction n rule: less_induct)
  case (less n)
  then consider "0 < n" "c = lower_digits ! (n mod 10)"
    | "0 < n" "c \<in> set (digits_rev lower_digits 10 (n div 10))"
    by (cases "n = 0") (auto simp: digits_rev_step)
  then show ?case
  proof cases
    case 1
    have "n mod 10 < 10" by simp
    then show ?thesis unfolding 1 by (simp only: lower_digit) (simp add: isdigit_def less_eq_char_def)
  qed (rule less.IH [of "n div 10"], simp_all)
qed

lemma digits_rev_length: "n < 10 ^ k \<Longrightarrow> length (digits_rev lower_digits 10 n) \<le> k"
proof (induction k arbitrary: n)
  case (Suc k)
  then have "n div 10 < 10 ^ k" by (simp add: less_mult_imp_div_less mult.commute)
  with Suc.IH show ?case by (cases "n = 0") (auto simp: digits_rev_step)
qed simp

lemma dec_digits: "c \<in> set (dec n) \<Longrightarrow> isdigit c"
  by (auto simp: dec_def isdigit_def less_eq_char_def dest: digits_rev_digits split: if_splits)

lemma dec_value: "digits_value (dec n) = unat n"
  by (simp add: dec_def digits_value_rev) (simp add: digits_value_def)

lemma dec8_value: "digits_value (dec8 n) = unat n"
proof -
  have "digits_value (replicate k (CHR ''0'') @ s) = digits_value s" for k s
    by (induction k) (auto simp: digits_value_def)
  then show ?thesis by (simp add: dec8_def dec_value)
qed

lemma dec8_digits: "c \<in> set (dec8 n) \<Longrightarrow> isdigit c"
  using dec_digits by (auto simp: dec8_def isdigit_def less_eq_char_def)

lemma dec8_length: "n \<le> 99999999 \<Longrightarrow> length (dec8 n) = 8"
proof -
  assume "n \<le> 99999999"
  then have "unat n < 10 ^ 8" by (simp add: word_le_nat_alt)
  then have "length (dec n) \<le> 8"
    using digits_rev_length [of "unat n" 8] by (simp add: dec_def)
  then show ?thesis by (simp add: dec8_def)
qed

lemma dec_inj: "dec m = dec n \<Longrightarrow> m = n"
  using dec_value by (metis word_eq_iff_unsigned)

lemma dec8_inj: "dec8 m = dec8 n \<Longrightarrow> m = n"
  using dec8_value by (metis word_eq_iff_unsigned)

end
