(* ===== verification/Volume.thy ===== *)
theory Volume
  imports Prelude "HOL-Library.State_Monad"
begin

text \<open>
  The storage the launcher kernel works on.  The kernel calls the vendored FatFs library; its
  functions are a parameter of every definition that uses them, a record of operations over an
  unknown volume state.  The locale \<open>fat_volume\<close> states what the kernel relies on: the documented
  behaviour of those calls, with every call free to fail.  The last section gives a volume kept as
  a finite map, with a schedule of failures, and shows that it obeys the laws.
\<close>

section \<open>The interface\<close>

datatype fresult = FR_OK | FR_DISK_ERR | FR_INT_ERR | FR_NOT_READY | FR_NO_FILE | FR_NO_PATH
  | FR_INVALID_NAME | FR_DENIED | FR_EXIST | FR_INVALID_OBJECT | FR_WRITE_PROTECTED
  | FR_INVALID_DRIVE | FR_NOT_ENABLED | FR_NO_FILESYSTEM | FR_MKFS_ABORTED | FR_TIMEOUT
  | FR_LOCKED | FR_NOT_ENOUGH_CORE | FR_TOO_MANY_OPEN_FILES | FR_INVALID_PARAMETER

text \<open>The three open modes in use: \<open>FA_READ\<close>, \<open>FA_WRITE | FA_CREATE_NEW\<close> and
  \<open>FA_WRITE | FA_CREATE_ALWAYS\<close>.\<close>

datatype fmode = OpenRead | OpenCreateNew | OpenCreateAlways

text \<open>The fields of \<open>FILINFO\<close> the kernel reads; the name is the WCHAR string without its 0.
  The kernel is built with exFAT, so \<open>FSIZE_t\<close> has 64 bits.\<close>

record filinfo =
  fi_size :: u64
  fi_attrib :: u8
  fi_name :: "u16 list"

definition AM_DIR :: u8 where "AM_DIR = 0x10"

definition filinfo_zero :: filinfo where
  "filinfo_zero = \<lparr>fi_size = 0, fi_attrib = 0, fi_name = []\<rparr>"

text \<open>A \<open>FIL\<close> or \<open>DIR\<close> object is named by a number, as the C code names it by its address.\<close>

record 's volume =
  vf_open :: "nat \<Rightarrow> string \<Rightarrow> fmode \<Rightarrow> ('s, fresult) state"
  vf_close :: "nat \<Rightarrow> ('s, fresult) state"
  vf_read :: "nat \<Rightarrow> nat \<Rightarrow> ('s, fresult \<times> bytes) state"
  vf_write :: "nat \<Rightarrow> bytes \<Rightarrow> ('s, fresult \<times> nat) state"
  vf_sync :: "nat \<Rightarrow> ('s, fresult) state"
  vf_size :: "nat \<Rightarrow> 's \<Rightarrow> u64"
  vf_stat :: "string \<Rightarrow> ('s, fresult \<times> filinfo) state"
  vf_unlink :: "string \<Rightarrow> ('s, fresult) state"
  vf_rename :: "string \<Rightarrow> string \<Rightarrow> ('s, fresult) state"
  vf_mkdir :: "string \<Rightarrow> ('s, fresult) state"
  vf_opendir :: "nat \<Rightarrow> string \<Rightarrow> ('s, fresult) state"
  vf_readdir :: "nat \<Rightarrow> ('s, fresult \<times> filinfo) state"
  vf_closedir :: "nat \<Rightarrow> ('s, fresult) state"

abbreviation ret :: "'a \<Rightarrow> ('s, 'a) state" where
  "ret \<equiv> State_Monad.return"

definition gets :: "('s \<Rightarrow> 'a) \<Rightarrow> ('s, 'a) state" where
  "gets f = State (\<lambda>s. (f s, s))"

definition modify :: "('s \<Rightarrow> 's) \<Rightarrow> ('s, unit) state" where
  "modify f = State (\<lambda>s. ((), f s))"

lemma run_gets [simp]: "run_state (gets f) s = (f s, s)"
  by (simp add: gets_def)

lemma run_modify [simp]: "run_state (modify f) s = ((), f s)"
  by (simp add: modify_def)

section \<open>Its laws\<close>

text \<open>
  \<open>view s p\<close> is the content of the file at path \<open>p\<close>, \<open>hfile s h\<close> the path a file object was
  opened on and \<open>hpos s h\<close> its read/write pointer.  Nothing is promised about the result of a call
  that fails beyond which file it may have touched, and that a rename or a removal changes under
  which names a file is found, never what it contains.
\<close>

locale fat_volume =
  fixes ops :: "'s volume"
    and view :: "'s \<Rightarrow> string \<Rightarrow> bytes option"
    and hfile :: "'s \<Rightarrow> nat \<Rightarrow> string option"
    and hpos :: "'s \<Rightarrow> nat \<Rightarrow> nat"
  assumes open_read_view: "run_state (vf_open ops h p OpenRead) s = (x, s') \<Longrightarrow> view s' = view s"
    and open_frame: "run_state (vf_open ops h p md) s = (x, s') \<Longrightarrow> q \<noteq> p \<Longrightarrow> view s' q = view s q"
    and open_new_existing: "run_state (vf_open ops h p OpenCreateNew) s = (x, s') \<Longrightarrow>
      view s p = Some b \<Longrightarrow> x \<noteq> FR_OK \<and> view s' p = Some b"
    and open_handle: "run_state (vf_open ops h p md) s = (FR_OK, s') \<Longrightarrow>
      hfile s' h = Some p \<and> hpos s' h = 0"
    and open_others: "run_state (vf_open ops h p md) s = (x, s') \<Longrightarrow> h' \<noteq> h \<Longrightarrow>
      hfile s' h' = hfile s h' \<and> hpos s' h' = hpos s h' \<and> vf_size ops h' s' = vf_size ops h' s"
    and open_read_found: "run_state (vf_open ops h p OpenRead) s = (FR_OK, s') \<Longrightarrow>
      \<exists>b. view s p = Some b \<and> length b < 2 ^ 64 \<and> vf_size ops h s' = word_of_nat (length b)"
    and open_read_absent: "run_state (vf_open ops h p OpenRead) s = (FR_NO_FILE, s') \<Longrightarrow> view s p = None"
    and open_create: "run_state (vf_open ops h p md) s = (FR_OK, s') \<Longrightarrow> md \<noteq> OpenRead \<Longrightarrow>
      view s' p = Some []"
    and read_view: "run_state (vf_read ops h n) s = (rb, s') \<Longrightarrow>
      view s' = view s \<and> hfile s' = hfile s \<and> vf_size ops h' s' = vf_size ops h' s"
    and read_len: "run_state (vf_read ops h n) s = ((x, d), s') \<Longrightarrow> length d \<le> n"
    and read_data: "run_state (vf_read ops h n) s = ((FR_OK, d), s') \<Longrightarrow> hfile s h = Some p \<Longrightarrow>
      view s p = Some b \<Longrightarrow> d = take n (drop (hpos s h) b) \<and> hpos s' h = hpos s h + length d"
    and write_frame: "run_state (vf_write ops h d) s = (rw, s') \<Longrightarrow>
      hfile s' = hfile s \<and> (hfile s h \<noteq> Some q \<longrightarrow> view s' q = view s q)"
    and write_data: "run_state (vf_write ops h d) s = ((FR_OK, k), s') \<Longrightarrow> hfile s h = Some p \<Longrightarrow>
      view s p = Some b \<Longrightarrow> hpos s h = length b \<Longrightarrow>
      k \<le> length d \<and> view s' p = Some (b @ take k d) \<and> hpos s' h = hpos s h + k"
    and write_pos: "run_state (vf_write ops h d) s = (rw, s') \<Longrightarrow> h' \<noteq> h \<Longrightarrow> hpos s' h' = hpos s h'"
    and sync_view: "run_state (vf_sync ops h) s = (x, s') \<Longrightarrow>
      view s' = view s \<and> hfile s' = hfile s \<and> hpos s' = hpos s"
    and close_view: "run_state (vf_close ops h) s = (x, s') \<Longrightarrow>
      view s' = view s \<and> (h' \<noteq> h \<longrightarrow> hfile s' h' = hfile s h' \<and> hpos s' h' = hpos s h') \<and>
      vf_size ops h' s' = vf_size ops h' s"
    and stat_view: "run_state (vf_stat ops p) s = (ri, s') \<Longrightarrow>
      view s' = view s \<and> hfile s' = hfile s \<and> hpos s' = hpos s"
    and stat_absent: "run_state (vf_stat ops p) s = ((FR_NO_FILE, i), s') \<Longrightarrow> view s p = None"
    and stat_found: "run_state (vf_stat ops p) s = ((FR_OK, i), s') \<Longrightarrow> fi_attrib i AND AM_DIR = 0 \<Longrightarrow>
      \<exists>b. view s p = Some b \<and> fi_size i = word_of_nat (length b)"
    and unlink_frame: "run_state (vf_unlink ops p) s = (x, s') \<Longrightarrow>
      hfile s' = hfile s \<and> hpos s' = hpos s \<and> (q \<noteq> p \<longrightarrow> view s' q = view s q)"
    and unlink_ok: "run_state (vf_unlink ops p) s = (FR_OK, s') \<Longrightarrow> view s' p = None"
    and unlink_absent: "run_state (vf_unlink ops p) s = (FR_NO_FILE, s') \<Longrightarrow>
      view s p = None \<and> view s' p = None"
    and rename_frame: "run_state (vf_rename ops p q) s = (x, s') \<Longrightarrow>
      hfile s' = hfile s \<and> hpos s' = hpos s \<and> (r \<noteq> p \<and> r \<noteq> q \<longrightarrow> view s' r = view s r)"
    and rename_existing: "run_state (vf_rename ops p q) s = (x, s') \<Longrightarrow> p \<noteq> q \<Longrightarrow> view s q = Some b \<Longrightarrow>
      x \<noteq> FR_OK \<and> view s' q = Some b"
    and rename_ok: "run_state (vf_rename ops p q) s = (FR_OK, s') \<Longrightarrow> p \<noteq> q \<Longrightarrow>
      view s' q = view s p \<and> view s' p = None"
    and unlink_content: "run_state (vf_unlink ops p) s = (x, s') \<Longrightarrow> view s' p \<in> {view s p, None}"
    and rename_content: "run_state (vf_rename ops p q) s = (x, s') \<Longrightarrow> p \<noteq> q \<Longrightarrow>
      view s' q \<in> {view s q, view s p}"
    and mkdir_view: "run_state (vf_mkdir ops p) s = (x, s') \<Longrightarrow>
      view s' = view s \<and> hfile s' = hfile s \<and> hpos s' = hpos s"
    and opendir_view: "run_state (vf_opendir ops h p) s = (x, s') \<Longrightarrow>
      view s' = view s \<and> hfile s' = hfile s \<and> hpos s' = hpos s"
    and readdir_view: "run_state (vf_readdir ops h) s = (ri, s') \<Longrightarrow>
      view s' = view s \<and> hfile s' = hfile s \<and> hpos s' = hpos s"
    and closedir_view: "run_state (vf_closedir ops h) s = (x, s') \<Longrightarrow>
      view s' = view s \<and> hfile s' = hfile s \<and> hpos s' = hpos s"

text \<open>
  The kernel's replacement of its settings file also relies on a rename not losing the file it
  renames: whatever its result, the content is under the old name or under the new one.
\<close>

locale safe_volume = fat_volume +
  assumes rename_keeps: "run_state (vf_rename ops p q) s = (x, s') \<Longrightarrow> p \<noteq> q \<Longrightarrow> view s p = Some b \<Longrightarrow>
    view s' p = Some b \<or> view s' p = None \<and> view s' q = Some b"

section \<open>A volume kept as a map\<close>

text \<open>
  Files and file objects as maps, a directory as the list of entries still to be read, and a
  schedule of failures: each call takes the head of the schedule, and a \<open>True\<close> makes it fail with
  \<open>FR_DISK_ERR\<close>.  A failing write has already written half of its data.
\<close>

record map_volume =
  mv_files :: "string \<Rightarrow> bytes option"
  mv_objects :: "nat \<Rightarrow> (string \<times> nat) option"
  mv_sizes :: "nat \<Rightarrow> u64"
  mv_listing :: "string \<Rightarrow> filinfo list"
  mv_dirs :: "nat \<Rightarrow> filinfo list"
  mv_faults :: "bool list"

definition mv_call :: "(map_volume \<Rightarrow> 'a \<times> map_volume) \<Rightarrow> (map_volume \<Rightarrow> 'a \<times> map_volume) \<Rightarrow>
    (map_volume, 'a) state" where
  "mv_call bad good = State (\<lambda>s.
     case mv_faults s of
       [] \<Rightarrow> good s
     | f # fs \<Rightarrow> (if f then bad else good) (s\<lparr>mv_faults := fs\<rparr>))"

definition mv_open :: "nat \<Rightarrow> string \<Rightarrow> fmode \<Rightarrow> (map_volume, fresult) state" where
  "mv_open h p md = mv_call (\<lambda>s. (FR_DISK_ERR, s)) (\<lambda>s.
     case md of
       OpenRead \<Rightarrow> (case mv_files s p of
           None \<Rightarrow> (FR_NO_FILE, s)
         | Some b \<Rightarrow> if length b < 2 ^ 64
             then (FR_OK, s\<lparr>mv_objects := (mv_objects s)(h \<mapsto> (p, 0)),
                 mv_sizes := (mv_sizes s)(h := word_of_nat (length b))\<rparr>)
             else (FR_DENIED, s))
     | OpenCreateNew \<Rightarrow> (case mv_files s p of
           Some b \<Rightarrow> (FR_EXIST, s)
         | None \<Rightarrow> (FR_OK, s\<lparr>mv_files := (mv_files s)(p \<mapsto> []),
             mv_objects := (mv_objects s)(h \<mapsto> (p, 0)), mv_sizes := (mv_sizes s)(h := 0)\<rparr>))
     | OpenCreateAlways \<Rightarrow> (FR_OK, s\<lparr>mv_files := (mv_files s)(p \<mapsto> []),
         mv_objects := (mv_objects s)(h \<mapsto> (p, 0)), mv_sizes := (mv_sizes s)(h := 0)\<rparr>))"

definition mv_close :: "nat \<Rightarrow> (map_volume, fresult) state" where
  "mv_close h = mv_call (\<lambda>s. (FR_DISK_ERR, s))
     (\<lambda>s. (FR_OK, s\<lparr>mv_objects := (mv_objects s)(h := None)\<rparr>))"

definition mv_read :: "nat \<Rightarrow> nat \<Rightarrow> (map_volume, fresult \<times> bytes) state" where
  "mv_read h n = mv_call (\<lambda>s. ((FR_DISK_ERR, []), s)) (\<lambda>s.
     case mv_objects s h of
       None \<Rightarrow> ((FR_INVALID_OBJECT, []), s)
     | Some (p, i) \<Rightarrow> (case mv_files s p of
         None \<Rightarrow> ((FR_INT_ERR, []), s)
       | Some b \<Rightarrow> let d = take n (drop i b) in
           ((FR_OK, d), s\<lparr>mv_objects := (mv_objects s)(h \<mapsto> (p, i + length d))\<rparr>)))"

text \<open>Only appending is needed: the kernel writes files from start to end.\<close>

definition mv_append :: "nat \<Rightarrow> bytes \<Rightarrow> fresult \<Rightarrow> map_volume \<Rightarrow> (fresult \<times> nat) \<times> map_volume" where
  "mv_append h d x s =
     (case mv_objects s h of
       None \<Rightarrow> ((FR_INVALID_OBJECT, 0), s)
     | Some (p, i) \<Rightarrow> (case mv_files s p of
         None \<Rightarrow> ((FR_INT_ERR, 0), s)
       | Some b \<Rightarrow> if i = length b
           then ((x, length d), s\<lparr>mv_files := (mv_files s)(p \<mapsto> b @ d),
             mv_objects := (mv_objects s)(h \<mapsto> (p, i + length d))\<rparr>)
           else ((FR_DENIED, 0), s)))"

definition mv_write :: "nat \<Rightarrow> bytes \<Rightarrow> (map_volume, fresult \<times> nat) state" where
  "mv_write h d = mv_call (mv_append h (take (length d div 2) d) FR_DISK_ERR) (mv_append h d FR_OK)"

definition mv_sync :: "nat \<Rightarrow> (map_volume, fresult) state" where
  "mv_sync h = mv_call (\<lambda>s. (FR_DISK_ERR, s)) (\<lambda>s. (FR_OK, s))"

definition mv_stat :: "string \<Rightarrow> (map_volume, fresult \<times> filinfo) state" where
  "mv_stat p = mv_call (\<lambda>s. ((FR_DISK_ERR, filinfo_zero), s)) (\<lambda>s.
     case mv_files s p of
       None \<Rightarrow> ((FR_NO_FILE, filinfo_zero), s)
     | Some b \<Rightarrow> ((FR_OK, filinfo_zero\<lparr>fi_size := word_of_nat (length b)\<rparr>), s))"

definition mv_unlink :: "string \<Rightarrow> (map_volume, fresult) state" where
  "mv_unlink p = mv_call (\<lambda>s. (FR_DISK_ERR, s)) (\<lambda>s.
     case mv_files s p of
       None \<Rightarrow> (FR_NO_FILE, s)
     | Some b \<Rightarrow> (FR_OK, s\<lparr>mv_files := (mv_files s)(p := None)\<rparr>))"

definition mv_rename :: "string \<Rightarrow> string \<Rightarrow> (map_volume, fresult) state" where
  "mv_rename p q = mv_call (\<lambda>s. (FR_DISK_ERR, s)) (\<lambda>s.
     case mv_files s p of
       None \<Rightarrow> (FR_NO_FILE, s)
     | Some b \<Rightarrow> (if mv_files s q = None
         then (FR_OK, s\<lparr>mv_files := (mv_files s)(p := None, q \<mapsto> b)\<rparr>) else (FR_EXIST, s)))"

definition mv_mkdir :: "string \<Rightarrow> (map_volume, fresult) state" where
  "mv_mkdir p = mv_call (\<lambda>s. (FR_DISK_ERR, s)) (\<lambda>s. (FR_EXIST, s))"

definition mv_opendir :: "nat \<Rightarrow> string \<Rightarrow> (map_volume, fresult) state" where
  "mv_opendir h p = mv_call (\<lambda>s. (FR_DISK_ERR, s))
     (\<lambda>s. (FR_OK, s\<lparr>mv_dirs := (mv_dirs s)(h := mv_listing s p)\<rparr>))"

definition mv_readdir :: "nat \<Rightarrow> (map_volume, fresult \<times> filinfo) state" where
  "mv_readdir h = mv_call (\<lambda>s. ((FR_DISK_ERR, filinfo_zero), s)) (\<lambda>s.
     case mv_dirs s h of
       [] \<Rightarrow> ((FR_OK, filinfo_zero), s)
     | i # is \<Rightarrow> ((FR_OK, i), s\<lparr>mv_dirs := (mv_dirs s)(h := is)\<rparr>))"

definition mv_closedir :: "nat \<Rightarrow> (map_volume, fresult) state" where
  "mv_closedir h = mv_call (\<lambda>s. (FR_DISK_ERR, s)) (\<lambda>s. (FR_OK, s))"

definition map_ops :: "map_volume volume" where
  "map_ops = \<lparr>vf_open = mv_open, vf_close = mv_close, vf_read = mv_read, vf_write = mv_write,
     vf_sync = mv_sync, vf_size = (\<lambda>h s. mv_sizes s h), vf_stat = mv_stat, vf_unlink = mv_unlink,
     vf_rename = mv_rename, vf_mkdir = mv_mkdir, vf_opendir = mv_opendir, vf_readdir = mv_readdir,
     vf_closedir = mv_closedir\<rparr>"

definition mv_hfile :: "map_volume \<Rightarrow> nat \<Rightarrow> string option" where
  "mv_hfile s h = map_option fst (mv_objects s h)"

definition mv_hpos :: "map_volume \<Rightarrow> nat \<Rightarrow> nat" where
  "mv_hpos s h = (case mv_objects s h of None \<Rightarrow> 0 | Some x \<Rightarrow> snd x)"

lemmas mv_op_defs = mv_open_def mv_close_def mv_read_def mv_write_def mv_append_def mv_sync_def
  mv_stat_def mv_unlink_def mv_rename_def mv_mkdir_def mv_opendir_def mv_readdir_def mv_closedir_def

interpretation map_fs: fat_volume map_ops mv_files mv_hfile mv_hpos
  by unfold_locales
    (auto simp: map_ops_def mv_op_defs mv_call_def mv_hfile_def mv_hpos_def Let_def filinfo_zero_def
      fun_eq_iff split: list.splits if_splits option.splits fmode.splits prod.splits)

interpretation map_safe: safe_volume map_ops mv_files mv_hfile mv_hpos
  by unfold_locales (auto simp: map_ops_def mv_rename_def mv_call_def split: list.splits if_splits option.splits)

end
