(* ===== verification/Effects.thy ===== *)
theory Effects
  imports Volume
begin

text \<open>
  Reasoning about the services' state monad: weakest preconditions, computed by the simplifier over
  the program's text, and relations between the state before and after that every step keeps, which
  compose through a routine without looking at what it computes.
\<close>

section \<open>Weakest preconditions\<close>

definition wp :: "('s, 'a) state \<Rightarrow> ('a \<Rightarrow> 's \<Rightarrow> bool) \<Rightarrow> 's \<Rightarrow> bool" where
  "wp c Q s \<longleftrightarrow> (case run_state c s of (x, s') \<Rightarrow> Q x s')"

lemma wp_return [simp]: "wp (State_Monad.return x) Q = Q x"
  by (simp add: wp_def State_Monad.return_def fun_eq_iff)

lemma wp_bind [simp]: "wp (State_Monad.bind c f) Q = wp c (\<lambda>x. wp (f x) Q)"
  by (simp add: wp_def State_Monad.bind_def fun_eq_iff split: prod.splits)

lemma wp_gets [simp]: "wp (gets f) Q s = Q (f s) s"
  by (simp add: wp_def)

lemma wp_modify [simp]: "wp (modify f) Q s = Q () (f s)"
  by (simp add: wp_def)

lemma wp_if [simp]: "wp (if b then c else d) Q s = (if b then wp c Q s else wp d Q s)"
  by simp

lemma wp_prod [simp]: "wp (case p of (x, y) \<Rightarrow> f x y) Q s = (case p of (x, y) \<Rightarrow> wp (f x y) Q s)"
  by (simp split: prod.split)

lemma wp_mono: "wp c P s \<Longrightarrow> (\<And>x s'. P x s' \<Longrightarrow> Q x s') \<Longrightarrow> wp c Q s"
  by (auto simp: wp_def split: prod.splits)

lemma wp_conj: "wp c P s \<Longrightarrow> wp c Q s \<Longrightarrow> wp c (\<lambda>x s'. P x s' \<and> Q x s') s"
  by (auto simp: wp_def split: prod.splits)

lemma wpD: "wp c Q s \<Longrightarrow> run_state c s = (x, s') \<Longrightarrow> Q x s'"
  by (simp add: wp_def)

lemma wpI: "(\<And>x s'. run_state c s = (x, s') \<Longrightarrow> Q x s') \<Longrightarrow> wp c Q s"
  by (simp add: wp_def split: prod.splits)

lemma wp_state: "wp c (\<lambda>x s'. Q s') s \<longleftrightarrow> Q (snd (run_state c s))"
  by (simp add: wp_def split: prod.splits)

text \<open>A call on the map volume that does not fail.\<close>

lemma wp_mv_call: "mv_faults s = [] \<Longrightarrow> wp (mv_call bad good) Q s = (case good s of (x, s') \<Rightarrow> Q x s')"
  by (simp add: wp_def mv_call_def)

text \<open>A computation on a part of the state.\<close>

definition zoom :: "('s \<Rightarrow> 'v) \<Rightarrow> ('v \<Rightarrow> 's \<Rightarrow> 's) \<Rightarrow> ('v, 'a) state \<Rightarrow> ('s, 'a) state" where
  "zoom get put c = State (\<lambda>s. case run_state c (get s) of (x, v) \<Rightarrow> (x, put v s))"

lemma wp_zoom [simp]: "wp (zoom get put c) Q s = wp c (\<lambda>x v. Q x (put v s)) (get s)"
  by (simp add: wp_def zoom_def split: prod.splits)

section \<open>Relations kept by every step\<close>

definition keeps :: "('s \<Rightarrow> 's \<Rightarrow> bool) \<Rightarrow> ('s, 'a) state \<Rightarrow> bool" where
  "keeps R c \<longleftrightarrow> (\<forall>s. wp c (\<lambda>x s'. R s s') s)"

lemma keepsI: "(\<And>s x s'. run_state c s = (x, s') \<Longrightarrow> R s s') \<Longrightarrow> keeps R c"
  by (auto simp: keeps_def intro: wpI)

lemma keepsD: "keeps R c \<Longrightarrow> run_state c s = (x, s') \<Longrightarrow> R s s'"
  by (auto simp: keeps_def dest: wpD)

lemma keeps_wp: "keeps R c \<Longrightarrow> (\<And>x s'. R s s' \<Longrightarrow> Q x s') \<Longrightarrow> wp c Q s"
  by (auto simp: keeps_def intro: wp_mono)

lemma keeps_wp_conj: "keeps R c \<Longrightarrow> wp c Q s \<Longrightarrow> wp c (\<lambda>x s'. R s s' \<and> Q x s') s"
  by (auto simp: keeps_def intro: wp_conj)

text \<open>A frame: a reflexive and transitive relation.  Its rules follow the program's text.\<close>

locale frame =
  fixes R :: "'s \<Rightarrow> 's \<Rightarrow> bool"
  assumes refl: "R s s"
    and trans: "R s t \<Longrightarrow> R t u \<Longrightarrow> R s u"
begin

lemma return [intro]: "keeps R (State_Monad.return x)"
  by (simp add: keeps_def refl)

lemma gets [intro]: "keeps R (gets f)"
  by (simp add: keeps_def refl)

lemma modify [intro]: "(\<And>s. R s (f s)) \<Longrightarrow> keeps R (modify f)"
  by (simp add: keeps_def)

lemma bind [intro]: "keeps R c \<Longrightarrow> (\<And>x. keeps R (f x)) \<Longrightarrow> keeps R (State_Monad.bind c f)"
proof (rule keepsI)
  fix s x s'
  assume c: "keeps R c" and f: "\<And>x. keeps R (f x)"
    and run: "run_state (State_Monad.bind c f) s = (x, s')"
  obtain y t where t: "run_state c s = (y, t)" by fastforce
  with run have "run_state (f y) t = (x, s')" by (simp add: State_Monad.bind_def)
  then have "R t s'" by (rule keepsD [OF f])
  with keepsD [OF c t] show "R s s'" by (rule trans)
qed

lemma cond [intro]: "(b \<Longrightarrow> keeps R c) \<Longrightarrow> (\<not> b \<Longrightarrow> keeps R d) \<Longrightarrow> keeps R (if b then c else d)"
  by simp

lemma prod [intro]: "(\<And>x y. keeps R (f x y)) \<Longrightarrow> keeps R (case p of (x, y) \<Rightarrow> f x y)"
  by (simp split: prod.split)

end

end
