(* ===== verification/StateStorage.thy ===== *)
theory StateStorage
  imports StorageFormat Format Effects
begin

text \<open>
  \<open>launcher/kernel/LmStateStorage.c\<close>: the kernel's state archive service, one definition per C
  function.  The module's statics, the shared mailbox, the snapshot memory and the volume are the
  fields of one record; a pass of the service is a computation in the state monad over it.  A pass
  sees one snapshot of the mailbox, and the cache operations (\<open>sync_before_read\<close>,
  \<open>sync_after_write\<close>) are the identity.  The FatFs calls are the parameter \<open>ops\<close>.
\<close>

section \<open>State\<close>

record 's storage =
  ls_Enabled :: bool
  ls_Open :: bool
  ls_DirectoryOpen :: bool
  ls_Ack :: u32
  ls_Seq :: u32
  ls_Command :: u32
  ls_FileId :: u32
  ls_RequestId :: u32
  ls_Length :: u32
  ls_Offset :: u32
  ls_Phase :: u32
  ls_Session :: u32
  ls_Directory :: string
  ls_Path :: string
  ls_Temporary :: string
  ls_Header :: archive_header
  ls_Catalog :: "catalog_entry list"
  ls_CatalogCount :: nat
  ls_CatalogMore :: u32
  ls_CatalogIdentity :: "u32 list"
  ls_CatalogSeq :: u32
  ls_CatalogSession :: u32
  ls_DeleteHeaderCrc :: u32
  ls_DeleteBytes :: u32
  ls_RequestName :: bytes
  ls_RequestSeed :: "u32 list"
  ls_KeyStatus :: u32
  ls_KeyConfig :: u32
  ls_KeyUnsupported :: bool
  ls_PersistentKey :: key_record
  ls_mbox :: storage_mailbox
  ls_snapshot :: "nat \<Rightarrow> u8"
  ls_vol :: 's

type_synonym ('s, 'a) sto = "('s storage, 'a) state"

abbreviation LM_STATE_CATALOG_CAPACITY :: nat where "LM_STATE_CATALOG_CAPACITY \<equiv> 8"
abbreviation LM_STATE_CATALOG_SCAN_SLICE :: nat where "LM_STATE_CATALOG_SCAN_SLICE \<equiv> 16"

text \<open>The file objects: the static \<open>File\<close>, the \<open>FIL\<close> on a function's stack, and the directory.\<close>

abbreviation FIL_File :: nat where "FIL_File \<equiv> 0"
abbreviation FIL_local :: nat where "FIL_local \<equiv> 1"
abbreviation DIR_Catalog :: nat where "DIR_Catalog \<equiv> 0"

definition on_vol :: "('s, 'a) state \<Rightarrow> ('s, 'a) sto" where
  "on_vol = zoom ls_vol (\<lambda>v s. s\<lparr>ls_vol := v\<rparr>)"

definition mbox_put :: "(storage_mailbox \<Rightarrow> storage_mailbox) \<Rightarrow> ('s, unit) sto" where
  "mbox_put f = modify (\<lambda>s. s\<lparr>ls_mbox := f (ls_mbox s)\<rparr>)"

definition file_size :: "'s volume \<Rightarrow> nat \<Rightarrow> ('s, u64) sto" where
  "file_size ops h = gets (\<lambda>s. vf_size ops h (ls_vol s))"

text \<open>\<open>sizeof(Header) + Header.payloadSize\<close>, an unsigned 32-bit sum, against a file size.\<close>

definition archive_size :: "archive_header \<Rightarrow> u64" where
  "archive_size h = ucast (64 + ah_payloadSize h)"

section \<open>Paths\<close>

definition archive_path :: "string \<Rightarrow> u32 \<Rightarrow> string" where
  "archive_path dir i = sprintf ''%s/archive_%08u.lms'' [AStr dir, AInt i]"

definition archive_temporary :: "string \<Rightarrow> u32 \<Rightarrow> string" where
  "archive_temporary dir i = sprintf ''%s/archive_%08u.tmp'' [AStr dir, AInt i]"

definition name_path :: "string \<Rightarrow> u32 \<Rightarrow> u32 \<Rightarrow> string" where
  "name_path dir i copy = sprintf ''%s/archive_%08u.name%u'' [AStr dir, AInt i, AInt copy]"

definition name_temporary :: "string \<Rightarrow> u32 \<Rightarrow> u32 \<Rightarrow> string" where
  "name_temporary dir i copy = sprintf ''%s/archive_%08u.name%u.tmp'' [AStr dir, AInt i, AInt copy]"

definition key_path :: "string \<Rightarrow> u32 \<Rightarrow> string" where
  "key_path dir copy = sprintf ''%s/archive_key%u.bin'' [AStr dir, AInt copy]"

definition key_temporary :: "string \<Rightarrow> u32 \<Rightarrow> string" where
  "key_temporary dir copy = sprintf ''%s/archive_key%u.tmp'' [AStr dir, AInt copy]"

section \<open>Names\<close>

text \<open>The test of a name record that was read whole, and the body of the loop of \<open>ReadNames\<close>: what
  is carried round is \<open>readable\<close>, \<open>*latest\<close> and \<open>*copy\<close>.\<close>

definition name_intact :: "u32 \<Rightarrow> u32 \<Rightarrow> name_record \<Rightarrow> bool" where
  "name_intact i archiveChecksum r \<longleftrightarrow>
     nr_magic r = LM_STATE_NAME_MAGIC \<and> nr_version r = 1 \<and> nr_archiveId r = i \<and>
     nr_generation r \<noteq> 0 \<and> nr_archiveChecksum r = archiveChecksum \<and>
     nr_reserved0 r = 0 \<and> nr_reserved1 r = 0 \<and>
     LmStateNameValid (nr_name r) \<and> nr_checksum r = NameChecksum r"

definition ReadNames_copy :: "'s volume \<Rightarrow> u32 \<Rightarrow> u32 \<Rightarrow> u32 \<Rightarrow> bool \<times> name_record \<times> u32 \<Rightarrow>
    ('s, bool \<times> name_record \<times> u32) sto" where
  "ReadNames_copy ops i archiveChecksum k acc =
     (case acc of (readable, latest, copy) \<Rightarrow> do {
        dir \<leftarrow> gets ls_Directory;
        result \<leftarrow> on_vol (vf_open ops FIL_local (name_path dir i k) OpenRead);
        if result = FR_NO_FILE then ret acc
        else if result \<noteq> FR_OK then ret (False, latest, copy)
        else do {
          (result, data) \<leftarrow> on_vol (vf_read ops FIL_local 64);
          closed \<leftarrow> on_vol (vf_close ops FIL_local);
          if result \<noteq> FR_OK \<or> closed \<noteq> FR_OK then ret (False, latest, copy)
          else do {
            objsize \<leftarrow> file_size ops FIL_local;
            let record = name_of_bytes data in
            if length data \<noteq> 64 \<or> objsize \<noteq> 64 \<or> \<not> name_intact i archiveChecksum record
            then ret acc
            else if nr_generation record > nr_generation latest then ret (readable, record, k)
            else ret acc
          }
        }
     })"

definition ReadNames :: "'s volume \<Rightarrow> u32 \<Rightarrow> u32 \<Rightarrow> ('s, bool \<times> name_record \<times> u32) sto" where
  "ReadNames ops i archiveChecksum = do {
     acc \<leftarrow> ReadNames_copy ops i archiveChecksum 0 (True, name_zero, 1);
     ReadNames_copy ops i archiveChecksum 1 acc
   }"

text \<open>Both path buffers hold 72 units, the last one the terminator.\<close>

definition RenamePaths :: "'s volume \<Rightarrow> string \<Rightarrow> string \<Rightarrow> ('s, fresult) sto" where
  "RenamePaths ops source destination =
     on_vol (vf_rename ops (take 71 source) (take 71 destination))"

text \<open>The tail both durable records share: write a temporary, sync it, close it.\<close>

definition write_temporary :: "'s volume \<Rightarrow> string \<Rightarrow> bytes \<Rightarrow> ('s, bool) sto" where
  "write_temporary ops temporary record = do {
     result \<leftarrow> on_vol (vf_open ops FIL_local temporary OpenCreateAlways);
     if result \<noteq> FR_OK then ret False
     else do {
       (result, done) \<leftarrow> on_vol (vf_write ops FIL_local record);
       result \<leftarrow> (if result = FR_OK \<and> done = 64 then on_vol (vf_sync ops FIL_local) else ret result);
       closed \<leftarrow> on_vol (vf_close ops FIL_local);
       ret (result = FR_OK \<and> done = 64 \<and> closed = FR_OK)
     }
   }"

text \<open>The tail of \<open>WriteName\<close>: the temporary takes the place of the older copy.\<close>

definition replace_copy :: "'s volume \<Rightarrow> string \<Rightarrow> string \<Rightarrow> bytes \<Rightarrow> ('s, bool) sto" where
  "replace_copy ops path temporary record = do {
     written \<leftarrow> write_temporary ops temporary record;
     if \<not> written then ret False
     else do {
       result \<leftarrow> on_vol (vf_unlink ops path);
       if result \<noteq> FR_OK \<and> result \<noteq> FR_NO_FILE then ret False
       else do {
         result \<leftarrow> RenamePaths ops temporary path;
         ret (result = FR_OK)
       }
     }
   }"

text \<open>The record \<open>WriteName\<close> builds from the latest one.\<close>

definition next_name :: "u32 \<Rightarrow> u32 \<Rightarrow> bytes \<Rightarrow> name_record \<Rightarrow> name_record" where
  "next_name i archiveChecksum name latest =
     (let record = latest\<lparr>nr_magic := LM_STATE_NAME_MAGIC, nr_version := 1, nr_archiveId := i,
            nr_archiveChecksum := archiveChecksum, nr_generation := nr_generation latest + 1,
            nr_name := name\<rparr>
      in record\<lparr>nr_checksum := NameChecksum record\<rparr>)"

definition WriteName :: "'s volume \<Rightarrow> u32 \<Rightarrow> u32 \<Rightarrow> ('s, bool) sto" where
  "WriteName ops i archiveChecksum = do {
     (readable, latest, copy) \<leftarrow> ReadNames ops i archiveChecksum;
     if \<not> readable \<or> nr_generation latest = 0xFFFFFFFF then ret False
     else do {
       name \<leftarrow> gets ls_RequestName;
       dir \<leftarrow> gets ls_Directory;
       let path = name_path dir i (copy XOR 1);
       let temporary = name_temporary dir i (copy XOR 1);
       replace_copy ops path temporary (name_bytes (next_name i archiveChecksum name latest))
     }
   }"

definition RenameArchive :: "'s volume \<Rightarrow> ('s, fresult) sto" where
  "RenameArchive ops = do {
     source \<leftarrow> gets ls_Temporary;
     destination \<leftarrow> gets ls_Path;
     RenamePaths ops source destination
   }"

section \<open>The key\<close>

definition PublishKey :: "('s, unit) sto" where
  "PublishKey = do {
     s \<leftarrow> gets id;
     mbox_put (\<lambda>m. m\<lparr>m_keyMagic := LM_STATE_KEY_MAGIC, m_keyVersion := LM_STATE_KEY_VERSION,
       m_keyStatus := ls_KeyStatus s, m_keyConfigId := ls_KeyConfig s,
       m_keyId := (if ls_KeyStatus s = LM_STATE_KEY_READY then kr_id (ls_PersistentKey s) else 0),
       m_keyWords := (if ls_KeyStatus s = LM_STATE_KEY_READY then kr_words (ls_PersistentKey s)
         else replicate 4 0)\<rparr>)
   }"

definition ReadKeyCopy :: "'s volume \<Rightarrow> u32 \<Rightarrow> ('s, u32 \<times> key_record) sto" where
  "ReadKeyCopy ops copy = do {
     dir \<leftarrow> gets ls_Directory;
     result \<leftarrow> on_vol (vf_open ops FIL_local (key_path dir copy) OpenRead);
     if result = FR_NO_FILE then ret (LM_STATE_KEY_MISSING, key_zero)
     else if result \<noteq> FR_OK then ret (LM_STATE_KEY_IO_ERROR, key_zero)
     else do {
       objsize \<leftarrow> file_size ops FIL_local;
       (result, data) \<leftarrow> on_vol (vf_read ops FIL_local 64);
       closed \<leftarrow> on_vol (vf_close ops FIL_local);
       let record = key_of_bytes data;
       if result \<noteq> FR_OK \<or> closed \<noteq> FR_OK then ret (LM_STATE_KEY_IO_ERROR, key_zero)
       else if (ucast objsize :: u32) \<noteq> 64 \<or> length data \<noteq> 64 then ret (LM_STATE_KEY_INVALID, key_zero)
       else ret (key_status record, record)
     }
   }"

text \<open>The decision of \<open>ResolveKey\<close> from the two copies.\<close>

definition resolve_copies :: "u32 \<times> key_record \<Rightarrow> u32 \<times> key_record \<Rightarrow> u32 \<times> key_record" where
  "resolve_copies A B =
     (case (A, B) of ((a, first), (b, second)) \<Rightarrow>
        if a = LM_STATE_KEY_IO_ERROR \<or> b = LM_STATE_KEY_IO_ERROR then (LM_STATE_KEY_IO_ERROR, key_zero)
        else if a = LM_STATE_KEY_INVALID \<or> b = LM_STATE_KEY_INVALID then (LM_STATE_KEY_INVALID, key_zero)
        else if a = LM_STATE_KEY_MISSING \<and> b = LM_STATE_KEY_MISSING then (LM_STATE_KEY_MISSING, key_zero)
        else if a = LM_STATE_KEY_READY \<and> b = LM_STATE_KEY_READY \<and> key_bytes first \<noteq> key_bytes second
          then (LM_STATE_KEY_INVALID, key_zero)
        else (LM_STATE_KEY_READY, if a = LM_STATE_KEY_READY then first else second))"

definition ResolveKey :: "'s volume \<Rightarrow> ('s, unit) sto" where
  "ResolveKey ops = do {
     modify (\<lambda>s. s\<lparr>ls_PersistentKey := key_zero\<rparr>);
     enabled \<leftarrow> gets ls_Enabled;
     unsupported \<leftarrow> gets ls_KeyUnsupported;
     (if \<not> enabled then modify (\<lambda>s. s\<lparr>ls_KeyStatus := LM_STATE_KEY_UNAVAILABLE\<rparr>)
      else if unsupported then modify (\<lambda>s. s\<lparr>ls_KeyStatus := LM_STATE_KEY_UNSUPPORTED\<rparr>)
      else do {
        A \<leftarrow> ReadKeyCopy ops 0;
        B \<leftarrow> ReadKeyCopy ops 1;
        modify (\<lambda>s. s\<lparr>ls_KeyStatus := fst (resolve_copies A B),
          ls_PersistentKey := snd (resolve_copies A B)\<rparr>)
      });
     PublishKey
   }"

definition WriteKeyCopy :: "'s volume \<Rightarrow> u32 \<Rightarrow> key_record \<Rightarrow> ('s, bool) sto" where
  "WriteKeyCopy ops copy record = do {
     dir \<leftarrow> gets ls_Directory;
     let temporary = key_temporary dir copy;
     written \<leftarrow> write_temporary ops temporary (key_bytes record);
     if \<not> written then ret False
     else do {
       result \<leftarrow> RenamePaths ops temporary (key_path dir copy);
       ret (result = FR_OK)
     }
   }"

definition seed_record :: "u32 list \<Rightarrow> key_record" where
  "seed_record seed =
     (let record = key_zero\<lparr>kr_magic := LM_KEY_FILE_MAGIC, kr_version := 1, kr_words := seed\<rparr>;
          record = record\<lparr>kr_id := KeyCrc record True\<rparr>
      in record\<lparr>kr_checksum := KeyCrc record False\<rparr>)"

definition EnsureKey :: "'s volume \<Rightarrow> ('s, u32) sto" where
  "EnsureKey ops = do {
     ResolveKey ops;
     status \<leftarrow> gets ls_KeyStatus;
     seed \<leftarrow> gets ls_RequestSeed;
     let record = seed_record seed;
     if status = LM_STATE_KEY_READY then ret LM_STATE_STORAGE_OK
     else if status \<noteq> LM_STATE_KEY_MISSING then ret LM_STATE_STORAGE_KEY_ERROR
     else if \<not> (\<exists>w \<in> set seed. w \<noteq> 0) then ret LM_STATE_STORAGE_BAD_FILE
     else if kr_id record = 0 then ret LM_STATE_STORAGE_BAD_FILE
     else do {
       first \<leftarrow> WriteKeyCopy ops 0 record;
       written \<leftarrow> (if first then WriteKeyCopy ops 1 record else ret False);
       ResolveKey ops;
       status \<leftarrow> gets ls_KeyStatus;
       ret (if written \<and> status = LM_STATE_KEY_READY then LM_STATE_STORAGE_OK
            else LM_STATE_STORAGE_KEY_ERROR)
     }
   }"

section \<open>Requests\<close>

definition ArchiveIdentityStatus :: "'s storage \<Rightarrow> archive_header \<Rightarrow> u32" where
  "ArchiveIdentityStatus s h =
     (if ah_version h = LM_STATE_ARCHIVE_VERSION then
        (if ah_session h = ls_Session s then LM_STATE_STORAGE_OK else LM_STATE_STORAGE_WRONG_SESSION)
      else if ls_KeyStatus s \<noteq> LM_STATE_KEY_READY \<or> ah_session h \<noteq> kr_id (ls_PersistentKey s)
        then LM_STATE_STORAGE_KEY_ERROR
      else if ah_reserved1 h = ls_KeyConfig s then LM_STATE_STORAGE_OK
      else LM_STATE_STORAGE_CONFIG_ERROR)"

text \<open>The two closing steps of \<open>Finish\<close>, and its publication of the response.\<close>

definition close_file :: "'s volume \<Rightarrow> u32 \<Rightarrow> ('s, u32) sto" where
  "close_file ops status = do {
     open \<leftarrow> gets ls_Open;
     if open then do {
       result \<leftarrow> on_vol (vf_close ops FIL_File);
       modify (\<lambda>s. s\<lparr>ls_Open := False\<rparr>);
       ret (if result \<noteq> FR_OK \<and> status = LM_STATE_STORAGE_OK then LM_STATE_STORAGE_IO_ERROR else status)
     } else ret status
   }"

definition close_directory :: "'s volume \<Rightarrow> u32 \<Rightarrow> ('s, u32) sto" where
  "close_directory ops status = do {
     open \<leftarrow> gets ls_DirectoryOpen;
     if open then do {
       result \<leftarrow> on_vol (vf_closedir ops DIR_Catalog);
       modify (\<lambda>s. s\<lparr>ls_DirectoryOpen := False\<rparr>);
       ret (if result \<noteq> FR_OK \<and> status = LM_STATE_STORAGE_OK then LM_STATE_STORAGE_IO_ERROR else status)
     } else ret status
   }"

definition publish_response :: "u32 \<Rightarrow> 's storage \<Rightarrow> 's storage" where
  "publish_response status s =
     (let s = (if ls_Command s = LM_STATE_STORAGE_CATALOG then
                 s\<lparr>ls_CatalogSeq := (if status = LM_STATE_STORAGE_OK then ls_Seq s else 0),
                   ls_CatalogSession := (if status = LM_STATE_STORAGE_OK then ls_Session s else 0)\<rparr>
               else s);
          s = (if ls_Command s = LM_STATE_STORAGE_DELETE
               then s\<lparr>ls_CatalogSeq := 0, ls_CatalogSession := 0\<rparr> else s)
      in s\<lparr>ls_mbox := (ls_mbox s)\<lparr>m_responseSession := ls_Session s, m_responseCommand := ls_Command s,
             m_responseArchiveId := ls_RequestId s, m_responseSeq := ls_Seq s,
             m_responseLength := ls_Length s, m_status := status, m_resultId := ls_FileId s,
             m_transferred := ls_Offset s, m_ackSeq := ls_Seq s\<rparr>,
           ls_Ack := ls_Seq s, ls_Phase := 0\<rparr>)"

definition Finish :: "'s volume \<Rightarrow> u32 \<Rightarrow> ('s, unit) sto" where
  "Finish ops status = do {
     status \<leftarrow> close_file ops status;
     status \<leftarrow> close_directory ops status;
     modify (publish_response status)
   }"

section \<open>Start of the module\<close>

text \<open>What the module reads from outside: the game, the launcher configuration, the storage the
  configuration module chose (\<open>SusamuneCfgStoragePrefix\<close>, \<open>SusamuneCfgStorageAvailable\<close>) and the
  patch count the loader left in memory.\<close>

record storage_env =
  se_GAME_ID :: u32
  se_BI2region :: u32
  se_ncfg :: nin_cfg
  se_prefix :: string
  se_available :: bool
  se_patchCount :: u32

definition mailbox_zero :: storage_mailbox where
  "mailbox_zero = \<lparr>m_requestSeq = 0, m_command = 0, m_archiveId = 0, m_payloadSize = 0,
     m_processSession = 0, m_magic = 0, m_version = 0, m_ackSeq = 0, m_status = 0, m_resultId = 0,
     m_transferred = 0, m_available = 0, m_header = header_zero, m_cacheMagic = 0,
     m_cachePhysicalBase = 0, m_cacheSize = 0, m_filePatchCount = 0, m_responseSession = 0,
     m_responseCommand = 0, m_responseArchiveId = 0, m_responseSeq = 0, m_responseLength = 0,
     m_catalogCount = 0, m_catalogAfter = 0, m_catalogNext = 0, m_catalogMore = 0,
     m_catalog = replicate 8 entry_zero, m_requestName = replicate 32 0, m_keyMagic = 0,
     m_keyVersion = 0, m_keyStatus = 0, m_keyId = 0, m_keyWords = replicate 4 0, m_keyConfigId = 0,
     m_keySeed = replicate 4 0, m_keySeedReserved = replicate 4 0, m_catalogIdentity = replicate 8 0,
     m_deleteCatalogSeq = 0, m_deleteHeaderCrc = 0, m_deleteBytes = 0, m_deleteVersion = 0,
     m_deleteReserved = replicate 4 0\<rparr>"

definition NIN_CFG_CHEATS_DEBUG :: u32 where
  "NIN_CFG_CHEATS_DEBUG = push_bit 0 1 OR push_bit 1 1 OR push_bit 2 1"

definition LmStateStorageInit :: "'s volume \<Rightarrow> storage_env \<Rightarrow> ('s, unit) sto" where
  "LmStateStorageInit ops env = do {
     modify (\<lambda>s. s\<lparr>ls_Enabled := False, ls_Phase := 0, ls_Ack := 0, ls_CatalogSeq := 0,
       ls_CatalogSession := 0, ls_Open := False, ls_DirectoryOpen := False\<rparr>);
     if se_GAME_ID env \<noteq> SUSAMUNE_MOD_GAME_ID_LMJ then ret ()
     else do {
       let prefix = LmStateCachePrefix (se_patchCount env);
       mbox_put (\<lambda>m. mailbox_zero\<lparr>m_cacheMagic := LM_STATE_CACHE_MAGIC,
         m_filePatchCount := se_patchCount env,
         m_cachePhysicalBase := NIN_MEM2_FILE_PATCH_PHYS_BASE + prefix,
         m_cacheSize := NIN_MEM2_FILE_PATCH_SIZE - prefix\<rparr>);
       modify (\<lambda>s. s\<lparr>ls_Directory := sprintf ''%s/lm_states'' [AStr (se_prefix env)]\<rparr>);
       (if se_available env then do {
          dir \<leftarrow> gets ls_Directory;
          result \<leftarrow> on_vol (vf_mkdir ops dir);
          modify (\<lambda>s. s\<lparr>ls_Enabled := (result = FR_OK \<or> result = FR_EXIST)\<rparr>)
        } else ret ());
       modify (\<lambda>s. s\<lparr>ls_KeyConfig := BootConfigId (se_ncfg env) (se_GAME_ID env) (se_BI2region env),
         ls_KeyUnsupported := (nc_Config (se_ncfg env) AND NIN_CFG_CHEATS_DEBUG \<noteq> 0)\<rparr>);
       ResolveKey ops;
       enabled \<leftarrow> gets ls_Enabled;
       mbox_put (\<lambda>m. m\<lparr>m_magic := LM_STATE_STORAGE_MAGIC, m_version := LM_STATE_STORAGE_VERSION,
         m_available := (if enabled then 1 else 0),
         m_status := (if enabled then LM_STATE_STORAGE_OK else LM_STATE_STORAGE_UNAVAILABLE)\<rparr>)
     }
   }"

definition LmStateStoragePending :: "storage_env \<Rightarrow> 's storage \<Rightarrow> bool" where
  "LmStateStoragePending env s =
     (if se_GAME_ID env \<noteq> SUSAMUNE_MOD_GAME_ID_LMJ then False
      else if ls_Phase s \<noteq> 0 then True
      else m_requestSeq (ls_mbox s) \<noteq> ls_Ack s)"

section \<open>The catalogue\<close>

text \<open>\<open>fname\<close> is a 0-terminated array; past its end the loops have already left.\<close>

definition fname_at :: "filinfo \<Rightarrow> nat \<Rightarrow> u16" where
  "fname_at info i = (if i < length (fi_name info) then fi_name info ! i else 0)"

text \<open>The scan of the eight digits, \<open>None\<close> where the loop returns 0.\<close>

fun scan_digits :: "u16 list \<Rightarrow> u32 \<Rightarrow> u32 option" where
  "scan_digits [] i = Some i"
| "scan_digits (c # cs) i =
     (if c < 48 \<or> c > 57 then None else scan_digits cs (i * 10 + ucast c - 48))"

definition CatalogFileId :: "filinfo \<Rightarrow> u32" where
  "CatalogFileId info =
     (if fi_attrib info AND AM_DIR \<noteq> 0 then 0
      else if map (fname_at info) [0..<8] \<noteq> map of_char ''archive_'' then 0
      else case scan_digits (map (fname_at info) [8..<16]) 0 of
        None \<Rightarrow> 0
      | Some i \<Rightarrow>
          if fname_at info 16 \<noteq> of_char (CHR ''.'') \<or> fname_at info 17 \<noteq> of_char (CHR ''l'') \<or>
             fname_at info 18 \<noteq> of_char (CHR ''m'') \<or> fname_at info 19 \<noteq> of_char (CHR ''s'') \<or>
             fname_at info 20 \<noteq> 0 then 0
          else i)"

text \<open>\<open>for (pos = 0; pos < CatalogCount && Catalog[pos].id < id; ++pos)\<close>, over the first
  \<open>CatalogCount\<close> entries.\<close>

fun catalog_pos :: "u32 \<Rightarrow> catalog_entry list \<Rightarrow> nat" where
  "catalog_pos i [] = 0"
| "catalog_pos i (e # es) = (if ce_id e < i then Suc (catalog_pos i es) else 0)"

text \<open>\<open>for (i = CatalogCount - 1; i > pos; --i) xs[i] = xs[i - 1];\<close>\<close>

fun shift_loop :: "nat \<Rightarrow> nat \<Rightarrow> 'a list \<Rightarrow> 'a list" where
  "shift_loop i pos xs = (if i > pos then shift_loop (i - 1) pos (xs[i := xs ! (i - 1)]) else xs)"

declare shift_loop.simps [simp del]

text \<open>An end of the directory: publish the page.\<close>

definition CatalogPublish :: "'s volume \<Rightarrow> ('s, unit) sto" where
  "CatalogPublish ops = do {
     s \<leftarrow> gets id;
     mbox_put (\<lambda>m. m\<lparr>m_catalogCount := word_of_nat (ls_CatalogCount s), m_catalogAfter := ls_RequestId s,
       m_catalogNext := (if ls_CatalogCount s \<noteq> 0 then ce_id (ls_Catalog s ! (ls_CatalogCount s - 1))
         else ls_RequestId s),
       m_catalogMore := ls_CatalogMore s, m_catalog := ls_Catalog s,
       m_catalogIdentity := ls_CatalogIdentity s\<rparr>);
     Finish ops LM_STATE_STORAGE_OK
   }"

text \<open>Making room for \<open>id\<close> at \<open>pos\<close>; \<open>None\<close> is \<open>continue\<close>.\<close>

definition catalog_insert :: "u32 \<Rightarrow> u64 \<Rightarrow> 's storage \<Rightarrow> (nat \<times> 's storage) option" where
  "catalog_insert i fsize s =
     (let pos = catalog_pos i (take (ls_CatalogCount s) (ls_Catalog s)) in
      if pos < ls_CatalogCount s \<and> ce_id (ls_Catalog s ! pos) = i then None
      else if ls_CatalogCount s = LM_STATE_CATALOG_CAPACITY \<and> pos = ls_CatalogCount s then None
      else
        (let s = (if ls_CatalogCount s = LM_STATE_CATALOG_CAPACITY then s\<lparr>ls_CatalogMore := 1\<rparr>
                  else s\<lparr>ls_CatalogCount := ls_CatalogCount s + 1\<rparr>);
             catalog = shift_loop (ls_CatalogCount s - 1) pos (ls_Catalog s);
             identity = shift_loop (ls_CatalogCount s - 1) pos (ls_CatalogIdentity s)
         in Some (pos, s\<lparr>ls_Catalog := catalog[pos := entry_zero\<lparr>ce_id := i, ce_bytes := ucast fsize\<rparr>],
              ls_CatalogIdentity := identity\<rparr>)))"

text \<open>Where the page is full and \<open>id\<close> is above it, only \<open>CatalogMore\<close> is set.\<close>

definition catalog_more :: "u32 \<Rightarrow> 's storage \<Rightarrow> 's storage" where
  "catalog_more i s =
     (let pos = catalog_pos i (take (ls_CatalogCount s) (ls_Catalog s)) in
      if ls_CatalogCount s = LM_STATE_CATALOG_CAPACITY \<and> pos = ls_CatalogCount s
      then s\<lparr>ls_CatalogMore := 1\<rparr> else s)"

definition describe_entry :: "archive_header \<Rightarrow> catalog_entry \<Rightarrow> catalog_entry" where
  "describe_entry h e =
     (let e = e\<lparr>ce_buildCrc := ah_buildCrc h, ce_session := ah_session h,
            ce_snapshotVersion := ah_snapshotVersion h, ce_generation := ah_generation h,
            ce_flags := LM_STATE_CATALOG_HEADER_VALID\<rparr>
      in if ah_version h = LM_STATE_ARCHIVE_PERSISTENT_VERSION
         then e\<lparr>ce_flags := ce_flags e OR LM_STATE_CATALOG_PERSISTENT, ce_reserved := ah_reserved1 h\<rparr>
         else e)"

text \<open>Reading the inserted archive's header and name.  The result says whether the scan goes on.\<close>

definition CatalogDescribe :: "'s volume \<Rightarrow> u32 \<Rightarrow> u64 \<Rightarrow> nat \<Rightarrow> ('s, bool) sto" where
  "CatalogDescribe ops i fsize pos = do {
     modify (\<lambda>s. s\<lparr>ls_Path := archive_path (ls_Directory s) i\<rparr>);
     path \<leftarrow> gets ls_Path;
     result \<leftarrow> on_vol (vf_open ops FIL_File path OpenRead);
     if result \<noteq> FR_OK then do { Finish ops LM_STATE_STORAGE_IO_ERROR; ret False }
     else do {
       modify (\<lambda>s. s\<lparr>ls_Open := True\<rparr>);
       (result, data) \<leftarrow> on_vol (vf_read ops FIL_File 64);
       modify (\<lambda>s. s\<lparr>ls_Header := header_of_bytes (overlay data (header_bytes header_zero))\<rparr>);
       header \<leftarrow> gets ls_Header;
       objsize \<leftarrow> file_size ops FIL_File;
       if result \<noteq> FR_OK then do { Finish ops LM_STATE_STORAGE_IO_ERROR; ret False }
       else if objsize \<noteq> fsize \<or> word_of_nat (length data) \<noteq> (if fsize < 64 then fsize else 64)
       then do { Finish ops LM_STATE_STORAGE_IO_ERROR; ret False }
       else do {
         modify (\<lambda>s. s\<lparr>ls_CatalogIdentity := (ls_CatalogIdentity s)[pos := ArchiveChecksum header]\<rparr>);
         (if length data = 64 \<and> ValidHeader header \<and> objsize = archive_size header
          then modify (\<lambda>s. s\<lparr>ls_Catalog := (ls_Catalog s)[pos := describe_entry header (ls_Catalog s ! pos)]\<rparr>)
          else ret ());
         result \<leftarrow> on_vol (vf_close ops FIL_File);
         modify (\<lambda>s. s\<lparr>ls_Open := False\<rparr>);
         if result \<noteq> FR_OK then do { Finish ops LM_STATE_STORAGE_IO_ERROR; ret False }
         else if length data = 64 \<and> ValidHeader header then do {
           (readable, name, copy) \<leftarrow> ReadNames ops i (ArchiveChecksum header);
           (if readable \<and> nr_generation name \<noteq> 0
            then modify (\<lambda>s. s\<lparr>ls_Catalog := (ls_Catalog s)[pos := (ls_Catalog s ! pos)\<lparr>ce_name := nr_name name\<rparr>]\<rparr>)
            else ret ());
           ret True
         } else ret True
       }
     }
   }"

definition CatalogStep :: "'s volume \<Rightarrow> ('s, bool) sto" where
  "CatalogStep ops = do {
     (result, info) \<leftarrow> on_vol (vf_readdir ops DIR_Catalog);
     if result \<noteq> FR_OK then do { Finish ops LM_STATE_STORAGE_IO_ERROR; ret False }
     else if fname_at info 0 = 0 then do { CatalogPublish ops; ret False }
     else do {
       let i = CatalogFileId info;
       after \<leftarrow> gets ls_RequestId;
       if i = 0 \<or> i \<le> after then ret True
       else do {
         room \<leftarrow> gets (catalog_insert i (fi_size info));
         case room of
           None \<Rightarrow> do { modify (catalog_more i); ret True }
         | Some (pos, s') \<Rightarrow> do { modify (\<lambda>s. s'); CatalogDescribe ops i (fi_size info) pos }
       }
     }
   }"

primrec catalog_scan :: "'s volume \<Rightarrow> nat \<Rightarrow> ('s, unit) sto" where
  "catalog_scan ops 0 = ret ()"
| "catalog_scan ops (Suc n) = do {
     continue \<leftarrow> CatalogStep ops;
     if continue then catalog_scan ops n else ret ()
   }"

definition CatalogService :: "'s volume \<Rightarrow> ('s, unit) sto" where
  "CatalogService ops = catalog_scan ops LM_STATE_CATALOG_SCAN_SLICE"

section \<open>Deletion\<close>

text \<open>One turn of the loop that removes the two name records.\<close>

definition delete_sidecar :: "'s volume \<Rightarrow> u32 \<Rightarrow> bool \<Rightarrow> ('s, bool) sto" where
  "delete_sidecar ops k cleaned = do {
     dir \<leftarrow> gets ls_Directory;
     i \<leftarrow> gets ls_FileId;
     let sidecar = name_path dir i k;
     (result, info) \<leftarrow> on_vol (vf_stat ops sidecar);
     if result = FR_NO_FILE then ret cleaned
     else if result \<noteq> FR_OK \<or> fi_attrib info AND AM_DIR \<noteq> 0 then ret False
     else do {
       result \<leftarrow> on_vol (vf_unlink ops sidecar);
       ret (if result \<noteq> FR_OK then False else cleaned)
     }
   }"

definition DeleteArchive :: "'s volume \<Rightarrow> ('s, u32) sto" where
  "DeleteArchive ops = do {
     s \<leftarrow> gets id;
     let path = ls_Path s;
     let bytes = ls_DeleteBytes s;
     let crc = ls_DeleteHeaderCrc s;
     (result, info) \<leftarrow> on_vol (vf_stat ops path);
     if result = FR_NO_FILE then ret LM_STATE_STORAGE_NOT_FOUND
     else if result \<noteq> FR_OK \<or> fi_attrib info AND AM_DIR \<noteq> 0 then ret LM_STATE_STORAGE_IO_ERROR
     else if fi_size info \<noteq> ucast bytes then ret LM_STATE_STORAGE_STALE_SELECTION
     else do {
       result \<leftarrow> on_vol (vf_open ops FIL_File path OpenRead);
       if result \<noteq> FR_OK then ret LM_STATE_STORAGE_IO_ERROR
       else do {
         modify (\<lambda>s. s\<lparr>ls_Open := True\<rparr>);
         (result, data) \<leftarrow> on_vol (vf_read ops FIL_File 64);
         let observed = header_of_bytes (overlay data (header_bytes header_zero));
         objsize \<leftarrow> file_size ops FIL_File;
         if result \<noteq> FR_OK then ret LM_STATE_STORAGE_IO_ERROR
         else if objsize \<noteq> ucast bytes \<or>
             word_of_nat (length data) \<noteq> (if bytes < 64 then bytes else 64) \<or>
             ArchiveChecksum observed \<noteq> crc then ret LM_STATE_STORAGE_STALE_SELECTION
         else do {
           result \<leftarrow> on_vol (vf_close ops FIL_File);
           modify (\<lambda>s. s\<lparr>ls_Open := False\<rparr>);
           if result \<noteq> FR_OK then ret LM_STATE_STORAGE_IO_ERROR
           else do {
             result \<leftarrow> on_vol (vf_unlink ops path);
             if result \<noteq> FR_OK then
               ret (if result = FR_NO_FILE then LM_STATE_STORAGE_NOT_FOUND else LM_STATE_STORAGE_IO_ERROR)
             else do {
               cleaned \<leftarrow> delete_sidecar ops 0 True;
               cleaned \<leftarrow> delete_sidecar ops 1 cleaned;
               ret (if cleaned then LM_STATE_STORAGE_OK else LM_STATE_STORAGE_DELETE_CLEANUP)
             }
           }
         }
       }
     }
   }"

section \<open>A pass of the service\<close>

text \<open>The proof a deletion needs: the entry of the completed catalogue page of this session.\<close>

fun find_entry :: "u32 \<Rightarrow> catalog_entry list \<Rightarrow> nat" where
  "find_entry i [] = 0"
| "find_entry i (e # es) = (if ce_id e \<noteq> i then Suc (find_entry i es) else 0)"

definition delete_proof :: "storage_mailbox \<Rightarrow> 's storage \<Rightarrow> bool" where
  "delete_proof m s \<longleftrightarrow>
     (let count = find_entry (ls_FileId s) (take (ls_CatalogCount s) (ls_Catalog s)) in
      ls_CatalogSeq s \<noteq> 0 \<and> m_deleteCatalogSeq m = ls_CatalogSeq s \<and>
      ls_CatalogSession s = ls_Session s \<and> count \<noteq> ls_CatalogCount s \<and>
      m_deleteHeaderCrc m = ls_CatalogIdentity s ! count \<and>
      m_deleteBytes m = ce_bytes (ls_Catalog s ! count))"

definition known_command :: "u32 \<Rightarrow> bool" where
  "known_command c \<longleftrightarrow> c = LM_STATE_STORAGE_EXPORT \<or> c = LM_STATE_STORAGE_IMPORT \<or>
     c = LM_STATE_STORAGE_CATALOG \<or> c = LM_STATE_STORAGE_RENAME \<or> c = LM_STATE_STORAGE_KEY \<or>
     c = LM_STATE_STORAGE_DELETE"

text \<open>The requests' own checks, in the order of the code; each is the status the request is refused
  with, or \<open>LM_STATE_STORAGE_OK\<close>, and the statics it sets.\<close>

definition check_delete :: "storage_mailbox \<Rightarrow> 's storage \<Rightarrow> u32 \<times> 's storage" where
  "check_delete m s =
     (if ls_Command s \<noteq> LM_STATE_STORAGE_DELETE then (LM_STATE_STORAGE_OK, s)
      else if ls_Length s \<noteq> 0 \<or> m_deleteVersion m \<noteq> LM_STATE_STORAGE_VERSION then (LM_STATE_STORAGE_BAD_FILE, s)
      else if \<exists>w \<in> set (take 4 (m_deleteReserved m)). w \<noteq> 0 then (LM_STATE_STORAGE_BAD_FILE, s)
      else if \<not> delete_proof m s then (LM_STATE_STORAGE_STALE_SELECTION, s)
      else (LM_STATE_STORAGE_OK, s\<lparr>ls_DeleteHeaderCrc := m_deleteHeaderCrc m,
        ls_DeleteBytes := m_deleteBytes m\<rparr>))"

text \<open>The seed is copied word by word up to the first reserved word that is not 0.\<close>

fun copy_seed :: "u32 list \<Rightarrow> u32 list \<Rightarrow> u32 list \<Rightarrow> bool \<times> u32 list" where
  "copy_seed (r # rs) (w # ws) (o' # old) =
     (if r \<noteq> 0 then (False, o' # old)
      else (let (ok, rest) = copy_seed rs ws old in (ok, w # rest)))"
| "copy_seed _ _ old = (True, old)"

definition check_key :: "storage_mailbox \<Rightarrow> 's storage \<Rightarrow> u32 \<times> 's storage" where
  "check_key m s =
     (if ls_Command s \<noteq> LM_STATE_STORAGE_KEY then (LM_STATE_STORAGE_OK, s)
      else if ls_FileId s \<noteq> 0 \<or> ls_Length s \<noteq> 0 then (LM_STATE_STORAGE_BAD_FILE, s)
      else (let (ok, seed) = copy_seed (m_keySeedReserved m) (m_keySeed m) (ls_RequestSeed s)
            in (if ok then LM_STATE_STORAGE_OK else LM_STATE_STORAGE_BAD_FILE, s\<lparr>ls_RequestSeed := seed\<rparr>)))"

definition check_name :: "storage_mailbox \<Rightarrow> 's storage \<Rightarrow> u32 \<times> 's storage" where
  "check_name m s =
     (if ls_Command s = LM_STATE_STORAGE_EXPORT \<or> ls_Command s = LM_STATE_STORAGE_RENAME
      then (if LmStateNameValid (m_requestName m) then LM_STATE_STORAGE_OK else LM_STATE_STORAGE_BAD_FILE,
            s\<lparr>ls_RequestName := m_requestName m\<rparr>)
      else (LM_STATE_STORAGE_OK, s))"

definition check_export :: "storage_mailbox \<Rightarrow> 's storage \<Rightarrow> u32 \<times> 's storage" where
  "check_export m s =
     (if ls_Command s \<noteq> LM_STATE_STORAGE_EXPORT then (LM_STATE_STORAGE_OK, s)
      else (let s = s\<lparr>ls_Header := m_header m\<rparr> in
        if \<not> ValidHeader (ls_Header s) \<or> ls_Length s \<noteq> ah_payloadSize (ls_Header s)
        then (LM_STATE_STORAGE_BAD_FILE, s)
        else (ArchiveIdentityStatus s (ls_Header s), s)))"

definition take_request :: "storage_mailbox \<Rightarrow> 's storage \<Rightarrow> 's storage" where
  "take_request m s = s\<lparr>ls_Seq := m_requestSeq m, ls_Session := m_processSession m,
     ls_Command := m_command m, ls_FileId := m_archiveId m, ls_RequestId := m_archiveId m,
     ls_Length := m_payloadSize m, ls_Offset := 0\<rparr>"

text \<open>The checks of phase 0, composed: the first refusal wins and later checks do not run.\<close>

definition then_check :: "u32 \<times> 's storage \<Rightarrow> ('s storage \<Rightarrow> u32 \<times> 's storage) \<Rightarrow> u32 \<times> 's storage" where
  "then_check r f = (if fst r \<noteq> LM_STATE_STORAGE_OK then r else f (snd r))"

definition check_request :: "'s storage \<Rightarrow> u32 \<times> 's storage" where
  "check_request s0 =
     (let m = ls_mbox s0; s = take_request m s0 in
      if \<not> ls_Enabled s then (LM_STATE_STORAGE_UNAVAILABLE, s)
      else if \<not> known_command (ls_Command s) \<or>
         (ls_FileId s = 0 \<and> ls_Command s \<noteq> LM_STATE_STORAGE_CATALOG \<and> ls_Command s \<noteq> LM_STATE_STORAGE_KEY) \<or>
         ls_FileId s > LM_STATE_STORAGE_MAX_ID then (LM_STATE_STORAGE_BAD_FILE, s)
      else then_check (then_check (then_check (check_delete m s) (check_key m)) (check_name m)) (check_export m))"

definition ServiceRequest :: "'s volume \<Rightarrow> ('s, unit) sto" where
  "ServiceRequest ops = do {
     r \<leftarrow> gets check_request;
     modify (\<lambda>s. snd r);
     if fst r \<noteq> LM_STATE_STORAGE_OK then Finish ops (fst r)
     else modify (\<lambda>s. s\<lparr>ls_Phase := 1\<rparr>)
   }"

text \<open>Phase 1, one definition for each command.  The identifier search of an export takes one step
  per pass: an occupied identifier is left for the next pass to try its successor.\<close>

definition next_id :: "'s volume \<Rightarrow> ('s, unit) sto" where
  "next_id ops = do {
     modify (\<lambda>s. s\<lparr>ls_FileId := ls_FileId s + 1\<rparr>);
     i \<leftarrow> gets ls_FileId;
     if i > LM_STATE_STORAGE_MAX_ID then Finish ops LM_STATE_STORAGE_FULL else ret ()
   }"

definition StartCatalog :: "'s volume \<Rightarrow> ('s, unit) sto" where
  "StartCatalog ops = do {
     modify (\<lambda>s. s\<lparr>ls_CatalogCount := 0, ls_CatalogMore := 0, ls_Length := 0, ls_CatalogSeq := 0,
       ls_CatalogSession := 0, ls_Catalog := replicate 8 (entry_zero),
       ls_CatalogIdentity := replicate 8 0\<rparr>);
     dir \<leftarrow> gets ls_Directory;
     result \<leftarrow> on_vol (vf_opendir ops DIR_Catalog dir);
     if result \<noteq> FR_OK then Finish ops LM_STATE_STORAGE_IO_ERROR
     else modify (\<lambda>s. s\<lparr>ls_DirectoryOpen := True, ls_Phase := 6\<rparr>)
   }"

definition StartRename :: "'s volume \<Rightarrow> ('s, unit) sto" where
  "StartRename ops = do {
     modify (\<lambda>s. s\<lparr>ls_Length := 0\<rparr>);
     path \<leftarrow> gets ls_Path;
     (result, info) \<leftarrow> on_vol (vf_stat ops path);
     if result \<noteq> FR_OK \<or> fi_attrib info AND AM_DIR \<noteq> 0 then
       Finish ops (if result = FR_NO_FILE then LM_STATE_STORAGE_NOT_FOUND else LM_STATE_STORAGE_IO_ERROR)
     else do {
       result \<leftarrow> on_vol (vf_open ops FIL_File path OpenRead);
       if result \<noteq> FR_OK then Finish ops LM_STATE_STORAGE_IO_ERROR
       else do {
         modify (\<lambda>s. s\<lparr>ls_Open := True\<rparr>);
         (result, data) \<leftarrow> on_vol (vf_read ops FIL_File 64);
         modify (\<lambda>s. s\<lparr>ls_Header := header_of_bytes (overlay data (header_bytes (ls_Header s)))\<rparr>);
         header \<leftarrow> gets ls_Header;
         objsize \<leftarrow> file_size ops FIL_File;
         if result \<noteq> FR_OK then Finish ops LM_STATE_STORAGE_IO_ERROR
         else if length data \<noteq> 64 \<or> \<not> ValidHeader header \<or> objsize \<noteq> archive_size header
         then Finish ops LM_STATE_STORAGE_BAD_FILE
         else do {
           result \<leftarrow> on_vol (vf_close ops FIL_File);
           modify (\<lambda>s. s\<lparr>ls_Open := False\<rparr>);
           if result \<noteq> FR_OK then Finish ops LM_STATE_STORAGE_IO_ERROR
           else do {
             i \<leftarrow> gets ls_FileId;
             written \<leftarrow> WriteName ops i (ArchiveChecksum header);
             Finish ops (if written then LM_STATE_STORAGE_OK else LM_STATE_STORAGE_IO_ERROR)
           }
         }
       }
     }
   }"

definition opened :: "('s, unit) sto" where
  "opened = modify (\<lambda>s. s\<lparr>ls_Open := True, ls_Phase := 2\<rparr>)"

text \<open>The two name records of the candidate identifier, the second only where the first is absent.\<close>

definition stat_names :: "'s volume \<Rightarrow> ('s, fresult) sto" where
  "stat_names ops = do {
     modify (\<lambda>s. s\<lparr>ls_Temporary := name_path (ls_Directory s) (ls_FileId s) 0\<rparr>);
     temporary \<leftarrow> gets ls_Temporary;
     (result, info) \<leftarrow> on_vol (vf_stat ops temporary);
     if result \<noteq> FR_NO_FILE then ret result
     else do {
       modify (\<lambda>s. s\<lparr>ls_Temporary := name_path (ls_Directory s) (ls_FileId s) 1\<rparr>);
       temporary \<leftarrow> gets ls_Temporary;
       (result, info) \<leftarrow> on_vol (vf_stat ops temporary);
       ret result
     }
   }"

definition StartExport :: "'s volume \<Rightarrow> ('s, unit) sto" where
  "StartExport ops = do {
     path \<leftarrow> gets ls_Path;
     (result, info) \<leftarrow> on_vol (vf_stat ops path);
     if result = FR_OK then next_id ops
     else if result \<noteq> FR_NO_FILE then Finish ops LM_STATE_STORAGE_IO_ERROR
     else do {
       result \<leftarrow> stat_names ops;
       if result = FR_OK then next_id ops
       else if result \<noteq> FR_NO_FILE then Finish ops LM_STATE_STORAGE_IO_ERROR
       else do {
         modify (\<lambda>s. s\<lparr>ls_Temporary := archive_temporary (ls_Directory s) (ls_FileId s)\<rparr>);
         temporary \<leftarrow> gets ls_Temporary;
         result \<leftarrow> on_vol (vf_open ops FIL_File temporary OpenCreateNew);
         if result = FR_EXIST then next_id ops
         else if result \<noteq> FR_OK then Finish ops LM_STATE_STORAGE_IO_ERROR
         else opened
       }
     }
   }"

definition StartImport :: "'s volume \<Rightarrow> ('s, unit) sto" where
  "StartImport ops = do {
     path \<leftarrow> gets ls_Path;
     result \<leftarrow> on_vol (vf_open ops FIL_File path OpenRead);
     if result \<noteq> FR_OK then
       Finish ops (if result = FR_NO_FILE then LM_STATE_STORAGE_NOT_FOUND else LM_STATE_STORAGE_IO_ERROR)
     else opened
   }"

definition ServiceStart :: "'s volume \<Rightarrow> ('s, unit) sto" where
  "ServiceStart ops = do {
     command \<leftarrow> gets ls_Command;
     if command = LM_STATE_STORAGE_KEY then do { status \<leftarrow> EnsureKey ops; Finish ops status }
     else if command = LM_STATE_STORAGE_CATALOG then StartCatalog ops
     else do {
       modify (\<lambda>s. s\<lparr>ls_Path := archive_path (ls_Directory s) (ls_FileId s)\<rparr>);
       if command = LM_STATE_STORAGE_DELETE then do { status \<leftarrow> DeleteArchive ops; Finish ops status }
       else if command = LM_STATE_STORAGE_RENAME then StartRename ops
       else if command = LM_STATE_STORAGE_EXPORT then StartExport ops
       else StartImport ops
     }
   }"

text \<open>Phase 2: the header, written or read.\<close>

definition ExportHeader :: "'s volume \<Rightarrow> ('s, unit) sto" where
  "ExportHeader ops = do {
     header \<leftarrow> gets ls_Header;
     (result, done) \<leftarrow> on_vol (vf_write ops FIL_File (header_bytes header));
     if result \<noteq> FR_OK \<or> done \<noteq> 64 then Finish ops LM_STATE_STORAGE_IO_ERROR
     else modify (\<lambda>s. s\<lparr>ls_Phase := 3\<rparr>)
   }"

definition ImportHeader :: "'s volume \<Rightarrow> ('s, unit) sto" where
  "ImportHeader ops = do {
     (result, data) \<leftarrow> on_vol (vf_read ops FIL_File 64);
     modify (\<lambda>s. s\<lparr>ls_Header := header_of_bytes (overlay data (header_bytes (ls_Header s)))\<rparr>);
     header \<leftarrow> gets ls_Header;
     objsize \<leftarrow> file_size ops FIL_File;
     if result = FR_OK \<and> length data = 64 \<and> (\<not> ValidHeader header \<or> objsize \<noteq> archive_size header)
     then Finish ops LM_STATE_STORAGE_BAD_FILE
     else do {
       modify (\<lambda>s. s\<lparr>ls_Length := ah_payloadSize header\<rparr>);
       if result \<noteq> FR_OK \<or> length data \<noteq> 64 then Finish ops LM_STATE_STORAGE_IO_ERROR
       else do {
         status \<leftarrow> gets (\<lambda>s. ArchiveIdentityStatus s header);
         command \<leftarrow> gets ls_Command;
         if command = LM_STATE_STORAGE_IMPORT \<and> status \<noteq> LM_STATE_STORAGE_OK then Finish ops status
         else modify (\<lambda>s. s\<lparr>ls_Phase := 3\<rparr>)
       }
     }
   }"

definition ServiceHeader :: "'s volume \<Rightarrow> ('s, unit) sto" where
  "ServiceHeader ops = do {
     command \<leftarrow> gets ls_Command;
     if command = LM_STATE_STORAGE_EXPORT then ExportHeader ops else ImportHeader ops
   }"

text \<open>Phase 3: one slice of the payload between the file and the snapshot memory.\<close>

definition snapshot_read :: "(nat \<Rightarrow> u8) \<Rightarrow> nat \<Rightarrow> nat \<Rightarrow> bytes" where
  "snapshot_read mem offset n = map mem [offset..<offset + n]"

definition snapshot_write :: "nat \<Rightarrow> bytes \<Rightarrow> (nat \<Rightarrow> u8) \<Rightarrow> nat \<Rightarrow> u8" where
  "snapshot_write offset data mem i =
     (if offset \<le> i \<and> i < offset + length data then data ! (i - offset) else mem i)"

definition slice_count :: "'s storage \<Rightarrow> u32" where
  "slice_count s =
     (let count = ls_Length s - ls_Offset s in
      if count > LM_STATE_STORAGE_SLICE then LM_STATE_STORAGE_SLICE else count)"

definition slice_done :: "'s volume \<Rightarrow> u32 \<Rightarrow> fresult \<Rightarrow> nat \<Rightarrow> ('s, unit) sto" where
  "slice_done ops count result done =
     (if result \<noteq> FR_OK \<or> done \<noteq> unat count then Finish ops LM_STATE_STORAGE_IO_ERROR
      else modify (\<lambda>s. s\<lparr>ls_Offset := ls_Offset s + count,
        ls_Phase := (if ls_Offset s + count = ls_Length s then 4 else ls_Phase s)\<rparr>))"

definition ServiceSlice :: "'s volume \<Rightarrow> ('s, unit) sto" where
  "ServiceSlice ops = do {
     command \<leftarrow> gets ls_Command;
     count \<leftarrow> gets slice_count;
     offset \<leftarrow> gets (\<lambda>s. unat (ls_Offset s));
     if command = LM_STATE_STORAGE_EXPORT then do {
       mem \<leftarrow> gets ls_snapshot;
       (result, done) \<leftarrow> on_vol (vf_write ops FIL_File (snapshot_read mem offset (unat count)));
       slice_done ops count result done
     } else do {
       (result, data) \<leftarrow> on_vol (vf_read ops FIL_File (unat count));
       modify (\<lambda>s. s\<lparr>ls_snapshot := snapshot_write offset data (ls_snapshot s)\<rparr>);
       slice_done ops count result (length data)
     }
   }"

text \<open>Phase 4: a completed transfer is made durable and closed.\<close>

definition ServiceClose :: "'s volume \<Rightarrow> ('s, unit) sto" where
  "ServiceClose ops = do {
     command \<leftarrow> gets ls_Command;
     result \<leftarrow> (if command = LM_STATE_STORAGE_EXPORT then on_vol (vf_sync ops FIL_File) else ret FR_OK);
     if result \<noteq> FR_OK then Finish ops LM_STATE_STORAGE_IO_ERROR
     else do {
       result \<leftarrow> on_vol (vf_close ops FIL_File);
       modify (\<lambda>s. s\<lparr>ls_Open := False\<rparr>);
       if result \<noteq> FR_OK then Finish ops LM_STATE_STORAGE_IO_ERROR
       else modify (\<lambda>s. s\<lparr>ls_Phase := 5\<rparr>)
     }
   }"

text \<open>Phase 5: the archive takes its name, or the header goes to the game.\<close>

definition ServiceCommit :: "'s volume \<Rightarrow> ('s, unit) sto" where
  "ServiceCommit ops = do {
     command \<leftarrow> gets ls_Command;
     header \<leftarrow> gets ls_Header;
     if command = LM_STATE_STORAGE_EXPORT then do {
       result \<leftarrow> RenameArchive ops;
       if result \<noteq> FR_OK then Finish ops LM_STATE_STORAGE_IO_ERROR
       else do {
         i \<leftarrow> gets ls_FileId;
         named \<leftarrow> WriteName ops i (ArchiveChecksum header);
         if \<not> named then Finish ops LM_STATE_STORAGE_NAME_ERROR else Finish ops LM_STATE_STORAGE_OK
       }
     } else do {
       mbox_put (\<lambda>m. m\<lparr>m_header := header\<rparr>);
       Finish ops LM_STATE_STORAGE_OK
     }
   }"

text \<open>The request a pass finds in the mailbox is no longer the one in progress.\<close>

definition superseded :: "'s storage \<Rightarrow> bool" where
  "superseded s \<longleftrightarrow> ls_Phase s \<noteq> 0 \<and>
     (m_processSession (ls_mbox s) \<noteq> ls_Session s \<or> m_requestSeq (ls_mbox s) \<noteq> ls_Seq s \<or>
      m_command (ls_mbox s) \<noteq> ls_Command s \<or> m_archiveId (ls_mbox s) \<noteq> ls_RequestId s)"

definition LmStateStorageService :: "'s volume \<Rightarrow> ('s, unit) sto" where
  "LmStateStorageService ops = do {
     gone \<leftarrow> gets superseded;
     phase \<leftarrow> gets ls_Phase;
     if gone then Finish ops LM_STATE_STORAGE_CANCELLED
     else if phase = 0 then ServiceRequest ops
     else if phase = 6 then CatalogService ops
     else if phase = 1 then ServiceStart ops
     else if phase = 2 then ServiceHeader ops
     else if phase = 3 then ServiceSlice ops
     else if phase = 4 then ServiceClose ops
     else ServiceCommit ops
   }"

end
