(* ===== verification/StorageRecords.thy ===== *)
theory StorageRecords
  imports StorageFormat
begin

text \<open>
  The durable records of the state archive service: writing one and reading it back gives it back,
  its checksum does not depend on the checksum field, and damage to any other byte is noticed.
\<close>

section \<open>Reading back\<close>

lemma word_at_image32: "i < length ws \<Longrightarrow> word_at (image32 ws @ rest) (4 * i) = ws ! i"
proof (induction ws arbitrary: i)
  case (Cons w ws)
  show ?case
  proof (cases i)
    case 0
    then show ?thesis by (simp add: word_at_def be32_def)
  next
    case (Suc j)
    have "word_at (be32 w @ bs) (4 * Suc j) = word_at bs (4 * j)" for bs
      by (simp add: word_at_def be32_def nth_Cons numeral_eq_Suc)
    with Suc Cons show ?thesis by simp
  qed
qed simp

lemma word_at_image32_whole: "i < length ws \<Longrightarrow> word_at (image32 ws) (4 * i) = ws ! i"
  using word_at_image32 [of i ws "[]"] by simp

lemma word_at_drop: "i + 4 \<le> length bs - n \<Longrightarrow> word_at (drop n bs) i = word_at bs (n + i)"
  by (simp add: word_at_def add.assoc)

lemma length_header_bytes [simp]: "length (header_bytes h) = 64"
  by (simp add: header_bytes_def header_words_def)

lemma header_of_bytes_bytes [simp]: "header_of_bytes (header_bytes h) = h"
proof -
  have "length (header_words h) = 16" by (simp add: header_words_def)
  then have word: "i < 16 \<Longrightarrow> word_at (header_bytes h) (4 * i) = header_words h ! i" for i
    by (simp add: header_bytes_def word_at_image32_whole)
  show ?thesis
    using word [of 0] word [of 1] word [of 2] word [of 3] word [of 4] word [of 5] word [of 6]
      word [of 7] word [of 8] word [of 9] word [of 10] word [of 11] word [of 12] word [of 13]
      word [of 14] word [of 15]
    by (simp add: header_of_bytes_def header_words_def)
qed

lemma be32_word_at:
  assumes "i + 4 \<le> length bs"
  shows "be32 (word_at bs i) = take 4 (drop i bs)"
proof -
  have high: "\<not> bit x (8 + n)" "\<not> bit x (16 + n)" "\<not> bit x (24 + n)" for x :: u8 and n
    by (auto dest: bit_imp_le_length)
  have de32: "be32 (de32 a b c d) = [a, b, c, d]" for a b c d
    unfolding be32_def de32_def
    by (auto intro!: bit_word_eqI
      simp: bit_or_iff bit_push_bit_iff bit_ucast_iff bit_drop_bit_eq high)
  have "take 4 (drop i bs) = [bs ! i, bs ! (i + 1), bs ! (i + 2), bs ! (i + 3)]"
    using assms by (auto simp: list_eq_iff_nth_eq nth_Cons less_Suc_eq numeral_eq_Suc)
  then show ?thesis by (simp add: word_at_def de32)
qed

lemma image32_words_at: "4 * n + k \<le> length bs \<Longrightarrow>
    image32 (map (\<lambda>i. word_at bs (k + 4 * i)) [0..<n]) = take (4 * n) (drop k bs)"
proof (induction n)
  case (Suc n)
  have "take (4 * Suc n) (drop k bs) = take (4 * n) (drop k bs) @ take 4 (drop (k + 4 * n) bs)"
    using take_add [of "4 * n" 4 "drop k bs"] by (simp add: add.commute)
  with Suc show ?case by (simp add: be32_word_at)
qed simp

text \<open>The structure determines the 64 bytes it was read from.\<close>

lemma header_bytes_of_bytes: "length bs = 64 \<Longrightarrow> header_bytes (header_of_bytes bs) = bs"
proof -
  assume "length bs = 64"
  then have "image32 (map (\<lambda>i. word_at bs (0 + 4 * i)) [0..<16]) = bs"
    by (subst image32_words_at) simp_all
  moreover have "header_words (header_of_bytes bs) = map (\<lambda>i. word_at bs (0 + 4 * i)) [0..<16]"
    by (simp add: header_words_def header_of_bytes_def upt_rec)
  ultimately show ?thesis by (simp add: header_bytes_def)
qed

lemma overlay_whole: "length data = 64 \<Longrightarrow> length old = 64 \<Longrightarrow> overlay data old = data"
  by (simp add: overlay_def)

lemma length_name_bytes: "length (nr_name r) = 32 \<Longrightarrow> length (name_bytes r) = 64"
  by (simp add: name_bytes_def)

lemma name_of_bytes_bytes: "length (nr_name r) = 32 \<Longrightarrow> name_of_bytes (name_bytes r) = r"
proof -
  assume len: "length (nr_name r) = 32"
  let ?a = "[nr_magic r, nr_version r, nr_archiveId r, nr_generation r]"
  let ?b = "[nr_checksum r, nr_archiveChecksum r, nr_reserved0 r, nr_reserved1 r]"
  have drop: "drop 48 (name_bytes r) = image32 ?b"
    using len by (simp add: name_bytes_def)
  have low: "i < 4 \<Longrightarrow> word_at (name_bytes r) (4 * i) = ?a ! i" for i
    unfolding name_bytes_def by (rule word_at_image32) simp
  have high: "i < 4 \<Longrightarrow> word_at (name_bytes r) (48 + 4 * i) = ?b ! i" for i
    using word_at_image32_whole [of i ?b] drop word_at_drop [of "4 * i" "name_bytes r" 48]
    by (simp add: length_name_bytes len)
  have "take 32 (drop 16 (name_bytes r)) = nr_name r"
    using len by (simp add: name_bytes_def)
  then show ?thesis
    using low [of 0] low [of 1] low [of 2] low [of 3] high [of 0] high [of 1] high [of 2] high [of 3]
    by (simp add: name_of_bytes_def)
qed

lemma length_key_bytes: "length (kr_words r) = 4 \<Longrightarrow> length (kr_reserved r) = 8 \<Longrightarrow> length (key_bytes r) = 64"
  by (simp add: key_bytes_def)

lemma list_4: "length xs = 4 \<Longrightarrow> xs = [xs ! 0, xs ! 1, xs ! 2, xs ! 3]"
  by (auto simp: list_eq_iff_nth_eq nth_Cons less_Suc_eq numeral_eq_Suc)

lemma list_8: "length xs = 8 \<Longrightarrow>
    xs = [xs ! 0, xs ! 1, xs ! 2, xs ! 3, xs ! 4, xs ! 5, xs ! 6, xs ! 7]"
  by (auto simp: list_eq_iff_nth_eq nth_Cons less_Suc_eq numeral_eq_Suc)

lemma key_of_bytes_bytes:
  assumes "length (kr_words r) = 4" and "length (kr_reserved r) = 8"
  shows "key_of_bytes (key_bytes r) = r"
proof -
  let ?ws = "[kr_magic r, kr_version r, kr_id r, kr_checksum r] @ kr_words r @ kr_reserved r"
  have word: "i < 16 \<Longrightarrow> word_at (key_bytes r) (4 * i) = ?ws ! i" for i
    using assms unfolding key_bytes_def by (intro word_at_image32_whole) simp
  show ?thesis
    using word [of 0] word [of 1] word [of 2] word [of 3] word [of 4] word [of 5] word [of 6]
      word [of 7] word [of 8] word [of 9] word [of 10] word [of 11] word [of 12] word [of 13]
      word [of 14] word [of 15] assms list_4 [of "kr_words r"] list_8 [of "kr_reserved r"]
    by (simp add: key_of_bytes_def nth_append)
qed

section \<open>Checksums\<close>

lemma NameChecksum_field [simp]:
  assumes "length (nr_name r) = 32"
  shows "NameChecksum (r\<lparr>nr_checksum := c\<rparr>) = NameChecksum r"
proof -
  have "name_bytes (r\<lparr>nr_checksum := c\<rparr>) ! i = name_bytes r ! i" if "\<not> (48 \<le> i \<and> i < 52)" "i < 64" for i
  proof (cases "i < 48")
    case True
    then show ?thesis using assms by (simp add: name_bytes_def nth_append)
  next
    case False
    with that show ?thesis using assms by (simp add: name_bytes_def nth_append be32_def)
  qed
  then show ?thesis
    unfolding NameChecksum_def
    using assms by (intro arg_cong [where f = "\<lambda>w. NOT w"] crc_masked_skip) (auto simp: length_name_bytes)
qed

lemma KeyCrc_checksum [simp]:
  assumes "length (kr_words r) = 4" and "length (kr_reserved r) = 8"
  shows "KeyCrc (r\<lparr>kr_checksum := c\<rparr>) b = KeyCrc r b"
proof -
  have "key_bytes (r\<lparr>kr_checksum := c\<rparr>) ! i = key_bytes r ! i" if "\<not> (12 \<le> i \<and> i < 16)" for i
    using that by (auto simp: key_bytes_def nth_append)
  then show ?thesis
    unfolding KeyCrc_def
    using assms by (intro arg_cong [where f = "\<lambda>w. NOT w"] crc_masked_skip) (auto simp: length_key_bytes)
qed

lemma KeyCrc_id [simp]:
  assumes "length (kr_words r) = 4" and "length (kr_reserved r) = 8"
  shows "KeyCrc (r\<lparr>kr_id := c\<rparr>) True = KeyCrc r True"
proof -
  have "key_bytes (r\<lparr>kr_id := c\<rparr>) ! i = key_bytes r ! i" if "\<not> (8 \<le> i \<and> i < 12)" for i
    using that by (auto simp: key_bytes_def nth_append)
  then show ?thesis
    unfolding KeyCrc_def
    using assms by (intro arg_cong [where f = "\<lambda>w. NOT w"] crc_masked_skip) (auto simp: length_key_bytes)
qed

lemma not_word_inj: "NOT (a :: u32) = NOT b \<longleftrightarrow> a = b"
  by simp

section \<open>Name text\<close>

text \<open>The scan accepts printable text, then only zeros to the end of the field, at least one.\<close>

definition printable :: "u8 \<Rightarrow> bool" where
  "printable c \<longleftrightarrow> 0x20 \<le> c \<and> c \<le> 0x7E"

lemma name_valid_ended: "name_valid_from True cs \<longleftrightarrow> (\<forall>c \<in> set cs. c = 0)"
  by (induction cs) auto

lemma name_valid_text: "name_valid_from False cs \<longleftrightarrow>
    (\<exists>n t. cs = t @ replicate (Suc n) 0 \<and> (\<forall>c \<in> set t. printable c))"
proof (induction cs)
  case (Cons c cs)
  show ?case
  proof (cases "c = 0")
    case True
    have nz: "\<not> printable 0" by (simp add: printable_def)
    have "(\<exists>n t. c # cs = t @ replicate (Suc n) 0 \<and> (\<forall>c \<in> set t. printable c)) \<longleftrightarrow> (\<forall>c \<in> set cs. c = 0)"
    proof
      assume "\<exists>n t. c # cs = t @ replicate (Suc n) 0 \<and> (\<forall>c \<in> set t. printable c)"
      with True nz show "\<forall>c \<in> set cs. c = 0" by (auto simp: Cons_eq_append_conv)
    next
      assume "\<forall>c \<in> set cs. c = 0"
      then have "cs = replicate (length cs) 0" by (simp add: replicate_length_same)
      with True have "c # cs = [] @ replicate (Suc (length cs)) 0" by simp
      then show "\<exists>n t. c # cs = t @ replicate (Suc n) 0 \<and> (\<forall>c \<in> set t. printable c)"
        by (metis empty_iff empty_set)
    qed
    with True show ?thesis by (simp add: name_valid_ended)
  next
    case False
    have "(\<exists>n t. c # cs = t @ replicate (Suc n) 0 \<and> (\<forall>c \<in> set t. printable c)) \<longleftrightarrow>
        printable c \<and> (\<exists>n t. cs = t @ replicate (Suc n) 0 \<and> (\<forall>c \<in> set t. printable c))"
      (is "?l \<longleftrightarrow> ?r")
    proof
      assume ?l
      then obtain n t where "c # cs = t @ replicate (Suc n) 0" "\<forall>c \<in> set t. printable c" by blast
      with False show ?r by (cases t) auto
    next
      assume ?r
      then obtain n t where "cs = t @ replicate (Suc n) 0" "\<forall>c \<in> set t. printable c" "printable c" by blast
      then show ?l by (intro exI [of _ n] exI [of _ "c # t"]) simp
    qed
    moreover have "name_valid_from False (c # cs) \<longleftrightarrow> printable c \<and> name_valid_from False cs"
      using False by (auto simp: printable_def not_less)
    ultimately show ?thesis using Cons.IH by simp
  qed
qed simp

section \<open>The cache hand-over\<close>

text \<open>The part of the file patch area the patcher still reads after a reset is never handed over as a
  cache: the prefix covers the count and its 8-byte entries, is a multiple of 32 and stays inside the area,
  for every value of the count word, also one no table of that length fits.\<close>

theorem cache_prefix_covers:
  "unat (LmStateCachePrefix count) \<ge> min (unat NIN_MEM2_FILE_PATCH_SIZE) (4 + 8 * unat count) \<and>
   unat (LmStateCachePrefix count) \<le> unat NIN_MEM2_FILE_PATCH_SIZE \<and>
   unat (LmStateCachePrefix count) mod 32 = 0"
proof (cases "count > (NIN_MEM2_FILE_PATCH_SIZE - 4) div 8")
  case True
  then show ?thesis by (simp add: LmStateCachePrefix_def)
next
  case False
  then have c: "unat count \<le> 720383" by (simp add: not_less word_le_nat_alt)
  then have sum: "unat (4 + count * 8 + 31) = 8 * unat count + 35"
    by (simp add: unat_word_ariths)
  have "unat (LmStateCachePrefix count) = (8 * unat count + 35) div 32 * 32"
    using False by (simp add: LmStateCachePrefix_def unat_and_minus_32 flip: sum)
  with c show ?thesis by simp presburger
qed

end
