(* ===== verification/StorageVolume.thy ===== *)
theory StorageVolume
  imports StateStorage StorageRecords
begin

text \<open>
  The state archive service against the file system's laws: the paths it uses and that they differ,
  which files each routine may touch, and what the routines for names and keys read and leave.
\<close>

section \<open>Paths\<close>

lemma archive_path_eq: "archive_path dir i = dir @ ''/archive_'' @ dec8 i @ ''.lms''"
  by (simp add: archive_path_def sprintf_def)

lemma archive_temporary_eq: "archive_temporary dir i = dir @ ''/archive_'' @ dec8 i @ ''.tmp''"
  by (simp add: archive_temporary_def sprintf_def)

lemma name_path_eq: "name_path dir i k = dir @ ''/archive_'' @ dec8 i @ ''.name'' @ dec k"
  by (simp add: name_path_def sprintf_def)

lemma name_temporary_eq: "name_temporary dir i k = dir @ ''/archive_'' @ dec8 i @ ''.name'' @ dec k @ ''.tmp''"
  by (simp add: name_temporary_def sprintf_def)

lemma key_path_eq: "key_path dir k = dir @ ''/archive_key'' @ dec k @ ''.bin''"
  by (simp add: key_path_def sprintf_def)

lemma key_temporary_eq: "key_temporary dir k = dir @ ''/archive_key'' @ dec k @ ''.tmp''"
  by (simp add: key_temporary_def sprintf_def)

lemmas path_eqs = archive_path_eq archive_temporary_eq name_path_eq name_temporary_eq key_path_eq
  key_temporary_eq

text \<open>The last character tells the durable files apart from all others.\<close>

lemma dec_last: "isdigit (last (dec k))"
  using length_dec_pos [of k] by (intro dec_digits [of _ k] last_in_set) auto

lemma dec_nonempty [simp]: "dec k \<noteq> []"
  using length_dec_pos [of k] by auto

lemma path_last [simp]:
  "last (archive_path dir i) = CHR ''s''"
  "last (archive_temporary dir i) = CHR ''p''"
  "last (name_temporary dir i k) = CHR ''p''"
  "last (name_path dir i k) = last (dec k)"
  "last (key_path dir k) = CHR ''n''"
  "last (key_temporary dir k) = CHR ''p''"
  by (simp_all add: path_eqs)

lemma dec_last_cases [simp]: "last (dec k) \<noteq> CHR ''s''" "last (dec k) \<noteq> CHR ''p''" "last (dec k) \<noteq> CHR ''n''"
  using dec_last [of k] by (auto simp: isdigit_def less_eq_char_def)

lemmas dec_last_sym [simp] = dec_last_cases [symmetric]

lemma last_differs: "last p \<noteq> last q \<Longrightarrow> p \<noteq> q"
  by auto

lemma archive_path_differs [simp]:
  "archive_path d i \<noteq> archive_temporary d' j" "archive_path d i \<noteq> name_path d' j k"
  "archive_path d i \<noteq> name_temporary d' j k" "archive_path d i \<noteq> key_path d' k"
  "archive_path d i \<noteq> key_temporary d' k"
  by (rule last_differs, simp)+

lemma key_path_differs [simp]:
  "key_path d k \<noteq> archive_temporary d' j" "key_path d k \<noteq> name_path d' j l"
  "key_path d k \<noteq> name_temporary d' j l" "key_path d k \<noteq> key_temporary d' l"
  "key_path d k \<noteq> archive_path d' j"
  by (rule last_differs, simp)+

lemma name_path_differs [simp]:
  "name_path d j l \<noteq> archive_temporary d' i" "name_path d j l \<noteq> name_temporary d' i k"
  "name_path d j l \<noteq> key_temporary d' k" "name_path d j l \<noteq> key_path d' k" "name_path d j l \<noteq> archive_path d' i"
  by (rule last_differs, simp)+

lemma archive_path_inj [simp]: "archive_path d i = archive_path d j \<longleftrightarrow> i = j"
  by (auto simp: archive_path_eq dest: dec8_inj)

lemma dec8_length_le: "length (dec8 n) \<le> 10"
proof -
  have "unat n < 10 ^ 10" using unat_u32_less [of n] by simp
  then have "length (dec n) \<le> 10"
    using digits_rev_length [of "unat n" 10] by (simp add: dec_def)
  then show ?thesis by (simp add: dec8_def)
qed

lemma dec_01 [simp]: "dec 0 = ''0''" "dec 1 = ''1''"
  by (simp_all add: dec_def digits_rev.simps lower_digits_def)

lemma path_take [simp]:
  assumes "length dir \<le> 31"
  shows "take 71 (archive_path dir i) = archive_path dir i"
    and "take 71 (archive_temporary dir i) = archive_temporary dir i"
    and "k \<in> {0, 1} \<Longrightarrow> take 71 (name_path dir i k) = name_path dir i k"
    and "k \<in> {0, 1} \<Longrightarrow> take 71 (name_temporary dir i k) = name_temporary dir i k"
    and "k \<in> {0, 1} \<Longrightarrow> take 71 (key_path dir k) = key_path dir k"
    and "k \<in> {0, 1} \<Longrightarrow> take 71 (key_temporary dir k) = key_temporary dir k"
  using assms dec8_length_le [of i] by (auto simp: path_eqs)

section \<open>Frames\<close>

text \<open>Only the volume changes, and there the files that satisfy \<open>P\<close> stay as they are.\<close>

definition vol_only :: "('s \<Rightarrow> string \<Rightarrow> bytes option) \<Rightarrow> (string \<Rightarrow> bool) \<Rightarrow> 's storage \<Rightarrow> 's storage \<Rightarrow> bool" where
  "vol_only view P s s' \<longleftrightarrow>
     (\<exists>v. s' = s\<lparr>ls_vol := v\<rparr> \<and> (\<forall>p. P p \<longrightarrow> view v p = view (ls_vol s) p))"

text \<open>Anything may change but the directory's name and the files that satisfy \<open>P\<close> and exist.\<close>

definition files_kept :: "('s \<Rightarrow> string \<Rightarrow> bytes option) \<Rightarrow> (string \<Rightarrow> bool) \<Rightarrow> 's storage \<Rightarrow> 's storage \<Rightarrow> bool" where
  "files_kept view P s s' \<longleftrightarrow>
     ls_Directory s' = ls_Directory s \<and>
     (\<forall>p b. P p \<longrightarrow> view (ls_vol s) p = Some b \<longrightarrow> view (ls_vol s') p = Some b)"

interpretation vol_only: frame "vol_only view P" for view :: "'s \<Rightarrow> string \<Rightarrow> bytes option" and P
proof
  show "vol_only view P s s" for s
    by (auto simp: vol_only_def intro: exI [of _ "ls_vol s"])
  show "vol_only view P s t \<Longrightarrow> vol_only view P t u \<Longrightarrow> vol_only view P s u" for s t u
    by (auto simp: vol_only_def)
qed

interpretation files_kept: frame "files_kept view P" for view :: "'s \<Rightarrow> string \<Rightarrow> bytes option" and P
  by unfold_locales (auto simp: files_kept_def)

lemmas vol_only_rules = vol_only.bind vol_only.cond vol_only.prod vol_only.return vol_only.gets

lemmas files_kept_rules = files_kept.bind files_kept.cond files_kept.prod files_kept.return files_kept.gets

lemma vol_only_files_kept: "vol_only view P s s' \<Longrightarrow> files_kept view P s s'"
  by (auto simp: vol_only_def files_kept_def)

lemma vol_onlyI: "(\<And>p. P p \<Longrightarrow> view v p = view (ls_vol s) p) \<Longrightarrow> vol_only view P s (s\<lparr>ls_vol := v\<rparr>)"
  by (auto simp: vol_only_def)

lemma vol_only_view: "vol_only view P s s' \<Longrightarrow> P p \<Longrightarrow> view (ls_vol s') p = view (ls_vol s) p"
  by (auto simp: vol_only_def)

lemma vol_only_fields:
  "vol_only view P s s' \<Longrightarrow> ls_Directory s' = ls_Directory s \<and> ls_RequestName s' = ls_RequestName s \<and>
     ls_Command s' = ls_Command s \<and> ls_FileId s' = ls_FileId s \<and> ls_KeyStatus s' = ls_KeyStatus s \<and>
     ls_PersistentKey s' = ls_PersistentKey s \<and> ls_Enabled s' = ls_Enabled s \<and>
     ls_KeyUnsupported s' = ls_KeyUnsupported s \<and> ls_RequestSeed s' = ls_RequestSeed s"
  by (auto simp: vol_only_def)

lemma vol_only_trans:
  assumes "vol_only view P s t" and "vol_only view P' t u" and "\<And>p. P'' p \<Longrightarrow> P p \<and> P' p"
  shows "vol_only view P'' s u"
proof -
  obtain v w where "t = s\<lparr>ls_vol := v\<rparr>" "u = t\<lparr>ls_vol := w\<rparr>"
    and "\<And>p. P p \<Longrightarrow> view v p = view (ls_vol s) p" "\<And>p. P' p \<Longrightarrow> view w p = view (ls_vol t) p"
    using assms(1,2) by (auto simp: vol_only_def)
  with assms(3) show ?thesis
    unfolding vol_only_def by (intro exI [of _ w]) simp
qed

lemma vol_only_mono: "vol_only view P s t \<Longrightarrow> (\<And>p. P' p \<Longrightarrow> P p) \<Longrightarrow> vol_only view P' s t"
  by (auto simp: vol_only_def)

lemma wp_on_vol [simp]: "wp (on_vol c) Q s = wp c (\<lambda>x v. Q x (s\<lparr>ls_vol := v\<rparr>)) (ls_vol s)"
  by (simp add: on_vol_def)

lemma wp_mbox_put [simp]: "wp (mbox_put f) Q s = Q () (s\<lparr>ls_mbox := f (ls_mbox s)\<rparr>)"
  by (simp add: mbox_put_def)

lemma wp_file_size [simp]: "wp (file_size ops h) Q s = Q (vf_size ops h (ls_vol s)) s"
  by (simp add: file_size_def)

lemma keeps_on_vol: "(\<And>v x v'. run_state c v = (x, v') \<Longrightarrow> \<forall>p. P p \<longrightarrow> view v' p = view v p) \<Longrightarrow>
    keeps (vol_only view P) (on_vol c)"
  unfolding keeps_def wp_on_vol by (intro allI wpI vol_onlyI) blast

section \<open>The routines for names\<close>

text \<open>The intact name record of an archive in copy \<open>k\<close>, as the volume holds it, and how the loop of
  \<open>ReadNames\<close> merges it.\<close>

definition stored_name :: "(string \<Rightarrow> bytes option) \<Rightarrow> string \<Rightarrow> u32 \<Rightarrow> u32 \<Rightarrow> u32 \<Rightarrow> name_record option" where
  "stored_name files dir i archiveChecksum k =
     (case files (name_path dir i k) of
        None \<Rightarrow> None
      | Some b \<Rightarrow> if length b = 64 \<and> name_intact i archiveChecksum (name_of_bytes b)
          then Some (name_of_bytes b) else None)"

definition newer_name :: "name_record option \<Rightarrow> u32 \<Rightarrow> name_record \<times> u32 \<Rightarrow> name_record \<times> u32" where
  "newer_name r k latest =
     (case r of None \<Rightarrow> latest
      | Some record \<Rightarrow> if nr_generation record > nr_generation (fst latest) then (record, k) else latest)"

definition latest_name :: "(string \<Rightarrow> bytes option) \<Rightarrow> string \<Rightarrow> u32 \<Rightarrow> u32 \<Rightarrow> name_record \<times> u32" where
  "latest_name files dir i archiveChecksum =
     newer_name (stored_name files dir i archiveChecksum 1) 1
       (newer_name (stored_name files dir i archiveChecksum 0) 0 (name_zero, 1))"

lemma word64_64: "n < 2 ^ 64 \<Longrightarrow> (word_of_nat n :: u64) = 64 \<longleftrightarrow> n = 64"
proof -
  assume "n < 2 ^ 64"
  then have "unat (word_of_nat n :: u64) = n" by (simp add: unsigned_of_nat take_bit_nat_eq_self)
  then show ?thesis by (auto simp: word_eq_iff_unsigned [where ?'a = nat])
qed

context fat_volume
begin

lemma sync_same: "run_state (vf_sync ops h) s = (x, s') \<Longrightarrow> view s' = view s"
  using sync_view by blast

lemma close_same: "run_state (vf_close ops h) s = (x, s') \<Longrightarrow> view s' = view s"
  using close_view by blast

lemma open_read_keeps: "keeps (vol_only view P) (on_vol (vf_open ops h p OpenRead))"
  by (intro keeps_on_vol) (simp add: open_read_view)

lemma open_keeps: "\<not> P p \<Longrightarrow> keeps (vol_only view P) (on_vol (vf_open ops h p md))"
  by (intro keeps_on_vol) (metis open_frame)

lemma read_keeps: "keeps (vol_only view P) (on_vol (vf_read ops h n))"
  by (intro keeps_on_vol) (metis read_view)

lemma close_keeps: "keeps (vol_only view P) (on_vol (vf_close ops h))"
  by (intro keeps_on_vol) (metis close_view)

lemma sync_keeps: "keeps (vol_only view P) (on_vol (vf_sync ops h))"
  by (intro keeps_on_vol) (metis sync_view)

lemma stat_keeps: "keeps (vol_only view P) (on_vol (vf_stat ops p))"
  by (intro keeps_on_vol) (metis stat_view)

lemma unlink_keeps: "\<not> P p \<Longrightarrow> keeps (vol_only view P) (on_vol (vf_unlink ops p))"
  by (intro keeps_on_vol) (metis unlink_frame)

lemma rename_keeps: "\<not> P (take 71 p) \<Longrightarrow> \<not> P (take 71 q) \<Longrightarrow> keeps (vol_only view P) (RenamePaths ops p q)"
  unfolding RenamePaths_def by (intro keeps_on_vol) (metis rename_frame)

lemma opendir_keeps: "keeps (vol_only view P) (on_vol (vf_opendir ops h p))"
  by (intro keeps_on_vol) (metis opendir_view)

lemma readdir_keeps: "keeps (vol_only view P) (on_vol (vf_readdir ops h))"
  by (intro keeps_on_vol) (metis readdir_view)

lemma closedir_keeps: "keeps (vol_only view P) (on_vol (vf_closedir ops h))"
  by (intro keeps_on_vol) (metis closedir_view)

lemma mkdir_keeps: "keeps (vol_only view P) (on_vol (vf_mkdir ops p))"
  by (intro keeps_on_vol) (metis mkdir_view)

lemmas quiet_calls = open_read_keeps read_keeps close_keeps sync_keeps stat_keeps opendir_keeps
  readdir_keeps closedir_keeps mkdir_keeps

lemma file_size_keeps: "keeps (vol_only view P) (file_size ops h)"
  unfolding file_size_def by (rule vol_only.gets)

lemma ReadNames_copy_keeps: "keeps (vol_only view P) (ReadNames_copy ops i crc k acc)"
  unfolding ReadNames_copy_def Let_def
  by (cases acc) (simp only: prod.case, intro vol_only_rules quiet_calls file_size_keeps)

lemma ReadNames_keeps: "keeps (vol_only view P) (ReadNames ops i crc)"
  unfolding ReadNames_def by (intro vol_only.bind ReadNames_copy_keeps)

lemma ReadKeyCopy_keeps: "keeps (vol_only view P) (ReadKeyCopy ops k)"
  unfolding ReadKeyCopy_def Let_def
  by (intro vol_only_rules quiet_calls file_size_keeps)

text \<open>A read-only open, read and close of a whole record, as the three routines that read one do it.\<close>

lemma record_read:
  assumes opened: "run_state (vf_open ops h p OpenRead) v = (FR_OK, v1)"
    and rd: "run_state (vf_read ops h n) v1 = ((FR_OK, d), v2)"
    and closed: "run_state (vf_close ops h) v2 = (x, v3)"
  obtains b where "view v p = Some b" "length b < 2 ^ 64" "d = take n b"
    "vf_size ops h v1 = word_of_nat (length b)" "vf_size ops h v2 = vf_size ops h v1"
    "vf_size ops h v3 = vf_size ops h v1"
proof -
  obtain b where b: "view v p = Some b" "length b < 2 ^ 64" "vf_size ops h v1 = word_of_nat (length b)"
    using open_read_found [OF opened] by blast
  have "view v1 = view v" "hfile v1 h = Some p" "hpos v1 h = 0"
    using open_read_view [OF opened] open_handle [OF opened] by simp_all
  with b have "d = take n b"
    using read_data [OF rd, of p b] by simp
  with b show thesis
    using that read_view [OF rd, where h' = h] close_view [OF closed, where h' = h] by simp
qed

lemma ReadNames_copy_spec:
  "wp (ReadNames_copy ops i crc k (r, l, c)) (\<lambda>(r', l', c') s'. r' \<longrightarrow> r \<and>
     (l', c') = newer_name (stored_name (view (ls_vol s)) (ls_Directory s) i crc k) k (l, c)) s"
  unfolding ReadNames_copy_def
  by (auto simp: Let_def stored_name_def newer_name_def word64_64 intro!: wpI
    dest!: open_read_absent elim!: record_read)

text \<open>A reading without an input error finds the newest intact record.\<close>

lemma ReadNames_spec:
  "wp (ReadNames ops i crc) (\<lambda>(readable, latest, copy) s'. vol_only view (\<lambda>p. True) s s' \<and>
     (readable \<longrightarrow> (latest, copy) = latest_name (view (ls_vol s)) (ls_Directory s) i crc)) s"
proof -
  have both: "wp (ReadNames_copy ops i crc k acc) (\<lambda>r s'. vol_only view (\<lambda>p. True) s s' \<and>
      (fst r \<longrightarrow> fst acc \<and> snd r = newer_name (stored_name (view (ls_vol s)) (ls_Directory s) i crc k) k (snd acc))) s"
    for k acc and s :: "'s storage"
    using ReadNames_copy_spec [of i crc k "fst acc" "fst (snd acc)" "snd (snd acc)" s]
    by (intro keeps_wp_conj [OF ReadNames_copy_keeps]) (auto elim!: wp_mono)
  have kept: "view (ls_vol t) = view (ls_vol s) \<and> ls_Directory t = ls_Directory s"
    if "vol_only view (\<lambda>p. True) s t" for s t :: "'s storage"
    using that by (auto simp: vol_only_def fun_eq_iff)
  show ?thesis
    unfolding ReadNames_def wp_bind
    apply (rule wp_mono [OF both])
    apply (rule wp_mono [OF both])
    by (auto simp: latest_name_def dest: kept intro: vol_only.trans)
qed

lemma write_temporary_spec:
  assumes "length record = 64"
  shows "wp (write_temporary ops t record) (\<lambda>ok s'. vol_only view (\<lambda>p. p \<noteq> t) s s' \<and>
    (ok \<longrightarrow> view (ls_vol s') t = Some record)) s"
proof -
  have opened: "view v1 p = view v p" if "run_state (vf_open ops h t md) v = (x, v1)" "p \<noteq> t" for h md v x v1 p
    using open_frame that by blast
  have written: "view v2 p = view v p"
    if "run_state (vf_open ops h t md) v = (FR_OK, v1)" "run_state (vf_write ops h d) v1 = (rw, v2)" "p \<noteq> t"
    for h md v v1 d rw v2 p
    using open_frame [OF that(1,3)] open_handle [OF that(1)] write_frame [OF that(2), of p] that(3) by simp
  have filled: "view v2 t = Some record"
    if "run_state (vf_open ops h t OpenCreateAlways) v = (FR_OK, v1)"
      "run_state (vf_write ops h record) v1 = ((FR_OK, 64), v2)" for h v v1 v2
    using write_data [OF that(2), of t "[]"] open_handle [OF that(1)] open_create [OF that(1)] assms by simp
  show ?thesis
    unfolding write_temporary_def
    by (auto intro!: wpI vol_onlyI dest!: sync_same close_same intro: opened written filled)
qed

text \<open>
  \<open>WriteName\<close> replaces the copy that is not the newest one.  Whatever fails on the way, that copy is
  as it was, absent, or the complete new record, and no other durable file has changed.
\<close>

lemma latest_copy: "snd (latest_name files dir i crc) \<in> {0, 1}"
  by (auto simp: latest_name_def newer_name_def split: option.splits)

lemma rename_spec:
  assumes "p \<noteq> q" and "take 71 p = p" and "take 71 q = q"
  shows "wp (RenamePaths ops p q) (\<lambda>x s'. vol_only view (\<lambda>r. r \<noteq> p \<and> r \<noteq> q) s s' \<and>
    view (ls_vol s') q \<in> {view (ls_vol s) q, view (ls_vol s) p} \<and>
    (x = FR_OK \<longrightarrow> view (ls_vol s') q = view (ls_vol s) p \<and> view (ls_vol s') p = None)) s"
  using assms unfolding RenamePaths_def
  by (auto intro!: wpI vol_onlyI dest: rename_content rename_ok rename_frame)

lemma unlink_spec: "wp (on_vol (vf_unlink ops p)) (\<lambda>x s'. vol_only view (\<lambda>q. q \<noteq> p) s s' \<and>
    view (ls_vol s') p \<in> {view (ls_vol s) p, None} \<and>
    (x = FR_OK \<or> x = FR_NO_FILE \<longrightarrow> view (ls_vol s') p = None)) s"
  by (auto intro!: wpI vol_onlyI dest: unlink_content unlink_ok unlink_absent unlink_frame)

lemma replace_copy_spec:
  assumes "path \<noteq> temporary" and "take 71 path = path" and "take 71 temporary = temporary"
    and "length record = 64"
  shows "wp (replace_copy ops path temporary record) (\<lambda>ok s'.
    vol_only view (\<lambda>p. p \<noteq> path \<and> p \<noteq> temporary) s s' \<and>
    view (ls_vol s') path \<in> {view (ls_vol s) path, None, Some record} \<and>
    (ok \<longrightarrow> view (ls_vol s') path = Some record)) s"
  unfolding replace_copy_def wp_bind
proof (rule wp_mono [OF write_temporary_spec [OF assms(4)]], elim conjE)
  fix ok s1
  assume s1: "vol_only view (\<lambda>p. p \<noteq> temporary) s s1"
    and written: "ok \<longrightarrow> view (ls_vol s1) temporary = Some record"
  let ?rest = "on_vol (vf_unlink ops path) \<bind> (\<lambda>result. if result \<noteq> FR_OK \<and> result \<noteq> FR_NO_FILE then ret False
    else RenamePaths ops temporary path \<bind> (\<lambda>result. ret (result = FR_OK)))"
  let ?Q = "\<lambda>ok s'. vol_only view (\<lambda>p. p \<noteq> path \<and> p \<noteq> temporary) s s' \<and>
    view (ls_vol s') path \<in> {view (ls_vol s) path, None, Some record} \<and>
    (ok \<longrightarrow> view (ls_vol s') path = Some record)"
  have same: "view (ls_vol s1) path = view (ls_vol s) path"
    using vol_only_view [OF s1] assms(1) by blast
  have "wp ?rest ?Q s1" if ok
    unfolding wp_bind
  proof (rule wp_mono [OF unlink_spec], elim conjE)
    fix x s2
    assume s2: "vol_only view (\<lambda>q. q \<noteq> path) s1 s2"
      and gone: "view (ls_vol s2) path \<in> {view (ls_vol s1) path, None}"
        "x = FR_OK \<or> x = FR_NO_FILE \<longrightarrow> view (ls_vol s2) path = None"
    have frame: "vol_only view (\<lambda>p. p \<noteq> path \<and> p \<noteq> temporary) s s2"
      by (rule vol_only_trans [OF s1 s2]) simp
    have tmp: "view (ls_vol s2) temporary = Some record"
      using vol_only_view [OF s2] assms(1) written that by metis
    show "wp (if x \<noteq> FR_OK \<and> x \<noteq> FR_NO_FILE then ret False
        else RenamePaths ops temporary path \<bind> (\<lambda>result. ret (result = FR_OK))) ?Q s2"
    proof (cases "x \<noteq> FR_OK \<and> x \<noteq> FR_NO_FILE")
      case True
      with frame gone same show ?thesis by auto
    next
      case False
      have "wp (RenamePaths ops temporary path) (\<lambda>x. ?Q (x = FR_OK)) s2"
        using gone(2) False tmp
        by (intro wp_mono [OF rename_spec [OF assms(1) [symmetric] assms(3,2)]])
          (auto intro: vol_only_trans [OF frame])
      with False show ?thesis by auto
    qed
  qed
  moreover have "vol_only view (\<lambda>p. p \<noteq> path \<and> p \<noteq> temporary) s s1"
    by (rule vol_only_mono [OF s1]) simp
  ultimately show "wp (if \<not> ok then ret False else ?rest) ?Q s1"
    using same by simp
qed

lemma WriteName_spec:
  fixes s :: "'s storage" and i crc :: u32
  defines "dir \<equiv> ls_Directory s" and "latest \<equiv> latest_name (view (ls_vol s)) (ls_Directory s) i crc"
  defines "new \<equiv> next_name i crc (ls_RequestName s) (fst latest)" and "k \<equiv> snd latest XOR 1"
  assumes dir: "length (ls_Directory s) \<le> 31" and new: "length (name_bytes new) = 64"
  shows "wp (WriteName ops i crc) (\<lambda>ok s'.
    vol_only view (\<lambda>p. p \<noteq> name_path dir i k \<and> p \<noteq> name_temporary dir i k) s s' \<and>
    view (ls_vol s') (name_path dir i k) \<in> {view (ls_vol s) (name_path dir i k), None, Some (name_bytes new)} \<and>
    (ok \<longrightarrow> nr_generation (fst latest) \<noteq> 0xFFFFFFFF \<and>
      view (ls_vol s') (name_path dir i k) = Some (name_bytes new))) s"
proof -
  have k: "k \<in> {0, 1}"
    using latest_copy [of "view (ls_vol s)" "ls_Directory s" i crc] by (auto simp: k_def latest_def)
  have paths: "take 71 (name_path dir i k) = name_path dir i k"
      "take 71 (name_temporary dir i k) = name_temporary dir i k"
    using k dir by (auto simp: dir_def)
  have rest: "wp (replace_copy ops (name_path dir i k) (name_temporary dir i k) (name_bytes new)) (\<lambda>ok s'.
      vol_only view (\<lambda>p. p \<noteq> name_path dir i k \<and> p \<noteq> name_temporary dir i k) s s' \<and>
      view (ls_vol s') (name_path dir i k) \<in> {view (ls_vol s) (name_path dir i k), None, Some (name_bytes new)} \<and>
      (ok \<longrightarrow> view (ls_vol s') (name_path dir i k) = Some (name_bytes new))) s1"
    if s1: "vol_only view (\<lambda>p. True) s s1" for s1
    by (rule wp_mono [OF replace_copy_spec [OF _ paths new]])
      (auto simp: vol_only_view [OF s1] intro: vol_only_trans [OF s1])
  show ?thesis
    unfolding WriteName_def wp_bind
    apply (rule wp_mono [OF ReadNames_spec])
    subgoal premises read for r s1
    proof -
      obtain readable latest' copy where r: "r = (readable, latest', copy)" by (cases r)
      have s1: "vol_only view (\<lambda>p. True) s s1" using read r by simp
      have same: "ls_Directory s1 = dir" "ls_RequestName s1 = ls_RequestName s" "vol_only view P s s1" for P
        using vol_only_fields [OF s1] vol_only_mono [OF s1] by (auto simp: dir_def)
      show ?thesis
      proof (cases "readable \<and> nr_generation latest' \<noteq> 0xFFFFFFFF")
        case True
        then have "latest' = fst latest" "copy XOR 1 = k"
          using read r by (auto simp: latest_def k_def dest: arg_cong [where f = fst] arg_cong [where f = snd])
        with True r rest [OF s1] show ?thesis
          by (auto simp: Let_def same new_def elim!: wp_mono)
      next
        case False
        with r same(3) vol_only_view [OF s1] show ?thesis by auto
      qed
    qed
    done
qed

end

section \<open>The routines for the key\<close>

text \<open>A copy of the key as the volume holds it: \<open>ReadKeyCopy\<close> without an input error.  The size test
  of the code is on 32 bits.\<close>

definition stored_key :: "(string \<Rightarrow> bytes option) \<Rightarrow> string \<Rightarrow> u32 \<Rightarrow> u32 \<times> key_record" where
  "stored_key files dir k =
     (case files (key_path dir k) of
        None \<Rightarrow> (LM_STATE_KEY_MISSING, key_zero)
      | Some b \<Rightarrow> if (ucast (word_of_nat (length b) :: u64) :: u32) \<noteq> 64 \<or> length b < 64
          then (LM_STATE_KEY_INVALID, key_zero)
          else (key_status (key_of_bytes (take 64 b)), key_of_bytes (take 64 b)))"

lemma key_zero_lengths [simp]: "length (kr_words key_zero) = 4" "length (kr_reserved key_zero) = 8"
  by (simp_all add: key_zero_def key_of_bytes_def)

lemma key_zero_reserved [simp]: "kr_reserved key_zero = replicate 8 0"
  by (simp add: key_zero_def key_of_bytes_def word_at_def de32_def numeral_eq_Suc)

lemma seed_record_fields [simp]:
  "kr_words (seed_record seed) = seed" "kr_reserved (seed_record seed) = replicate 8 0"
  "kr_magic (seed_record seed) = LM_KEY_FILE_MAGIC" "kr_version (seed_record seed) = 1"
  by (simp_all add: seed_record_def Let_def)

lemma key_bytes_64: "length (kr_words r) = 4 \<Longrightarrow> length (kr_reserved r) = 8 \<Longrightarrow> length (key_bytes r) = 64"
  by (rule length_key_bytes)

lemma seed_record_intact:
  assumes "length seed = 4" and "\<exists>w \<in> set seed. w \<noteq> 0" and "kr_id (seed_record seed) \<noteq> 0"
  shows "key_status (seed_record seed) = LM_STATE_KEY_READY"
proof -
  let ?r = "key_zero\<lparr>kr_magic := LM_KEY_FILE_MAGIC, kr_version := 1, kr_words := seed\<rparr>"
  let ?r' = "?r\<lparr>kr_id := KeyCrc ?r True\<rparr>"
  have r: "seed_record seed = ?r'\<lparr>kr_checksum := KeyCrc ?r' False\<rparr>"
    by (simp add: seed_record_def Let_def)
  have "KeyCrc (seed_record seed) False = KeyCrc ?r' False"
    unfolding r by (rule KeyCrc_checksum) (use assms in simp_all)
  moreover have "KeyCrc (seed_record seed) True = KeyCrc ?r True"
    unfolding r using assms by (subst KeyCrc_checksum; simp only: KeyCrc_id) simp_all
  ultimately show ?thesis
    using assms by (simp add: key_status_def r)
qed

context fat_volume
begin

lemma ReadKeyCopy_spec:
  "wp (ReadKeyCopy ops k) (\<lambda>r s'. fst r = LM_STATE_KEY_IO_ERROR \<or>
     r = stored_key (view (ls_vol s)) (ls_Directory s) k) s"
  unfolding ReadKeyCopy_def
  by (auto simp: Let_def stored_key_def min_def split: if_splits intro!: wpI
    dest!: open_read_absent elim!: record_read)

text \<open>A copy is written only where none is: the rename refuses an existing name.\<close>

lemma rename_new:
  assumes "p \<noteq> q" and "take 71 p = p" and "take 71 q = q"
  shows "wp (RenamePaths ops p q) (\<lambda>x s'. vol_only view (\<lambda>r. r \<noteq> p \<and> r \<noteq> q) s s' \<and>
    (\<forall>b. view (ls_vol s) q = Some b \<longrightarrow> view (ls_vol s') q = Some b \<and> x \<noteq> FR_OK) \<and>
    view (ls_vol s') q \<in> {view (ls_vol s) q, view (ls_vol s) p} \<and>
    (x = FR_OK \<longrightarrow> view (ls_vol s') q = view (ls_vol s) p)) s"
  using assms unfolding RenamePaths_def
  by (auto intro!: wpI vol_onlyI dest: rename_existing rename_content rename_ok rename_frame)

lemma WriteKeyCopy_spec:
  fixes s :: "'s storage"
  defines "path \<equiv> key_path (ls_Directory s)"
  assumes dir: "length (ls_Directory s) \<le> 31" and k: "k \<in> {0, 1}" and len: "length (key_bytes r) = 64"
  shows "wp (WriteKeyCopy ops k r) (\<lambda>ok s'.
    vol_only view (\<lambda>p. p \<noteq> path k \<and> p \<noteq> key_temporary (ls_Directory s) k) s s' \<and>
    (\<forall>b. view (ls_vol s) (path k) = Some b \<longrightarrow> view (ls_vol s') (path k) = Some b) \<and>
    view (ls_vol s') (path k) \<in> {view (ls_vol s) (path k), Some (key_bytes r)} \<and>
    (ok \<longrightarrow> view (ls_vol s') (path k) = Some (key_bytes r))) s"
proof -
  let ?t = "key_temporary (ls_Directory s) k"
  let ?Q = "\<lambda>ok s'. vol_only view (\<lambda>p. p \<noteq> path k \<and> p \<noteq> ?t) s s' \<and>
    (\<forall>b. view (ls_vol s) (path k) = Some b \<longrightarrow> view (ls_vol s') (path k) = Some b) \<and>
    view (ls_vol s') (path k) \<in> {view (ls_vol s) (path k), Some (key_bytes r)} \<and>
    (ok \<longrightarrow> view (ls_vol s') (path k) = Some (key_bytes r))"
  have differ: "path k \<noteq> ?t" by (simp add: path_def)
  have paths: "take 71 (path k) = path k" "take 71 ?t = ?t"
    using dir k by (auto simp: path_def)
  have rest: "wp (RenamePaths ops ?t (path k)) (\<lambda>x. ?Q (x = FR_OK)) s1"
    if s1: "vol_only view (\<lambda>p. p \<noteq> ?t) s s1" and w: "view (ls_vol s1) ?t = Some (key_bytes r)" for s1
    by (rule wp_mono [OF rename_new [OF differ [symmetric] paths(2,1)]])
      (use vol_only_view [OF s1, of "path k"] differ w in \<open>auto intro: vol_only_trans [OF s1]\<close>)
  have failed: "?Q False s1" if s1: "vol_only view (\<lambda>p. p \<noteq> ?t) s s1" for s1
    using vol_only_view [OF s1, of "path k"] differ by (auto intro: vol_only_mono [OF s1])
  show ?thesis
    unfolding WriteKeyCopy_def path_def [symmetric]
    using rest failed by (auto simp: Let_def path_def intro!: wp_mono [OF write_temporary_spec [OF len]])
qed

end

text \<open>\<open>ResolveKey\<close> computes the key from what the volume holds, or reports an error.\<close>

definition resolved :: "('s \<Rightarrow> string \<Rightarrow> bytes option) \<Rightarrow> 's storage \<Rightarrow> u32 \<times> key_record" where
  "resolved view s =
     (if \<not> ls_Enabled s then (LM_STATE_KEY_UNAVAILABLE, key_zero)
      else if ls_KeyUnsupported s then (LM_STATE_KEY_UNSUPPORTED, key_zero)
      else resolve_copies (stored_key (view (ls_vol s)) (ls_Directory s) 0)
        (stored_key (view (ls_vol s)) (ls_Directory s) 1))"

text \<open>The identification lines of the mailbox and the game's request lines.\<close>

definition mail_kept :: "storage_mailbox \<Rightarrow> storage_mailbox \<Rightarrow> bool" where
  [simp]: "mail_kept m m' \<longleftrightarrow> m_magic m' = m_magic m \<and> m_version m' = m_version m \<and>
     m_requestName m' = m_requestName m \<and> m_keySeed m' = m_keySeed m \<and>
     m_keySeedReserved m' = m_keySeedReserved m"

text \<open>Only the volume and the published key change.\<close>

definition key_only :: "('s \<Rightarrow> string \<Rightarrow> bytes option) \<Rightarrow> (string \<Rightarrow> bool) \<Rightarrow> 's storage \<Rightarrow> 's storage \<Rightarrow> bool" where
  "key_only view P s s' \<longleftrightarrow>
     (\<exists>v st key (m :: storage_mailbox). s' = s\<lparr>ls_KeyStatus := st, ls_PersistentKey := key, ls_mbox := m, ls_vol := v\<rparr> \<and>
       mail_kept (ls_mbox s) m \<and>
       (\<forall>p. P p \<longrightarrow> view v p = view (ls_vol s) p))"

lemma key_onlyI: "(\<And>p. P p \<Longrightarrow> view v p = view (ls_vol s) p) \<Longrightarrow>
    mail_kept (ls_mbox s) m \<Longrightarrow>
    key_only view P s (s\<lparr>ls_KeyStatus := st, ls_PersistentKey := key, ls_mbox := m, ls_vol := v\<rparr>)"
  by (auto simp: key_only_def)

lemma key_only_trans:
  assumes "key_only view P s t" and "key_only view P' t u" and "\<And>p. P'' p \<Longrightarrow> P p \<and> P' p"
  shows "key_only view P'' s u"
proof -
  obtain v w st st' key key' and m m' :: storage_mailbox where
    "t = s\<lparr>ls_KeyStatus := st, ls_PersistentKey := key, ls_mbox := m, ls_vol := v\<rparr>"
    "u = t\<lparr>ls_KeyStatus := st', ls_PersistentKey := key', ls_mbox := m', ls_vol := w\<rparr>"
    and same: "mail_kept (ls_mbox s) m'"
    and "\<And>p. P p \<Longrightarrow> view v p = view (ls_vol s) p" "\<And>p. P' p \<Longrightarrow> view w p = view (ls_vol t) p"
    using assms(1,2) by (auto simp: key_only_def)
  then have u: "u = s\<lparr>ls_KeyStatus := st', ls_PersistentKey := key', ls_mbox := m', ls_vol := w\<rparr>"
    and "\<And>p. P p \<and> P' p \<Longrightarrow> view w p = view (ls_vol s) p"
    by simp_all
  with assms(3) show ?thesis unfolding u by (intro key_onlyI same) blast
qed

lemma key_only_refl: "key_only view P s s"
  using key_onlyI [of P view "ls_vol s" s, where st = "ls_KeyStatus s" and key = "ls_PersistentKey s" and m = "ls_mbox s"]
  by simp

interpretation key_only: frame "key_only view P" for view :: "'s \<Rightarrow> string \<Rightarrow> bytes option" and P
  by unfold_locales (auto intro: key_only_refl key_only_trans)

lemma key_only_view: "key_only view P s s' \<Longrightarrow> P p \<Longrightarrow> view (ls_vol s') p = view (ls_vol s) p"
  by (auto simp: key_only_def)

lemma key_only_mono: "key_only view P s t \<Longrightarrow> (\<And>p. P' p \<Longrightarrow> P p) \<Longrightarrow> key_only view P' s t"
  unfolding key_only_def by blast

lemma key_only_fields:
  "key_only view P s s' \<Longrightarrow> ls_Directory s' = ls_Directory s \<and> ls_Enabled s' = ls_Enabled s \<and>
     ls_KeyUnsupported s' = ls_KeyUnsupported s \<and> ls_RequestSeed s' = ls_RequestSeed s \<and>
     ls_Phase s' = ls_Phase s \<and> ls_Command s' = ls_Command s \<and> ls_Seq s' = ls_Seq s \<and>
     ls_Session s' = ls_Session s \<and> ls_RequestId s' = ls_RequestId s \<and>
     mail_kept (ls_mbox s) (ls_mbox s')"
  by (auto simp: key_only_def)

lemma key_onlyR:
  assumes "s'\<lparr>ls_KeyStatus := ls_KeyStatus s, ls_PersistentKey := ls_PersistentKey s,
      ls_mbox := ls_mbox s\<rparr> = s\<lparr>ls_vol := ls_vol s'\<rparr>"
    and "\<And>p. P p \<Longrightarrow> view (ls_vol s') p = view (ls_vol s) p"
    and "mail_kept (ls_mbox s) (ls_mbox s')"
  shows "key_only view P s s'"
proof -
  have "s' = s\<lparr>ls_KeyStatus := ls_KeyStatus s', ls_PersistentKey := ls_PersistentKey s',
      ls_mbox := ls_mbox s', ls_vol := ls_vol s'\<rparr>"
    using assms(1) by (cases s; cases s') simp
  then show ?thesis
    unfolding key_only_def using assms(2-) by blast
qed

lemma vol_only_key_only: "vol_only view P s s' \<Longrightarrow> key_only view P s s'"
proof -
  assume "vol_only view P s s'"
  then obtain v where s': "s' = s\<lparr>ls_vol := v\<rparr>" and v: "\<And>p. P p \<Longrightarrow> view v p = view (ls_vol s) p"
    by (auto simp: vol_only_def)
  show ?thesis
    using key_onlyI [of P view v s, where st = "ls_KeyStatus s" and key = "ls_PersistentKey s" and m = "ls_mbox s", OF v] s'
    by simp
qed

lemma resolve_io: "fst A = LM_STATE_KEY_IO_ERROR \<or> fst B = LM_STATE_KEY_IO_ERROR \<Longrightarrow>
    fst (resolve_copies A B) = LM_STATE_KEY_IO_ERROR"
  by (auto simp: resolve_copies_def split: prod.splits)

lemma vol_only_all_view: "vol_only view (\<lambda>p. True) s s' \<Longrightarrow> view (ls_vol s') = view (ls_vol s)"
  by (auto simp: vol_only_def fun_eq_iff)

lemma resolved_cong: "ls_Enabled t = ls_Enabled s \<Longrightarrow> ls_KeyUnsupported t = ls_KeyUnsupported s \<Longrightarrow>
    ls_Directory t = ls_Directory s \<Longrightarrow> view (ls_vol t) = view (ls_vol s) \<Longrightarrow> resolved view t = resolved view s"
  by (simp add: resolved_def)

context fat_volume
begin

lemma key_modify:
  "(\<And>s. (f s)\<lparr>ls_KeyStatus := ls_KeyStatus s, ls_PersistentKey := ls_PersistentKey s, ls_mbox := ls_mbox s\<rparr> = s) \<Longrightarrow>
    (\<And>s. ls_vol (f s) = ls_vol s) \<Longrightarrow> (\<And>s. mail_kept (ls_mbox s) (ls_mbox (f s))) \<Longrightarrow>
    keeps (key_only view P) (modify f)"
  by (rule key_only.modify) (rule key_onlyR, simp_all)

lemma ReadKeyCopy_key_only: "keeps (key_only view P) (ReadKeyCopy ops k)"
proof (rule keepsI)
  fix s x s'
  assume "run_state (ReadKeyCopy ops k) s = (x, s')"
  then show "key_only view P s s'"
    by (intro vol_only_key_only) (rule keepsD [OF ReadKeyCopy_keeps])
qed

lemma PublishKey_key_only: "keeps (key_only view P) PublishKey"
  unfolding PublishKey_def mbox_put_def
  by (intro key_only.bind key_only.gets key_modify) simp_all

lemma ResolveKey_keeps: "keeps (key_only view P) (ResolveKey ops)"
  unfolding ResolveKey_def
  by (intro key_only.bind key_only.gets key_only.cond key_modify ReadKeyCopy_key_only PublishKey_key_only)
    simp_all

lemma ResolveKey_spec:
  "wp (ResolveKey ops) (\<lambda>x s'. key_only view (\<lambda>p. True) s s' \<and>
     (ls_KeyStatus s' = LM_STATE_KEY_IO_ERROR \<or> (ls_KeyStatus s', ls_PersistentKey s') = resolved view s)) s"
proof (rule keeps_wp_conj [OF ResolveKey_keeps])
  show "wp (ResolveKey ops) (\<lambda>x s'. ls_KeyStatus s' = LM_STATE_KEY_IO_ERROR \<or>
      (ls_KeyStatus s', ls_PersistentKey s') = resolved view s) s"
    unfolding ResolveKey_def
    apply (simp add: PublishKey_def resolved_def)
    apply (intro impI)
    apply (rule wp_mono [OF keeps_wp_conj [OF ReadKeyCopy_keeps [of "\<lambda>p. True"] ReadKeyCopy_spec]])
    apply (rule wp_mono [OF ReadKeyCopy_spec])
    subgoal for A s1 B s2
      by (cases "fst A = LM_STATE_KEY_IO_ERROR \<or> fst B = LM_STATE_KEY_IO_ERROR")
        (auto simp: resolve_io vol_only_all_view vol_only_fields)
    done
qed

end

text \<open>
  \<open>EnsureKey\<close> creates the key only where no copy exists; it never replaces a copy, and whatever fails
  on the way each copy is as it was or the complete new record.
\<close>

definition copies_safe :: "('s \<Rightarrow> string \<Rightarrow> bytes option) \<Rightarrow> bytes \<Rightarrow> 's storage \<Rightarrow> 's storage \<Rightarrow> bool" where
  "copies_safe view b s s' \<longleftrightarrow> (\<forall>k \<in> {0, 1}. let p = key_path (ls_Directory s) k in
     view (ls_vol s') p = view (ls_vol s) p \<or> view (ls_vol s) p = None \<and> view (ls_vol s') p = Some b)"

definition key_file :: "string \<Rightarrow> string \<Rightarrow> bool" where
  "key_file dir p \<longleftrightarrow> (\<exists>k \<in> {0, 1}. p = key_path dir k \<or> p = key_temporary dir k)"

lemma key_path_01 [simp]: "key_path d 0 \<noteq> key_path d 1" "key_path d 1 \<noteq> key_path d 0"
  by (simp_all add: key_path_eq)

lemma copies_safe_same: "key_only view (\<lambda>p. True) s s' \<Longrightarrow> copies_safe view b s s'"
  by (simp add: copies_safe_def Let_def key_only_view)

lemma length_seed_record: "length seed = 4 \<Longrightarrow> length (key_bytes (seed_record seed)) = 64"
  by (rule length_key_bytes) simp_all

context fat_volume
begin

text \<open>The two writes of \<open>EnsureKey\<close>, together.\<close>

lemma WriteKeyCopies_spec:
  assumes dir: "length (ls_Directory s) \<le> 31" and len: "length (key_bytes r) = 64"
  shows "wp (WriteKeyCopy ops 0 r \<bind> (\<lambda>first. if first then WriteKeyCopy ops 1 r else ret False))
    (\<lambda>ok s'. vol_only view (\<lambda>p. \<not> key_file (ls_Directory s) p) s s' \<and> copies_safe view (key_bytes r) s s') s"
  unfolding wp_bind
proof (rule wp_mono [OF WriteKeyCopy_spec [OF dir _ len]], simp, elim conjE)
  let ?d = "ls_Directory s"
  fix first s1
  assume s1: "vol_only view (\<lambda>p. p \<noteq> key_path ?d 0 \<and> p \<noteq> key_temporary ?d 0) s s1"
    and kept: "\<forall>b. view (ls_vol s) (key_path ?d 0) = Some b \<longrightarrow> view (ls_vol s1) (key_path ?d 0) = Some b"
    and new: "view (ls_vol s1) (key_path ?d 0) \<in> {view (ls_vol s) (key_path ?d 0), Some (key_bytes r)}"
  have frame: "vol_only view (\<lambda>p. \<not> key_file ?d p) s s1"
    by (rule vol_only_mono [OF s1]) (auto simp: key_file_def)
  have d1: "ls_Directory s1 = ?d" using vol_only_fields [OF s1] by simp
  have other: "view (ls_vol s1) (key_path ?d 1) = view (ls_vol s) (key_path ?d 1)"
    by (rule vol_only_view [OF s1]) simp
  have first_copy: "view (ls_vol s1) (key_path ?d 0) = view (ls_vol s) (key_path ?d 0) \<or>
      view (ls_vol s) (key_path ?d 0) = None \<and> view (ls_vol s1) (key_path ?d 0) = Some (key_bytes r)"
    using kept new by (cases "view (ls_vol s) (key_path ?d 0)") auto
  have stop: "vol_only view (\<lambda>p. \<not> key_file ?d p) s s1 \<and> copies_safe view (key_bytes r) s s1"
    using frame first_copy other by (simp add: copies_safe_def Let_def)
  have dir1: "length (ls_Directory s1) \<le> 31" using dir d1 by simp
  have second: "wp (WriteKeyCopy ops 1 r) (\<lambda>ok s'. vol_only view (\<lambda>p. \<not> key_file ?d p) s s' \<and>
      copies_safe view (key_bytes r) s s') s1"
  proof (rule wp_mono [OF WriteKeyCopy_spec [OF dir1 _ len]], simp, unfold d1, elim conjE)
    fix ok s2
    assume s2: "vol_only view (\<lambda>p. p \<noteq> key_path ?d 1 \<and> p \<noteq> key_temporary ?d 1) s1 s2"
      and kept: "\<forall>b. view (ls_vol s1) (key_path ?d 1) = Some b \<longrightarrow> view (ls_vol s2) (key_path ?d 1) = Some b"
      and new: "view (ls_vol s2) (key_path ?d 1) \<in> {view (ls_vol s1) (key_path ?d 1), Some (key_bytes r)}"
    have "view (ls_vol s2) (key_path ?d 0) = view (ls_vol s1) (key_path ?d 0)"
      by (rule vol_only_view [OF s2]) simp
    moreover have "view (ls_vol s2) (key_path ?d 1) = view (ls_vol s) (key_path ?d 1) \<or>
        view (ls_vol s) (key_path ?d 1) = None \<and> view (ls_vol s2) (key_path ?d 1) = Some (key_bytes r)"
      using kept new other by (cases "view (ls_vol s) (key_path ?d 1)") auto
    moreover have "vol_only view (\<lambda>p. \<not> key_file ?d p) s s2"
      by (rule vol_only_trans [OF s1 s2]) (auto simp: key_file_def)
    ultimately show "vol_only view (\<lambda>p. \<not> key_file ?d p) s s2 \<and> copies_safe view (key_bytes r) s s2"
      using first_copy by (simp add: copies_safe_def Let_def)
  qed
  with stop show "wp (if first then WriteKeyCopy ops 1 r else ret False)
    (\<lambda>ok s'. vol_only view (\<lambda>p. \<not> key_file ?d p) s s' \<and> copies_safe view (key_bytes r) s s') s1"
    by simp
qed

lemma ResolveKey_resolved:
  "wp (ResolveKey ops) (\<lambda>x s'. key_only view (\<lambda>p. True) s s' \<and>
     (ls_KeyStatus s' = LM_STATE_KEY_IO_ERROR \<or> (ls_KeyStatus s', ls_PersistentKey s') = resolved view s')) s"
proof (rule wp_mono [OF ResolveKey_spec], elim conjE, intro conjI)
  fix x :: unit and s' :: "'s storage"
  assume s': "key_only view (\<lambda>p. True) s s'"
    and r: "ls_KeyStatus s' = LM_STATE_KEY_IO_ERROR \<or> (ls_KeyStatus s', ls_PersistentKey s') = resolved view s"
  have "resolved view s' = resolved view s"
    using key_only_fields [OF s'] key_only_view [OF s'] by (intro resolved_cong) (auto simp: fun_eq_iff)
  with r show "ls_KeyStatus s' = LM_STATE_KEY_IO_ERROR \<or> (ls_KeyStatus s', ls_PersistentKey s') = resolved view s'"
    by simp
qed

lemma EnsureKey_spec:
  assumes dir: "length (ls_Directory s) \<le> 31" and seed: "length (ls_RequestSeed s) = 4"
  shows "wp (EnsureKey ops) (\<lambda>status s'. key_only view (\<lambda>p. \<not> key_file (ls_Directory s) p) s s' \<and>
    copies_safe view (key_bytes (seed_record (ls_RequestSeed s))) s s' \<and>
    (status = LM_STATE_STORAGE_OK \<longrightarrow> ls_KeyStatus s' = LM_STATE_KEY_READY \<and>
      resolved view s' = (LM_STATE_KEY_READY, ls_PersistentKey s'))) s"
proof -
  let ?d = "ls_Directory s" and ?seed = "ls_RequestSeed s"
  let ?r = "seed_record ?seed"
  let ?R = "\<lambda>s'. key_only view (\<lambda>p. \<not> key_file ?d p) s s' \<and> copies_safe view (key_bytes ?r) s s'"
  have first: "?R s1" if "key_only view (\<lambda>p. True) s s1" for s1
    using key_only_mono [OF that] copies_safe_same [OF that] by blast
  have written: "wp (WriteKeyCopy ops 0 ?r) (\<lambda>first. wp (if first then WriteKeyCopy ops 1 ?r else ret False)
      (\<lambda>ok s'. ?R s')) s1" if s1: "key_only view (\<lambda>p. True) s s1" for s1
  proof -
    have d: "ls_Directory s1 = ?d" "length (ls_Directory s1) \<le> 31" using key_only_fields [OF s1] dir by simp_all
    have "?R s'" if "vol_only view (\<lambda>p. \<not> key_file ?d p) s1 s'" "copies_safe view (key_bytes ?r) s1 s'" for s'
      using key_only_trans [OF s1 vol_only_key_only [OF that(1)]] that(2) key_only_view [OF s1]
      by (auto simp: copies_safe_def d)
    then show ?thesis
      using WriteKeyCopies_spec [OF d(2) length_seed_record [OF seed]] unfolding wp_bind d(1)
      by (elim wp_mono) auto
  qed
  have last: "wp (ResolveKey ops) (\<lambda>x s'. ?R s' \<and> (ls_KeyStatus s' = LM_STATE_KEY_READY \<longrightarrow>
      resolved view s' = (LM_STATE_KEY_READY, ls_PersistentKey s'))) s1" if s1: "?R s1" for s1
  proof (rule wp_mono [OF ResolveKey_resolved], elim conjE)
    fix x :: unit and s' :: "'s storage"
    assume s': "key_only view (\<lambda>p. True) s1 s'"
      and r: "ls_KeyStatus s' = LM_STATE_KEY_IO_ERROR \<or> (ls_KeyStatus s', ls_PersistentKey s') = resolved view s'"
    have "?R s'"
      using s1 key_only_trans [OF conjunct1 [OF s1] s'] key_only_view [OF s'] by (auto simp: copies_safe_def)
    with r show "?R s' \<and> (ls_KeyStatus s' = LM_STATE_KEY_READY \<longrightarrow>
        resolved view s' = (LM_STATE_KEY_READY, ls_PersistentKey s'))"
      by auto
  qed
  show ?thesis
    unfolding EnsureKey_def wp_bind
    apply (rule wp_mono [OF ResolveKey_resolved], elim conjE)
    subgoal premises run for x s1
    proof -
      have s1: "key_only view (\<lambda>p. True) s s1" using run by blast
      have seed1: "ls_RequestSeed s1 = ?seed" using key_only_fields [OF s1] by simp
      show ?thesis
        using run(2) first [OF s1]
        by (auto simp: Let_def seed1 intro!: wp_mono [OF written [OF s1]] wp_mono [OF last] elim!: wp_mono)
    qed
    done
qed

end

end
