(* ===== verification/StorageService.thy ===== *)
theory StorageService
  imports StorageVolume
begin

text \<open>
  The passes of the state archive service: the invariant that ties the phase of a transfer to the
  files and the snapshot memory, what each pass may do to the durable files, and the steps of the
  service together with the game that writes its requests.
\<close>

section \<open>Finishing\<close>

text \<open>The response to the request in progress has been published.\<close>

definition responded :: "'s storage \<Rightarrow> bool" where
  "responded s \<longleftrightarrow>
     ls_Ack s = ls_Seq s \<and> m_ackSeq (ls_mbox s) = ls_Seq s \<and> m_responseSeq (ls_mbox s) = ls_Seq s \<and>
     m_responseSession (ls_mbox s) = ls_Session s \<and> m_responseCommand (ls_mbox s) = ls_Command s \<and>
     m_responseArchiveId (ls_mbox s) = ls_RequestId s"

definition same_request :: "'s storage \<Rightarrow> 's storage \<Rightarrow> bool" where
  "same_request s s' \<longleftrightarrow> ls_Seq s' = ls_Seq s \<and> ls_Session s' = ls_Session s \<and>
     ls_Command s' = ls_Command s \<and> ls_RequestId s' = ls_RequestId s \<and>
     mail_kept (ls_mbox s) (ls_mbox s')"

text \<open>What finishing leaves alone.\<close>

definition finish_frame :: "('s \<Rightarrow> string \<Rightarrow> bytes option) \<Rightarrow> 's storage \<Rightarrow> 's storage \<Rightarrow> bool" where
  "finish_frame view s s' \<longleftrightarrow> view (ls_vol s') = view (ls_vol s) \<and> ls_Directory s' = ls_Directory s \<and>
     same_request s s' \<and>
     ls_snapshot s' = ls_snapshot s \<and> ls_Header s' = ls_Header s \<and> ls_Length s' = ls_Length s \<and>
     ls_Offset s' = ls_Offset s \<and> ls_FileId s' = ls_FileId s \<and>
     ls_RequestSeed s' = ls_RequestSeed s \<and> ls_RequestName s' = ls_RequestName s \<and>
     ls_Catalog s' = ls_Catalog s \<and> ls_CatalogCount s' = ls_CatalogCount s \<and>
     ls_CatalogIdentity s' = ls_CatalogIdentity s \<and> ls_CatalogMore s' = ls_CatalogMore s \<and>
     ls_Enabled s' = ls_Enabled s \<and>
     ls_KeyStatus s' = ls_KeyStatus s \<and> ls_PersistentKey s' = ls_PersistentKey s \<and>
     m_header (ls_mbox s') = m_header (ls_mbox s) \<and>
     m_catalog (ls_mbox s') = m_catalog (ls_mbox s) \<and> m_catalogCount (ls_mbox s') = m_catalogCount (ls_mbox s) \<and>
     m_catalogMore (ls_mbox s') = m_catalogMore (ls_mbox s)"

text \<open>The status is the one asked for, except that a close that fails turns success into an error.\<close>

definition final_status :: "u32 \<Rightarrow> u32 \<Rightarrow> bool" where
  "final_status status result \<longleftrightarrow>
     result = status \<or> status = LM_STATE_STORAGE_OK \<and> result = LM_STATE_STORAGE_IO_ERROR"

context fat_volume
begin

lemma closedir_same: "run_state (vf_closedir ops h) s = (x, s') \<Longrightarrow> view s' = view s"
  using closedir_view by blast

lemma Finish_spec:
  "wp (Finish ops status) (\<lambda>x s'. ls_Phase s' = 0 \<and> \<not> ls_Open s' \<and> \<not> ls_DirectoryOpen s' \<and>
     responded s' \<and> finish_frame view s s' \<and>
     final_status status (m_status (ls_mbox s')) \<and>
     (\<not> ls_Open s \<and> \<not> ls_DirectoryOpen s \<longrightarrow> m_status (ls_mbox s') = status)) s"
  unfolding Finish_def close_file_def close_directory_def
  by (auto intro!: wpI dest!: close_same closedir_same split: if_splits
    simp: publish_response_def Let_def responded_def same_request_def finish_frame_def final_status_def)

end

section \<open>The invariant\<close>

definition archive_bytes :: "archive_header \<Rightarrow> (nat \<Rightarrow> u8) \<Rightarrow> bytes" where
  "archive_bytes h mem = header_bytes h @ snapshot_read mem 0 (unat (ah_payloadSize h))"

text \<open>
  An export: the request's header is valid; from phase 2 on the paths are the archive's, and the
  temporary file holds the header and the part of the snapshot sent so far.
\<close>

definition export_inv :: "('s \<Rightarrow> string \<Rightarrow> bytes option) \<Rightarrow> ('s \<Rightarrow> nat \<Rightarrow> string option) \<Rightarrow>
    ('s \<Rightarrow> nat \<Rightarrow> nat) \<Rightarrow> 's storage \<Rightarrow> bool" where
  "export_inv view hfile hpos s \<longleftrightarrow>
     ValidHeader (ls_Header s) \<and> ls_Length s = ah_payloadSize (ls_Header s) \<and>
     ls_FileId s \<le> LM_STATE_STORAGE_MAX_ID \<and>
     (ls_Phase s < 3 \<longrightarrow> ls_Offset s = 0) \<and> (ls_Phase s = 3 \<longrightarrow> ls_Offset s < ls_Length s) \<and>
     (ls_Phase s > 3 \<longrightarrow> ls_Offset s = ls_Length s) \<and>
     (ls_Phase s > 1 \<longrightarrow>
        ls_Path s = archive_path (ls_Directory s) (ls_FileId s) \<and>
        ls_Temporary s = archive_temporary (ls_Directory s) (ls_FileId s) \<and>
        (ls_Phase s < 5 \<longrightarrow> ls_Open s \<and> hfile (ls_vol s) FIL_File = Some (ls_Temporary s)) \<and>
        (if ls_Phase s = 2 then hpos (ls_vol s) FIL_File = 0 \<and> view (ls_vol s) (ls_Temporary s) = Some []
         else (ls_Phase s < 5 \<longrightarrow> hpos (ls_vol s) FIL_File = 64 + unat (ls_Offset s)) \<and>
           view (ls_vol s) (ls_Temporary s) =
             Some (header_bytes (ls_Header s) @ snapshot_read (ls_snapshot s) 0 (unat (ls_Offset s)))))"

text \<open>
  An import: the file at the archive's path is the one open; from phase 3 on its header is valid and
  in memory, its size agrees, and the snapshot holds the part received so far.
\<close>

definition import_inv :: "'s volume \<Rightarrow> ('s \<Rightarrow> string \<Rightarrow> bytes option) \<Rightarrow> ('s \<Rightarrow> nat \<Rightarrow> string option) \<Rightarrow>
    ('s \<Rightarrow> nat \<Rightarrow> nat) \<Rightarrow> 's storage \<Rightarrow> bool" where
  "import_inv ops view hfile hpos s \<longleftrightarrow>
     ls_Path s = archive_path (ls_Directory s) (ls_FileId s) \<and>
     (ls_Phase s < 5 \<longrightarrow> ls_Open s \<and> hfile (ls_vol s) FIL_File = Some (ls_Path s)) \<and>
     (\<exists>b. view (ls_vol s) (ls_Path s) = Some b \<and> length b < 2 ^ 64 \<and>
        (if ls_Phase s = 2 then ls_Offset s = 0 \<and> hpos (ls_vol s) FIL_File = 0 \<and>
           vf_size ops FIL_File (ls_vol s) = word_of_nat (length b)
         else ValidHeader (ls_Header s) \<and> take 64 b = header_bytes (ls_Header s) \<and>
           length b = 64 + unat (ls_Length s) \<and> ls_Length s = ah_payloadSize (ls_Header s) \<and>
           ArchiveIdentityStatus s (ls_Header s) = LM_STATE_STORAGE_OK \<and>
           (ls_Phase s < 5 \<longrightarrow> hpos (ls_vol s) FIL_File = 64 + unat (ls_Offset s)) \<and>
           (ls_Phase s = 3 \<longrightarrow> ls_Offset s < ls_Length s) \<and>
           (ls_Phase s > 3 \<longrightarrow> ls_Offset s = ls_Length s) \<and>
           snapshot_read (ls_snapshot s) 0 (unat (ls_Offset s)) = take (unat (ls_Offset s)) (drop 64 b)))"

definition storage_inv :: "'s volume \<Rightarrow> ('s \<Rightarrow> string \<Rightarrow> bytes option) \<Rightarrow> ('s \<Rightarrow> nat \<Rightarrow> string option) \<Rightarrow>
    ('s \<Rightarrow> nat \<Rightarrow> nat) \<Rightarrow> 's storage \<Rightarrow> bool" where
  "storage_inv ops view hfile hpos s \<longleftrightarrow>
     length (ls_Directory s) \<le> 31 \<and> length (ls_RequestSeed s) = 4 \<and>
     ls_Phase s \<le> 6 \<and>
     (ls_Phase s = 6 \<longrightarrow> ls_Command s = LM_STATE_STORAGE_CATALOG) \<and>
     (ls_Phase s = 1 \<longrightarrow> known_command (ls_Command s) \<and> ls_Offset s = 0 \<and> \<not> ls_Open s \<and> \<not> ls_DirectoryOpen s) \<and>
     (1 < ls_Phase s \<and> ls_Phase s < 6 \<longrightarrow>
        (ls_Command s = LM_STATE_STORAGE_EXPORT \<or> ls_Command s = LM_STATE_STORAGE_IMPORT) \<and> \<not> ls_DirectoryOpen s) \<and>
     (ls_Phase s = 5 \<or> ls_Phase s = 0 \<longrightarrow> \<not> ls_Open s \<and> \<not> ls_DirectoryOpen s) \<and>
     (ls_Phase s \<noteq> 0 \<and> ls_Command s \<in> {LM_STATE_STORAGE_EXPORT, LM_STATE_STORAGE_RENAME} \<longrightarrow>
        length (ls_RequestName s) = 32 \<and> LmStateNameValid (ls_RequestName s)) \<and>
     (0 < ls_Phase s \<and> ls_Phase s < 6 \<and> ls_Command s = LM_STATE_STORAGE_EXPORT \<longrightarrow> export_inv view hfile hpos s) \<and>
     (1 < ls_Phase s \<and> ls_Phase s < 6 \<and> ls_Command s = LM_STATE_STORAGE_IMPORT \<longrightarrow> import_inv ops view hfile hpos s)"

lemma storage_inv_idle:
  "length (ls_Directory s) \<le> 31 \<Longrightarrow> length (ls_RequestSeed s) = 4 \<Longrightarrow> ls_Phase s = 0 \<Longrightarrow>
    \<not> ls_Open s \<Longrightarrow> \<not> ls_DirectoryOpen s \<Longrightarrow> storage_inv ops view hfile hpos s"
  by (simp add: storage_inv_def)

lemma storage_invD:
  assumes "storage_inv ops view hfile hpos s"
  shows "length (ls_Directory s) \<le> 31" "length (ls_RequestSeed s) = 4"
    and "0 < ls_Phase s \<Longrightarrow> ls_Phase s < 6 \<Longrightarrow> ls_Command s = LM_STATE_STORAGE_EXPORT \<Longrightarrow>
      export_inv view hfile hpos s \<and> length (ls_RequestName s) = 32 \<and> LmStateNameValid (ls_RequestName s)"
    and "1 < ls_Phase s \<Longrightarrow> ls_Phase s < 6 \<Longrightarrow> ls_Command s \<noteq> LM_STATE_STORAGE_EXPORT \<Longrightarrow>
      ls_Command s = LM_STATE_STORAGE_IMPORT \<and> import_inv ops view hfile hpos s"
    and "1 \<le> ls_Phase s \<Longrightarrow> ls_Phase s < 6 \<Longrightarrow> \<not> ls_DirectoryOpen s"
  using assms by (auto simp: storage_inv_def word_gt_0 order_class.le_less)

text \<open>How the invariant of a transfer is established.\<close>

lemma storage_inv_export:
  assumes "length (ls_Directory s) \<le> 31" "length (ls_RequestSeed s) = 4" "\<not> ls_DirectoryOpen s"
    and "0 < ls_Phase s" "ls_Phase s < 6" "ls_Command s = LM_STATE_STORAGE_EXPORT"
    and "ls_Phase s = 1 \<or> ls_Phase s = 5 \<Longrightarrow> \<not> ls_Open s"
    and "length (ls_RequestName s) = 32" "LmStateNameValid (ls_RequestName s)"
    and "export_inv view hfile hpos s"
  shows "storage_inv ops view hfile hpos s"
  using assms by (auto simp: storage_inv_def export_inv_def known_command_def)

lemma storage_inv_import:
  assumes "length (ls_Directory s) \<le> 31" "length (ls_RequestSeed s) = 4" "\<not> ls_DirectoryOpen s"
    and "1 < ls_Phase s" "ls_Phase s < 6" "ls_Command s = LM_STATE_STORAGE_IMPORT"
    and "ls_Phase s = 5 \<Longrightarrow> \<not> ls_Open s"
    and "import_inv ops view hfile hpos s"
  shows "storage_inv ops view hfile hpos s"
  using assms by (auto simp: storage_inv_def)

section \<open>What a pass may do\<close>

text \<open>The archive a deletion was proved for.\<close>

definition deletable :: "'s storage \<Rightarrow> bytes \<Rightarrow> bool" where
  "deletable s b \<longleftrightarrow> length b = unat (ls_DeleteBytes s) \<and>
     ArchiveChecksum (header_of_bytes (overlay (take 64 b) (header_bytes header_zero))) = ls_DeleteHeaderCrc s"

text \<open>The fate of an archive's file in a pass: it is kept, or created whole by an export, or removed by
  a deletion that was proved for it.\<close>

definition archive_effect :: "('s \<Rightarrow> string \<Rightarrow> bytes option) \<Rightarrow> 's storage \<Rightarrow> u32 \<Rightarrow> 's storage \<Rightarrow> bool" where
  "archive_effect view s i s' \<longleftrightarrow>
     (let p = archive_path (ls_Directory s) i in
      view (ls_vol s') p = view (ls_vol s) p \<or>
      ls_Phase s = 5 \<and> ls_Command s = LM_STATE_STORAGE_EXPORT \<and> i = ls_FileId s \<and>
        view (ls_vol s) p = None \<and>
        view (ls_vol s') p = Some (archive_bytes (ls_Header s) (ls_snapshot s)) \<or>
      ls_Phase s = 1 \<and> ls_Command s = LM_STATE_STORAGE_DELETE \<and> i = ls_FileId s \<and>
        view (ls_vol s') p = None \<and>
        (\<exists>b. view (ls_vol s) p = Some b \<and> deletable s b))"

definition key_effect :: "('s \<Rightarrow> string \<Rightarrow> bytes option) \<Rightarrow> 's storage \<Rightarrow> 's storage \<Rightarrow> bool" where
  "key_effect view s s' \<longleftrightarrow>
     (\<forall>k \<in> {0, 1}. let p = key_path (ls_Directory s) k in
        view (ls_vol s') p = view (ls_vol s) p \<or>
        view (ls_vol s) p = None \<and> ls_Phase s = 1 \<and> ls_Command s = LM_STATE_STORAGE_KEY \<and>
        view (ls_vol s') p = Some (key_bytes (seed_record (ls_RequestSeed s))))"

definition durable :: "string \<Rightarrow> string \<Rightarrow> bool" where
  "durable dir p \<longleftrightarrow> (\<exists>i. p = archive_path dir i) \<or> (\<exists>k \<in> {0, 1}. p = key_path dir k)"

text \<open>The passes a request still needs, at most: one for each identifier an export may still try, one
  for each slice, and one for every other phase.\<close>

definition work :: "'s storage \<Rightarrow> nat" where
  "work s =
     (if ls_Phase s = 1 then
        2000 + (if ls_Command s = LM_STATE_STORAGE_EXPORT then 100000000 - unat (ls_FileId s) else 0)
      else if ls_Phase s = 2 then 1500
      else if ls_Phase s = 3 then 3 + (unat (ls_Length s - ls_Offset s) + 0x3FFF) div 0x4000
      else if ls_Phase s = 4 then 2
      else if ls_Phase s = 5 then 1 else 0)"

text \<open>A state inside a pass: nothing happened yet that the pass may not do.\<close>

definition mid :: "('s \<Rightarrow> string \<Rightarrow> bytes option) \<Rightarrow> 's storage \<Rightarrow> 's storage \<Rightarrow> bool" where
  "mid view s t \<longleftrightarrow> ls_Directory t = ls_Directory s \<and> length (ls_RequestSeed t) = 4 \<and> same_request s t \<and>
     (\<forall>i. archive_effect view s i t) \<and> key_effect view s t"

definition pass_ok :: "'s volume \<Rightarrow> ('s \<Rightarrow> string \<Rightarrow> bytes option) \<Rightarrow> ('s \<Rightarrow> nat \<Rightarrow> string option) \<Rightarrow>
    ('s \<Rightarrow> nat \<Rightarrow> nat) \<Rightarrow> 's storage \<Rightarrow> 's storage \<Rightarrow> bool" where
  "pass_ok ops view hfile hpos s s' \<longleftrightarrow> storage_inv ops view hfile hpos s' \<and> mid view s s' \<and>
     (ls_Phase s' = 0 \<longrightarrow> responded s') \<and>
     (ls_Command s \<noteq> LM_STATE_STORAGE_CATALOG \<longrightarrow> work s' < work s)"

lemma mid_quiet:
  assumes "ls_Directory t = ls_Directory s" and "length (ls_RequestSeed t) = 4" and "same_request s t"
    and "\<And>p. durable (ls_Directory s) p \<Longrightarrow> view (ls_vol t) p = view (ls_vol s) p"
  shows "mid view s t"
  using assms by (auto simp: mid_def archive_effect_def key_effect_def durable_def Let_def)

lemma work_pos: "0 < ls_Phase s \<Longrightarrow> ls_Phase s < 6 \<Longrightarrow> 0 < work s"
proof -
  assume "0 < ls_Phase s" "ls_Phase s < 6"
  then have "ls_Phase s \<in> {1, 2, 3, 4, 5}"
    by (auto simp: word_less_nat_alt word_eq_iff_unsigned [where ?'a = nat])
  then show ?thesis by (auto simp: work_def)
qed

context fat_volume
begin

abbreviation "service_inv \<equiv> storage_inv ops view hfile hpos"
abbreviation "ok_pass \<equiv> pass_ok ops view hfile hpos"

text \<open>Finishing from inside a pass.\<close>

lemma finish_pass:
  assumes "mid view s t" and "length (ls_Directory s) \<le> 31" and "ls_Phase s \<noteq> 0"
    and "ls_Command s \<noteq> LM_STATE_STORAGE_CATALOG \<longrightarrow> ls_Phase s < 6"
  shows "wp (Finish ops status) (\<lambda>x. ok_pass s) t"
proof (rule wp_mono [OF Finish_spec], elim conjE)
  fix s'
  assume idle: "ls_Phase s' = 0" "\<not> ls_Open s'" "\<not> ls_DirectoryOpen s'" and r: "responded s'"
    and frame: "finish_frame view t s'"
  have dir: "ls_Directory s' = ls_Directory s" "length (ls_RequestSeed s') = 4" "view (ls_vol s') = view (ls_vol t)"
    using frame assms(1) by (auto simp: finish_frame_def mid_def)
  moreover have "same_request s s'"
    using frame assms(1) by (auto simp: finish_frame_def mid_def same_request_def)
  ultimately have "mid view s s'"
    using assms(1) by (auto simp: mid_def archive_effect_def key_effect_def)
  moreover have "service_inv s'"
    using idle dir assms(2) by (intro storage_inv_idle) simp_all
  moreover have "ls_Command s \<noteq> LM_STATE_STORAGE_CATALOG \<longrightarrow> work s' < work s"
    using work_pos [of s] assms(3,4) idle(1) by (auto simp: work_def [of s'] word_gt_0)
  ultimately show "ok_pass s s'"
    using r by (simp add: pass_ok_def)
qed

end

section \<open>The phases\<close>

lemma ArchiveIdentityStatus_update [simp]:
  "ArchiveIdentityStatus (s\<lparr>ls_vol := v\<rparr>) h = ArchiveIdentityStatus s h"
  "ArchiveIdentityStatus (s\<lparr>ls_Open := o'\<rparr>) h = ArchiveIdentityStatus s h"
  "ArchiveIdentityStatus (s\<lparr>ls_Phase := n\<rparr>) h = ArchiveIdentityStatus s h"
  "ArchiveIdentityStatus (s\<lparr>ls_Offset := n\<rparr>) h = ArchiveIdentityStatus s h"
  "ArchiveIdentityStatus (s\<lparr>ls_Length := n\<rparr>) h = ArchiveIdentityStatus s h"
  "ArchiveIdentityStatus (s\<lparr>ls_Header := h'\<rparr>) h = ArchiveIdentityStatus s h"
  "ArchiveIdentityStatus (s\<lparr>ls_snapshot := mem\<rparr>) h = ArchiveIdentityStatus s h"
  "ArchiveIdentityStatus (s\<lparr>ls_mbox := m\<rparr>) h = ArchiveIdentityStatus s h"
  by (simp_all add: ArchiveIdentityStatus_def)

text \<open>One slice: not empty, inside the payload, and one fewer to go.\<close>

lemma slice_facts:
  fixes s :: "'s storage"
  assumes "ls_Offset s < ls_Length s"
  defines "c \<equiv> slice_count s"
  shows "0 < unat c" "unat c \<le> 0x4000" "unat (ls_Offset s + c) = unat (ls_Offset s) + unat c"
    "unat (ls_Offset s) + unat c \<le> unat (ls_Length s)"
    "ls_Offset s + c \<noteq> ls_Length s \<Longrightarrow> ls_Offset s + c < ls_Length s"
    "(unat (ls_Length s - (ls_Offset s + c)) + 0x3FFF) div 0x4000 <
      (unat (ls_Length s - ls_Offset s) + 0x3FFF) div 0x4000"
proof -
  let ?o = "unat (ls_Offset s)" and ?l = "unat (ls_Length s)"
  have lt: "?o < ?l" using assms(1) by (simp add: word_less_nat_alt)
  have d: "unat (ls_Length s - ls_Offset s) = ?l - ?o"
    using assms(1) by (intro unat_minus_le) simp
  have c: "unat c = (if ?l - ?o > 0x4000 then 0x4000 else ?l - ?o)"
    using d by (auto simp: c_def slice_count_def Let_def word_less_nat_alt)
  have l: "?l < 2 ^ 32" by (rule unat_u32_less)
  have sum: "unat (ls_Offset s + c) = ?o + unat c"
    using c lt l by (intro unat_plus_bound) (auto split: if_splits)
  then have le: "unat (ls_Offset s + c) \<le> ?l" using c lt by (auto split: if_splits)
  show "0 < unat c" "unat c \<le> 0x4000" "unat (ls_Offset s + c) = ?o + unat c" "?o + unat c \<le> ?l"
    using c lt sum le by (auto split: if_splits)
  show "ls_Offset s + c < ls_Length s" if "ls_Offset s + c \<noteq> ls_Length s"
    using that le by (simp add: word_less_nat_alt word_eq_iff_unsigned [where ?'a = nat])
  have "unat (ls_Length s - (ls_Offset s + c)) = ?l - (?o + unat c)"
    using le sum by (subst unat_minus_le) (simp_all add: word_le_nat_alt)
  with d c lt show "(unat (ls_Length s - (ls_Offset s + c)) + 0x3FFF) div 0x4000 <
      (unat (ls_Length s - ls_Offset s) + 0x3FFF) div 0x4000"
    by (auto split: if_splits)
qed

lemma valid_payload:
  assumes "ValidHeader h"
  shows "0 < ah_payloadSize h \<and> unat (ah_payloadSize h) \<le> 0xFD0000"
proof -
  have h: "256 \<le> unat (ah_rawSize h)" "unat (ah_rawSize h) \<le> 0xFF0000"
    "ah_trailerSize h \<le> SUSAMUNE_MEM2_SNAPSHOT_SIZE - ah_rawSize h"
    "ah_payloadSize h = ah_rawSize h + ah_trailerSize h" "unat (ah_payloadSize h) \<le> 0xFD0000"
    using assms by (auto simp: ValidHeader_def word_le_nat_alt)
  have "ah_rawSize h \<le> SUSAMUNE_MEM2_SNAPSHOT_SIZE"
    using h(2) by (simp add: word_le_nat_alt)
  then have "unat (SUSAMUNE_MEM2_SNAPSHOT_SIZE - ah_rawSize h) = 0xFF0000 - unat (ah_rawSize h)"
    by (subst unat_minus_le) simp_all
  then have "unat (ah_trailerSize h) \<le> 0xFF0000 - unat (ah_rawSize h)"
    using h(3) by (simp add: word_le_nat_alt)
  then have "unat (ah_payloadSize h) = unat (ah_rawSize h) + unat (ah_trailerSize h)"
    unfolding h(4) using h(2) by (intro unat_plus_bound) simp
  with h(1,5) show ?thesis by (simp add: word_less_nat_alt)
qed

lemma archive_size_unat:
  assumes "ValidHeader h"
  shows "unat (archive_size h) = 64 + unat (ah_payloadSize h)"
proof -
  have "unat (64 + ah_payloadSize h) = 64 + unat (ah_payloadSize h)"
    using valid_payload [OF assms] unat_plus_bound [of 64 "ah_payloadSize h"] by simp
  with valid_payload [OF assms] show ?thesis
    by (simp add: archive_size_def unsigned_ucast_eq take_bit_nat_eq_self)
qed

lemma snapshot_read_add:
  "snapshot_read mem 0 (n + m) = snapshot_read mem 0 n @ snapshot_read mem n m"
  using upt_add_eq_append [of 0 n m] by (simp add: snapshot_read_def)

lemma length_snapshot_read [simp]: "length (snapshot_read mem n m) = m"
  by (simp add: snapshot_read_def)

lemma snapshot_write_before: "snapshot_read (snapshot_write n d mem) 0 n = snapshot_read mem 0 n"
  by (simp add: snapshot_read_def snapshot_write_def)

lemma snapshot_write_here: "snapshot_read (snapshot_write n d mem) n (length d) = d"
  by (auto simp: snapshot_read_def snapshot_write_def intro: nth_equalityI)

lemma not_durable [simp]:
  "\<not> durable d (name_path d' i k)" "\<not> durable d (name_temporary d' i k)"
  "\<not> durable d (archive_temporary d' i)" "\<not> durable d (key_temporary d' k)"
  by (auto simp: durable_def intro: archive_path_differs [symmetric] key_path_differs [symmetric]
    dest: archive_path_differs [symmetric, THEN notE] key_path_differs [symmetric, THEN notE])

lemma not_durable_neq: "durable d p \<Longrightarrow> p \<noteq> archive_temporary d' i"
  by auto

lemma durable_archive [simp]: "durable d (archive_path d i)"
  and durable_key [simp]: "k \<in> {0, 1} \<Longrightarrow> durable d (key_path d k)"
  by (auto simp: durable_def)

lemma mid_vol_only:
  assumes "mid view s t" and "vol_only view (durable (ls_Directory s)) t u"
  shows "mid view s u"
proof -
  have same: "view (ls_vol u) p = view (ls_vol t) p" if "durable (ls_Directory s) p" for p
    using vol_only_view [OF assms(2)] that by blast
  have "archive_effect view s i u" for i
    using assms(1) same [of "archive_path (ls_Directory s) i"]
    by (simp add: mid_def archive_effect_def Let_def)
  moreover have "key_effect view s u"
    using assms(1) same by (simp add: mid_def key_effect_def Let_def)
  moreover have "same_request t u"
    using assms(2) by (auto simp: vol_only_def same_request_def)
  ultimately show ?thesis
    using assms(1) vol_only_fields [OF assms(2)] by (auto simp: mid_def same_request_def)
qed

context fat_volume
begin

lemma stat_same: "run_state (vf_stat ops p) s = (x, s') \<Longrightarrow> view s' = view s"
  using stat_view by blast

lemma read_same: "run_state (vf_read ops h n) s = (x, s') \<Longrightarrow> view s' = view s"
  using read_view by blast

lemma opendir_same: "run_state (vf_opendir ops h p) s = (x, s') \<Longrightarrow> view s' = view s"
  using opendir_view by blast

lemma readdir_same: "run_state (vf_readdir ops h) s = (x, s') \<Longrightarrow> view s' = view s"
  using readdir_view by blast

text \<open>The calls inside a pass: each is run, and those that only look leave the files as they are.\<close>

lemma call_wpI:
  "(\<And>x w. run_state (vf_open ops h p OpenRead) v = (x, w) \<Longrightarrow> view w = view v \<Longrightarrow> Q x w) \<Longrightarrow>
    wp (vf_open ops h p OpenRead) Q v"
  "(\<And>x w. run_state (vf_open ops h p OpenCreateNew) v = (x, w) \<Longrightarrow> (\<forall>q. q \<noteq> p \<longrightarrow> view w q = view v q) \<Longrightarrow> Q x w) \<Longrightarrow>
    wp (vf_open ops h p OpenCreateNew) Q v"
  "(\<And>x w. run_state (vf_close ops h) v = (x, w) \<Longrightarrow> view w = view v \<Longrightarrow> Q x w) \<Longrightarrow> wp (vf_close ops h) Q v"
  "(\<And>y w. run_state (vf_read ops h n) v = (y, w) \<Longrightarrow> view w = view v \<Longrightarrow> Q' y w) \<Longrightarrow> wp (vf_read ops h n) Q' v"
  "(\<And>z w. run_state (vf_write ops h d) v = (z, w) \<Longrightarrow> R z w) \<Longrightarrow> wp (vf_write ops h d) R v"
  "(\<And>x w. run_state (vf_sync ops h) v = (x, w) \<Longrightarrow> view w = view v \<Longrightarrow> Q x w) \<Longrightarrow> wp (vf_sync ops h) Q v"
  "(\<And>i w. run_state (vf_stat ops p) v = (i, w) \<Longrightarrow> view w = view v \<Longrightarrow> S i w) \<Longrightarrow> wp (vf_stat ops p) S v"
  "(\<And>x w. run_state (vf_unlink ops p) v = (x, w) \<Longrightarrow> Q x w) \<Longrightarrow> wp (vf_unlink ops p) Q v"
  "(\<And>x w. run_state (vf_opendir ops h p) v = (x, w) \<Longrightarrow> view w = view v \<Longrightarrow> Q x w) \<Longrightarrow> wp (vf_opendir ops h p) Q v"
  "(\<And>i w. run_state (vf_readdir ops h) v = (i, w) \<Longrightarrow> view w = view v \<Longrightarrow> S i w) \<Longrightarrow> wp (vf_readdir ops h) S v"
  "(\<And>x w. run_state (vf_closedir ops h) v = (x, w) \<Longrightarrow> view w = view v \<Longrightarrow> Q x w) \<Longrightarrow> wp (vf_closedir ops h) Q v"
  by (auto intro!: wpI simp: open_read_view close_same read_same sync_same stat_same opendir_same
    readdir_same closedir_same dest: open_frame)

lemma phase_4:
  assumes inv: "service_inv s" and ph: "ls_Phase s = 4"
  shows "wp (ServiceClose ops) (\<lambda>x. ok_pass s) s"
proof -
  have dir: "length (ls_Directory s) \<le> 31" "length (ls_RequestSeed s) = 4"
    by (rule storage_invD [OF inv])+
  have nodir: "\<not> ls_DirectoryOpen s" using storage_invD(5) [OF inv] ph by simp
  have quiet: "mid view s t" if "view (ls_vol t) = view (ls_vol s)" "ls_Directory t = ls_Directory s"
    "ls_RequestSeed t = ls_RequestSeed s" "same_request s t" for t
    using that dir by (intro mid_quiet) simp_all
  have "ok_pass s (s\<lparr>ls_vol := v, ls_Open := False, ls_Phase := 5\<rparr>)" (is "ok_pass s ?t")
    if same: "view v = view (ls_vol s)" for v
  proof -
    have "service_inv ?t"
    proof (cases "ls_Command s = LM_STATE_STORAGE_EXPORT")
      case True
      with storage_invD(3) [OF inv] dir nodir same ph show ?thesis
        by (intro storage_inv_export) (auto simp: export_inv_def)
    next
      case False
      then have "ls_Command s = LM_STATE_STORAGE_IMPORT" "import_inv ops view hfile hpos s"
        using storage_invD(4) [OF inv] ph by simp_all
      with dir nodir same ph show ?thesis
        by (intro storage_inv_import) (auto simp: import_inv_def)
    qed
    then show ?thesis
      using quiet [of ?t] same by (simp add: pass_ok_def work_def ph same_request_def)
  qed
  then show ?thesis
  unfolding ServiceClose_def
    by (auto intro!: call_wpI finish_pass quiet simp: ph dir same_request_def)
qed

lemma phase_3_export:
  assumes inv: "service_inv s" and ph: "ls_Phase s = 3" and cmd: "ls_Command s = LM_STATE_STORAGE_EXPORT"
  shows "wp (ServiceSlice ops) (\<lambda>x. ok_pass s) s"
proof -
  note D = storage_invD [OF inv]
  have ei: "export_inv view hfile hpos s" and name: "length (ls_RequestName s) = 32" "LmStateNameValid (ls_RequestName s)"
    using D(3) ph cmd by simp_all
  have lt: "ls_Offset s < ls_Length s" using ei ph by (auto simp: export_inv_def)
  note sl = slice_facts [OF lt]
  let ?c = "slice_count s" and ?t = "archive_temporary (ls_Directory s) (ls_FileId s)"
  let ?d = "snapshot_read (ls_snapshot s) (unat (ls_Offset s)) (unat ?c)"
  have fl: "hfile (ls_vol s) FIL_File = Some ?t" "hpos (ls_vol s) FIL_File = 64 + unat (ls_Offset s)"
    "view (ls_vol s) ?t = Some (header_bytes (ls_Header s) @ snapshot_read (ls_snapshot s) 0 (unat (ls_Offset s)))"
    "ls_Temporary s = ?t" "ls_Path s = archive_path (ls_Directory s) (ls_FileId s)" "ls_Open s"
    using ei ph by (auto simp: export_inv_def)
  have quiet: "mid view s t" if "\<And>p. p \<noteq> ?t \<Longrightarrow> view (ls_vol t) p = view (ls_vol s) p"
    "ls_Directory t = ls_Directory s" "ls_RequestSeed t = ls_RequestSeed s" "same_request s t" for t
    using that D(2) by (intro mid_quiet) (auto simp: durable_def)
  have frame: "view v p = view (ls_vol s) p" if "run_state (vf_write ops FIL_File ?d) (ls_vol s) = (rw, v)" "p \<noteq> ?t"
    for rw v p
    using write_frame [OF that(1), of p] that(2) fl(1) by simp
  have step: "ok_pass s (s\<lparr>ls_vol := v, ls_Offset := ls_Offset s + ?c,
      ls_Phase := (if ls_Offset s + ?c = ls_Length s then 4 else 3)\<rparr>)" (is "ok_pass s ?s'")
    if w: "run_state (vf_write ops FIL_File ?d) (ls_vol s) = ((FR_OK, unat ?c), v)" for v
  proof -
    have wd: "view v ?t = Some (header_bytes (ls_Header s) @ snapshot_read (ls_snapshot s) 0 (unat (ls_Offset s + ?c)))"
      "hpos v FIL_File = 64 + unat (ls_Offset s + ?c)" "hfile v FIL_File = Some ?t"
      using write_data [OF w fl(1,3)] write_frame [OF w] fl(1,2) sl(3) by (simp_all add: snapshot_read_add)
    have "export_inv view hfile hpos ?s'"
      using ei wd fl sl(5) ph by (auto simp: export_inv_def)
    then have "service_inv ?s'"
      using D(1,2,5) cmd name ph by (intro storage_inv_export) (simp_all split: if_splits)
    moreover have "work ?s' < work s"
      using sl(6) ph by (auto simp: work_def)
    moreover have "mid view s ?s'"
      using frame [OF w] by (intro quiet) (auto simp: same_request_def)
    ultimately show ?thesis by (simp add: pass_ok_def)
  qed
  show ?thesis
    unfolding ServiceSlice_def slice_done_def
    using step ph by (auto simp: cmd D(1) same_request_def intro!: call_wpI finish_pass quiet dest: frame)
qed


lemma phase_3_import:
  assumes inv: "service_inv s" and ph: "ls_Phase s = 3" and cmd: "ls_Command s \<noteq> LM_STATE_STORAGE_EXPORT"
  shows "wp (ServiceSlice ops) (\<lambda>x. ok_pass s) s"
proof -
  note D = storage_invD [OF inv]
  have ii: "import_inv ops view hfile hpos s" and imp: "ls_Command s = LM_STATE_STORAGE_IMPORT"
    using D(4) ph cmd by simp_all
  let ?c = "slice_count s" and ?p = "archive_path (ls_Directory s) (ls_FileId s)" and ?o = "unat (ls_Offset s)"
  obtain b where b: "view (ls_vol s) ?p = Some b" "length b < 2 ^ 64" "take 64 b = header_bytes (ls_Header s)"
      "length b = 64 + unat (ls_Length s)" "snapshot_read (ls_snapshot s) 0 ?o = take ?o (drop 64 b)"
    and fl: "hfile (ls_vol s) FIL_File = Some ?p" "hpos (ls_vol s) FIL_File = 64 + ?o" "ls_Path s = ?p" "ls_Open s"
    and lt: "ls_Offset s < ls_Length s"
    using ii ph by (auto simp: import_inv_def)
  note sl = slice_facts [OF lt]
  have quiet: "mid view s t" if "view (ls_vol t) = view (ls_vol s)" "ls_Directory t = ls_Directory s"
    "ls_RequestSeed t = ls_RequestSeed s" "same_request s t" for t
    using that D(2) by (intro mid_quiet) (auto simp: durable_def)
  have step: "ok_pass s (s\<lparr>ls_vol := v, ls_snapshot := snapshot_write ?o d (ls_snapshot s),
      ls_Offset := ls_Offset s + ?c,
      ls_Phase := (if ls_Offset s + ?c = ls_Length s then 4 else 3)\<rparr>)" (is "ok_pass s ?s'")
    if r: "run_state (vf_read ops FIL_File (unat ?c)) (ls_vol s) = ((FR_OK, d), v)" and len: "length d = unat ?c" for d v
  proof -
    have rd: "d = take (unat ?c) (drop (64 + ?o) b)" "hpos v FIL_File = 64 + unat (ls_Offset s + ?c)"
      "hfile v FIL_File = Some ?p" "view v = view (ls_vol s)"
      using read_data [OF r fl(1) b(1)] read_view [OF r] fl(1,2) sl(3) len by simp_all
    have d: "d = take (unat ?c) (drop ?o (drop 64 b))"
      using rd(1) by (simp add: add.commute)
    have here: "snapshot_read (snapshot_write ?o d (ls_snapshot s)) ?o (unat ?c) = d"
      using snapshot_write_here [of ?o d "ls_snapshot s"] len by simp
    have "snapshot_read (snapshot_write ?o d (ls_snapshot s)) 0 (?o + unat ?c) =
        take ?o (drop 64 b) @ take (unat ?c) (drop ?o (drop 64 b))"
      by (simp only: snapshot_read_add snapshot_write_before here b(5) d [symmetric])
    then have "snapshot_read (ls_snapshot ?s') 0 (unat (ls_Offset ?s')) = take (unat (ls_Offset ?s')) (drop 64 b)"
      by (simp add: sl(3) take_add)
    then have "import_inv ops view hfile hpos ?s'"
      using ii rd b fl sl(5) ph by (auto simp: import_inv_def)
    then have "service_inv ?s'"
      using D(1,2,5) imp ph by (intro storage_inv_import) (simp_all split: if_splits)
    moreover have "work ?s' < work s"
      using sl(6) ph by (auto simp: work_def)
    moreover have "mid view s ?s'"
      using rd(4) by (intro quiet) (auto simp: same_request_def)
    ultimately show ?thesis by (simp add: pass_ok_def)
  qed
  show ?thesis
    unfolding ServiceSlice_def slice_done_def
    using step ph by (auto simp: cmd D(1) same_request_def intro!: call_wpI finish_pass quiet)
qed

lemma phase_2_export:
  assumes inv: "service_inv s" and ph: "ls_Phase s = 2" and cmd: "ls_Command s = LM_STATE_STORAGE_EXPORT"
  shows "wp (ServiceHeader ops) (\<lambda>x. ok_pass s) s"
proof -
  note D = storage_invD [OF inv]
  have ei: "export_inv view hfile hpos s" and name: "length (ls_RequestName s) = 32" "LmStateNameValid (ls_RequestName s)"
    using D(3) ph cmd by simp_all
  let ?t = "archive_temporary (ls_Directory s) (ls_FileId s)" and ?d = "header_bytes (ls_Header s)"
  have fl: "hfile (ls_vol s) FIL_File = Some ?t" "hpos (ls_vol s) FIL_File = 0"
    "view (ls_vol s) ?t = Some []" "ls_Offset s = 0" "ls_Length s = ah_payloadSize (ls_Header s)"
    "ValidHeader (ls_Header s)" "ls_Temporary s = ?t" "ls_Path s = archive_path (ls_Directory s) (ls_FileId s)"
    "ls_Open s" "ls_FileId s \<le> LM_STATE_STORAGE_MAX_ID"
    using ei ph by (auto simp: export_inv_def)
  have pos: "0 < ls_Length s" and bound: "unat (ls_Length s) \<le> 0xFD0000"
    using fl(5,6) valid_payload by auto
  have quiet: "mid view s t" if "\<And>p. p \<noteq> ?t \<Longrightarrow> view (ls_vol t) p = view (ls_vol s) p"
    "ls_Directory t = ls_Directory s" "ls_RequestSeed t = ls_RequestSeed s" "same_request s t" for t
    using that D(2) by (intro mid_quiet) (auto simp: durable_def)
  have frame: "view v p = view (ls_vol s) p" if "run_state (vf_write ops FIL_File ?d) (ls_vol s) = (rw, v)" "p \<noteq> ?t"
    for rw v p
    using write_frame [OF that(1), of p] that(2) fl(1) by simp
  have step: "ok_pass s (s\<lparr>ls_vol := v, ls_Phase := 3\<rparr>)" (is "ok_pass s ?s'")
    if w: "run_state (vf_write ops FIL_File ?d) (ls_vol s) = ((FR_OK, 64), v)" for v
  proof -
    have wd: "view v ?t = Some ?d" "hpos v FIL_File = 64" "hfile v FIL_File = Some ?t"
      using write_data [OF w fl(1,3)] write_frame [OF w] fl(1,2) by simp_all
    have "export_inv view hfile hpos ?s'"
      using wd pos by (simp add: export_inv_def snapshot_read_def fl)
    then have "service_inv ?s'"
      using D(1,2,5) cmd name ph by (intro storage_inv_export) (simp_all split: if_splits)
    moreover have "work ?s' < work s"
      using bound ph fl(4) by (simp add: work_def)
    moreover have "mid view s ?s'"
      using frame [OF w] by (intro quiet) (auto simp: same_request_def)
    ultimately show ?thesis by (simp add: pass_ok_def)
  qed
  show ?thesis
    unfolding ServiceHeader_def ExportHeader_def
    using step ph by (auto simp: cmd D(1) same_request_def intro!: call_wpI finish_pass quiet dest: frame)
qed


lemma phase_2_import:
  assumes inv: "service_inv s" and ph: "ls_Phase s = 2" and cmd: "ls_Command s \<noteq> LM_STATE_STORAGE_EXPORT"
  shows "wp (ServiceHeader ops) (\<lambda>x. ok_pass s) s"
proof -
  note D = storage_invD [OF inv]
  have ii: "import_inv ops view hfile hpos s" and imp: "ls_Command s = LM_STATE_STORAGE_IMPORT"
    using D(4) ph cmd by simp_all
  let ?p = "archive_path (ls_Directory s) (ls_FileId s)"
  obtain b where b: "view (ls_vol s) ?p = Some b" "length b < 2 ^ 64"
      "vf_size ops FIL_File (ls_vol s) = word_of_nat (length b)"
    and fl: "hfile (ls_vol s) FIL_File = Some ?p" "hpos (ls_vol s) FIL_File = 0" "ls_Path s = ?p" "ls_Open s"
      "ls_Offset s = 0"
    using ii ph by (auto simp: import_inv_def)
  have quiet: "mid view s t" if "view (ls_vol t) = view (ls_vol s)" "ls_Directory t = ls_Directory s"
    "ls_RequestSeed t = ls_RequestSeed s" "same_request s t" for t
    using that D(2) by (intro mid_quiet) (auto simp: durable_def)
  let ?h = "\<lambda>d. header_of_bytes (overlay d (header_bytes (ls_Header s)))"
  have step: "ok_pass s (s\<lparr>ls_vol := v, ls_Header := H, ls_Length := ah_payloadSize H, ls_Phase := 3\<rparr>)"
    (is "ok_pass s ?s'")
    if r: "run_state (vf_read ops FIL_File 64) (ls_vol s) = ((FR_OK, d), v)" and len: "length d = 64"
      and valid: "ValidHeader H" and sz: "vf_size ops FIL_File v = archive_size H"
      and ident: "ArchiveIdentityStatus s H = LM_STATE_STORAGE_OK" and H: "H = ?h d" for d v H
  proof -
    have rd: "d = take 64 b" "hpos v FIL_File = 64" "hfile v FIL_File = Some ?p" "view v = view (ls_vol s)"
        "vf_size ops FIL_File v = word_of_nat (length b)"
      using read_data [OF r fl(1) b(1)] read_view [OF r, where h' = FIL_File] fl(1,2) b(3) len by simp_all
    have h: "take 64 b = header_bytes H"
      using len rd(1) by (simp add: H overlay_whole header_bytes_of_bytes)
    have "unat (word_of_nat (length b) :: u64) = length b"
      using b(2) by (simp add: unsigned_of_nat take_bit_nat_eq_self)
    then have size: "length b = 64 + unat (ah_payloadSize H)"
      using sz rd(5) archive_size_unat [OF valid] by simp
    have "import_inv ops view hfile hpos ?s'"
      using valid_payload [OF valid]
      by (simp add: import_inv_def snapshot_read_def rd(2-4) b(1,2) fl h size valid ident)
    then have "service_inv ?s'"
      using D(1,2,5) imp ph by (intro storage_inv_import) (simp_all split: if_splits)
    moreover have "work ?s' < work s"
      using conjunct2 [OF valid_payload [OF valid]] ph fl(5) by (simp add: work_def)
    moreover have "mid view s ?s'"
      using rd(4) by (intro quiet) (auto simp: same_request_def)
    ultimately show ?thesis by (simp add: pass_ok_def)
  qed
  show ?thesis
    unfolding ServiceHeader_def ImportHeader_def
    using step [OF _ _ _ _ _ refl] ph by (auto simp: cmd imp D(1) same_request_def intro!: call_wpI finish_pass quiet)
qed


lemma WriteName_durable:
  assumes "length (ls_Directory s) \<le> 31" and "length (ls_RequestName s) = 32"
  shows "wp (WriteName ops i crc) (\<lambda>ok s'. vol_only view (durable d) s s') s"
proof -
  have "length (name_bytes (next_name i crc (ls_RequestName s) latest)) = 64" for latest
    using assms(2) by (simp add: next_name_def Let_def length_name_bytes)
  from WriteName_spec [OF assms(1) this] show ?thesis
    by (rule wp_mono) (elim conjE, erule vol_only_mono, auto)
qed

lemma phase_5:
  assumes inv: "service_inv s" and ph: "ls_Phase s = 5"
  shows "wp (ServiceCommit ops) (\<lambda>x. ok_pass s) s"
proof -
  note D = storage_invD [OF inv]
  have quiet: "mid view s t" if "view (ls_vol t) = view (ls_vol s)" "ls_Directory t = ls_Directory s"
    "ls_RequestSeed t = ls_RequestSeed s" "same_request s t" for t
    using that D(2) by (intro mid_quiet) (auto simp: durable_def)
  show ?thesis
  proof (cases "ls_Command s = LM_STATE_STORAGE_EXPORT")
    case False
    then show ?thesis
      unfolding ServiceCommit_def using ph
      by (auto simp: D(1) same_request_def intro!: finish_pass quiet)
  next
    case True
    let ?p = "archive_path (ls_Directory s) (ls_FileId s)" and ?t = "archive_temporary (ls_Directory s) (ls_FileId s)"
    have ei: "ls_Path s = ?p" "ls_Temporary s = ?t" and name: "length (ls_RequestName s) = 32"
      and tmp: "view (ls_vol s) ?t = Some (archive_bytes (ls_Header s) (ls_snapshot s))"
      using D(3) True ph by (auto simp: export_inv_def archive_bytes_def)
    have paths: "?t \<noteq> ?p" "take 71 ?t = ?t" "take 71 ?p = ?p"
      using D(1) archive_path_differs(1) [symmetric] by simp_all
    have moved: "mid view s t" if t: "vol_only view (\<lambda>r. r \<noteq> ?t \<and> r \<noteq> ?p) s t"
      and keep: "\<forall>b. view (ls_vol s) ?p = Some b \<longrightarrow> view (ls_vol t) ?p = Some b \<and> x \<noteq> FR_OK"
      and new: "view (ls_vol t) ?p \<in> {view (ls_vol s) ?p, view (ls_vol s) ?t}" for t x
    proof -
      have other: "view (ls_vol t) q = view (ls_vol s) q" if "durable (ls_Directory s) q" "q \<noteq> ?p" for q
        using that not_durable(3) by (intro vol_only_view [OF t]) metis
      have "archive_effect view s i t" for i
      proof (cases "i = ls_FileId s")
        case i: True
        show ?thesis
          using keep new tmp True ph
          by (cases "view (ls_vol s) ?p") (auto simp: archive_effect_def Let_def i)
      next
        case False
        with other [of "archive_path (ls_Directory s) i"] show ?thesis
          by (simp add: archive_effect_def Let_def durable_def)
      qed
      moreover have "key_effect view s t"
        using other by (auto simp: key_effect_def Let_def durable_def)
      moreover have "same_request s t"
        using t by (auto simp: vol_only_def same_request_def)
      ultimately show ?thesis
        using vol_only_fields [OF t] D(2) by (simp add: mid_def)
    qed
    show ?thesis
      unfolding ServiceCommit_def RenameArchive_def
      apply (simp add: True ei)
      apply (rule wp_mono [OF rename_new [OF paths]], elim conjE)
      subgoal premises run for x t
      proof -
        have t: "mid view s t" using run by (intro moved)
        have d: "length (ls_Directory t) \<le> 31" "length (ls_RequestName t) = 32"
          using vol_only_fields [OF run(1)] D(1) name by simp_all
        show ?thesis
          using t ph D(1)
          by (auto intro!: finish_pass wp_mono [OF WriteName_durable [OF d]] elim: mid_vol_only)
      qed
      done
  qed
qed


text \<open>Phase 1.  The path has just been set.\<close>

abbreviation at_path :: "'s storage \<Rightarrow> 's storage" where
  "at_path s \<equiv> s\<lparr>ls_Path := archive_path (ls_Directory s) (ls_FileId s)\<rparr>"

lemma mid_1:
  assumes "service_inv s" and "\<And>p. durable (ls_Directory s) p \<Longrightarrow> view (ls_vol t) p = view (ls_vol s) p"
    and "ls_Directory t = ls_Directory s" "ls_RequestSeed t = ls_RequestSeed s" "same_request s t"
  shows "mid view s t"
  using assms(2-5) storage_invD(2) [OF assms(1)] by (intro mid_quiet) simp_all

lemma StartCatalog_ok:
  assumes inv: "service_inv s" and ph: "ls_Phase s = 1" and cmd: "ls_Command s = LM_STATE_STORAGE_CATALOG"
  shows "wp (StartCatalog ops) (\<lambda>x. ok_pass s) s"
proof -
  note D = storage_invD [OF inv]
  show ?thesis
    unfolding StartCatalog_def
    using D(1,2) ph cmd
    by (auto intro!: call_wpI finish_pass mid_1 [OF inv] simp: same_request_def pass_ok_def storage_inv_def)
qed

lemma StartImport_ok:
  assumes inv: "service_inv s" and ph: "ls_Phase s = 1" and cmd: "ls_Command s = LM_STATE_STORAGE_IMPORT"
  shows "wp (StartImport ops) (\<lambda>x. ok_pass s) (at_path s)"
proof -
  note D = storage_invD [OF inv]
  let ?p = "archive_path (ls_Directory s) (ls_FileId s)"
  have off: "ls_Offset s = 0" using inv ph by (simp add: storage_inv_def)
  have views: "view v = view (ls_vol s)" if "run_state (vf_open ops FIL_File ?p OpenRead) (ls_vol s) = (x, v)" for x v
    using open_read_view [OF that] .
  have step: "ok_pass s (s\<lparr>ls_Path := ?p, ls_vol := v, ls_Open := True, ls_Phase := 2\<rparr>)" (is "ok_pass s ?s'")
    if o: "run_state (vf_open ops FIL_File ?p OpenRead) (ls_vol s) = (FR_OK, v)" for v
  proof -
    obtain b where "view (ls_vol s) ?p = Some b" "length b < 2 ^ 64" "vf_size ops FIL_File v = word_of_nat (length b)"
      using open_read_found [OF o] by blast
    then have "import_inv ops view hfile hpos ?s'"
      using open_handle [OF o] views [OF o] off by (simp add: import_inv_def)
    then have "service_inv ?s'"
      using D(1,2,5) cmd ph by (intro storage_inv_import) simp_all
    then show ?thesis
      using views [OF o] by (simp add: pass_ok_def work_def ph mid_1 [OF inv] same_request_def)
  qed
  show ?thesis
    unfolding StartImport_def opened_def
    using step ph D(1)
    by (auto intro!: call_wpI finish_pass mid_1 [OF inv] simp: same_request_def)
qed

lemma next_id_ok:
  assumes inv: "service_inv s" and ph: "ls_Phase s = 1" and cmd: "ls_Command s = LM_STATE_STORAGE_EXPORT"
    and same: "\<And>p. durable (ls_Directory s) p \<Longrightarrow> view v p = view (ls_vol s) p"
  shows "wp (next_id ops) (\<lambda>x. ok_pass s) (at_path s\<lparr>ls_Temporary := tmp, ls_vol := v\<rparr>)"
proof -
  note D = storage_invD [OF inv]
  let ?s' = "s\<lparr>ls_Path := archive_path (ls_Directory s) (ls_FileId s), ls_Temporary := tmp, ls_vol := v,
    ls_FileId := ls_FileId s + 1\<rparr>"
  have ei: "export_inv view hfile hpos s" and name: "length (ls_RequestName s) = 32" "LmStateNameValid (ls_RequestName s)"
    using D(3) ph cmd by simp_all
  have idle: "\<not> ls_Open s" "\<not> ls_DirectoryOpen s" using inv ph by (simp_all add: storage_inv_def)
  have le: "unat (ls_FileId s) \<le> 99999999" using ei by (auto simp: export_inv_def word_le_nat_alt)
  have more: "ok_pass s ?s'" if "\<not> LM_STATE_STORAGE_MAX_ID < ls_FileId s + 1"
  proof -
    have inc: "unat (ls_FileId s + 1) = unat (ls_FileId s) + 1"
      using le by (subst unat_plus_bound) simp_all
    have "export_inv view hfile hpos ?s'"
      using ei ph that by (auto simp: export_inv_def not_less)
    then have "service_inv ?s'"
      using D(1,2) idle cmd name ph by (intro storage_inv_export) simp_all
    moreover have "work ?s' < work s" using le inc by (simp add: work_def ph cmd)
    ultimately show ?thesis
      using same by (simp add: pass_ok_def ph mid_1 [OF inv] same_request_def)
  qed
  show ?thesis
    unfolding next_id_def
    using more ph D(1) same by (auto intro!: finish_pass mid_1 [OF inv] simp: same_request_def)
qed


lemma StartExport_ok:
  assumes inv: "service_inv s" and ph: "ls_Phase s = 1" and cmd: "ls_Command s = LM_STATE_STORAGE_EXPORT"
  shows "wp (StartExport ops) (\<lambda>x. ok_pass s) (at_path s)"
proof -
  note D = storage_invD [OF inv]
  let ?p = "archive_path (ls_Directory s) (ls_FileId s)" and ?t = "archive_temporary (ls_Directory s) (ls_FileId s)"
  have ei: "export_inv view hfile hpos s" and name: "length (ls_RequestName s) = 32" "LmStateNameValid (ls_RequestName s)"
    using D(3) ph cmd by simp_all
  have step: "ok_pass s (s\<lparr>ls_Path := ?p, ls_Temporary := ?t, ls_vol := w, ls_Open := True, ls_Phase := 2\<rparr>)"
    (is "ok_pass s ?s'")
    if o: "run_state (vf_open ops FIL_File ?t OpenCreateNew) v = (FR_OK, w)" and v: "view v = view (ls_vol s)" for v w
  proof -
    have "export_inv view hfile hpos ?s'"
      using ei ph open_handle [OF o] open_create [OF o] by (auto simp: export_inv_def)
    then have "service_inv ?s'"
      using D(1,2,5) cmd name ph by (intro storage_inv_export) simp_all
    moreover have "view w p = view (ls_vol s) p" if "durable (ls_Directory s) p" for p
      using open_frame [OF o, of p] that v not_durable(3) by metis
    ultimately show ?thesis
      by (simp add: pass_ok_def work_def ph mid_1 [OF inv] same_request_def)
  qed
  note nexts = next_id_ok [OF inv ph cmd] next_id_ok [OF inv ph cmd, where tmp = "ls_Temporary s", simplified]
  have refused: "wp (Finish ops status) (\<lambda>x. ok_pass s) (at_path s\<lparr>ls_Temporary := tmp, ls_vol := v\<rparr>)"
    if "\<And>p. durable (ls_Directory s) p \<Longrightarrow> view v p = view (ls_vol s) p" for status tmp v
    using that D(1) ph by (intro finish_pass mid_1 [OF inv]) (simp_all add: same_request_def)
  show ?thesis
    unfolding StartExport_def stat_names_def opened_def
    using step
    by (auto intro!: call_wpI nexts refused refused [where tmp = "ls_Temporary s", simplified] simp: not_durable_neq)
qed

lemma StartRename_ok:
  assumes inv: "service_inv s" and ph: "ls_Phase s = 1" and cmd: "ls_Command s = LM_STATE_STORAGE_RENAME"
  shows "wp (StartRename ops) (\<lambda>x. ok_pass s) (at_path s)"
proof -
  note D = storage_invD [OF inv]
  let ?p = "archive_path (ls_Directory s) (ls_FileId s)"
  have name: "length (ls_RequestName s) = 32" using inv ph cmd by (simp add: storage_inv_def)
  have wname: "wp (WriteName ops i crc) (\<lambda>ok t. wp (Finish ops (f ok)) (\<lambda>x. ok_pass s) t) t"
    if "mid view s t" "length (ls_RequestName t) = 32" for i crc f t
  proof -
    have "length (ls_Directory t) \<le> 31" "ls_Directory t = ls_Directory s"
      using that(1) D(1) by (simp_all add: mid_def)
    then show ?thesis
      using that D(1) ph cmd
      by (intro wp_mono [OF WriteName_durable [where d = "ls_Directory s"]] finish_pass)
        (simp_all add: mid_vol_only [OF that(1)])
  qed
  show ?thesis
    unfolding StartRename_def
    using D(1) ph name
    by (auto intro!: call_wpI finish_pass mid_1 [OF inv] wname simp: same_request_def)
qed

lemma EnsureKey_ok:
  assumes inv: "service_inv s" and ph: "ls_Phase s = 1" and cmd: "ls_Command s = LM_STATE_STORAGE_KEY"
  shows "wp (EnsureKey ops) (\<lambda>status t. wp (Finish ops status) (\<lambda>x. ok_pass s) t) s"
proof (rule wp_mono [OF EnsureKey_spec [OF storage_invD(1) [OF inv] storage_invD(2) [OF inv]]], elim conjE)
  fix status and t :: "'s storage"
  assume t: "key_only view (\<lambda>p. \<not> key_file (ls_Directory s) p) s t"
    and c: "copies_safe view (key_bytes (seed_record (ls_RequestSeed s))) s t"
  have "view (ls_vol t) (archive_path (ls_Directory s) i) = view (ls_vol s) (archive_path (ls_Directory s) i)" for i
    by (rule key_only_view [OF t]) (simp add: key_file_def)
  moreover have "key_effect view s t"
    using c ph cmd by (simp add: copies_safe_def key_effect_def Let_def)
  moreover have "same_request s t"
    using key_only_fields [OF t] by (simp add: same_request_def)
  ultimately have "mid view s t"
    using key_only_fields [OF t] storage_invD(2) [OF inv]
    by (simp add: mid_def archive_effect_def Let_def)
  then show "wp (Finish ops status) (\<lambda>x. ok_pass s) t"
    using storage_invD(1) [OF inv] ph by (intro finish_pass) simp_all
qed


lemma delete_sidecar_keeps: "keeps (vol_only view (durable d)) (delete_sidecar ops k cleaned)"
  unfolding delete_sidecar_def Let_def
  by (intro vol_only_rules quiet_calls unlink_keeps) simp

lemma DeleteArchive_ok:
  assumes inv: "service_inv s" and ph: "ls_Phase s = 1" and cmd: "ls_Command s = LM_STATE_STORAGE_DELETE"
  shows "wp (DeleteArchive ops) (\<lambda>status t. mid view s t) (at_path s)"
proof -
  note D = storage_invD [OF inv]
  let ?p = "archive_path (ls_Directory s) (ls_FileId s)"
  have same: "mid view s (at_path s\<lparr>ls_vol := v, ls_Open := b\<rparr>)" "mid view s (at_path s\<lparr>ls_Open := b, ls_vol := v\<rparr>)" "mid view s (at_path s\<lparr>ls_vol := v\<rparr>)"
    if "view v = view (ls_vol s)" for v b
    using that by (auto intro!: mid_1 [OF inv] simp: same_request_def)
  have removed: "mid view s (at_path s\<lparr>ls_Open := False, ls_vol := w\<rparr>)"
    if o: "run_state (vf_open ops FIL_File ?p OpenRead) v = (FR_OK, v1)" and v: "view v = view (ls_vol s)"
      and r: "run_state (vf_read ops FIL_File 64) v1 = ((FR_OK, d), v2)"
      and size: "vf_size ops FIL_File v2 = ucast (ls_DeleteBytes s)"
      and crc: "ArchiveChecksum (header_of_bytes (overlay d (header_bytes header_zero))) = ls_DeleteHeaderCrc s"
      and c: "run_state (vf_close ops FIL_File) v2 = (x, v3)"
      and u: "run_state (vf_unlink ops ?p) v3 = (y, w)" for v v1 v2 v3 w d x y
  proof -
    obtain b where b: "view v ?p = Some b" "length b < 2 ^ 64" "d = take 64 b" "vf_size ops FIL_File v2 = word_of_nat (length b)"
      using record_read [OF o r c] by metis
    have v3: "view v3 = view (ls_vol s)"
      using close_same [OF c] read_same [OF r] open_read_view [OF o] v by simp
    have "unat (word_of_nat (length b) :: u64) = length b"
      using b(2) by (simp add: unsigned_of_nat take_bit_nat_eq_self)
    moreover have "unat (ucast (ls_DeleteBytes s) :: u64) = unat (ls_DeleteBytes s)"
      using unat_u32_less [of "ls_DeleteBytes s"] by (simp add: unsigned_ucast_eq take_bit_nat_eq_self)
    ultimately have "deletable s b"
      using size crc b(3,4) by (simp add: deletable_def)
    then have "archive_effect view s i (at_path s\<lparr>ls_Open := False, ls_vol := w\<rparr>)" for i
      using unlink_content [OF u] unlink_frame [OF u, of "archive_path (ls_Directory s) i"] v3 b(1) v ph cmd
      by (cases "i = ls_FileId s") (auto simp: archive_effect_def Let_def)
    moreover have "key_effect view s (at_path s\<lparr>ls_Open := False, ls_vol := w\<rparr>)"
      using unlink_frame [OF u] v3 by (simp add: key_effect_def Let_def)
    ultimately show ?thesis
      using D(2) by (simp add: mid_def same_request_def)
  qed
  have sidecars: "wp (delete_sidecar ops 0 True) (\<lambda>x. wp (delete_sidecar ops 1 x) (\<lambda>y. mid view s)) t"
    if "mid view s t" for t
    using that
    by (intro keeps_wp [OF delete_sidecar_keeps [of "ls_Directory s"]]) (erule mid_vol_only, erule vol_only.trans)
  show ?thesis
    unfolding DeleteArchive_def
    using removed same
    by (auto intro!: call_wpI sidecars simp: Let_def)
qed


lemma phase_1:
  assumes inv: "service_inv s" and ph: "ls_Phase s = 1"
  shows "wp (ServiceStart ops) (\<lambda>x. ok_pass s) s"
proof -
  have known: "known_command (ls_Command s)" using inv ph by (simp add: storage_inv_def)
  have delete: "wp (DeleteArchive ops) (\<lambda>status. wp (Finish ops status) (\<lambda>x. ok_pass s)) (at_path s)"
    if "ls_Command s = LM_STATE_STORAGE_DELETE"
    using storage_invD(1) [OF inv] ph
    by (intro wp_mono [OF DeleteArchive_ok [OF inv ph that]] finish_pass) simp_all
  show ?thesis
    unfolding ServiceStart_def
    using known delete EnsureKey_ok [OF inv ph] StartCatalog_ok [OF inv ph] StartRename_ok [OF inv ph]
      StartExport_ok [OF inv ph] StartImport_ok [OF inv ph]
    by (auto simp: known_command_def)
qed

text \<open>Phase 6, the catalogue: inside a pass and still listing.\<close>

definition listing :: "'s storage \<Rightarrow> 's storage \<Rightarrow> bool" where
  "listing s t \<longleftrightarrow> mid view s t \<and> ls_Phase t = 6"

lemma listing_update [simp]:
  "listing s (t\<lparr>ls_Catalog := c\<rparr>) = listing s t" "listing s (t\<lparr>ls_CatalogIdentity := d\<rparr>) = listing s t"
  "listing s (t\<lparr>ls_Header := h\<rparr>) = listing s t" "listing s (t\<lparr>ls_Open := b\<rparr>) = listing s t"
  "listing s (t\<lparr>ls_Path := p\<rparr>) = listing s t" "listing s (t\<lparr>ls_CatalogMore := n\<rparr>) = listing s t"
  "listing s (t\<lparr>ls_CatalogCount := k\<rparr>) = listing s t"
  "mail_kept (ls_mbox t) m \<Longrightarrow>
    listing s (t\<lparr>ls_mbox := m\<rparr>) = listing s t"
  "view v = view (ls_vol t) \<Longrightarrow> listing s (t\<lparr>ls_vol := v\<rparr>) = listing s t"
  by (simp_all add: listing_def mid_def archive_effect_def key_effect_def same_request_def)

lemma catalog_insert_listing:
  "catalog_insert i n t = Some (pos, u) \<Longrightarrow> listing s u = listing s t"
  by (auto simp: catalog_insert_def Let_def split: if_splits)

lemma phase_6:
  assumes inv: "service_inv s" and ph: "ls_Phase s = 6"
  shows "wp (CatalogService ops) (\<lambda>x. ok_pass s) s"
proof -
  note D = storage_invD [OF inv]
  have cmd: "ls_Command s = LM_STATE_STORAGE_CATALOG" using inv ph by (simp add: storage_inv_def)
  let ?Q = "\<lambda>continue u. (continue \<longrightarrow> listing s u) \<and> (\<not> continue \<longrightarrow> ok_pass s u)"
  have fin: "wp (Finish ops status) (\<lambda>x. ok_pass s) t" if "listing s t" for status t
    using that D(1) ph cmd by (intro finish_pass) (simp_all add: listing_def)
  have names: "wp (ReadNames ops i crc) (\<lambda>r u. listing s u) t" if "listing s t" for i crc t
  proof (rule keeps_wp [OF ReadNames_keeps [of "\<lambda>p. True"]])
    fix r u assume "vol_only view (\<lambda>p. True) t u"
    then obtain v where "u = t\<lparr>ls_vol := v\<rparr>" "view v = view (ls_vol t)"
      by (auto simp: vol_only_def fun_eq_iff)
    with that show "listing s u" by simp
  qed
  have describe: "wp (CatalogDescribe ops i n pos) ?Q t" if "listing s t" for i n pos t
    unfolding CatalogDescribe_def Let_def
    using that
    by (auto intro!: call_wpI fin wp_mono [OF names])
  have item: "wp (CatalogStep ops) ?Q t" if "listing s t" for t
    unfolding CatalogStep_def CatalogPublish_def Let_def
    using that
    by (auto intro!: call_wpI fin describe simp: catalog_more_def Let_def split: option.split
      dest!: catalog_insert_listing [where s = s])
  have scan: "wp (catalog_scan ops n) (\<lambda>x. ok_pass s) t" if "listing s t" for n t
    using that
  proof (induction n arbitrary: t)
    case 0
    then have "storage_inv ops view hfile hpos t"
      using D(1) cmd by (auto simp: listing_def mid_def storage_inv_def same_request_def)
    with 0 show ?case using cmd by (simp add: pass_ok_def listing_def)
  next
    case (Suc n)
    then show ?case
      by (auto intro!: wp_mono [OF item])
  qed
  show ?thesis
    unfolding CatalogService_def by (rule scan) (use D(2) ph in \<open>simp add: listing_def mid_1 [OF inv] same_request_def\<close>)
qed


end

text \<open>Phase 0: what the checks of a request leave alone and what acceptance means.\<close>

definition mailbox_wf :: "storage_mailbox \<Rightarrow> bool" where
  "mailbox_wf m \<longleftrightarrow> length (m_requestName m) = 32 \<and> length (m_keySeed m) = 4 \<and> length (m_keySeedReserved m) = 4"

definition check_frame :: "'s storage \<Rightarrow> 's storage \<Rightarrow> bool" where
  "check_frame s t \<longleftrightarrow> ls_vol t = ls_vol s \<and> ls_Directory t = ls_Directory s \<and> ls_Phase t = ls_Phase s \<and>
     ls_Open t = ls_Open s \<and> ls_DirectoryOpen t = ls_DirectoryOpen s \<and> ls_mbox t = ls_mbox s \<and>
     ls_Seq t = ls_Seq s \<and> ls_Session t = ls_Session s \<and> ls_Command t = ls_Command s \<and>
     ls_FileId t = ls_FileId s \<and> ls_RequestId t = ls_RequestId s \<and> ls_Length t = ls_Length s \<and>
     ls_Offset t = ls_Offset s \<and> length (ls_RequestSeed t) = length (ls_RequestSeed s) \<and>
     ls_snapshot t = ls_snapshot s"

lemma check_frame_refl: "check_frame s s"
  by (simp add: check_frame_def)

lemma check_frame_trans: "check_frame s t \<Longrightarrow> check_frame t u \<Longrightarrow> check_frame s u"
  by (simp add: check_frame_def)

lemma copy_seed_length: "length (snd (copy_seed rs ws old)) = length old"
  by (induction rs ws old rule: copy_seed.induct) (auto split: prod.splits)

lemma check_frames:
  "check_frame s (snd (check_delete m s))" "check_frame s (snd (check_key m s))"
  "check_frame s (snd (check_name m s))" "check_frame s (snd (check_export m s))"
  using copy_seed_length [of "m_keySeedReserved m" "m_keySeed m" "ls_RequestSeed s"]
  by (auto simp: check_delete_def check_key_def check_name_def check_export_def check_frame_def Let_def
    split: prod.splits)

lemma then_check_frame:
  "check_frame s (snd r) \<Longrightarrow> (\<And>t. check_frame t (snd (f t))) \<Longrightarrow> check_frame s (snd (then_check r f))"
  by (auto simp: then_check_def intro: check_frame_trans)

lemma check_request_frame: "check_frame (take_request (ls_mbox s) s) (snd (check_request s))"
  by (auto simp: check_request_def Let_def check_frame_refl intro!: then_check_frame check_frames)

lemma then_check_ok:
  "fst (then_check r f) = LM_STATE_STORAGE_OK \<Longrightarrow>
    fst r = LM_STATE_STORAGE_OK \<and> fst (f (snd r)) = LM_STATE_STORAGE_OK \<and> snd (then_check r f) = snd (f (snd r))"
  by (auto simp: then_check_def split: if_splits)

text \<open>The last two checks, from any state: the name and the header of an accepted export.\<close>

lemma check_name_ok:
  "fst (check_name m s) = LM_STATE_STORAGE_OK \<Longrightarrow>
    ls_Command s = LM_STATE_STORAGE_EXPORT \<or> ls_Command s = LM_STATE_STORAGE_RENAME \<Longrightarrow>
    ls_RequestName (snd (check_name m s)) = m_requestName m \<and> LmStateNameValid (m_requestName m)"
  by (auto simp: check_name_def split: if_splits)

lemma check_export_ok:
  "fst (check_export m s) = LM_STATE_STORAGE_OK \<Longrightarrow>
    ls_RequestName (snd (check_export m s)) = ls_RequestName s \<and>
    (ls_Command s = LM_STATE_STORAGE_EXPORT \<longrightarrow>
      ls_Header (snd (check_export m s)) = m_header m \<and> ValidHeader (m_header m) \<and>
      ls_Length s = ah_payloadSize (m_header m))"
  by (auto simp: check_export_def Let_def split: if_splits)

lemma check_request_ok:
  assumes "fst (check_request s) = LM_STATE_STORAGE_OK"
  defines "m \<equiv> ls_mbox s" and "t \<equiv> snd (check_request s)"
  shows "ls_Enabled s" "known_command (m_command m)" "m_archiveId m \<le> LM_STATE_STORAGE_MAX_ID"
    "m_command m \<in> {LM_STATE_STORAGE_EXPORT, LM_STATE_STORAGE_RENAME} \<Longrightarrow>
      ls_RequestName t = m_requestName m \<and> LmStateNameValid (m_requestName m)"
    "m_command m = LM_STATE_STORAGE_EXPORT \<Longrightarrow>
      ls_Header t = m_header m \<and> ValidHeader (m_header m) \<and> m_payloadSize m = ah_payloadSize (m_header m)"
    "m_command m = LM_STATE_STORAGE_DELETE \<Longrightarrow> delete_proof m (take_request m s) \<and>
      m_payloadSize m = 0 \<and> m_deleteVersion m = LM_STATE_STORAGE_VERSION"
proof -
  let ?s = "take_request m s"
  let ?d = "check_delete m ?s"
  let ?k = "check_key m (snd ?d)"
  let ?n = "check_name m (snd ?k)"
  let ?e = "check_export m (snd ?n)"
  have guard: "ls_Enabled ?s" "known_command (ls_Command ?s)" "\<not> LM_STATE_STORAGE_MAX_ID < ls_FileId ?s"
    using assms(1) by (auto simp: check_request_def Let_def m_def split: if_splits)
  have t: "check_request s = then_check (then_check (then_check ?d (check_key m)) (check_name m)) (check_export m)"
    using assms(1) by (auto simp: check_request_def Let_def m_def split: if_splits)
  have all: "fst (then_check (then_check (then_check ?d (check_key m)) (check_name m)) (check_export m)) = LM_STATE_STORAGE_OK"
    using assms(1) t by simp
  note c3 = then_check_ok [OF all]
  note c2 = then_check_ok [OF conjunct1 [OF c3]]
  note c1 = then_check_ok [OF conjunct1 [OF c2]]
  have ok: "fst ?d = LM_STATE_STORAGE_OK" "fst ?n = LM_STATE_STORAGE_OK" "fst ?e = LM_STATE_STORAGE_OK"
    and te: "t = snd ?e"
    using c1 c2 c3 t by (simp_all add: t_def)
  have same: "ls_Command (snd ?d) = m_command m" "ls_Command (snd ?k) = m_command m"
      "ls_Command (snd ?n) = m_command m" "ls_Length (snd ?n) = m_payloadSize m"
    using check_frames(1) [of ?s m] check_frames(2) [of "snd ?d" m] check_frames(3) [of "snd ?k" m]
    by (simp_all add: check_frame_def take_request_def)
  show "ls_Enabled s" "known_command (m_command m)" "m_archiveId m \<le> LM_STATE_STORAGE_MAX_ID"
    using guard by (simp_all add: take_request_def not_less)
  show "ls_RequestName t = m_requestName m \<and> LmStateNameValid (m_requestName m)"
    if "m_command m \<in> {LM_STATE_STORAGE_EXPORT, LM_STATE_STORAGE_RENAME}"
    using check_name_ok [OF ok(2)] check_export_ok [OF ok(3)] that same by (auto simp: te)
  show "ls_Header t = m_header m \<and> ValidHeader (m_header m) \<and> m_payloadSize m = ah_payloadSize (m_header m)"
    if "m_command m = LM_STATE_STORAGE_EXPORT"
    using check_export_ok [OF ok(3)] that same by (simp add: te)
  show "delete_proof m (take_request m s) \<and> m_payloadSize m = 0 \<and> m_deleteVersion m = LM_STATE_STORAGE_VERSION"
    if "m_command m = LM_STATE_STORAGE_DELETE"
    using ok(1) that by (auto simp: check_delete_def take_request_def split: if_splits)
qed

text \<open>What taking a request does.\<close>

definition taken :: "('s \<Rightarrow> string \<Rightarrow> bytes option) \<Rightarrow> 's storage \<Rightarrow> 's storage \<Rightarrow> bool" where
  "taken view s s' \<longleftrightarrow> view (ls_vol s') = view (ls_vol s) \<and> ls_Directory s' = ls_Directory s \<and>
     ls_Seq s' = m_requestSeq (ls_mbox s) \<and> ls_Session s' = m_processSession (ls_mbox s) \<and>
     ls_Command s' = m_command (ls_mbox s) \<and> ls_RequestId s' = m_archiveId (ls_mbox s) \<and>
     mail_kept (ls_mbox s) (ls_mbox s') \<and>
     (ls_Phase s' = 0 \<longrightarrow> responded s') \<and>
     (ls_Phase s' \<noteq> 0 \<longrightarrow> ls_Phase s' = 1 \<and> fst (check_request s) = LM_STATE_STORAGE_OK)"

context fat_volume
begin

lemma phase_0:
  assumes inv: "service_inv s" and ph: "ls_Phase s = 0" and wf: "mailbox_wf (ls_mbox s)"
  shows "wp (ServiceRequest ops) (\<lambda>x s'. service_inv s' \<and> taken view s s') s"
proof -
  note D = storage_invD [OF inv]
  let ?t = "snd (check_request s)"
  have idle: "\<not> ls_Open s" "\<not> ls_DirectoryOpen s" using inv ph by (simp_all add: storage_inv_def)
  have t: "check_frame (take_request (ls_mbox s) s) ?t" by (rule check_request_frame)
  have f0: "ls_Directory ?t = ls_Directory s" "length (ls_RequestSeed ?t) = 4" "ls_vol ?t = ls_vol s"
    "ls_Seq ?t = m_requestSeq (ls_mbox s)" "ls_Session ?t = m_processSession (ls_mbox s)"
    "ls_Command ?t = m_command (ls_mbox s)" "ls_RequestId ?t = m_archiveId (ls_mbox s)" "ls_mbox ?t = ls_mbox s"
    using t D(2) by (simp_all add: check_frame_def take_request_def)
  have refused: "wp (Finish ops status) (\<lambda>x s'. service_inv s' \<and> taken view s s') ?t" for status
  proof (rule wp_mono [OF Finish_spec], elim conjE, intro conjI)
    fix s' :: "'s storage"
    assume s': "ls_Phase s' = 0" "\<not> ls_Open s'" "\<not> ls_DirectoryOpen s'" "responded s'" "finish_frame view ?t s'"
    then show "service_inv s'"
      using D(1) by (intro storage_inv_idle) (simp_all add: finish_frame_def f0)
    show "taken view s s'"
      using s' by (simp add: taken_def finish_frame_def same_request_def f0)
  qed
  have accepted: "service_inv (?t\<lparr>ls_Phase := 1\<rparr>) \<and> taken view s (?t\<lparr>ls_Phase := 1\<rparr>)"
    if ok: "fst (check_request s) = LM_STATE_STORAGE_OK"
  proof
    note C = check_request_ok [OF ok]
    have f: "ls_Directory ?t = ls_Directory s" "length (ls_RequestSeed ?t) = 4" "\<not> ls_Open ?t" "\<not> ls_DirectoryOpen ?t"
      "ls_Command ?t = m_command (ls_mbox s)" "ls_Offset ?t = 0" "ls_Length ?t = m_payloadSize (ls_mbox s)"
      "ls_FileId ?t = m_archiveId (ls_mbox s)"
      using t D(2) idle by (simp_all add: check_frame_def take_request_def)
    have name: "length (m_requestName (ls_mbox s)) = 32" using wf by (simp add: mailbox_wf_def)
    have "ls_Command ?t = LM_STATE_STORAGE_EXPORT \<Longrightarrow> export_inv view hfile hpos (?t\<lparr>ls_Phase := 1\<rparr>)"
      using C(3,5) f by (simp add: export_inv_def)
    then show "service_inv (?t\<lparr>ls_Phase := 1\<rparr>)"
      using D(1) C(2,4) name by (simp add: storage_inv_def f)
    show "taken view s (?t\<lparr>ls_Phase := 1\<rparr>)"
      using t ok by (simp add: taken_def check_frame_def take_request_def)
  qed
  show ?thesis
    unfolding ServiceRequest_def using refused accepted by simp
qed

text \<open>A pass with a request in progress, whatever its phase.\<close>

lemma service_pass:
  assumes inv: "service_inv s" and ph: "ls_Phase s \<noteq> 0"
  shows "wp (LmStateStorageService ops) (\<lambda>x. ok_pass s) s"
proof -
  note D = storage_invD [OF inv]
  have cancelled: "wp (Finish ops LM_STATE_STORAGE_CANCELLED) (\<lambda>x. ok_pass s) s"
  proof (rule finish_pass)
    show "mid view s s" using D(2) by (intro mid_quiet) (simp_all add: same_request_def)
    have "ls_Phase s \<le> 6" "ls_Phase s = 6 \<Longrightarrow> ls_Command s = LM_STATE_STORAGE_CATALOG"
      using inv by (simp_all add: storage_inv_def)
    then show "ls_Command s \<noteq> LM_STATE_STORAGE_CATALOG \<longrightarrow> ls_Phase s < 6"
      by (auto simp: order_class.le_less)
  qed (use D(1) ph in simp_all)
  have "unat (ls_Phase s) \<le> 6" "unat (ls_Phase s) \<noteq> 0"
    using inv ph by (simp_all add: storage_inv_def word_le_nat_alt unsigned_eq_0_iff)
  then have "unat (ls_Phase s) \<in> {1, 2, 3, 4, 5, 6}" by auto
  then have "ls_Phase s \<in> {1, 2, 3, 4, 5, 6}"
    by (auto simp: word_eq_iff_unsigned [where ?'a = nat])
  then show ?thesis
    unfolding LmStateStorageService_def
    using cancelled phase_1 [OF inv] phase_2_export [OF inv] phase_2_import [OF inv] phase_3_export [OF inv]
      phase_3_import [OF inv] phase_4 [OF inv] phase_5 [OF inv] phase_6 [OF inv]
    by auto
qed

end

end
