(* ===== verification/StorageSteps.thy ===== *)
theory StorageSteps
  imports StorageService
begin

text \<open>
  Runs of the state archive service: the ARM's passes interleaved with what the game writes into the
  mailbox and the snapshot and with the other services' use of the volume.
\<close>

section \<open>Start\<close>

text \<open>The statics before the first call: zero.\<close>

definition storage_boot :: "'s \<Rightarrow> 's storage" where
  "storage_boot v = \<lparr>ls_Enabled = False, ls_Open = False, ls_DirectoryOpen = False, ls_Ack = 0, ls_Seq = 0,
     ls_Command = 0, ls_FileId = 0, ls_RequestId = 0, ls_Length = 0, ls_Offset = 0, ls_Phase = 0,
     ls_Session = 0, ls_Directory = [], ls_Path = [], ls_Temporary = [], ls_Header = header_zero,
     ls_Catalog = replicate 8 entry_zero, ls_CatalogCount = 0, ls_CatalogMore = 0,
     ls_CatalogIdentity = replicate 8 0, ls_CatalogSeq = 0, ls_CatalogSession = 0,
     ls_DeleteHeaderCrc = 0, ls_DeleteBytes = 0, ls_RequestName = replicate 32 0,
     ls_RequestSeed = replicate 4 0, ls_KeyStatus = 0, ls_KeyConfig = 0, ls_KeyUnsupported = False,
     ls_PersistentKey = key_zero, ls_mbox = mailbox_zero, ls_snapshot = (\<lambda>i. 0), ls_vol = v\<rparr>"

section \<open>Steps\<close>

text \<open>The lines of the mailbox the ARM owns; the game writes the others.\<close>

definition arm_lines_kept :: "storage_mailbox \<Rightarrow> storage_mailbox \<Rightarrow> bool" where
  "arm_lines_kept m m' \<longleftrightarrow>
     m_magic m' = m_magic m \<and> m_version m' = m_version m \<and> m_ackSeq m' = m_ackSeq m \<and>
     m_status m' = m_status m \<and> m_resultId m' = m_resultId m \<and> m_transferred m' = m_transferred m \<and>
     m_available m' = m_available m \<and> m_cacheMagic m' = m_cacheMagic m \<and>
     m_cachePhysicalBase m' = m_cachePhysicalBase m \<and> m_cacheSize m' = m_cacheSize m \<and>
     m_filePatchCount m' = m_filePatchCount m \<and> m_responseSession m' = m_responseSession m \<and>
     m_responseCommand m' = m_responseCommand m \<and> m_responseArchiveId m' = m_responseArchiveId m \<and>
     m_responseSeq m' = m_responseSeq m \<and> m_responseLength m' = m_responseLength m \<and>
     m_catalogCount m' = m_catalogCount m \<and> m_catalogAfter m' = m_catalogAfter m \<and>
     m_catalogNext m' = m_catalogNext m \<and> m_catalogMore m' = m_catalogMore m \<and>
     m_catalog m' = m_catalog m \<and> m_keyMagic m' = m_keyMagic m \<and> m_keyVersion m' = m_keyVersion m \<and>
     m_keyStatus m' = m_keyStatus m \<and> m_keyId m' = m_keyId m \<and> m_keyWords m' = m_keyWords m \<and>
     m_keyConfigId m' = m_keyConfigId m \<and> m_catalogIdentity m' = m_catalogIdentity m"

text \<open>The files the other services leave alone: everything in the archive directory.\<close>

definition archive_file :: "string \<Rightarrow> string \<Rightarrow> bool" where
  "archive_file dir p \<longleftrightarrow> take (length dir + 1) p = dir @ ''/''"

text \<open>While a payload is on its way the game leaves the snapshot alone, so the bytes of an archive
  are those of one moment.\<close>

inductive storage_step :: "'s volume \<Rightarrow> ('s \<Rightarrow> string \<Rightarrow> bytes option) \<Rightarrow> ('s \<Rightarrow> nat \<Rightarrow> string option) \<Rightarrow>
    ('s \<Rightarrow> nat \<Rightarrow> nat) \<Rightarrow> storage_env \<Rightarrow> 's storage \<Rightarrow> 's storage \<Rightarrow> bool"
  for ops view hfile hpos env where
  pass: "LmStateStoragePending env s \<Longrightarrow> run_state (LmStateStorageService ops) s = (x, s') \<Longrightarrow>
    storage_step ops view hfile hpos env s s'"
| game: "arm_lines_kept (ls_mbox s) m \<Longrightarrow> mailbox_wf m \<Longrightarrow>
    (1 < ls_Phase s \<and> ls_Phase s < 6 \<longrightarrow> mem = ls_snapshot s) \<Longrightarrow>
    storage_step ops view hfile hpos env s (s\<lparr>ls_mbox := m, ls_snapshot := mem\<rparr>)"
| other: "(\<And>p. archive_file (ls_Directory s) p \<Longrightarrow> view v p = view (ls_vol s) p) \<Longrightarrow>
    hfile v FIL_File = hfile (ls_vol s) FIL_File \<Longrightarrow> hpos v FIL_File = hpos (ls_vol s) FIL_File \<Longrightarrow>
    vf_size ops FIL_File v = vf_size ops FIL_File (ls_vol s) \<Longrightarrow>
    storage_step ops view hfile hpos env s (s\<lparr>ls_vol := v\<rparr>)"

inductive storage_reachable :: "'s volume \<Rightarrow> ('s \<Rightarrow> string \<Rightarrow> bytes option) \<Rightarrow> ('s \<Rightarrow> nat \<Rightarrow> string option) \<Rightarrow>
    ('s \<Rightarrow> nat \<Rightarrow> nat) \<Rightarrow> storage_env \<Rightarrow> 's storage \<Rightarrow> bool"
  for ops view hfile hpos env where
  init: "run_state (LmStateStorageInit ops env) (storage_boot v) = (x, s) \<Longrightarrow>
    storage_reachable ops view hfile hpos env s"
| step: "storage_reachable ops view hfile hpos env s \<Longrightarrow> storage_step ops view hfile hpos env s s' \<Longrightarrow>
    storage_reachable ops view hfile hpos env s'"

lemma archive_file_paths [simp]:
  "archive_file dir (archive_path dir i)" "archive_file dir (archive_temporary dir i)"
  "archive_file dir (key_path dir k)"
  by (simp_all add: archive_file_def path_eqs)

section \<open>The invariant holds in every run\<close>

text \<open>What every reachable state has besides the invariant of the transfers.\<close>

definition run_inv :: "'s volume \<Rightarrow> ('s \<Rightarrow> string \<Rightarrow> bytes option) \<Rightarrow> ('s \<Rightarrow> nat \<Rightarrow> string option) \<Rightarrow>
    ('s \<Rightarrow> nat \<Rightarrow> nat) \<Rightarrow> storage_env \<Rightarrow> 's storage \<Rightarrow> bool" where
  "run_inv ops view hfile hpos env s \<longleftrightarrow>
     storage_inv ops view hfile hpos s \<and>
     (se_GAME_ID env = SUSAMUNE_MOD_GAME_ID_LMJ \<longrightarrow>
        mailbox_wf (ls_mbox s) \<and>
        m_magic (ls_mbox s) = LM_STATE_STORAGE_MAGIC \<and> m_version (ls_mbox s) = LM_STATE_STORAGE_VERSION)"

lemma storage_inv_mbox: "storage_inv ops view hfile hpos (s\<lparr>ls_mbox := m\<rparr>) = storage_inv ops view hfile hpos s"
  by (simp add: storage_inv_def export_inv_def import_inv_def)

lemma storage_inv_snapshot:
  "\<not> (1 < ls_Phase s \<and> ls_Phase s < 6) \<Longrightarrow>
    storage_inv ops view hfile hpos s \<Longrightarrow> storage_inv ops view hfile hpos (s\<lparr>ls_snapshot := mem\<rparr>)"
proof -
  assume ph: "\<not> (1 < ls_Phase s \<and> ls_Phase s < 6)" and inv: "storage_inv ops view hfile hpos s"
  have "export_inv view hfile hpos (s\<lparr>ls_snapshot := mem\<rparr>) = export_inv view hfile hpos s" if "\<not> 1 < ls_Phase s"
    using that by (simp add: export_inv_def)
  with ph inv show ?thesis by (cases "1 < ls_Phase s") (simp_all add: storage_inv_def)
qed

lemma export_inv_other:
  assumes "export_inv view hfile hpos s" and "\<And>p. archive_file (ls_Directory s) p \<Longrightarrow> view v p = view (ls_vol s) p"
    and "hfile v FIL_File = hfile (ls_vol s) FIL_File" "hpos v FIL_File = hpos (ls_vol s) FIL_File"
  shows "export_inv view hfile hpos (s\<lparr>ls_vol := v\<rparr>)"
  using assms by (auto simp: export_inv_def)

lemma import_inv_other:
  assumes "import_inv ops view hfile hpos s" and "\<And>p. archive_file (ls_Directory s) p \<Longrightarrow> view v p = view (ls_vol s) p"
    and "hfile v FIL_File = hfile (ls_vol s) FIL_File" "hpos v FIL_File = hpos (ls_vol s) FIL_File"
    and "vf_size ops FIL_File v = vf_size ops FIL_File (ls_vol s)"
  shows "import_inv ops view hfile hpos (s\<lparr>ls_vol := v\<rparr>)"
proof -
  have p: "ls_Path s = archive_path (ls_Directory s) (ls_FileId s)"
    using assms(1) by (simp add: import_inv_def)
  have "view v (ls_Path s) = view (ls_vol s) (ls_Path s)"
    unfolding p by (rule assms(2)) simp
  with assms(1,3-5) show ?thesis
    by (simp add: import_inv_def p split del: if_split cong: if_cong)
qed

lemma storage_inv_other:
  assumes "storage_inv ops view hfile hpos s" and "\<And>p. archive_file (ls_Directory s) p \<Longrightarrow> view v p = view (ls_vol s) p"
    and "hfile v FIL_File = hfile (ls_vol s) FIL_File" "hpos v FIL_File = hpos (ls_vol s) FIL_File"
    and "vf_size ops FIL_File v = vf_size ops FIL_File (ls_vol s)"
  shows "storage_inv ops view hfile hpos (s\<lparr>ls_vol := v\<rparr>)"
proof -
  have "export_inv view hfile hpos s \<longrightarrow> export_inv view hfile hpos (s\<lparr>ls_vol := v\<rparr>)"
    by (intro impI, rule export_inv_other; (assumption | rule assms))
  moreover have "import_inv ops view hfile hpos s \<longrightarrow> import_inv ops view hfile hpos (s\<lparr>ls_vol := v\<rparr>)"
    by (intro impI, rule import_inv_other; (assumption | rule assms))
  ultimately show ?thesis
    using assms(1) by (simp add: storage_inv_def)
qed

lemma run_prod: "\<exists>x s'. run_state c s = (x, s')"
  by (cases "run_state c s") auto

context fat_volume
begin

lemma Init_inv:
  assumes "length (se_prefix env) \<le> 21"
  shows "wp (LmStateStorageInit ops env) (\<lambda>x s. run_inv ops view hfile hpos env s) (storage_boot v)"
proof -
  have dir: "length (sprintf ''%s/lm_states'' [AStr (se_prefix env)]) \<le> 31"
    using assms by (simp add: sprintf_def)
  have boot: "ls_RequestSeed (storage_boot v) = replicate 4 0" "ls_Directory (storage_boot v) = []"
    by (simp_all add: storage_boot_def)
  have zero: "mailbox_wf mailbox_zero" by (simp add: mailbox_wf_def mailbox_zero_def)
  have idle: "run_inv ops view hfile hpos env s"
    if "length (ls_Directory s) \<le> 31" "length (ls_RequestSeed s) = 4" "ls_Phase s = 0" "\<not> ls_Open s"
      "\<not> ls_DirectoryOpen s" "mailbox_wf (ls_mbox s)" "m_magic (ls_mbox s) = LM_STATE_STORAGE_MAGIC"
      "m_version (ls_mbox s) = LM_STATE_STORAGE_VERSION" for s
    using that by (simp add: run_inv_def storage_inv_idle)
  let ?ready = "\<lambda>s. length (ls_Directory s) \<le> 31 \<and> length (ls_RequestSeed s) = 4 \<and> ls_Phase s = 0 \<and>
    \<not> ls_Open s \<and> \<not> ls_DirectoryOpen s \<and> mailbox_wf (ls_mbox s)"
  have resolve: "wp (ResolveKey ops) (\<lambda>x. ?ready) s" if "?ready s" for s
  proof (rule wp_mono [OF ResolveKey_resolved], elim conjE)
    fix s' assume "key_only view (\<lambda>p. True) s s'"
    from this that show "?ready s'"
      by (auto simp: key_only_def mailbox_wf_def)
  qed
  have game: "mailbox_wf (mailbox_zero\<lparr>m_cacheMagic := a, m_filePatchCount := b, m_cachePhysicalBase := c, m_cacheSize := d\<rparr>)"
    for a b c d
    using zero by (simp add: mailbox_wf_def)
  show ?thesis
  proof (cases "se_GAME_ID env = SUSAMUNE_MOD_GAME_ID_LMJ")
    case True
    show ?thesis
      unfolding LmStateStorageInit_def
      using boot dir True game
      by (auto simp: Let_def intro!: wpI [of "vf_mkdir ops p" for p] wp_mono [OF resolve] idle)
        (auto simp: mailbox_wf_def)
  next
    case False
    then show ?thesis
      unfolding LmStateStorageInit_def
      using boot by (auto simp: run_inv_def intro!: storage_inv_idle)
  qed
qed

lemma pass_run_inv:
  assumes inv: "run_inv ops view hfile hpos env s" and game: "se_GAME_ID env = SUSAMUNE_MOD_GAME_ID_LMJ"
    and run: "run_state (LmStateStorageService ops) s = (x, s')"
  shows "run_inv ops view hfile hpos env s'"
proof (cases "ls_Phase s = 0")
  case True
  have wf: "mailbox_wf (ls_mbox s)" and st: "storage_inv ops view hfile hpos s"
    using inv game by (simp_all add: run_inv_def)
  have "\<not> superseded s" using True by (simp add: superseded_def)
  then have "wp (LmStateStorageService ops) (\<lambda>x s'. service_inv s' \<and> taken view s s') s"
    unfolding LmStateStorageService_def using phase_0 [OF st True wf] True by simp
  from wpD [OF this run] inv show ?thesis
    by (auto simp: run_inv_def taken_def mailbox_wf_def)
next
  case False
  have "storage_inv ops view hfile hpos s" using inv by (simp add: run_inv_def)
  from wpD [OF service_pass [OF this False] run] inv show ?thesis
    by (auto simp: run_inv_def pass_ok_def mid_def same_request_def mailbox_wf_def)
qed

lemma step_run_inv:
  assumes "run_inv ops view hfile hpos env s" and "storage_step ops view hfile hpos env s s'"
  shows "run_inv ops view hfile hpos env s'"
  using assms(2)
proof cases
  case (pass x)
  have "se_GAME_ID env = SUSAMUNE_MOD_GAME_ID_LMJ"
    using pass(1) by (auto simp: LmStateStoragePending_def split: if_splits)
  from pass_run_inv [OF assms(1) this pass(2)] show ?thesis .
next
  case (game m mem)
  have "storage_inv ops view hfile hpos (s\<lparr>ls_mbox := m\<rparr>)"
    using assms(1) by (simp add: run_inv_def storage_inv_mbox)
  then have "storage_inv ops view hfile hpos (s\<lparr>ls_mbox := m, ls_snapshot := mem\<rparr>)"
    using game by (cases "1 < ls_Phase s \<and> ls_Phase s < 6") (auto intro: storage_inv_snapshot)
  with assms(1) game show ?thesis
    by (auto simp: run_inv_def arm_lines_kept_def)
next
  case (other v)
  then show ?thesis
    using assms(1) by (auto simp: run_inv_def intro: storage_inv_other)
qed

lemma reachable_run_inv:
  assumes "storage_reachable ops view hfile hpos env s" and "length (se_prefix env) \<le> 21"
  shows "run_inv ops view hfile hpos env s"
  using assms(1)
proof induction
  case (init v x s)
  show ?case using wpD [OF Init_inv [OF assms(2)] init] .
next
  case (step s s')
  show ?case using step_run_inv [OF step.IH step.hyps(2)] .
qed

text \<open>The effect of one step on the archives and the keys.\<close>

lemma step_effects:
  assumes inv: "run_inv ops view hfile hpos env s" and step: "storage_step ops view hfile hpos env s s'"
  shows "ls_Directory s' = ls_Directory s \<and> (\<forall>i. archive_effect view s i s') \<and> key_effect view s s'"
  using step
proof cases
  case (pass x)
  have game: "se_GAME_ID env = SUSAMUNE_MOD_GAME_ID_LMJ"
    using pass(1) by (auto simp: LmStateStoragePending_def split: if_splits)
  have st: "storage_inv ops view hfile hpos s" and wf: "mailbox_wf (ls_mbox s)"
    using inv game by (simp_all add: run_inv_def)
  show ?thesis
  proof (cases "ls_Phase s = 0")
    case True
    then have "wp (LmStateStorageService ops) (\<lambda>x s'. service_inv s' \<and> taken view s s') s"
      unfolding LmStateStorageService_def using phase_0 [OF st True wf] by (simp add: superseded_def)
    from wpD [OF this pass(2)] show ?thesis
      by (simp add: taken_def archive_effect_def key_effect_def)
  next
    case False
    from wpD [OF service_pass [OF st False] pass(2)] show ?thesis
      by (simp add: pass_ok_def mid_def)
  qed
next
  case (game m mem)
  then show ?thesis by (simp add: archive_effect_def key_effect_def)
next
  case (other v)
  then show ?thesis by (simp add: archive_effect_def key_effect_def Let_def)
qed

end

end
