(* ===== verification/StorageDemo.thy ===== *)
theory StorageDemo
  imports StorageSteps
begin

text \<open>
  Concrete runs of the state archive service on the map volume: a start from a card that holds one
  archive, an export of a second one and an import of the first, pass by pass.  The properties'
  witnesses take their states from here.
\<close>

section \<open>The card and the start\<close>

definition demo_cfg :: nin_cfg where
  "demo_cfg = \<lparr>nc_Version = 8, nc_Config = 0, nc_VideoMode = 0, nc_Language = 0, nc_MaxPads = 4,
     nc_GameID = SUSAMUNE_MOD_GAME_ID_LMJ, nc_MemCardBlocks = 0, nc_VideoScale = 0, nc_VideoOffset = 0,
     nc_SramOffset = 0, nc_SkipProgAsk = 0, nc_CardDelay = 0\<rparr>"

definition demo_env :: storage_env where
  "demo_env = \<lparr>se_GAME_ID = SUSAMUNE_MOD_GAME_ID_LMJ, se_BI2region = 0, se_ncfg = demo_cfg,
     se_prefix = ''1:'', se_available = True, se_patchCount = 0\<rparr>"

definition demo_header :: archive_header where
  "demo_header = \<lparr>ah_magic = LM_STATE_ARCHIVE_MAGIC, ah_version = 1, ah_headerSize = 64, ah_payloadSize = 257,
     ah_gameId = SUSAMUNE_MOD_GAME_ID_LMJ, ah_snapshotVersion = 1, ah_buildCrc = 5, ah_session = 7,
     ah_rawSize = 256, ah_trailerSize = 1, ah_payloadCrc = 9, ah_generation = 1,
     ah_authHigh = 0, ah_authLow = 0, ah_reserved0 = 0, ah_reserved1 = 0\<rparr>"

definition demo_file :: bytes where
  "demo_file = header_bytes demo_header @ replicate 257 3"

definition demo_path :: "u32 \<Rightarrow> string" where
  "demo_path i = archive_path ''1:/lm_states'' i"

definition demo_volume :: map_volume where
  "demo_volume = \<lparr>mv_files = [demo_path 1 \<mapsto> demo_file], mv_objects = (\<lambda>h. None),
     mv_sizes = (\<lambda>h. 0), mv_listing = (\<lambda>p. []), mv_dirs = (\<lambda>h. []), mv_faults = []\<rparr>"

definition demo_start :: "map_volume storage" where
  "demo_start = snd (run_state (LmStateStorageInit map_ops demo_env) (storage_boot demo_volume))"

definition demo_pass :: "map_volume storage \<Rightarrow> map_volume storage" where
  "demo_pass s = snd (run_state (LmStateStorageService map_ops) s)"

abbreviation demo_reachable :: "map_volume storage \<Rightarrow> bool" where
  "demo_reachable \<equiv> storage_reachable map_ops mv_files mv_hfile mv_hpos demo_env"

abbreviation demo_step :: "map_volume storage \<Rightarrow> map_volume storage \<Rightarrow> bool" where
  "demo_step \<equiv> storage_step map_ops mv_files mv_hfile mv_hpos demo_env"

section \<open>Running a program\<close>

lemma run_bind: "run_state (State_Monad.bind c f) s = (case run_state c s of (x, s') \<Rightarrow> run_state (f x) s')"
  by (simp add: State_Monad.bind_def)

lemma run_return: "run_state (State_Monad.return x) s = (x, s)"
  by (simp add: State_Monad.return_def)

lemma run_on_vol: "run_state (on_vol c) s = (case run_state c (ls_vol s) of (x, v) \<Rightarrow> (x, s\<lparr>ls_vol := v\<rparr>))"
  by (simp add: on_vol_def zoom_def)

lemma run_mbox_put: "run_state (mbox_put f) s = ((), s\<lparr>ls_mbox := f (ls_mbox s)\<rparr>)"
  by (simp add: mbox_put_def)

lemma run_if: "run_state (if b then c else d) s = (if b then run_state c s else run_state d s)"
  by simp

lemma run_size: "run_state (file_size ops h) s = (vf_size ops h (ls_vol s), s)"
  by (simp add: file_size_def)

lemma run_rename: "run_state (RenamePaths ops p q) s = run_state (on_vol (vf_rename ops (take 71 p) (take 71 q))) s"
  by (simp add: RenamePaths_def)

lemmas run_rules = run_bind run_return run_on_vol run_mbox_put run_if run_size run_rename mv_op_defs
  mv_call_def map_ops_def

lemma run_unit: "run_state c s = ((), snd (run_state c s))"
  by (simp add: prod_eq_iff)

lemma demo_dir: "sprintf ''%s/lm_states'' [AStr ''1:''] = ''1:/lm_states''"
  by (simp add: sprintf_def)

lemma demo_start_fields:
  "ls_Phase demo_start = 0 \<and> ls_Ack demo_start = 0 \<and> ls_Enabled demo_start \<and> \<not> ls_Open demo_start \<and>
   \<not> ls_DirectoryOpen demo_start \<and> ls_Directory demo_start = ''1:/lm_states'' \<and> ls_vol demo_start = demo_volume \<and>
   m_version (ls_mbox demo_start) = LM_STATE_STORAGE_VERSION"
  unfolding demo_start_def LmStateStorageInit_def ResolveKey_def ReadKeyCopy_def PublishKey_def
  by (simp add: run_rules demo_env_def demo_cfg_def NIN_CFG_CHEATS_DEBUG_def storage_boot_def demo_volume_def
    Let_def demo_dir demo_path_def)

lemma demo_start_reachable: "demo_reachable demo_start"
  unfolding demo_start_def by (rule storage_reachable.init [where x = "()", OF run_unit])

section \<open>Requests and passes\<close>

text \<open>The name asked for, one letter, and a snapshot of equal bytes.\<close>

definition demo_text :: bytes where "demo_text = 0x41 # replicate 31 0"

definition demo_ask :: "u32 \<Rightarrow> u32 \<Rightarrow> map_volume storage" where
  "demo_ask c i = demo_start\<lparr>ls_mbox := (ls_mbox demo_start)\<lparr>m_requestSeq := 1, m_command := c,
     m_archiveId := i, m_payloadSize := 257, m_processSession := 7, m_header := demo_header,
     m_requestName := demo_text\<rparr>, ls_snapshot := (\<lambda>i. 3)\<rparr>"

lemma demo_name: "LmStateNameValid demo_text"
  unfolding LmStateNameValid_def demo_text_def by code_simp

lemma demo_valid: "ValidHeader demo_header"
  by (simp add: ValidHeader_def demo_header_def)

lemma demo_text_length: "length demo_text = 32"
  by (simp add: demo_text_def)

lemma demo_ask_reachable: "demo_reachable (demo_ask c i)"
proof -
  have "mailbox_wf (ls_mbox demo_start)"
    using fat_volume.reachable_run_inv [OF map_fs.fat_volume_axioms demo_start_reachable]
    by (simp add: run_inv_def demo_env_def)
  then have "demo_step demo_start (demo_ask c i)"
    unfolding demo_ask_def
    by (intro storage_step.game) (simp_all add: arm_lines_kept_def mailbox_wf_def demo_text_length demo_start_fields)
  with demo_start_reachable show ?thesis by (rule storage_reachable.step)
qed

lemma demo_pass_step: "ls_Phase s \<noteq> 0 \<or> m_requestSeq (ls_mbox s) \<noteq> ls_Ack s \<Longrightarrow> demo_step s (demo_pass s)"
  unfolding demo_pass_def
  by (rule storage_step.pass [where x = "()", OF _ run_unit]) (simp add: LmStateStoragePending_def demo_env_def)

lemmas demo_phases = demo_pass_def LmStateStorageService_def superseded_def

lemmas demo_checks = ServiceRequest_def run_rules check_request_def take_request_def known_command_def
  check_delete_def check_key_def check_name_def check_export_def then_check_def demo_valid
  ArchiveIdentityStatus_def demo_name demo_start_fields

lemma demo_check: "check_request (demo_ask LM_STATE_STORAGE_IMPORT 1) = (LM_STATE_STORAGE_OK,
   (demo_ask LM_STATE_STORAGE_IMPORT 1)\<lparr>ls_Seq := 1, ls_Session := 7, ls_Command := LM_STATE_STORAGE_IMPORT,
    ls_FileId := 1, ls_RequestId := 1, ls_Length := 257, ls_Offset := 0\<rparr>)"
  by (simp add: demo_ask_def demo_checks Let_def)

section \<open>An import, pass by pass\<close>

definition import_1 :: "map_volume storage" where
  "import_1 = (demo_ask LM_STATE_STORAGE_IMPORT 1)\<lparr>ls_Seq := 1, ls_Session := 7,
    ls_Command := LM_STATE_STORAGE_IMPORT, ls_FileId := 1, ls_RequestId := 1, ls_Length := 257,
    ls_Offset := 0, ls_Phase := 1\<rparr>"

definition demo_opened :: map_volume where
  "demo_opened = demo_volume\<lparr>mv_objects := [FIL_File \<mapsto> (demo_path 1, 0)],
    mv_sizes := (\<lambda>h. 0)(FIL_File := 321)\<rparr>"

definition import_2 :: "map_volume storage" where
  "import_2 = import_1\<lparr>ls_Path := demo_path 1, ls_Open := True, ls_Phase := 2, ls_vol := demo_opened\<rparr>"

definition import_3 :: "map_volume storage" where
  "import_3 = import_2\<lparr>ls_Header := demo_header, ls_Phase := 3,
    ls_vol := demo_opened\<lparr>mv_objects := [FIL_File \<mapsto> (demo_path 1, 64)]\<rparr>\<rparr>"

definition import_4 :: "map_volume storage" where
  "import_4 = import_3\<lparr>ls_snapshot := snapshot_write 0 (replicate 257 3) (\<lambda>i. 3), ls_Offset := 257, ls_Phase := 4,
    ls_vol := demo_opened\<lparr>mv_objects := [FIL_File \<mapsto> (demo_path 1, 321)]\<rparr>\<rparr>"

definition import_5 :: "map_volume storage" where
  "import_5 = import_4\<lparr>ls_Open := False, ls_Phase := 5,
    ls_vol := demo_opened\<lparr>mv_objects := (\<lambda>h. None)\<rparr>\<rparr>"

lemma demo_file_length: "length demo_file = 321"
  by (simp add: demo_file_def header_bytes_def header_words_def)

lemma demo_file_header: "take 64 demo_file = header_bytes demo_header"
  by (simp add: demo_file_def)

lemma demo_file_payload: "drop 64 demo_file = replicate 257 3"
  by (simp add: demo_file_def)

lemma import_first: "demo_pass (demo_ask LM_STATE_STORAGE_IMPORT 1) = import_1"
proof -
  have "ls_Phase (demo_ask LM_STATE_STORAGE_IMPORT 1) = 0"
    by (simp add: demo_ask_def demo_start_fields)
  then show ?thesis
    by (simp add: demo_phases ServiceRequest_def run_bind run_if demo_check import_1_def)
qed

lemmas import_defs = import_1_def demo_ask_def demo_opened_def demo_volume_def

lemma import_second: "demo_pass import_1 = import_2"
  by (simp add: demo_phases run_rules ServiceStart_def StartImport_def opened_def import_2_def import_defs
    demo_start_fields demo_file_length flip: demo_path_def)

lemma demo_header_fields:
  "ah_payloadSize demo_header = 257" "ah_version demo_header = 1" "ah_session demo_header = 7"
  by (simp_all add: demo_header_def)

lemma demo_archive_size: "archive_size demo_header = 321"
  by (simp add: archive_size_def demo_header_def)

lemma import_third: "demo_pass import_2 = import_3"
  by (simp add: demo_phases run_rules ServiceHeader_def ImportHeader_def import_2_def import_3_def import_defs
    demo_start_fields demo_file_length demo_file_header overlay_whole demo_valid demo_archive_size
    ArchiveIdentityStatus_def demo_header_fields)

lemma import_fourth: "demo_pass import_3 = import_4"
  by (simp add: demo_phases run_rules ServiceSlice_def slice_count_def slice_done_def import_2_def import_3_def
    import_4_def import_defs demo_start_fields demo_file_length demo_file_payload Let_def)

lemma import_fifth: "demo_pass import_4 = import_5"
  by (simp add: demo_phases run_rules ServiceClose_def import_2_def import_3_def
    import_4_def import_5_def import_defs demo_start_fields)

lemma demo_run: "demo_reachable s \<Longrightarrow> ls_Phase s \<noteq> 0 \<Longrightarrow> demo_reachable (demo_pass s)"
  by (blast intro: storage_reachable.step demo_pass_step)

lemma import_1_reachable: "demo_reachable import_1"
  using storage_reachable.step [OF demo_ask_reachable demo_pass_step, of LM_STATE_STORAGE_IMPORT 1]
  by (simp add: import_first) (simp add: demo_ask_def demo_start_fields)

lemma import_5_reachable: "demo_reachable import_5"
proof -
  have "demo_reachable import_2"
    using demo_run [OF import_1_reachable] by (simp add: import_second) (simp add: import_1_def)
  then have "demo_reachable import_3"
    using demo_run [of import_2] by (simp add: import_third) (simp add: import_2_def)
  then have "demo_reachable import_4"
    using demo_run [of import_3] by (simp add: import_fourth) (simp add: import_3_def)
  then show ?thesis
    using demo_run [of import_4] by (simp add: import_fifth) (simp add: import_4_def)
qed

lemma import_5_fields:
  "ls_Phase import_5 = 5 \<and> ls_Command import_5 = LM_STATE_STORAGE_IMPORT \<and> \<not> superseded import_5 \<and>
   ls_Phase import_1 = 1 \<and> ls_Command import_1 = LM_STATE_STORAGE_IMPORT"
  by (simp add: superseded_def import_5_def import_4_def import_3_def import_2_def import_1_def demo_ask_def)

section \<open>An export, pass by pass\<close>

definition export_1 :: "map_volume storage" where
  "export_1 = (demo_ask LM_STATE_STORAGE_EXPORT 2)\<lparr>ls_Seq := 1, ls_Session := 7,
    ls_Command := LM_STATE_STORAGE_EXPORT, ls_FileId := 2, ls_RequestId := 2, ls_Length := 257,
    ls_Offset := 0, ls_RequestName := demo_text, ls_Header := demo_header, ls_Phase := 1\<rparr>"

definition demo_temporary :: string where
  "demo_temporary = archive_temporary ''1:/lm_states'' 2"

definition demo_created :: "bytes \<Rightarrow> map_volume" where
  "demo_created b = demo_volume\<lparr>mv_files := [demo_path 1 \<mapsto> demo_file, demo_temporary \<mapsto> b],
    mv_objects := [FIL_File \<mapsto> (demo_temporary, length b)], mv_sizes := (\<lambda>h. 0)(FIL_File := 0)\<rparr>"

definition export_2 :: "map_volume storage" where
  "export_2 = export_1\<lparr>ls_Path := demo_path 2, ls_Temporary := demo_temporary, ls_Open := True, ls_Phase := 2,
    ls_vol := demo_created []\<rparr>"

definition export_3 :: "map_volume storage" where
  "export_3 = export_2\<lparr>ls_Phase := 3, ls_vol := demo_created (header_bytes demo_header)\<rparr>"

definition export_4 :: "map_volume storage" where
  "export_4 = export_3\<lparr>ls_Offset := 257, ls_Phase := 4, ls_vol := demo_created demo_file\<rparr>"

definition export_5 :: "map_volume storage" where
  "export_5 = export_4\<lparr>ls_Open := False, ls_Phase := 5,
    ls_vol := (demo_created demo_file)\<lparr>mv_objects := (\<lambda>h. None)\<rparr>\<rparr>"

lemma export_check: "check_request (demo_ask LM_STATE_STORAGE_EXPORT 2) = (LM_STATE_STORAGE_OK,
   (demo_ask LM_STATE_STORAGE_EXPORT 2)\<lparr>ls_Seq := 1, ls_Session := 7, ls_Command := LM_STATE_STORAGE_EXPORT,
    ls_FileId := 2, ls_RequestId := 2, ls_Length := 257, ls_Offset := 0, ls_RequestName := demo_text,
    ls_Header := demo_header\<rparr>)"
  by (simp add: demo_ask_def demo_checks Let_def demo_header_fields)

lemma export_first: "demo_pass (demo_ask LM_STATE_STORAGE_EXPORT 2) = export_1"
proof -
  have "ls_Phase (demo_ask LM_STATE_STORAGE_EXPORT 2) = 0"
    by (simp add: demo_ask_def demo_start_fields)
  then show ?thesis
    by (simp add: demo_phases ServiceRequest_def run_bind run_if export_check export_1_def)
qed

lemmas export_defs = export_1_def demo_ask_def demo_volume_def demo_created_def demo_path_def
  demo_temporary_def

lemma export_second: "demo_pass export_1 = export_2"
  by (simp add: demo_phases run_rules ServiceStart_def StartExport_def stat_names_def opened_def export_2_def
    export_defs demo_start_fields name_path_differs [symmetric] archive_path_differs [symmetric])

lemma export_third: "demo_pass export_2 = export_3"
  by (simp add: demo_phases run_rules ServiceHeader_def ExportHeader_def export_2_def export_3_def
    export_defs demo_start_fields)

lemma export_fourth: "demo_pass export_3 = export_4"
  by (simp add: demo_phases run_rules ServiceSlice_def slice_count_def slice_done_def export_2_def export_3_def
    export_4_def export_defs demo_start_fields demo_file_def snapshot_read_def Let_def map_replicate_const)

lemma export_fifth: "demo_pass export_4 = export_5"
  by (simp add: demo_phases run_rules ServiceClose_def export_2_def export_3_def
    export_4_def export_5_def export_defs demo_start_fields fun_eq_iff)

lemma export_1_reachable: "demo_reachable export_1"
  using storage_reachable.step [OF demo_ask_reachable demo_pass_step, of LM_STATE_STORAGE_EXPORT 2]
  by (simp add: export_first) (simp add: demo_ask_def demo_start_fields)

lemma export_5_reachable: "demo_reachable export_5"
proof -
  have "demo_reachable export_2"
    using demo_run [OF export_1_reachable] by (simp add: export_second) (simp add: export_1_def)
  then have "demo_reachable export_3"
    using demo_run [of export_2] by (simp add: export_third) (simp add: export_2_def)
  then have "demo_reachable export_4"
    using demo_run [of export_3] by (simp add: export_fourth) (simp add: export_3_def)
  then show ?thesis
    using demo_run [of export_4] by (simp add: export_fifth) (simp add: export_4_def)
qed

lemmas export_5_defs = export_5_def export_4_def export_3_def export_2_def export_defs

lemma export_5_fields:
  "ls_Phase export_5 = 5 \<and> ls_Command export_5 = LM_STATE_STORAGE_EXPORT \<and> \<not> superseded export_5 \<and>
   ls_Directory export_5 = ''1:/lm_states''"
  by (simp add: superseded_def export_5_defs demo_start_fields)

lemma demo_no_name: "nr_generation name_zero = 0"
  by (simp add: name_zero_def name_of_bytes_def word_at_def de32_def)

lemma demo_name_record: "length (name_bytes (next_name 2 (ArchiveChecksum demo_header) demo_text latest)) = 64"
  by (rule length_name_bytes) (simp add: next_name_def demo_text_length Let_def)

lemma export_commit:
  "mv_files (ls_vol (demo_pass export_5)) (demo_path 2) = Some demo_file \<and>
   ls_Directory (demo_pass export_5) = ''1:/lm_states'' \<and> m_status (ls_mbox (demo_pass export_5)) = LM_STATE_STORAGE_OK"
  by (simp add: demo_phases run_rules ServiceCommit_def RenameArchive_def WriteName_def ReadNames_def
    ReadNames_copy_def replace_copy_def write_temporary_def Finish_def close_file_def close_directory_def
    publish_response_def Let_def export_5_defs demo_start_fields demo_no_name demo_name_record
    name_path_differs [symmetric] archive_path_differs [symmetric])

lemma demo_card:
  "mv_files (ls_vol export_5) (demo_path 1) = Some demo_file" "mv_files (ls_vol export_5) (demo_path 2) = None"
  by (simp_all add: export_5_defs)

end
