(* ===== verification/StorageRecovery.thy ===== *)
theory StorageRecovery
  imports StorageSteps
begin

text \<open>
  What survives: the two copies of a display name across an interrupted update, damage to a durable
  record, and the recovery of an identifier from a file's name.
\<close>

section \<open>Two copies of a name\<close>

lemma u32_less_succ: "(x :: u32) \<noteq> 0xFFFFFFFF \<Longrightarrow> x < x + 1"
proof -
  assume "x \<noteq> 0xFFFFFFFF"
  then have "unat x \<noteq> 0xFFFFFFFF" by (simp add: word_eq_iff_unsigned [where ?'a = nat])
  with unat_u32_less [of x] have "unat (x + 1) = unat x + 1"
    using unat_plus_bound [of x 1] by simp
  then show ?thesis by (simp add: word_less_nat_alt)
qed

lemma next_name_intact:
  assumes "LmStateNameValid name" "length name = 32" "nr_reserved0 latest = 0" "nr_reserved1 latest = 0"
    and "nr_generation latest \<noteq> 0xFFFFFFFF"
  shows "name_intact i crc (name_of_bytes (name_bytes (next_name i crc name latest)))"
    and "name_of_bytes (name_bytes (next_name i crc name latest)) = next_name i crc name latest"
proof -
  show eq: "name_of_bytes (name_bytes (next_name i crc name latest)) = next_name i crc name latest"
    by (rule name_of_bytes_bytes) (simp add: next_name_def Let_def assms)
  have "nr_generation latest + 1 \<noteq> 0"
    using assms(5) by (auto simp: eq_neg_iff_add_eq_0 [symmetric])
  then show "name_intact i crc (name_of_bytes (name_bytes (next_name i crc name latest)))"
    unfolding eq using assms by (simp add: name_intact_def next_name_def Let_def)
qed

lemma next_name_overflow: "\<not> name_intact i crc (name_of_bytes (name_bytes (next_name i crc name latest)))"
  if "nr_generation latest = 0xFFFFFFFF" "length name = 32"
proof -
  have "name_of_bytes (name_bytes (next_name i crc name latest)) = next_name i crc name latest"
    by (rule name_of_bytes_bytes) (simp add: next_name_def Let_def that)
  then show ?thesis using that by (simp add: name_intact_def next_name_def Let_def)
qed

lemma next_name_generation [simp]: "nr_generation (next_name i crc name latest) = nr_generation latest + 1"
  by (simp add: next_name_def Let_def)

lemma stored_name_reserved: "stored_name files dir i crc k = Some r \<Longrightarrow> nr_reserved0 r = 0 \<and> nr_reserved1 r = 0"
  by (auto simp: stored_name_def name_intact_def split: option.splits if_splits)

lemma latest_reserved:
  "nr_reserved0 (fst (latest_name files dir i crc)) = 0 \<and> nr_reserved1 (fst (latest_name files dir i crc)) = 0"
  by (auto simp: latest_name_def newer_name_def name_zero_def name_of_bytes_def word_at_def de32_def
      dest!: stored_name_reserved split: option.splits)

text \<open>The record that is not the latest one is replaced, whatever was left of it.\<close>

lemma latest_name_other:
  fixes files files' :: "string \<Rightarrow> bytes option" and dir :: string and i crc :: u32
  defines "latest \<equiv> latest_name files dir i crc"
  defines "k \<equiv> snd latest XOR 1"
  assumes other: "stored_name files' dir i crc (snd latest) = stored_name files dir i crc (snd latest)"
    and mine: "stored_name files' dir i crc k \<in> {stored_name files dir i crc k, None}"
  shows "latest_name files' dir i crc = latest"
  using assms
  by (auto simp: latest_name_def newer_name_def split: option.splits if_splits)

lemma latest_name_new:
  fixes files files' :: "string \<Rightarrow> bytes option" and dir :: string and i crc :: u32
  defines "latest \<equiv> latest_name files dir i crc"
  defines "k \<equiv> snd latest XOR 1"
  assumes other: "stored_name files' dir i crc (snd latest) = stored_name files dir i crc (snd latest)"
    and mine: "stored_name files' dir i crc k = Some r" and gen: "nr_generation r > nr_generation (fst latest)"
  shows "fst (latest_name files' dir i crc) = r"
  using assms
  by (auto simp: latest_name_def newer_name_def split: option.splits if_splits)

text \<open>The effect of an interrupted or completed update on what the next reader finds.\<close>

lemma name_update:
  fixes files files' :: "string \<Rightarrow> bytes option" and dir :: string and i crc :: u32 and name :: bytes
  defines "latest \<equiv> latest_name files dir i crc"
  defines "k \<equiv> snd latest XOR 1" and "new \<equiv> next_name i crc name (fst latest)"
  assumes name: "LmStateNameValid name" "length name = 32"
    and others: "\<And>p. p \<noteq> name_path dir i k \<Longrightarrow> p \<noteq> name_temporary dir i k \<Longrightarrow> files' p = files p"
    and mine: "files' (name_path dir i k) \<in> {files (name_path dir i k), None, Some (name_bytes new)}"
  shows "fst (latest_name files' dir i crc) \<in> {fst latest, new}"
    and "files' (name_path dir i k) = Some (name_bytes new) \<Longrightarrow> nr_generation (fst latest) \<noteq> 0xFFFFFFFF \<Longrightarrow>
      fst (latest_name files' dir i crc) = new"
proof -
  have k01: "snd latest \<in> {0, 1}"
    by (auto simp: latest_def latest_name_def newer_name_def split: option.splits)
  have "name_path dir i (snd latest) \<noteq> name_path dir i k"
    using k01 by (auto simp: k_def name_path_eq)
  then have kept: "stored_name files' dir i crc (snd latest) = stored_name files dir i crc (snd latest)"
    by (simp add: stored_name_def others)
  have len: "length (name_bytes new) = 64"
    by (rule length_name_bytes) (simp add: new_def next_name_def Let_def name)
  show final: "fst (latest_name files' dir i crc) = new"
    if "files' (name_path dir i k) = Some (name_bytes new)" "nr_generation (fst latest) \<noteq> 0xFFFFFFFF"
  proof (rule latest_name_new [OF kept [unfolded latest_def]])
    have res: "nr_reserved0 (fst latest) = 0" "nr_reserved1 (fst latest) = 0"
      unfolding latest_def using latest_reserved by blast+
    show "stored_name files' dir i crc (snd (latest_name files dir i crc) XOR 1) = Some new"
      using that len next_name_intact [OF name res that(2), of i crc]
      by (simp add: stored_name_def k_def latest_def new_def)
    have "nr_generation (fst latest) < nr_generation (fst latest) + 1"
      by (rule u32_less_succ [OF that(2)])
    then show "nr_generation (fst (latest_name files dir i crc)) < nr_generation new"
      by (simp add: new_def latest_def)
  qed
  show "fst (latest_name files' dir i crc) \<in> {fst latest, new}"
  proof (cases "files' (name_path dir i k) = Some (name_bytes new) \<and> nr_generation (fst latest) \<noteq> 0xFFFFFFFF")
    case True
    with final show ?thesis by simp
  next
    case False
    have "stored_name files' dir i crc k \<in> {stored_name files dir i crc k, None}"
      using mine False next_name_overflow [OF _ name(2), of "fst latest" i crc]
      by (auto simp: stored_name_def new_def)
    then have "latest_name files' dir i crc = latest"
      using kept unfolding latest_def k_def by (intro latest_name_other)
    then show ?thesis by simp
  qed
qed

lemma latest_name_elsewhere:
  assumes "\<And>p. p \<noteq> name_path dir i k \<Longrightarrow> p \<noteq> name_temporary dir i k \<Longrightarrow> files' p = files p" and "j \<noteq> i"
    and "k \<in> {0, 1}"
  shows "latest_name files' dir j crc = latest_name files dir j crc"
proof -
  have "name_path dir j l \<noteq> name_path dir i k" if "l \<in> {0, 1}" for l
    using that assms(2,3) by (auto simp: name_path_eq dest: dec8_inj)
  then have "stored_name files' dir j crc l = stored_name files dir j crc l" if "l \<in> {0, 1}" for l
    using that by (simp add: stored_name_def assms(1))
  then show ?thesis by (simp add: latest_name_def)
qed

section \<open>Damage to a record\<close>

text \<open>A record whose checksum word at \<open>c\<close> covers every other byte shows damage to any one byte.\<close>

lemma checksum_damage:
  assumes "c + 4 \<le> length bs" and "k < length bs" and "v \<noteq> bs ! k"
    and skip: "\<And>i. skip i \<longleftrightarrow> c \<le> i \<and> i < c + 4"
    and ok: "word_at bs c = NOT (crc_masked skip 0 init bs)"
  shows "word_at (bs[k := v]) c \<noteq> NOT (crc_masked skip 0 init (bs[k := v]))"
proof (cases "skip k")
  case True
  have "crc_masked skip 0 init (bs[k := v]) = crc_masked skip 0 init bs"
    using True by (intro crc_masked_skip) (simp, metis nth_list_update_neq)
  moreover have "word_at (bs[k := v]) c \<noteq> word_at bs c"
  proof
    assume "word_at (bs[k := v]) c = word_at bs c"
    then have "take 4 (drop c (bs[k := v])) = take 4 (drop c bs)"
      using assms(1) by (metis be32_word_at length_list_update)
    then have "take 4 (drop c (bs[k := v])) ! (k - c) = take 4 (drop c bs) ! (k - c)" by simp
    moreover have "take 4 (drop c xs) ! (k - c) = xs ! k" if "length xs = length bs" for xs :: bytes
    proof -
      have "c \<le> k" "k < c + 4" using True by (simp_all add: skip)
      then show ?thesis using that assms(1) by (auto simp: nth_drop)
    qed
    ultimately show False using assms(2,3) by simp
  qed
  ultimately show ?thesis using ok by simp
next
  case False
  have "word_at (bs[k := v]) c = word_at bs c"
    using False by (auto simp: word_at_def skip)
  with ok crc_masked_detects [OF assms(2), of skip v init] False assms(3) show ?thesis by auto
qed

lemma name_bytes_of_bytes: "length bs = 64 \<Longrightarrow> name_bytes (name_of_bytes bs) = bs"
proof -
  assume len: "length bs = 64"
  have "image32 (map (\<lambda>i. word_at bs (0 + 4 * i)) [0..<4]) = take 16 bs"
    "image32 (map (\<lambda>i. word_at bs (48 + 4 * i)) [0..<4]) = drop 48 bs"
    using len by (subst image32_words_at; simp)+
  then have "name_bytes (name_of_bytes bs) = take 16 bs @ take 32 (drop 16 bs) @ drop 48 bs"
    by (simp add: name_bytes_def name_of_bytes_def upt_rec)
  moreover have "take 32 (drop 16 bs) @ drop 48 bs = drop 16 bs"
    using append_take_drop_id [of 32 "drop 16 bs"] by (simp del: append_take_drop_id)
  ultimately show ?thesis by simp
qed

lemma key_bytes_of_bytes: "length bs = 64 \<Longrightarrow> key_bytes (key_of_bytes bs) = bs"
proof -
  assume len: "length bs = 64"
  then have "image32 (map (\<lambda>i. word_at bs (0 + 4 * i)) [0..<16]) = bs"
    by (subst image32_words_at) simp_all
  then show ?thesis by (simp add: key_bytes_def key_of_bytes_def upt_rec)
qed

lemma name_damage:
  assumes "length bs = 64" "k < 64" "v \<noteq> bs ! k" and "name_intact i crc (name_of_bytes bs)"
  shows "\<not> name_intact j crc' (name_of_bytes (bs[k := v]))"
proof -
  let ?skip = "\<lambda>i. 48 \<le> i \<and> i < (52 :: nat)"
  have "word_at bs 48 = NOT (crc_masked ?skip 0 0xFFFFFFFF bs)"
    using assms(1,4) name_bytes_of_bytes [OF assms(1)]
    by (simp add: name_intact_def NameChecksum_def) (simp add: name_of_bytes_def)
  then have "word_at (bs[k := v]) 48 \<noteq> NOT (crc_masked ?skip 0 0xFFFFFFFF (bs[k := v]))"
    using assms(1-3) by (intro checksum_damage) auto
  then show ?thesis
    using name_bytes_of_bytes [of "bs[k := v]"] assms(1)
    by (simp add: name_intact_def NameChecksum_def) (simp add: name_of_bytes_def)
qed

lemma key_damage:
  assumes "length bs = 64" "k < 64" "v \<noteq> bs ! k" and "key_status (key_of_bytes bs) = LM_STATE_KEY_READY"
  shows "key_status (key_of_bytes (bs[k := v])) = LM_STATE_KEY_INVALID"
proof -
  let ?skip = "\<lambda>i. 12 \<le> i \<and> i < (16 :: nat)"
  have "word_at bs 12 = NOT (crc_masked ?skip 0 0xFFFFFFFF bs)"
    using assms(1,4) key_bytes_of_bytes [OF assms(1)]
    by (simp add: key_status_def KeyCrc_def split: if_splits) (simp add: key_of_bytes_def)
  then have "word_at (bs[k := v]) 12 \<noteq> NOT (crc_masked ?skip 0 0xFFFFFFFF (bs[k := v]))"
    using assms(1-3) by (intro checksum_damage) auto
  then have "kr_checksum (key_of_bytes (bs[k := v])) \<noteq> KeyCrc (key_of_bytes (bs[k := v])) False"
    using key_bytes_of_bytes [of "bs[k := v]"] assms(1)
    by (simp add: KeyCrc_def) (simp add: key_of_bytes_def)
  then show ?thesis by (simp add: key_status_def)
qed

lemma header_damage:
  assumes "length bs = 64" "k < 64" "v \<noteq> bs ! k"
  shows "ArchiveChecksum (header_of_bytes (bs[k := v])) \<noteq> ArchiveChecksum (header_of_bytes bs)"
  using assms crc_loop.foldl_byte_update [of k bs v]
  by (simp add: ArchiveChecksum_def header_bytes_of_bytes)

section \<open>The identifier in a file's name\<close>

text \<open>A digit as a character, a 16-bit unit and a value.\<close>

lemma digit_char:
  assumes "(n :: nat) \<le> 9"
  shows "isdigit (char_of (48 + n))" "(of_char (char_of (48 + n) :: char) :: nat) = 48 + n"
    "(of_char (char_of (48 + n) :: char) :: u16) = word_of_nat (48 + n)"
proof -
  have "n \<in> {0, 1, 2, 3, 4, 5, 6, 7, 8, 9}" using assms by auto
  then show "isdigit (char_of (48 + n))" by (auto simp: isdigit_def less_eq_char_def)
  show nat: "(of_char (char_of (48 + n) :: char) :: nat) = 48 + n" using assms by simp
  show "(of_char (char_of (48 + n) :: char) :: u16) = word_of_nat (48 + n)"
    by (subst of_nat_of_char [symmetric]) (simp only: nat)
qed

lemma isdigitE:
  assumes "isdigit c"
  obtains n :: nat where "n \<le> 9" "c = char_of (48 + n)"
proof -
  have "48 \<le> (of_char c :: nat)" "(of_char c :: nat) \<le> 57"
    using assms by (auto simp: isdigit_def less_eq_char_def)
  then have "of_char c - 48 \<le> (9 :: nat)" "c = char_of (48 + (of_char c - 48) :: nat)" by simp_all
  then show ?thesis by (rule that)
qed

lemma scan_digit:
  assumes "(n :: nat) \<le> 9"
  shows "scan_digits (word_of_nat (48 + n) # cs) a = scan_digits cs (a * 10 + word_of_nat n)"
proof -
  have u: "unat (word_of_nat (48 + n) :: u16) = 48 + n"
    using assms by (simp add: unsigned_of_nat take_bit_nat_eq_self del: of_nat_add)
  have "unat (ucast (word_of_nat (48 + n) :: u16) :: u32) = unat (word_of_nat (48 + n) :: u32)"
    using assms by (simp add: unsigned_ucast_eq unsigned_of_nat take_bit_nat_eq_self del: of_nat_add)
  then have "ucast (word_of_nat (48 + n) :: u16) = (word_of_nat (48 + n) :: u32)"
    by (simp add: word_eq_iff_unsigned [where ?'a = nat] del: of_nat_add)
  moreover have "(word_of_nat (48 + n) :: u32) = 48 + word_of_nat n" by simp
  ultimately have "a * 10 + ucast (word_of_nat (48 + n) :: u16) - 48 = a * 10 + (word_of_nat n :: u32)"
    by (simp only:) (simp add: algebra_simps)
  moreover have "\<not> ((word_of_nat (48 + n) :: u16) < 48 \<or> (word_of_nat (48 + n) :: u16) > 57)"
    using assms u by (simp only: word_less_nat_alt) simp
  ultimately show ?thesis by (simp only: scan_digits.simps if_False)
qed

lemma digit_unit: "\<not> (c < 48 \<or> c > 57) \<Longrightarrow> \<exists>n \<le> 9. (c :: u16) = word_of_nat (48 + n)"
proof -
  assume "\<not> (c < 48 \<or> c > 57)"
  then have "48 \<le> unat c" "unat c \<le> 57" by (simp_all add: not_less word_le_nat_alt)
  then have "unat c - 48 \<le> 9" "c = word_of_nat (48 + (unat c - 48))" by simp_all
  then show ?thesis by blast
qed

lemma scan_digits_text:
  assumes "\<forall>c \<in> set ds. isdigit c"
  shows "scan_digits (map of_char ds) (word_of_nat v) =
    Some (word_of_nat (foldl (\<lambda>v c. v * 10 + (of_char c - 48)) v ds))"
  using assms
proof (induction ds arbitrary: v)
  case (Cons c ds)
  then obtain n :: nat where n: "n \<le> 9" "c = char_of (48 + n)" by (auto elim: isdigitE)
  have "(of_char c :: u16) = word_of_nat (48 + n)" and v: "(of_char c :: nat) - 48 = n"
    using digit_char [OF n(1)] n(2) by simp_all
  then have "scan_digits (map of_char (c # ds)) (word_of_nat v) =
      scan_digits (map of_char ds) (word_of_nat (v * 10 + n))"
    using scan_digit [OF n(1)] by (simp del: scan_digits.simps)
  with Cons.IH [of "v * 10 + n"] Cons.prems v show ?case by (simp del: scan_digits.simps)
qed simp

lemma scan_digits_only: "scan_digits cs a = Some r \<Longrightarrow> \<exists>ds. cs = map of_char ds \<and> (\<forall>c \<in> set ds. isdigit c)"
proof (induction cs arbitrary: a)
  case (Cons c cs)
  then obtain n where n: "n \<le> 9" "c = word_of_nat (48 + n)"
    using digit_unit [of c] by (auto split: if_splits)
  from Cons obtain ds where "cs = map of_char ds" "\<forall>c \<in> set ds. isdigit c"
    by (auto split: if_splits)
  with n digit_char [OF n(1)] show ?case
    by (intro exI [of _ "char_of (48 + n) # ds"]) simp
qed simp

text \<open>Two digit strings of one length with one value are one string.\<close>

lemma digits_value_snoc: "digits_value (s @ [c]) = digits_value s * 10 + (of_char c - 48)"
  by (simp add: digits_value_def)

lemma digits_value_inj:
  assumes "length s = length t" "\<forall>c \<in> set s. isdigit c" "\<forall>c \<in> set t. isdigit c" "digits_value s = digits_value t"
  shows "s = t"
  using assms
proof (induction s arbitrary: t rule: rev_induct)
  case (snoc c s)
  then obtain d u where t: "t = u @ [d]" by (cases t rule: rev_cases) auto
  from snoc.prems t obtain m n :: nat where c: "m \<le> 9" "c = char_of (48 + m)" and d: "n \<le> 9" "d = char_of (48 + n)"
    by (auto elim!: isdigitE)
  have "digits_value s * 10 + m = digits_value u * 10 + n"
    using snoc.prems(4) digit_char(2) [OF c(1)] digit_char(2) [OF d(1)] c d by (simp add: t digits_value_snoc)
  with c(1) d(1) have "digits_value s = digits_value u \<and> m = n" by presburger
  with snoc t c d show ?case by simp
qed simp

lemma digits_value_bound: "\<forall>c \<in> set s. isdigit c \<Longrightarrow> digits_value s < 10 ^ length s"
proof (induction s rule: rev_induct)
  case (snoc c s)
  then obtain n :: nat where n: "n \<le> 9" "c = char_of (48 + n)" by (auto elim!: isdigitE)
  have "digits_value s < 10 ^ length s" using snoc by simp
  then have "digits_value s * 10 + n < 10 ^ length s * 10" using n(1) by linarith
  with n digit_char(2) [OF n(1)] show ?case by (simp add: digits_value_snoc)
qed (simp add: digits_value_def)

text \<open>The name of an archive in its directory.\<close>

definition archive_name :: "u32 \<Rightarrow> string" where
  "archive_name i = ''archive_'' @ dec8 i @ ''.lms''"

lemma archive_name_path: "archive_path dir i = dir @ ''/'' @ archive_name i"
  by (simp add: archive_path_eq archive_name_def)

lemma fname_at_map: "fi_name info = map of_char s \<Longrightarrow> map (fname_at info) [a..<b] = map of_char (take (b - a) (drop a s))"
  if "b \<le> length s" "a \<le> b"
  using that by (intro nth_equalityI) (auto simp: fname_at_def)

lemma archive_name_nonzero: "(0 :: u16) \<notin> set (map of_char (archive_name i))"
proof -
  have "(of_char c :: u16) \<noteq> 0" if digit: "isdigit c" for c
  proof -
    obtain n :: nat where n: "n \<le> 9" "c = char_of (48 + n)" using digit by (rule isdigitE)
    have "unat (of_char c :: u16) = 48 + n"
      using n digit_char(3) [OF n(1)] by (simp add: unsigned_of_nat take_bit_nat_eq_self del: of_nat_add)
    then show ?thesis by auto
  qed
  then show ?thesis
    using dec8_digits [of _ i] by (auto simp: archive_name_def eq_commute [of "0 :: u16"])
qed

lemma archive_name_scanned:
  assumes "fi_attrib info AND AM_DIR = 0" "fi_name info = map of_char (archive_name i)" "i \<le> LM_STATE_STORAGE_MAX_ID"
  shows "CatalogFileId info = i"
proof -
  have len: "length (dec8 i) = 8" using assms(3) by (rule dec8_length)
  then have n: "length (archive_name i) = 20" by (simp add: archive_name_def)
  have "map (fname_at info) [0..<8] = map of_char ''archive_''"
    using fname_at_map [OF _ _ assms(2), of 8 0] n by (simp add: archive_name_def)
  moreover have "map (fname_at info) [8..<16] = map of_char (dec8 i)"
    using fname_at_map [OF _ _ assms(2), of 16 8] n len by (simp add: archive_name_def)
  moreover have "scan_digits (map of_char (dec8 i)) 0 = Some i"
    using scan_digits_text [of "dec8 i" 0] dec8_digits [of _ i] dec8_value [of i]
    by (simp add: digits_value_def)
  moreover have "map (fname_at info) [16..<20] = map of_char ''.lms''"
    using fname_at_map [OF _ _ assms(2), of 20 16] n len by (simp add: archive_name_def)
  then have "fname_at info 16 = of_char (CHR ''.'')" "fname_at info 17 = of_char (CHR ''l'')"
    "fname_at info 18 = of_char (CHR ''m'')" "fname_at info 19 = of_char (CHR ''s'')"
    by (simp_all add: upt_rec)
  moreover have "fname_at info 20 = 0" using n assms(2) by (simp add: fname_at_def)
  ultimately show ?thesis using assms(1) by (simp add: CatalogFileId_def)
qed

lemma list_21:
  assumes "0 \<notin> set xs" "\<And>n. n < length ys \<Longrightarrow> (if n < length xs then xs ! n else 0) = ys ! n" "0 \<notin> set ys"
    and "(if length ys < length xs then xs ! length ys else 0) = 0"
  shows "xs = ys"
proof (rule nth_equalityI)
  have "\<not> length ys < length xs"
    using assms(1,4) by (metis nth_mem)
  moreover have "\<not> length xs < length ys"
    using assms(2,3) by (metis less_irrefl nth_mem)
  ultimately show len: "length xs = length ys" by simp
  show "xs ! n = ys ! n" if "n < length xs" for n
    using assms(2) [of n] that len by simp
qed

lemma archive_name_only:
  assumes "CatalogFileId info = i" "i \<noteq> 0" "0 \<notin> set (fi_name info)"
  shows "fi_attrib info AND AM_DIR = 0 \<and> fi_name info = map of_char (archive_name i) \<and> i \<le> LM_STATE_STORAGE_MAX_ID"
proof -
  have dir: "fi_attrib info AND AM_DIR = 0" and pre: "map (fname_at info) [0..<8] = map of_char ''archive_''"
    and scan: "scan_digits (map (fname_at info) [8..<16]) 0 = Some i"
    and ext: "fname_at info 16 = of_char (CHR ''.'')" "fname_at info 17 = of_char (CHR ''l'')"
      "fname_at info 18 = of_char (CHR ''m'')" "fname_at info 19 = of_char (CHR ''s'')" "fname_at info 20 = 0"
    using assms(1,2) unfolding CatalogFileId_def by (auto split: if_splits option.splits)
  obtain ds where ds: "map (fname_at info) [8..<16] = map of_char ds" "\<forall>c \<in> set ds. isdigit c"
    using scan_digits_only [OF scan] by blast
  have len: "length ds = 8"
    using arg_cong [OF ds(1), of length] by simp
  have i: "i = word_of_nat (digits_value ds)"
    using scan [unfolded ds(1)] scan_digits_text [OF ds(2), of 0] by (simp add: digits_value_def)
  have bound: "digits_value ds < 10 ^ 8"
    using digits_value_bound [OF ds(2)] len by simp
  then have u: "unat i = digits_value ds"
    by (simp add: i unsigned_of_nat take_bit_nat_eq_self)
  then have max: "i \<le> LM_STATE_STORAGE_MAX_ID"
    using bound by (simp add: word_le_nat_alt)
  have "ds = dec8 i"
    using len ds(2) dec8_length [OF max] dec8_digits dec8_value u by (intro digits_value_inj) auto
  then have mid: "map (fname_at info) [8..<16] = map of_char (dec8 i)" using ds(1) by simp
  have "map (fname_at info) [16..<20] = map of_char ''.lms''"
    using ext by (simp add: upt_rec)
  then have all: "map (fname_at info) [0..<20] = map of_char (archive_name i)"
    using pre mid upt_add_eq_append [of 0 8 8] upt_add_eq_append [of 0 16 4] by (simp add: archive_name_def)
  have n: "length (archive_name i) = 20" using dec8_length [OF max] by (simp add: archive_name_def)
  have "fi_name info = map of_char (archive_name i)"
  proof (rule list_21 [OF assms(3)])
    show "(if k < length (fi_name info) then fi_name info ! k else 0) = map of_char (archive_name i) ! k"
      if "k < length (map of_char (archive_name i) :: u16 list)" for k
      using arg_cong [OF all, of "\<lambda>xs. xs ! k"] that n by (simp add: fname_at_def)
    show "(0 :: u16) \<notin> set (map of_char (archive_name i))"
      by (rule archive_name_nonzero)
    show "(if length (map of_char (archive_name i) :: u16 list) < length (fi_name info)
      then fi_name info ! length (map of_char (archive_name i) :: u16 list) else 0) = 0"
      using ext(5) n by (simp add: fname_at_def split: if_splits)
  qed
  with dir max show ?thesis by simp
qed

end
