(* ===== verification/StorageProperties.thy ===== *)
theory StorageProperties
  imports StorageDemo StorageRecovery
begin

text \<open>
  The promises of the state archive service, for every run: archives and keys are never overwritten,
  a new archive is complete, an import delivers the archive's bytes, every request is answered.
\<close>

section \<open>Archives\<close>

context fat_volume
begin

lemma archive_fate:
  assumes "length (se_prefix env) \<le> 21" and "storage_reachable ops view hfile hpos env s"
    and "storage_step ops view hfile hpos env s s'"
  shows "ls_Directory s' = ls_Directory s" "archive_effect view s i s'" "key_effect view s s'"
  using step_effects [OF reachable_run_inv [OF assms(2,1)] assms(3)] by simp_all

lemma export_header:
  assumes "length (se_prefix env) \<le> 21" and "storage_reachable ops view hfile hpos env s"
    and "ls_Phase s = 5" "ls_Command s = LM_STATE_STORAGE_EXPORT"
  shows "ValidHeader (ls_Header s)"
proof -
  have "storage_inv ops view hfile hpos s"
    using reachable_run_inv [OF assms(2,1)] by (simp add: run_inv_def)
  from storage_invD(3) [OF this] assms(3,4) show ?thesis
    by (simp add: export_inv_def)
qed

text \<open>A pass in phase 5 of an import.\<close>

lemma import_commit:
  assumes "length (se_prefix env) \<le> 21" and "storage_reachable ops view hfile hpos env s"
    and ph: "ls_Phase s = 5" and cmd: "ls_Command s = LM_STATE_STORAGE_IMPORT" and "\<not> superseded s"
    and run: "run_state (LmStateStorageService ops) s = (x, s')"
  shows "m_status (ls_mbox s') = LM_STATE_STORAGE_OK \<and> ls_snapshot s' = ls_snapshot s \<and>
    (\<exists>b. view (ls_vol s) (archive_path (ls_Directory s) (ls_FileId s)) = Some b \<and>
      ValidHeader (m_header (ls_mbox s')) \<and> b = archive_bytes (m_header (ls_mbox s')) (ls_snapshot s'))"
proof -
  have inv: "storage_inv ops view hfile hpos s"
    using reachable_run_inv [OF assms(2,1)] by (simp add: run_inv_def)
  have ii: "import_inv ops view hfile hpos s"
    using storage_invD(4) [OF inv] ph cmd by simp
  have idle: "\<not> ls_Open s" "\<not> ls_DirectoryOpen s"
    using inv ph by (simp_all add: storage_inv_def)
  let ?t = "s\<lparr>ls_mbox := (ls_mbox s)\<lparr>m_header := ls_Header s\<rparr>\<rparr>"
  have "run_state (LmStateStorageService ops) s = run_state (Finish ops LM_STATE_STORAGE_OK) ?t"
    using assms(5) ph cmd
    by (simp add: LmStateStorageService_def ServiceCommit_def mbox_put_def State_Monad.bind_def)
  then have fin: "m_status (ls_mbox s') = LM_STATE_STORAGE_OK \<and> finish_frame view ?t s'"
    using wpD [OF Finish_spec [of LM_STATE_STORAGE_OK ?t]] run idle by simp
  obtain b where b: "view (ls_vol s) (archive_path (ls_Directory s) (ls_FileId s)) = Some b"
      "ValidHeader (ls_Header s)" "take 64 b = header_bytes (ls_Header s)"
      "length b = 64 + unat (ls_Length s)" "ls_Length s = ah_payloadSize (ls_Header s)" "ls_Offset s = ls_Length s"
      "snapshot_read (ls_snapshot s) 0 (unat (ls_Offset s)) = take (unat (ls_Offset s)) (drop 64 b)"
    using ii ph by (auto simp: import_inv_def)
  have "b = take 64 b @ drop 64 b" by simp
  also have "\<dots> = archive_bytes (ls_Header s) (ls_snapshot s)"
    using b(3-7) by (simp add: archive_bytes_def)
  finally show ?thesis
    using fin b(1,2) by (auto simp: finish_frame_def)
qed

text \<open>Passes alone finish a request.\<close>

lemma passes_finish:
  assumes "service_inv s" and "ls_Phase s \<noteq> 0" and "ls_Command s \<noteq> LM_STATE_STORAGE_CATALOG"
  shows "\<exists>n \<le> work s. ls_Phase (((\<lambda>s. snd (run_state (LmStateStorageService ops) s)) ^^ n) s) = 0 \<and>
    responded (((\<lambda>s. snd (run_state (LmStateStorageService ops) s)) ^^ n) s)"
  using assms
proof (induction "work s" arbitrary: s rule: less_induct)
  case less
  let ?f = "\<lambda>s. snd (run_state (LmStateStorageService ops) s)"
  obtain s' where run: "run_state (LmStateStorageService ops) s = ((), s')"
    by (cases "run_state (LmStateStorageService ops) s") auto
  have ok: "ok_pass s s'" by (rule wpD [OF service_pass [OF less.prems(1,2)] run])
  then have s': "service_inv s'" "work s' < work s" "ls_Command s' = ls_Command s"
    using less.prems(3) by (auto simp: pass_ok_def mid_def same_request_def)
  show ?case
  proof (cases "ls_Phase s' = 0")
    case True
    then have "ls_Phase ((?f ^^ 1) s) = 0 \<and> responded ((?f ^^ 1) s)"
      using ok run by (simp add: pass_ok_def)
    moreover have "1 \<le> work s" using s'(2) by simp
    ultimately show ?thesis by blast
  next
    case False
    then obtain n where n: "n \<le> work s'" "ls_Phase ((?f ^^ n) s') = 0" "responded ((?f ^^ n) s')"
      using less.hyps [OF s'(2,1) False] s'(3) less.prems(3) by auto
    have "(?f ^^ Suc n) s = (?f ^^ n) s'"
      by (simp add: funpow_Suc_right run del: funpow.simps)
    moreover have "Suc n \<le> work s" using n(1) s'(2) by simp
    ultimately show ?thesis using n(2,3) by metis
  qed
qed

end

text \<open>C1: An archive, once it exists, keeps its bytes through every step of every run: the ARM's
  passes, whatever command they serve and whatever the file system reports, the game's writes to the
  mailbox and the other services' file operations.  The one exception is a deletion request for this
  very archive whose size and header checksum are those the request proved; then the file is gone.\<close>

theorem archives_survive:
  assumes "fat_volume ops view hfile hpos" and "length (se_prefix env) \<le> 21"
    and "storage_reachable ops view hfile hpos env s" and "storage_step ops view hfile hpos env s s'"
    and "view (ls_vol s) (archive_path (ls_Directory s) i) = Some b"
  shows "view (ls_vol s') (archive_path (ls_Directory s') i) = Some b \<or>
    ls_Phase s = 1 \<and> ls_Command s = LM_STATE_STORAGE_DELETE \<and> ls_FileId s = i \<and> deletable s b \<and>
      view (ls_vol s') (archive_path (ls_Directory s') i) = None"
  using fat_volume.archive_fate(1) [OF assms(1-4)] fat_volume.archive_fate(2) [OF assms(1-4), of i] assms(5) by (auto simp: archive_effect_def Let_def)

lemma archives_survive_witness:
  "mv_files (ls_vol (demo_pass export_5)) (demo_path 1) = Some demo_file"
  using archives_survive [OF map_fs.fat_volume_axioms _ export_5_reachable demo_pass_step, of 1 demo_file]
    export_5_fields export_commit demo_card(1)
  by (simp add: demo_env_def demo_path_def)

text \<open>C2: A new archive appears only when an export commits, under the identifier the export chose, and
  it is complete: a valid header followed by exactly the bytes of the snapshot it was taken from.\<close>

theorem new_archives_complete:
  assumes "fat_volume ops view hfile hpos" and "length (se_prefix env) \<le> 21"
    and "storage_reachable ops view hfile hpos env s" and "storage_step ops view hfile hpos env s s'"
    and "view (ls_vol s) (archive_path (ls_Directory s) i) = None"
    and "view (ls_vol s') (archive_path (ls_Directory s') i) = Some b"
  shows "ls_Phase s = 5 \<and> ls_Command s = LM_STATE_STORAGE_EXPORT \<and> ls_FileId s = i \<and>
    ValidHeader (ls_Header s) \<and> b = archive_bytes (ls_Header s) (ls_snapshot s)"
  using fat_volume.archive_fate(1) [OF assms(1-4)] fat_volume.archive_fate(2) [OF assms(1-4), of i] assms(5,6) fat_volume.export_header [OF assms(1-3)]
  by (auto simp: archive_effect_def Let_def)

lemma new_archives_complete_witness:
  "ls_FileId export_5 = 2 \<and> demo_file = archive_bytes (ls_Header export_5) (ls_snapshot export_5)"
  using new_archives_complete [OF map_fs.fat_volume_axioms _ export_5_reachable demo_pass_step, of 2 demo_file]
    export_5_fields export_commit demo_card(2)
  by (simp add: demo_env_def demo_path_def)

text \<open>C3: The last pass of an import answers OK, and then the header in the mailbox and the bytes in the
  snapshot memory are, together, byte for byte the archive file.\<close>

theorem import_delivers:
  assumes "fat_volume ops view hfile hpos" and "length (se_prefix env) \<le> 21"
    and "storage_reachable ops view hfile hpos env s"
    and "ls_Phase s = 5" and "ls_Command s = LM_STATE_STORAGE_IMPORT" and "\<not> superseded s"
    and "run_state (LmStateStorageService ops) s = (x, s')"
  shows "m_status (ls_mbox s') = LM_STATE_STORAGE_OK \<and> ls_snapshot s' = ls_snapshot s \<and>
    (\<exists>b. view (ls_vol s) (archive_path (ls_Directory s) (ls_FileId s)) = Some b \<and>
      ValidHeader (m_header (ls_mbox s')) \<and> b = archive_bytes (m_header (ls_mbox s')) (ls_snapshot s'))"
  by (rule fat_volume.import_commit [OF assms])

lemma import_delivers_witness:
  "m_status (ls_mbox (demo_pass import_5)) = LM_STATE_STORAGE_OK"
  using import_delivers [OF map_fs.fat_volume_axioms _ import_5_reachable _ _ _ run_unit] import_5_fields
  by (simp add: demo_env_def demo_pass_def)

text \<open>C4: Every request but a catalogue is answered: from any state of a run with a request in progress,
  at most \<open>work s\<close> further passes, whatever the file system reports, end in phase 0 with the response
  published.  \<open>work\<close> counts the identifiers an export may still try, and at most 2,000 passes else.\<close>

theorem requests_finish:
  assumes "fat_volume ops view hfile hpos" and "length (se_prefix env) \<le> 21"
    and "storage_reachable ops view hfile hpos env s"
    and "ls_Phase s \<noteq> 0" and "ls_Command s \<noteq> LM_STATE_STORAGE_CATALOG"
  shows "\<exists>n \<le> work s. ls_Phase (((\<lambda>s. snd (run_state (LmStateStorageService ops) s)) ^^ n) s) = 0 \<and>
    responded (((\<lambda>s. snd (run_state (LmStateStorageService ops) s)) ^^ n) s)"
proof -
  have "storage_inv ops view hfile hpos s"
    using fat_volume.reachable_run_inv [OF assms(1,3,2)] by (simp add: run_inv_def)
  from fat_volume.passes_finish [OF assms(1) this assms(4,5)] show ?thesis .
qed

lemma requests_finish_witness:
  "\<exists>n \<le> work import_1. ls_Phase ((demo_pass ^^ n) import_1) = 0 \<and> responded ((demo_pass ^^ n) import_1)"
  using requests_finish [OF map_fs.fat_volume_axioms _ import_1_reachable] import_5_fields
  by (simp add: demo_env_def demo_pass_def [abs_def])

section \<open>Keys, names and receipts\<close>

text \<open>C5: A copy of the archive key, once it exists, is never replaced and never removed by any step of any
  run; a missing copy can only become the record of the seed of the key request in progress.\<close>

theorem keys_survive:
  assumes "fat_volume ops view hfile hpos" and "length (se_prefix env) \<le> 21"
    and "storage_reachable ops view hfile hpos env s" and "storage_step ops view hfile hpos env s s'"
    and "k \<in> {0, 1}"
  shows "view (ls_vol s') (key_path (ls_Directory s) k) = view (ls_vol s) (key_path (ls_Directory s) k) \<or>
    view (ls_vol s) (key_path (ls_Directory s) k) = None \<and> ls_Phase s = 1 \<and>
    ls_Command s = LM_STATE_STORAGE_KEY \<and>
    view (ls_vol s') (key_path (ls_Directory s) k) = Some (key_bytes (seed_record (ls_RequestSeed s)))"
  using fat_volume.archive_fate(3) [OF assms(1-4)] assms(5) by (auto simp: key_effect_def Let_def)

lemma keys_survive_witness:
  "mv_files (ls_vol (demo_pass export_5)) (key_path ''1:/lm_states'' 0) = mv_files (ls_vol export_5) (key_path ''1:/lm_states'' 0)"
  using keys_survive [OF map_fs.fat_volume_axioms _ export_5_reachable demo_pass_step, of 0] export_5_fields
  by (simp add: demo_env_def)

text \<open>C6: An update of an archive's display name is atomic, whatever call of the file system fails in it:
  afterwards the next reader finds either the name of before or the new one, the new one if the update
  reported success, and the names of all other archives are as before.\<close>

theorem names_update_atomically:
  assumes "fat_volume ops view hfile hpos" and "length (ls_Directory s) \<le> 31"
    and "length (ls_RequestName s) = 32" and "LmStateNameValid (ls_RequestName s)"
    and "run_state (WriteName ops i crc) s = (ok, s')"
  shows "let latest = (\<lambda>t j c. fst (latest_name (view (ls_vol t)) (ls_Directory s) j c));
      new = next_name i crc (ls_RequestName s) (latest s i crc)
    in latest s' i crc \<in> {latest s i crc, new} \<and> (ok \<longrightarrow> latest s' i crc = new) \<and>
      (\<forall>j c. j \<noteq> i \<longrightarrow> latest s' j c = latest s j c)"
proof -
  let ?d = "ls_Directory s" and ?f = "view (ls_vol s)" and ?f' = "view (ls_vol s')"
  let ?old = "latest_name ?f ?d i crc"
  let ?k = "snd ?old XOR 1" and ?new = "next_name i crc (ls_RequestName s) (fst ?old)"
  have len: "length (name_bytes ?new) = 64"
    by (rule length_name_bytes) (simp add: next_name_def Let_def assms)
  note spec = wpD [OF fat_volume.WriteName_spec [OF assms(1,2) len] assms(5)]
  have others: "\<And>p. p \<noteq> name_path ?d i ?k \<Longrightarrow> p \<noteq> name_temporary ?d i ?k \<Longrightarrow> ?f' p = ?f p"
    using spec by (auto simp: vol_only_def)
  have k: "?k \<in> {0, 1}"
    by (auto simp: latest_name_def newer_name_def split: option.splits)
  have "fst (latest_name ?f' ?d i crc) \<in> {fst ?old, ?new}"
    using spec by (intro name_update(1) [OF assms(4,3) others]) simp_all
  moreover have "ok \<Longrightarrow> fst (latest_name ?f' ?d i crc) = ?new"
    using spec by (intro name_update(2) [OF assms(4,3) others]) simp_all
  moreover have "latest_name ?f' ?d j c = latest_name ?f ?d j c" if "j \<noteq> i" for j c
    by (rule latest_name_elsewhere [OF others that k])
  ultimately show ?thesis by (simp add: Let_def)
qed

lemma names_update_atomically_witness:
  "fst (latest_name (mv_files (ls_vol (snd (run_state (WriteName map_ops 2 7) export_5)))) ''1:/lm_states'' 2 7)
     \<in> {name_zero, next_name 2 7 demo_text name_zero}"
proof -
  have "ls_RequestName export_5 = demo_text" by (simp add: export_5_defs)
  moreover have "fst (latest_name (mv_files (ls_vol export_5)) ''1:/lm_states'' 2 7) = name_zero"
    by (simp add: latest_name_def stored_name_def newer_name_def export_5_defs)
  ultimately show ?thesis
    using names_update_atomically [OF map_fs.fat_volume_axioms _ _ _ surjective_pairing, of export_5 2 7]
      export_5_fields demo_name demo_text_length
    by (simp add: Let_def)
qed

text \<open>The request a pass works on: the one in progress, or the one it takes from the mailbox.\<close>

definition request_of :: "'s storage \<Rightarrow> u32 \<times> u32 \<times> u32 \<times> u32" where
  "request_of s = (if ls_Phase s = 0
     then (m_requestSeq (ls_mbox s), m_processSession (ls_mbox s), m_command (ls_mbox s), m_archiveId (ls_mbox s))
     else (ls_Seq s, ls_Session s, ls_Command s, ls_RequestId s))"

text \<open>C7: When a pass ends a request, be it one in progress or one that it takes and refuses at once, the receipt in the
  mailbox is that of this request and of no other: the test \<open>LmStateStorageReceiptMatches\<close> holds for the sequence
  number, session, command and identifier of the request the pass worked on, and for no other combination of the four.\<close>

theorem receipts_match:
  assumes "fat_volume ops view hfile hpos" and "length (se_prefix env) \<le> 21"
    and "storage_reachable ops view hfile hpos env s" and "se_GAME_ID env = SUSAMUNE_MOD_GAME_ID_LMJ"
    and "run_state (LmStateStorageService ops) s = (x, s')" and "ls_Phase s' = 0"
  shows "LmStateStorageReceiptMatches (ls_mbox s') q session c i \<longleftrightarrow> (q, session, c, i) = request_of s"
proof -
  have inv: "run_inv ops view hfile hpos env s"
    by (rule fat_volume.reachable_run_inv [OF assms(1,3,2)])
  have inv': "storage_inv ops view hfile hpos s" "mailbox_wf (ls_mbox s)"
    and kept: "m_magic (ls_mbox s) = LM_STATE_STORAGE_MAGIC" "m_version (ls_mbox s) = LM_STATE_STORAGE_VERSION"
    using inv assms(4) by (simp_all add: run_inv_def)
  show ?thesis
  proof (cases "ls_Phase s = 0")
    case True
    then have "wp (LmStateStorageService ops) (\<lambda>x s'. storage_inv ops view hfile hpos s' \<and> taken view s s') s"
      unfolding LmStateStorageService_def
      using fat_volume.phase_0 [OF assms(1) inv'(1) True inv'(2)] by (simp add: superseded_def)
    from wpD [OF this assms(5)] inv' assms(6) True show ?thesis
      by (auto simp: taken_def responded_def LmStateStorageReceiptMatches_def request_of_def mailbox_wf_def kept)
  next
    case False
    from wpD [OF fat_volume.service_pass [OF assms(1) inv'(1) False] assms(5)] inv' assms(6) False show ?thesis
      by (auto simp: pass_ok_def mid_def same_request_def responded_def LmStateStorageReceiptMatches_def request_of_def mailbox_wf_def kept)
  qed
qed

lemma import_last: "ls_Phase (demo_pass import_5) = 0"
  using wpD [OF map_fs.Finish_spec run_unit] import_5_fields
  by (simp add: demo_phases ServiceCommit_def run_bind run_mbox_put run_if)

lemma receipts_match_witness:
  "LmStateStorageReceiptMatches (ls_mbox (demo_pass import_5)) 1 7 LM_STATE_STORAGE_IMPORT 1 \<and>
   \<not> LmStateStorageReceiptMatches (ls_mbox (demo_pass import_5)) 2 7 LM_STATE_STORAGE_IMPORT 1"
  using receipts_match [OF map_fs.fat_volume_axioms _ import_5_reachable _ run_unit, of 1 7 LM_STATE_STORAGE_IMPORT 1]
    receipts_match [OF map_fs.fat_volume_axioms _ import_5_reachable _ run_unit, of 2 7 LM_STATE_STORAGE_IMPORT 1]
    import_5_fields import_last
  by (simp add: demo_env_def demo_pass_def request_of_def)
    (simp add: import_5_def import_4_def import_3_def import_2_def import_1_def)

section \<open>Damage\<close>

text \<open>A deletion that was proved for a header with another checksum leaves every file alone.\<close>

context fat_volume
begin

lemma delete_other_header:
  assumes there: "view (ls_vol s) (ls_Path s) = Some (h @ payload)" "length h = 64"
    and other: "ArchiveChecksum (header_of_bytes h) \<noteq> ls_DeleteHeaderCrc s"
  shows "wp (DeleteArchive ops) (\<lambda>status s'. status \<noteq> LM_STATE_STORAGE_OK \<and> view (ls_vol s') = view (ls_vol s)) s"
proof -
  have seen: "ArchiveChecksum (header_of_bytes (overlay d (header_bytes header_zero))) \<noteq> ls_DeleteHeaderCrc s"
    if o: "run_state (vf_open ops FIL_File (ls_Path s) OpenRead) v = (FR_OK, v1)" and v: "view v = view (ls_vol s)"
      and r: "run_state (vf_read ops FIL_File 64) v1 = ((FR_OK, d), v2)" for v v1 v2 d
  proof -
    obtain x v3 where "run_state (vf_close ops FIL_File) v2 = (x, v3)" by fastforce
    from record_read [OF o r this] have "d = h" using there v by auto
    then show ?thesis using other there(2) by (simp add: overlay_whole)
  qed
  show ?thesis
    unfolding DeleteArchive_def
    using seen by (auto intro!: call_wpI simp: Let_def)
qed

end

text \<open>C8: Damage is noticed.  Whichever single byte of an intact name record or of a usable key record changes, the record
  is rejected, for every archive it might be meant for.  A changed byte of an archive's header is not an error by itself
  (the header has no checksum of its own), but the header's checksum changes with it: a name record made for the archive
  is no longer intact for it, and a deletion proved for the undamaged header does not succeed and removes nothing.\<close>

theorem damage_is_noticed:
  assumes "fat_volume ops view hfile hpos" and "length bs = 64" "k < 64" "v \<noteq> bs ! k"
  shows "(name_intact i crc (name_of_bytes bs) \<longrightarrow> \<not> name_intact j crc' (name_of_bytes (bs[k := v]))) \<and>
    (key_status (key_of_bytes bs) = LM_STATE_KEY_READY \<longrightarrow>
      key_status (key_of_bytes (bs[k := v])) = LM_STATE_KEY_INVALID) \<and>
    (name_intact i (ArchiveChecksum (header_of_bytes bs)) r \<longrightarrow>
      \<not> name_intact j (ArchiveChecksum (header_of_bytes (bs[k := v]))) r) \<and>
    (ls_DeleteHeaderCrc s = ArchiveChecksum (header_of_bytes bs) \<and> view (ls_vol s) (ls_Path s) = Some (bs[k := v] @ payload) \<and>
      run_state (DeleteArchive ops) s = (status, s') \<longrightarrow>
      status \<noteq> LM_STATE_STORAGE_OK \<and> view (ls_vol s') = view (ls_vol s))"
proof -
  have "status \<noteq> LM_STATE_STORAGE_OK \<and> view (ls_vol s') = view (ls_vol s)"
    if "ls_DeleteHeaderCrc s = ArchiveChecksum (header_of_bytes bs)" "view (ls_vol s) (ls_Path s) = Some (bs[k := v] @ payload)"
      "run_state (DeleteArchive ops) s = (status, s')"
    using wpD [OF fat_volume.delete_other_header [OF assms(1) that(2)] that(3)] that(1) header_damage [OF assms(2-4)] assms(2)
    by simp
  moreover have "\<not> name_intact j (ArchiveChecksum (header_of_bytes (bs[k := v]))) r"
    if "name_intact i (ArchiveChecksum (header_of_bytes bs)) r"
    using that header_damage [OF assms(2-4)] by (simp add: name_intact_def)
  ultimately show ?thesis
    using name_damage [OF assms(2-4)] key_damage [OF assms(2-4)] by blast
qed

text \<open>The archive 1 of the example card with the byte 20 of its header changed: a deletion proved for what it was leaves it.\<close>

lemma damage_is_noticed_witness:
  "let damaged = (header_bytes demo_header)[20 := 1];
       s = demo_start\<lparr>ls_Path := demo_path 1, ls_DeleteHeaderCrc := ArchiveChecksum demo_header,
         ls_vol := demo_volume\<lparr>mv_files := [demo_path 1 \<mapsto> damaged @ replicate 257 3]\<rparr>\<rparr>;
       s' = snd (run_state (DeleteArchive map_ops) s)
   in header_bytes demo_header ! 20 \<noteq> 1 \<and> mv_files (ls_vol s') (demo_path 1) = Some (damaged @ replicate 257 3)"
proof -
  let ?bs = "header_bytes demo_header"
  let ?s = "demo_start\<lparr>ls_Path := demo_path 1, ls_DeleteHeaderCrc := ArchiveChecksum demo_header,
     ls_vol := demo_volume\<lparr>mv_files := [demo_path 1 \<mapsto> ?bs[20 := 1] @ replicate 257 3]\<rparr>\<rparr>"
  have byte: "length ?bs = 64" "?bs ! 20 \<noteq> 1" by (simp, simp add: demo_header_def header_bytes_def header_words_def be32_def)
  obtain status s' where run: "run_state (DeleteArchive map_ops) ?s = (status, s')" by (cases "run_state (DeleteArchive map_ops) ?s")
  have proved: "ls_DeleteHeaderCrc ?s = ArchiveChecksum (header_of_bytes ?bs)"
    and there: "mv_files (ls_vol ?s) (ls_Path ?s) = Some (?bs[20 := 1] @ replicate 257 3)"
    by simp_all
  have "mv_files (ls_vol s') = mv_files (ls_vol ?s)"
    using damage_is_noticed [where s = ?s and bs = ?bs and k = 20 and v = 1, OF map_fs.fat_volume_axioms byte(1) _ byte(2) [symmetric],
      THEN conjunct2, THEN conjunct2, THEN conjunct2, rule_format, OF _ conjI [OF proved conjI [OF there run]]] by simp
  then have "mv_files (ls_vol s') (demo_path 1) = Some (?bs[20 := 1] @ replicate 257 3)" by simp
  with byte(2) show ?thesis by (simp only: Let_def run snd_conv not_False_eq_True simp_thms)
qed

text \<open>C9: The scan of a directory takes exactly the archives: a directory entry has the identifier \<open>i\<close>, not 0,
  if and only if it is a file whose name is the one an export of \<open>i\<close> gives its archive.\<close>

theorem catalogue_names:
  assumes "i \<noteq> 0" and "i \<le> LM_STATE_STORAGE_MAX_ID" and "0 \<notin> set (fi_name info)"
  shows "CatalogFileId info = i \<longleftrightarrow>
    fi_attrib info AND AM_DIR = 0 \<and> (\<exists>name. archive_path dir i = dir @ ''/'' @ name \<and> fi_name info = map of_char name)"
  using archive_name_scanned [of info i] archive_name_only [of info i] assms
  by (auto simp: archive_name_path)

lemma catalogue_names_witness:
  "CatalogFileId \<lparr>fi_size = 0, fi_attrib = 0, fi_name = map of_char (archive_name 7)\<rparr> = 7"
  using catalogue_names [of 7 "\<lparr>fi_size = 0, fi_attrib = 0, fi_name = map of_char (archive_name 7)\<rparr>" "[]"]
    archive_name_nonzero [of 7]
  by (simp add: archive_name_path)

end
