(* ===== verification/Reader.thy ===== *)
theory Reader
  imports Prelude
begin

text \<open>
  The memory guards of \<open>include/susamune/lm_*.h\<close> all have one shape: a reader structure with a
  word-reading callback and the last address and value looked at; a check function that returns 0
  at the first condition that fails, leaving the reader at the place to report; and a
  \<open>...Validate\<close> wrapper that runs the check and hands out the fault.  This theory models that
  shape once: the reader state, the sequencing of steps that may fail, and the linked lists of
  heap blocks the checks walk.
\<close>

section \<open>Readers and checks\<close>

text \<open>
  \<open>int (*read)(void *context, unsigned int address, unsigned int *value)\<close>: the returned truth
  value, and what the call leaves in \<open>*value\<close> (which every caller has set to 0 before the call).
  The callbacks are read-only, so a guard sees one fixed memory.
\<close>

type_synonym memory = "u32 \<Rightarrow> bool \<times> u32"

text \<open>The \<open>address\<close> (or \<open>fault\<close>) and \<open>value\<close> fields of the reader structures.\<close>

record reader =
  rd_address :: u32
  rd_value :: u32

definition rd_start :: reader where
  "rd_start = \<lparr>rd_address = 0, rd_value = 0\<rparr>"

text \<open>A check: \<open>None\<close> is the return of 0, with the reader as it is at that point.\<close>

type_synonym 'a chk = "reader \<Rightarrow> 'a option \<times> reader"

definition rd_return :: "'a \<Rightarrow> 'a chk" where
  "rd_return x = (\<lambda>r. (Some x, r))"

definition rd_bind :: "'a chk \<Rightarrow> ('a \<Rightarrow> 'b chk) \<Rightarrow> 'b chk" where
  "rd_bind c f = (\<lambda>r. case c r of (None, r') \<Rightarrow> (None, r') | (Some x, r') \<Rightarrow> f x r')"

text \<open>\<open>if (!condition) return 0;\<close> before the rest.\<close>

definition rd_check :: "bool \<Rightarrow> 'a chk \<Rightarrow> 'a chk" where
  "rd_check b c = (\<lambda>r. if b then c r else (None, r))"

text \<open>\<open>reader->address = a; reader->value = v;\<close> before the rest.\<close>

definition rd_note :: "u32 \<Rightarrow> u32 \<Rightarrow> 'a chk \<Rightarrow> 'a chk" where
  "rd_note a v c = (\<lambda>r. c \<lparr>rd_address = a, rd_value = v\<rparr>)"

text \<open>The body every \<open>...Word\<close>/\<open>...Read\<close> helper shares: note the address, clear the value, call.\<close>

definition rd_word :: "memory \<Rightarrow> u32 \<Rightarrow> u32 chk" where
  "rd_word m a = (\<lambda>r. (if fst (m a) then Some (snd (m a)) else None,
     \<lparr>rd_address = a, rd_value = snd (m a)\<rparr>))"

definition rd_expect :: "memory \<Rightarrow> u32 \<Rightarrow> u32 \<Rightarrow> unit chk" where
  "rd_expect m a v = rd_bind (rd_word m a) (\<lambda>w. rd_check (w = v) (rd_return ()))"

text \<open>The common end of the \<open>...Validate\<close> wrappers: the result, \<open>*fault\<close> and \<open>*value\<close>.\<close>

definition rd_report :: "'a option \<times> reader \<Rightarrow> bool \<times> u32 \<times> u32" where
  "rd_report x = (case x of (Some _, _) \<Rightarrow> (True, 0, 0) | (None, r) \<Rightarrow> (False, rd_address r, rd_value r))"

named_theorems rd_success

lemma rd_return_success [rd_success]: "fst (rd_return y r) = Some x \<longleftrightarrow> x = y"
  by (auto simp: rd_return_def)

lemma rd_bind_success [rd_success]:
  "fst (rd_bind c f r) = Some x \<longleftrightarrow> (\<exists>y. fst (c r) = Some y \<and> fst (f y (snd (c r))) = Some x)"
  by (auto simp: rd_bind_def split: prod.splits option.splits)

lemma rd_check_success [rd_success]: "fst (rd_check b c r) = Some x \<longleftrightarrow> b \<and> fst (c r) = Some x"
  by (simp add: rd_check_def)

lemma rd_note_success [rd_success]:
  "fst (rd_note a v c r) = Some x \<longleftrightarrow> fst (c \<lparr>rd_address = a, rd_value = v\<rparr>) = Some x"
  by (simp add: rd_note_def)

lemma rd_word_success [rd_success]: "fst (rd_word m a r) = Some v \<longleftrightarrow> m a = (True, v)"
  by (cases "m a") (auto simp: rd_word_def)

lemma rd_expect_success [rd_success]: "fst (rd_expect m a v r) = Some u \<longleftrightarrow> m a = (True, v)"
  by (auto simp: rd_expect_def rd_success)

lemma rd_report_True: "fst (rd_report x) \<longleftrightarrow> (\<exists>y. fst x = Some y)"
  by (cases x) (auto simp: rd_report_def split: option.splits)

lemma rd_report_ok: "fst (rd_report x) \<Longrightarrow> rd_report x = (True, 0, 0)"
  by (cases x) (auto simp: rd_report_def split: option.splits)

section \<open>Doubly linked block lists\<close>

text \<open>
  A heap block at \<open>n\<close> keeps its predecessor in the word at \<open>n + 8\<close> and its successor in the word
  at \<open>n + 12\<close>; 0 ends the list at both sides.  \<open>block_list m prev node ns final\<close> says that the
  list entered at \<open>node\<close>, coming from \<open>prev\<close>, visits exactly \<open>ns\<close> and ends behind \<open>final\<close>.
\<close>

fun block_list :: "memory \<Rightarrow> u32 \<Rightarrow> u32 \<Rightarrow> u32 list \<Rightarrow> u32 \<Rightarrow> bool" where
  "block_list m prev node [] final \<longleftrightarrow> node = 0 \<and> final = prev"
| "block_list m prev node (n # ns) final \<longleftrightarrow> node \<noteq> 0 \<and> n = node \<and>
     m (n + 8) = (True, prev) \<and> (\<exists>next. m (n + 12) = (True, next) \<and> block_list m n next ns final)"

lemma block_list_nonzero: "block_list m prev node ns final \<Longrightarrow> n \<in> set ns \<Longrightarrow> n \<noteq> 0"
  by (induction ns arbitrary: prev node) auto

lemma block_list_unique:
  "block_list m prev node ns final \<Longrightarrow> block_list m prev node ns' final' \<Longrightarrow> ns = ns' \<and> final = final'"
proof (induction ns arbitrary: prev node ns')
  case Nil
  then show ?case by (cases ns') auto
next
  case (Cons n ns)
  then show ?case by (cases ns') auto
qed

lemma block_list_prev:
  "block_list m prev node ns final \<Longrightarrow> i < length ns \<Longrightarrow>
     m (ns ! i + 8) = (True, if i = 0 then prev else ns ! (i - 1))"
proof (induction ns arbitrary: prev node i)
  case (Cons n ns)
  from Cons.prems(1) obtain "next" where nxt: "block_list m n next ns final" and hd: "m (n + 8) = (True, prev)"
    by auto
  show ?case
  proof (cases i)
    case (Suc j)
    with Cons.prems(2) Cons.IH [OF nxt, of j] show ?thesis
      by (cases j) auto
  qed (use hd in simp)
qed simp

text \<open>Reciprocal links leave no room for a cycle: a list entered from 0 never repeats a block.\<close>

lemma block_list_distinct:
  assumes bl: "block_list m 0 node ns final"
  shows "distinct ns"
proof -
  have neq: "ns ! i \<noteq> ns ! j" if "i < j" and "j < length ns" for i j
    using that
  proof (induction i arbitrary: j)
    case 0
    show ?case
    proof
      assume "ns ! 0 = ns ! j"
      with block_list_prev [OF bl, of 0] block_list_prev [OF bl, of j] 0
      have "ns ! (j - 1) = 0" by (cases ns) auto
      with 0 block_list_nonzero [OF bl, of "ns ! (j - 1)"] show False by simp
    qed
  next
    case (Suc i)
    then obtain k where j: "j = Suc k" by (cases j) auto
    show ?case
    proof
      assume "ns ! Suc i = ns ! j"
      with block_list_prev [OF bl, of "Suc i"] block_list_prev [OF bl, of j] Suc.prems j
      have "ns ! i = ns ! k" by auto
      with Suc.IH [of k] Suc.prems j show False by simp
    qed
  qed
  then show ?thesis
    by (metis distinct_conv_nth nat_neq_iff)
qed

lemma block_list_last:
  "block_list m prev node ns final \<Longrightarrow> final = (if ns = [] then prev else last ns)"
  by (induction ns arbitrary: prev node) auto

end
