(* ===== verification/BlockWalk.thy ===== *)
theory BlockWalk
  imports Reader
begin

text \<open>
  The loop \<open>while (node) { ... }\<close> over the used list of a heap that the object guards share: it
  notes the link it came by, counts the block, checks the block and goes on to its successor.
  What a guard does with one block is a parameter; the locales say what the loop accepts, given
  what one turn accepts.
\<close>

lemma rd_report_iff: "rd_report x = (True, 0, 0) \<longleftrightarrow> (\<exists>u. fst x = Some u)"
  using rd_report_True [of x] rd_report_ok [of x] by (metis fst_conv)

section \<open>The loop\<close>

text \<open>\<open>left\<close> is the block limit less \<open>count\<close>; \<open>++count > limit\<close> is the equation for 0.  A turn
  returns the word read from \<open>node + 12\<close> and what the guard keeps.  The result is the value of
  \<open>previous\<close> behind the loop and what was kept.\<close>

fun block_walk :: "u32 \<Rightarrow> (u32 \<Rightarrow> u32 \<Rightarrow> 'a \<Rightarrow> (u32 \<times> 'a) chk) \<Rightarrow> nat \<Rightarrow> u32 \<Rightarrow> u32 \<Rightarrow> 'a \<Rightarrow>
    (u32 \<times> 'a) chk" where
  "block_walk slot turn 0 node previous a =
     (if node = 0 then rd_return (previous, a)
      else rd_note (if previous \<noteq> 0 then previous + 12 else slot) node (rd_check False (rd_return (previous, a))))"
| "block_walk slot turn (Suc left) node previous a =
     (if node = 0 then rd_return (previous, a)
      else rd_note (if previous \<noteq> 0 then previous + 12 else slot) node (
        rd_bind (turn node previous a) (\<lambda>(next, a').
        block_walk slot turn left next node a')))"

section \<open>What it accepts\<close>

text \<open>The guard's state along the blocks: each step sees a block, its predecessor and its successor.\<close>

fun walk_steps :: "(u32 \<Rightarrow> u32 \<Rightarrow> u32 \<Rightarrow> 'a \<Rightarrow> 'a \<Rightarrow> bool) \<Rightarrow> u32 \<Rightarrow> u32 list \<Rightarrow> 'a \<Rightarrow> 'a \<Rightarrow> bool" where
  "walk_steps upd previous [] a b \<longleftrightarrow> a = b"
| "walk_steps upd previous (n # ns) a b \<longleftrightarrow>
     (\<exists>c. upd n previous (case ns of [] \<Rightarrow> 0 | k # _ \<Rightarrow> k) a c \<and> walk_steps upd n ns c b)"

lemma block_list_next: "block_list m n next ns fin \<Longrightarrow> next = (case ns of [] \<Rightarrow> 0 | k # _ \<Rightarrow> k)"
  by (cases ns) auto

lemma walk_cons:
  assumes "node \<noteq> 0"
  shows "block_list m prev node (node # ns) fin \<and> length (node # ns) \<le> Suc left \<and> walk_steps upd prev (node # ns) a b \<longleftrightarrow>
    (\<exists>next c. m (node + 8) = (True, prev) \<and> m (node + 12) = (True, next) \<and> upd node prev next a c \<and>
      block_list m node next ns fin \<and> length ns \<le> left \<and> walk_steps upd node ns c b)" (is "?l \<longleftrightarrow> ?r")
proof
  assume ?l
  then obtain "next" c where "m (node + 8) = (True, prev)" "m (node + 12) = (True, next)"
      "block_list m node next ns fin" "length ns \<le> left" "upd node prev (case ns of [] \<Rightarrow> 0 | k # _ \<Rightarrow> k) a c"
      "walk_steps upd node ns c b"
    by auto
  with block_list_next show ?r by metis
next
  assume ?r
  then obtain "next" c where "m (node + 8) = (True, prev)" "m (node + 12) = (True, next)" "upd node prev next a c"
      "block_list m node next ns fin" "length ns \<le> left" "walk_steps upd node ns c b"
    by blast
  with block_list_next [of m node "next" ns fin] assms show ?l by auto
qed

locale walker =
  fixes m :: memory and turn :: "u32 \<Rightarrow> u32 \<Rightarrow> 'a \<Rightarrow> (u32 \<times> 'a) chk"
    and upd :: "u32 \<Rightarrow> u32 \<Rightarrow> u32 \<Rightarrow> 'a \<Rightarrow> 'a \<Rightarrow> bool"
  assumes turn_success: "n \<noteq> 0 \<Longrightarrow> fst (turn n p a r) = Some (next, b) \<longleftrightarrow>
    m (n + 8) = (True, p) \<and> m (n + 12) = (True, next) \<and> upd n p next a b"
begin

lemma walk_success:
  "fst (block_walk slot turn left node prev a r) = Some (fin, b) \<longleftrightarrow>
    (\<exists>ns. block_list m prev node ns fin \<and> length ns \<le> left \<and> walk_steps upd prev ns a b)"
proof (induction left arbitrary: node prev a r)
  case 0
  then show ?case by (cases "node = 0") (auto simp: rd_success)
next
  case (Suc left)
  show ?case
  proof (cases "node = 0")
    case True
    have "block_list m prev 0 ns fin \<longleftrightarrow> ns = [] \<and> fin = prev" for ns by (cases ns) auto
    with True show ?thesis by (auto simp: rd_success)
  next
    case False
    have "fst (block_walk slot turn (Suc left) node prev a r) = Some (fin, b) \<longleftrightarrow>
      (\<exists>next c ns. m (node + 8) = (True, prev) \<and> m (node + 12) = (True, next) \<and> upd node prev next a c \<and>
        block_list m node next ns fin \<and> length ns \<le> left \<and> walk_steps upd node ns c b)"
      using False by (auto simp: rd_success Suc.IH turn_success split: prod.splits)
    also have "\<dots> \<longleftrightarrow> (\<exists>ns. block_list m prev node (node # ns) fin \<and> length (node # ns) \<le> Suc left \<and>
        walk_steps upd prev (node # ns) a b)"
      unfolding walk_cons [OF False] by blast
    also have "\<dots> \<longleftrightarrow> (\<exists>ns. block_list m prev node ns fin \<and> length ns \<le> Suc left \<and> walk_steps upd prev ns a b)"
    proof -
      have "\<exists>ns'. ns = node # ns'" if "block_list m prev node ns fin" for ns
        using that False by (cases ns) auto
      then show ?thesis by metis
    qed
    finally show ?thesis .
  qed
qed

end

text \<open>A guard that only marks the blocks it looks for: each block passes by itself, and the marks
  are collected with \<open>OR\<close>.\<close>

locale marking_walker = walker m turn "\<lambda>n p next a b. good n \<and> b = a OR mark n"
  for m and turn :: "u32 \<Rightarrow> u32 \<Rightarrow> u32 \<Rightarrow> (u32 \<times> u32) chk" and good and mark
begin

lemma marks: "walk_steps (\<lambda>n p next a b. good n \<and> b = a OR mark n) prev ns a b \<longleftrightarrow>
    (\<forall>n \<in> set ns. good n) \<and> b = fold (\<lambda>n a. a OR mark n) ns a"
  by (induction ns arbitrary: prev a) auto

lemma bit_marks: "bit (fold (\<lambda>n a. a OR mark n) ns a) i \<longleftrightarrow> bit a i \<or> (\<exists>n \<in> set ns. bit (mark n) i)"
  by (induction ns arbitrary: a) (auto simp: bit_or_iff)

lemma marked_success:
  "fst (block_walk slot turn left node prev 0 r) = Some (fin, b) \<longleftrightarrow>
    (\<exists>ns. block_list m prev node ns fin \<and> length ns \<le> left \<and> (\<forall>n \<in> set ns. good n) \<and>
      (\<forall>i. bit b i \<longleftrightarrow> (\<exists>n \<in> set ns. bit (mark n) i)))"
proof -
  have "b = fold (\<lambda>n a. a OR mark n) ns 0 \<longleftrightarrow> (\<forall>i. bit b i \<longleftrightarrow> (\<exists>n \<in> set ns. bit (mark n) i))" for ns
    using bit_marks [of ns 0] by (auto intro!: bit_word_eqI)
  then show ?thesis by (simp add: walk_success marks)
qed

end

end
