(* ===== verification/ExpHeap.thy ===== *)
theory ExpHeap
  imports Reader
begin

text \<open>
  \<open>include/susamune/lm_exp_heap.h\<close>: the structural check of a game expansion heap.  The heap
  object keeps the arena bounds at \<open>+0x30\<close> and \<open>+0x34\<close>, its size at \<open>+0x38\<close>, the free list at
  \<open>+0x74\<close> and the used list at \<open>+0x7C\<close>.  The check is shown to accept exactly the heaps whose two
  lists are well linked, stay inside the arena and account for every byte of it.
\<close>

section \<open>The code\<close>

definition LmExpHeapRange :: "u32 \<Rightarrow> u32 \<Rightarrow> u32 \<Rightarrow> u32 \<Rightarrow> bool" where
  "LmExpHeapRange address len start stop \<longleftrightarrow>
     address AND 3 = 0 \<and> address \<ge> start \<and> address < stop \<and> len \<noteq> 0 \<and> len \<le> stop - address"

definition LmExpHeapWord :: "memory \<Rightarrow> u32 \<Rightarrow> u32 chk" where
  "LmExpHeapWord m address = rd_word m address"

definition LmExpHeapExpected :: "memory \<Rightarrow> u32 \<Rightarrow> u32 \<Rightarrow> unit chk" where
  "LmExpHeapExpected m address v =
     rd_bind (LmExpHeapWord m address) (\<lambda>w. rd_check (w = v) (rd_return ()))"

text \<open>
  The \<open>while (node)\<close> loop of \<open>LmExpHeapList\<close>.  \<open>left\<close> is \<open>LM_EXP_HEAP_MAX_BLOCKS - count\<close>, so the
  failing \<open>++count > LM_EXP_HEAP_MAX_BLOCKS\<close> is the equation for 0; the result is the value of
  \<open>previous\<close> after the loop and the accumulated \<open>*total\<close>.
\<close>

fun exp_heap_blocks :: "memory \<Rightarrow> bool \<Rightarrow> u32 \<Rightarrow> u32 \<Rightarrow> u32 \<Rightarrow> nat \<Rightarrow>
    u32 \<Rightarrow> u32 \<Rightarrow> u32 \<Rightarrow> u32 \<Rightarrow> (u32 \<times> u32) chk" where
  "exp_heap_blocks m used slot start stop 0 node previous previousEnd tot =
     (if node = 0 then rd_return (previous, tot)
      else rd_note (if previous \<noteq> 0 then previous + 12 else slot) node (rd_check False (rd_return (0, 0))))"
| "exp_heap_blocks m used slot start stop (Suc left) node previous previousEnd tot =
     (if node = 0 then rd_return (previous, tot)
      else rd_note (if previous \<noteq> 0 then previous + 12 else slot) node (
        rd_check (LmExpHeapRange node 16 start stop \<and> \<not> (\<not> used \<and> node < previousEnd)) (
        rd_bind (LmExpHeapWord m node) (\<lambda>tag.
        rd_check (drop_bit 16 tag = (if used then 0x484D else 0)) (
        let padding = (if used then drop_bit 8 tag AND 0x7F else 0) in
        rd_check (padding AND 3 = 0 \<and> padding \<le> node - start) (
        rd_bind (LmExpHeapWord m (node + 4)) (\<lambda>bytes.
        rd_check (bytes AND 3 = 0 \<and> bytes \<le> stop - node - 16) (
        let span = bytes + 16 + padding in
        rd_check (span \<le> stop - start - tot) (
        rd_bind (LmExpHeapExpected m (node + 8) previous) (\<lambda>_.
        rd_bind (LmExpHeapWord m (node + 12)) (\<lambda>next.
        rd_check (next = 0 \<or> LmExpHeapRange next 16 start stop) (
        rd_check (\<not> (\<not> used \<and> next \<noteq> 0 \<and> next < node + 16 + bytes)) (
        exp_heap_blocks m used slot start stop left next node (node + 16 + bytes) (tot + span) )))))))))))))"

definition LmExpHeapList :: "memory \<Rightarrow> u32 \<Rightarrow> u32 \<Rightarrow> u32 \<Rightarrow> bool \<Rightarrow> u32 \<Rightarrow> u32 chk" where
  "LmExpHeapList m heap start stop used tot =
     (let offset = (if used then 0x7C else 0x74) in
      rd_bind (LmExpHeapWord m (heap + offset)) (\<lambda>head.
      rd_bind (LmExpHeapWord m (heap + offset + 4)) (\<lambda>tail.
      rd_bind (exp_heap_blocks m used (heap + offset) start stop 8192 head 0 start tot) (\<lambda>(previous, tot').
      rd_note (heap + offset + 4) tail (
      rd_check (previous = tail) (
      rd_bind (LmExpHeapExpected m (heap + offset) head) (\<lambda>_.
      rd_bind (LmExpHeapExpected m (heap + offset + 4) tail) (\<lambda>_.
      rd_return tot' ))))))))"

definition LmExpHeapCheck :: "memory \<Rightarrow> u32 \<Rightarrow> unit chk" where
  "LmExpHeapCheck m heap =
     rd_note 0 heap (
     rd_check (LmExpHeapRange heap 0x88 0x80000000 0x81800000) (
     rd_bind (LmExpHeapExpected m heap 0x8038886C) (\<lambda>_.
     rd_bind (LmExpHeapWord m (heap + 0x30)) (\<lambda>start.
     rd_bind (LmExpHeapWord m (heap + 0x34)) (\<lambda>stop.
     rd_check (\<not> (stop > 0x81800000 \<or> stop AND 3 \<noteq> 0) \<and>
               LmExpHeapRange start 16 (heap + 0x88) stop) (
     rd_bind (LmExpHeapExpected m (heap + 0x38) (stop - start)) (\<lambda>_.
     rd_bind (LmExpHeapList m heap start stop True 0) (\<lambda>tot.
     rd_bind (LmExpHeapList m heap start stop False tot) (\<lambda>tot'.
     rd_note (heap + 0x38) tot' (
     rd_check (tot' = stop - start) (rd_return () )))))))))))"

text \<open>The wrapper: the truth value, \<open>*faultAddress\<close> and \<open>*faultValue\<close>.  A null callback is
  \<open>None\<close>.\<close>

definition LmExpHeapValidate :: "memory option \<Rightarrow> u32 \<Rightarrow> bool \<times> u32 \<times> u32" where
  "LmExpHeapValidate readWord heap =
     (case readWord of
        None \<Rightarrow> (False, 0, 0)
      | Some m \<Rightarrow> rd_report (LmExpHeapCheck m heap rd_start))"

section \<open>What a valid heap is\<close>

text \<open>Header fields of the block at \<open>n\<close>.\<close>

definition heap_tag :: "memory \<Rightarrow> u32 \<Rightarrow> u32" where
  "heap_tag m n = snd (m n)"

definition heap_bytes :: "memory \<Rightarrow> u32 \<Rightarrow> u32" where
  "heap_bytes m n = snd (m (n + 4))"

definition heap_padding :: "memory \<Rightarrow> bool \<Rightarrow> u32 \<Rightarrow> u32" where
  "heap_padding m used n = (if used then drop_bit 8 (heap_tag m n) AND 0x7F else 0)"

text \<open>Bytes of the arena the block accounts for: its padding, its header and its payload.\<close>

definition heap_span :: "memory \<Rightarrow> bool \<Rightarrow> u32 \<Rightarrow> nat" where
  "heap_span m used n = unat (heap_bytes m n) + 16 + unat (heap_padding m used n)"

definition exp_block_ok :: "memory \<Rightarrow> bool \<Rightarrow> u32 \<Rightarrow> u32 \<Rightarrow> u32 \<Rightarrow> bool" where
  "exp_block_ok m used start stop n \<longleftrightarrow>
     n AND 3 = 0 \<and> fst (m n) \<and> fst (m (n + 4)) \<and>
     drop_bit 16 (heap_tag m n) = (if used then 0x484D else 0) \<and>
     heap_padding m used n AND 3 = 0 \<and> heap_bytes m n AND 3 = 0 \<and>
     unat start + unat (heap_padding m used n) \<le> unat n \<and>
     unat n + 16 + unat (heap_bytes m n) \<le> unat stop"

text \<open>The free list is kept in address order, block after block without overlap.\<close>

fun ascending_from :: "memory \<Rightarrow> nat \<Rightarrow> u32 list \<Rightarrow> bool" where
  "ascending_from m low [] \<longleftrightarrow> True"
| "ascending_from m low (n # ns) \<longleftrightarrow>
     low \<le> unat n \<and> ascending_from m (unat n + 16 + unat (heap_bytes m n)) ns"

definition exp_list_ok :: "memory \<Rightarrow> bool \<Rightarrow> u32 \<Rightarrow> u32 \<Rightarrow> u32 \<Rightarrow> u32 list \<Rightarrow> bool" where
  "exp_list_ok m used heap start stop ns \<longleftrightarrow>
     (\<exists>head tail.
        m (heap + (if used then 0x7C else 0x74)) = (True, head) \<and>
        m (heap + (if used then 0x7C else 0x74) + 4) = (True, tail) \<and>
        block_list m 0 head ns tail \<and> length ns \<le> 8192 \<and>
        (\<forall>n \<in> set ns. exp_block_ok m used start stop n) \<and>
        (used \<or> ascending_from m (unat start) ns))"

definition exp_heap_ok :: "memory \<Rightarrow> u32 \<Rightarrow> u32 \<Rightarrow> u32 \<Rightarrow> u32 list \<Rightarrow> u32 list \<Rightarrow> bool" where
  "exp_heap_ok m heap start stop us fs \<longleftrightarrow>
     range_inside heap 0x88 0x80000000 0x81800000 \<and> m heap = (True, 0x8038886C) \<and>
     m (heap + 0x30) = (True, start) \<and> m (heap + 0x34) = (True, stop) \<and>
     stop \<le> 0x81800000 \<and> stop AND 3 = 0 \<and> range_inside start 16 (heap + 0x88) stop \<and>
     m (heap + 0x38) = (True, stop - start) \<and>
     exp_list_ok m True heap start stop us \<and> exp_list_ok m False heap start stop fs \<and>
     (\<Sum>n\<leftarrow>us. heap_span m True n) + (\<Sum>n\<leftarrow>fs. heap_span m False n) = unat stop - unat start"

section \<open>The check accepts exactly the valid heaps\<close>

lemma LmExpHeapRange_inside: "LmExpHeapRange a len start stop \<longleftrightarrow> range_inside a len start stop"
  by (simp add: LmExpHeapRange_def range_inside_def)

lemma LmExpHeapWord_success [rd_success]:
  "fst (LmExpHeapWord m a r) = Some v \<longleftrightarrow> m a = (True, v)"
  by (simp add: LmExpHeapWord_def rd_success)

lemma LmExpHeapExpected_success [rd_success]:
  "fst (LmExpHeapExpected m a v r) = Some u \<longleftrightarrow> m a = (True, v)"
  by (auto simp: LmExpHeapExpected_def rd_success)

text \<open>The guards of one turn of the loop, in natural numbers.\<close>

lemma exp_block_ok_guards:
  "exp_block_ok m used start stop n \<longleftrightarrow>
     LmExpHeapRange n 16 start stop \<and> fst (m n) \<and> fst (m (n + 4)) \<and>
     drop_bit 16 (heap_tag m n) = (if used then 0x484D else 0) \<and>
     heap_padding m used n AND 3 = 0 \<and> heap_padding m used n \<le> n - start \<and>
     heap_bytes m n AND 3 = 0 \<and> heap_bytes m n \<le> stop - n - 16"
proof (cases "range_inside n 16 start stop")
  case True
  then have r: "unat start \<le> unat n" "unat n + 16 \<le> unat stop"
    by (simp_all add: range_inside_unat)
  then have "unat (n - start) = unat n - unat start" "unat (stop - n) = unat stop - unat n"
    by (simp_all add: unat_minus_le word_le_nat_alt)
  moreover from this r have "unat (stop - n - 16) = unat stop - unat n - 16"
    by (subst unat_minus_le) (simp_all add: word_le_nat_alt)
  ultimately show ?thesis
    using True r
    by (auto simp: exp_block_ok_def LmExpHeapRange_inside word_le_nat_alt range_inside_def)
next
  case False
  then show ?thesis
    by (auto simp: exp_block_ok_def LmExpHeapRange_inside range_inside_unat)
qed

lemma heap_padding_le: "unat (heap_padding m used n) \<le> 127"
proof -
  have "drop_bit 8 (heap_tag m n) AND 127 \<le> 127"
    by (rule word_and_le1)
  then show ?thesis
    by (simp add: heap_padding_def word_le_nat_alt)
qed

lemma heap_span_word:
  assumes "exp_block_ok m used start stop n"
  shows "unat (heap_bytes m n + 16 + heap_padding m used n) = heap_span m used n"
    and "unat (n + 16 + heap_bytes m n) = unat n + 16 + unat (heap_bytes m n)"
    and "heap_span m used n \<le> unat stop - unat start"
proof -
  have le: "unat start + unat (heap_padding m used n) \<le> unat n"
    "unat n + 16 + unat (heap_bytes m n) \<le> unat stop"
    using assms by (simp_all add: exp_block_ok_def)
  moreover have "unat stop < 2 ^ 32"
    by (rule unat_u32_less)
  ultimately show "unat (heap_bytes m n + 16 + heap_padding m used n) = heap_span m used n"
    and "unat (n + 16 + heap_bytes m n) = unat n + 16 + unat (heap_bytes m n)"
    by (simp_all add: heap_span_def unat_word_ariths)
  show "heap_span m used n \<le> unat stop - unat start"
    using le by (simp add: heap_span_def)
qed

lemma exp_heap_blocks_step:
  assumes "node \<noteq> 0"
  shows "fst (exp_heap_blocks m used slot start stop (Suc left) node prev pe tot r) = Some x \<longleftrightarrow>
    exp_block_ok m used start stop node \<and> \<not> (\<not> used \<and> node < pe) \<and>
    heap_bytes m node + 16 + heap_padding m used node \<le> stop - start - tot \<and>
    m (node + 8) = (True, prev) \<and>
    (\<exists>next. m (node + 12) = (True, next) \<and>
      (next = 0 \<or> LmExpHeapRange next 16 start stop) \<and>
      \<not> (\<not> used \<and> next \<noteq> 0 \<and> next < node + 16 + heap_bytes m node) \<and>
      fst (exp_heap_blocks m used slot start stop left next node (node + 16 + heap_bytes m node)
        (tot + (heap_bytes m node + 16 + heap_padding m used node)) \<lparr>rd_address = node + 12, rd_value = next\<rparr>) = Some x)"
proof -
  have word: "snd (LmExpHeapWord m a r) = \<lparr>rd_address = a, rd_value = snd (m a)\<rparr>" for a r
    by (simp add: LmExpHeapWord_def rd_word_def)
  show ?thesis
    using assms
    by (cases "m node"; cases "m (node + 4)")
      (auto simp: rd_success Let_def word exp_block_ok_guards heap_tag_def heap_bytes_def
        heap_padding_def simp del: LmExpHeapRange_def)
qed

text \<open>The loop from any point: it ends well exactly when a good list lies ahead.\<close>

lemma exp_heap_blocks_success:
  assumes "unat tot \<le> unat stop - unat start" and "start \<le> stop"
  shows "fst (exp_heap_blocks m used slot start stop left node prev pe tot r) = Some (fin, tot') \<longleftrightarrow>
    (\<exists>ns. block_list m prev node ns fin \<and> length ns \<le> left \<and>
      (\<forall>n \<in> set ns. exp_block_ok m used start stop n) \<and>
      (used \<or> ascending_from m (unat pe) ns) \<and>
      unat tot' = unat tot + (\<Sum>n\<leftarrow>ns. heap_span m used n) \<and> unat tot' \<le> unat stop - unat start)"
    (is "_ \<longleftrightarrow> (\<exists>ns. ?good left node prev pe tot ns)")
  using assms(1)
proof (induction left arbitrary: node prev pe tot r)
  case 0
  show ?case
    by (cases "node = 0") (auto simp: rd_success word_unat_eq_iff 0)
next
  case (Suc left)
  show ?case
  proof (cases "node = 0")
    case True
    have "?good (Suc left) node prev pe tot ns \<longleftrightarrow> ns = [] \<and> fin = prev \<and> tot' = tot" for ns
      using Suc.prems True by (cases ns) (auto simp: word_unat_eq_iff)
    with True show ?thesis by (auto simp: rd_success)
  next
    case False
    let ?b = "heap_bytes m node" and ?nx = "snd (m (node + 12))"
    let ?span = "?b + 16 + heap_padding m used node" and ?pe = "node + 16 + ?b"
    have good_Cons: "(\<exists>ns. ?good (Suc left) node prev pe tot ns) \<longleftrightarrow>
      (\<exists>ns. ?good (Suc left) node prev pe tot (node # ns))"
    proof
      assume "\<exists>ns. ?good (Suc left) node prev pe tot ns"
      then obtain ns where good: "?good (Suc left) node prev pe tot ns" by blast
      then obtain ns' where "ns = node # ns'" using False by (cases ns) auto
      with good show "\<exists>ns. ?good (Suc left) node prev pe tot (node # ns)" by blast
    qed blast
    have free: "\<not> (\<not> used \<and> node < pe) \<longleftrightarrow> used \<or> unat pe \<le> unat node"
      by (auto simp: word_less_nat_alt)
    show ?thesis
    proof (cases "exp_block_ok m used start stop node \<and> ?span \<le> stop - start - tot")
      case True
      note ok = heap_span_word [OF conjunct1 [OF True]]
      have mono: "unat (stop - start) = unat stop - unat start"
        using assms(2) by (rule unat_minus_le)
      have "tot \<le> stop - start"
        using Suc.prems mono by (simp add: word_le_nat_alt)
      with ok(1) mono have room: "unat tot + heap_span m used node \<le> unat stop - unat start"
        using Suc.prems assms(2) conjunct2 [OF True] by (simp add: word_le_nat_alt unat_minus_le)
      moreover have "unat stop < 2 ^ 32"
        by (rule unat_u32_less)
      ultimately have tot: "unat (tot + ?span) = unat tot + heap_span m used node"
        using ok(1) by (simp add: unat_plus_bound)
      have nexts: "(\<exists>ns. ?good left ?nx node ?pe (tot + ?span) ns) \<Longrightarrow>
        (?nx = 0 \<or> LmExpHeapRange ?nx 16 start stop) \<and> \<not> (\<not> used \<and> ?nx \<noteq> 0 \<and> ?nx < ?pe)"
      proof (elim exE)
        fix ns assume "?good left ?nx node ?pe (tot + ?span) ns"
        then show ?thesis
          by (cases ns) (auto simp: exp_block_ok_guards word_less_nat_alt)
      qed
      have ih: "fst (exp_heap_blocks m used slot start stop left ?nx node ?pe (tot + ?span) r') = Some (fin, tot')
          \<longleftrightarrow> (\<exists>ns. ?good left ?nx node ?pe (tot + ?span) ns)" for r'
        by (rule Suc.IH) (simp only: tot room)
      have here: "?good (Suc left) node prev pe tot (node # ns) \<longleftrightarrow>
          m (node + 8) = (True, prev) \<and> m (node + 12) = (True, ?nx) \<and> (used \<or> unat pe \<le> unat node) \<and>
          ?good left ?nx node ?pe (tot + ?span) ns" for ns
        using False True tot ok(2) by (cases "m (node + 12)") auto
      show ?thesis
        unfolding good_Cons exp_heap_blocks_step [OF False] here free [symmetric]
        using True nexts ih by (cases "m (node + 12)") (simp, blast)
    next
      case bad: False
      have "\<not> ?good (Suc left) node prev pe tot (node # ns)" for ns
      proof
        assume good: "?good (Suc left) node prev pe tot (node # ns)"
        then have blk: "exp_block_ok m used start stop node" by simp
        have "unat tot + heap_span m used node \<le> unat stop - unat start"
          using good by simp
        then have "?span \<le> stop - start - tot"
          using heap_span_word(1) [OF blk] assms(2) Suc.prems
          by (simp add: word_le_nat_alt unat_minus_le)
        with bad blk show False by simp
      qed
      then have "\<not> (\<exists>ns. ?good (Suc left) node prev pe tot (node # ns))" by blast
      with bad show ?thesis
        unfolding good_Cons exp_heap_blocks_step [OF False] by blast
    qed
  qed
qed

lemma LmExpHeapList_success:
  assumes "unat tot \<le> unat stop - unat start" and "start \<le> stop"
  shows "fst (LmExpHeapList m heap start stop used tot r) = Some tot' \<longleftrightarrow>
    (\<exists>ns. exp_list_ok m used heap start stop ns \<and>
      unat tot' = unat tot + (\<Sum>n\<leftarrow>ns. heap_span m used n) \<and> unat tot' \<le> unat stop - unat start)"
  using assms
  by (auto simp: LmExpHeapList_def Let_def rd_success exp_heap_blocks_success exp_list_ok_def
      split: prod.splits)

lemma exp_list_ok_unique:
  assumes "exp_list_ok m used heap start stop ns" and "exp_list_ok m used heap start stop ns'"
  shows "ns = ns'"
  using assms by (auto simp: exp_list_ok_def dest: block_list_unique)

lemma LmExpHeapCheck_success:
  "(\<exists>u. fst (LmExpHeapCheck m heap r) = Some u) \<longleftrightarrow> (\<exists>start stop us fs. exp_heap_ok m heap start stop us fs)"
proof
  assume "\<exists>u. fst (LmExpHeapCheck m heap r) = Some u"
  then obtain start stop tot where hdr: "LmExpHeapRange heap 0x88 0x80000000 0x81800000"
      "m heap = (True, 0x8038886C)" "m (heap + 0x30) = (True, start)" "m (heap + 0x34) = (True, stop)"
      "stop \<le> 0x81800000" "stop AND 3 = 0" "LmExpHeapRange start 16 (heap + 0x88) stop"
      "m (heap + 0x38) = (True, stop - start)"
    and used: "\<exists>r. fst (LmExpHeapList m heap start stop True 0 r) = Some tot"
    and free: "\<exists>r. fst (LmExpHeapList m heap start stop False tot r) = Some (stop - start)"
    by (auto simp: LmExpHeapCheck_def rd_success not_less)
  have le: "start \<le> stop"
    using hdr(7) by (auto simp: LmExpHeapRange_def)
  obtain us where us: "exp_list_ok m True heap start stop us" "unat tot = (\<Sum>n\<leftarrow>us. heap_span m True n)"
      "unat tot \<le> unat stop - unat start"
    using used le by (auto simp: LmExpHeapList_success)
  obtain fs where "exp_list_ok m False heap start stop fs"
      "unat (stop - start) = unat tot + (\<Sum>n\<leftarrow>fs. heap_span m False n)"
    using free le us(3) by (auto simp: LmExpHeapList_success)
  with hdr us le show "\<exists>start stop us fs. exp_heap_ok m heap start stop us fs"
    by (intro exI [of _ start] exI [of _ stop] exI [of _ us] exI [of _ fs])
      (simp add: exp_heap_ok_def LmExpHeapRange_inside unat_minus_le)
next
  assume "\<exists>start stop us fs. exp_heap_ok m heap start stop us fs"
  then obtain start stop us fs where ok: "exp_heap_ok m heap start stop us fs" by blast
  define tot :: u32 where "tot = word_of_nat (\<Sum>n\<leftarrow>us. heap_span m True n)"
  have le: "start \<le> stop"
    using ok by (auto simp: exp_heap_ok_def range_inside_def)
  have sum: "(\<Sum>n\<leftarrow>us. heap_span m True n) + (\<Sum>n\<leftarrow>fs. heap_span m False n) = unat stop - unat start"
    using ok by (simp add: exp_heap_ok_def)
  have tot: "unat tot = (\<Sum>n\<leftarrow>us. heap_span m True n)"
    using sum unat_u32_less [of stop] by (simp add: tot_def unat_of_nat)
  have used: "fst (LmExpHeapList m heap start stop True 0 r) = Some tot" for r
    using ok le sum tot by (auto simp: LmExpHeapList_success exp_heap_ok_def)
  have free: "fst (LmExpHeapList m heap start stop False tot r) = Some (stop - start)" for r
    using ok le sum tot by (auto simp: LmExpHeapList_success exp_heap_ok_def unat_minus_le)
  show "\<exists>u. fst (LmExpHeapCheck m heap r) = Some u"
    using ok used free
    by (auto simp: LmExpHeapCheck_def rd_success exp_heap_ok_def LmExpHeapRange_inside not_less)
qed

text \<open>C12: The heap walker accepts a memory if and only if it holds a well-formed expanded heap: a header with
  sane bounds, a used and a free list that are doubly linked, aligned, inside the bounds and within the block
  limit, the free list ascending without overlap, and block sizes that add up to exactly the heap.  That used blocks
  do not overlap is not part of it: the walker does not look for it (\<open>exp_heap_overlap\<close> below).\<close>

theorem LmExpHeapValidate_iff:
  "LmExpHeapValidate (Some m) heap = (True, 0, 0) \<longleftrightarrow>
     (\<exists>start stop us fs. exp_heap_ok m heap start stop us fs)"
proof -
  have "LmExpHeapValidate (Some m) heap = (True, 0, 0) \<longleftrightarrow> fst (LmExpHeapValidate (Some m) heap)"
    by (auto simp: LmExpHeapValidate_def dest: rd_report_ok)
  also have "\<dots> \<longleftrightarrow> (\<exists>start stop us fs. exp_heap_ok m heap start stop us fs)"
    using LmExpHeapCheck_success [of m heap rd_start] by (simp add: LmExpHeapValidate_def rd_report_True)
  finally show ?thesis .
qed

text \<open>A heap is valid in one way only: the bounds and the two lists are determined.\<close>

lemma exp_heap_ok_unique:
  assumes "exp_heap_ok m heap start stop us fs" and "exp_heap_ok m heap start' stop' us' fs'"
  shows "start' = start \<and> stop' = stop \<and> us' = us \<and> fs' = fs"
  using assms exp_list_ok_unique by (auto simp: exp_heap_ok_def)

lemma exp_heap_ok_distinct:
  assumes "exp_heap_ok m heap start stop us fs"
  shows "distinct us \<and> distinct fs"
  using assms by (auto simp: exp_heap_ok_def exp_list_ok_def dest: block_list_distinct)

text \<open>A heap of 64 bytes whose two used blocks of 32 bytes overlap: the second header lies in the payload of the first.\<close>

definition overlap_demo :: memory where
  "overlap_demo a = (True, case map_of [(0x80000000, 0x8038886C), (0x80000030, 0x80000100), (0x80000034, 0x80000140), (0x80000038, 64),
     (0x8000007C, 0x80000100), (0x80000080, 0x80000110),
     (0x80000100, 0x484D0000), (0x80000104, 16), (0x8000010C, 0x80000110),
     (0x80000110, 0x484D0000), (0x80000114, 16), (0x80000118, 0x80000100)] a of Some v \<Rightarrow> v | None \<Rightarrow> 0)"

lemma exp_heap_overlap:
  "exp_heap_ok overlap_demo 0x80000000 0x80000100 0x80000140 [0x80000100, 0x80000110] []"
  by (simp add: exp_heap_ok_def exp_list_ok_def exp_block_ok_def range_inside_def heap_span_def heap_padding_def heap_tag_def heap_bytes_def)
    (simp add: overlap_demo_def)

end
