(* ===== verification/OwnedBlocks.thy ===== *)
theory OwnedBlocks
  imports BlockWalk ExpHeap
begin

text \<open>
  Guards that look for certain objects as whole allocations in the used list of a heap: the loop the
  camera guard and the map archive guard share, and what it accepts.
\<close>

section \<open>The code\<close>

text \<open>The loop over the targets at one block: a target is its address, its length and the start of its
  block, padding included; \<open>i\<close> is the bit of the first of them.\<close>

fun owned_marks :: "u32 \<Rightarrow> u32 \<Rightarrow> u32 \<Rightarrow> u32 \<Rightarrow> u32 \<Rightarrow> nat \<Rightarrow> (u32 \<times> u32 \<times> u32) list \<Rightarrow> u32 \<Rightarrow> u32 chk" where
  "owned_marks owner node tag padding bytes i [] found = rd_return found"
| "owned_marks owner node tag padding bytes i ((t, len, c) # cs) found =
     (if node = t - 16 then
        rd_note node tag (
        rd_check (bytes = len \<and> tag AND 0xFF = owner \<and> node - padding = c) (
        owned_marks owner node tag padding bytes (i + 1) cs (found OR push_bit i 1) ))
      else
        rd_check (\<not> (node - padding < t + len \<and> c < node + 16 + bytes)) (
        owned_marks owner node tag padding bytes (i + 1) cs found ))"

text \<open>One turn of the loop over the used list.\<close>

definition owned_turn :: "memory \<Rightarrow> u32 \<Rightarrow> u32 \<Rightarrow> u32 \<Rightarrow> (u32 \<times> u32 \<times> u32) list \<Rightarrow> u32 \<Rightarrow> u32 \<Rightarrow> u32 \<Rightarrow>
    (u32 \<times> u32) chk" where
  "owned_turn m owner start stop cs node previous found =
     rd_check (range_inside node 16 start stop) (
     rd_bind (rd_word m node) (\<lambda>tag.
     let padding = drop_bit 8 tag AND 0x7F in
     rd_check (drop_bit 16 tag = 0x484D \<and> padding AND 3 = 0 \<and> padding \<le> node - start) (
     rd_bind (rd_word m (node + 4)) (\<lambda>bytes.
     rd_check (bytes AND 3 = 0 \<and> bytes \<le> stop - node - 16) (
     rd_bind (rd_expect m (node + 8) previous) (\<lambda>_.
     rd_bind (rd_word m (node + 12)) (\<lambda>next.
     rd_bind (owned_marks owner node tag padding bytes 0 cs found) (\<lambda>found'.
     rd_return (next, found') ))))))))"

section \<open>What it accepts\<close>

text \<open>The bytes a used block takes: its padding, its header and its payload.\<close>

definition block_extent :: "memory \<Rightarrow> u32 \<Rightarrow> nat \<Rightarrow> nat set" where
  "block_extent m n len = {unat n - unat (heap_padding m True n) ..< unat n + 16 + len}"

text \<open>A target \<open>t\<close> whose block header stands in front of it, inside the heap.\<close>

definition target_ok :: "memory \<Rightarrow> u32 \<Rightarrow> u32 \<Rightarrow> u32 \<Rightarrow> u32 \<Rightarrow> bool" where
  "target_ok m start stop len t \<longleftrightarrow> t AND 3 = 0 \<and> fst (m (t - 16)) \<and> heap_padding m True (t - 16) AND 3 = 0 \<and>
     unat start + 16 + unat (heap_padding m True (t - 16)) \<le> unat t \<and> unat t + unat len \<le> unat stop"

definition target_extent :: "memory \<Rightarrow> nat \<Rightarrow> u32 \<Rightarrow> nat set" where
  "target_extent m len t = block_extent m (t - 16) len"

text \<open>The used list from \<open>head\<close> to \<open>tail\<close>, in which every target is the payload of a block with the
  right size and owner and every other block keeps clear of the targets.\<close>

definition owned_blocks :: "memory \<Rightarrow> u32 \<Rightarrow> u32 \<Rightarrow> u32 \<Rightarrow> u32 \<Rightarrow> u32 \<Rightarrow> (u32 \<times> u32) list \<Rightarrow> bool" where
  "owned_blocks m start stop owner head tail targets \<longleftrightarrow>
     (\<exists>ns. block_list m 0 head ns tail \<and> length ns \<le> 8192 \<and>
        (\<forall>n \<in> set ns. exp_block_ok m True start stop n) \<and>
        (\<forall>(t, len) \<in> set targets. t - 16 \<in> set ns \<and>
          (\<forall>n \<in> set ns. if n = t - 16 then heap_bytes m n = len \<and> heap_tag m n AND 0xFF = owner
             else block_extent m n (unat (heap_bytes m n)) \<inter> target_extent m (unat len) t = {})))"


fun owned_mask :: "nat \<Rightarrow> (u32 \<times> u32 \<times> u32) list \<Rightarrow> u32 \<Rightarrow> u32" where
  "owned_mask i [] node = 0"
| "owned_mask i ((t, len, c) # cs) node = (if node = t - 16 then push_bit i 1 else 0) OR owned_mask (i + 1) cs node"

lemma owned_marks_success [rd_success]:
  "fst (owned_marks owner node tag padding bytes i cs found r) = Some f \<longleftrightarrow>
    (\<forall>(t, len, c) \<in> set cs. if node = t - 16 then bytes = len \<and> tag AND 0xFF = owner \<and> node - padding = c
       else \<not> (node - padding < t + len \<and> c < node + 16 + bytes)) \<and> f = found OR owned_mask i cs node"
proof (induction cs arbitrary: i found r)
  case (Cons x cs)
  obtain t len c where x: "x = (t, len, c)" by (cases x)
  note simps = x owned_marks.simps owned_mask.simps rd_success Cons.IH list.set Set.ball_simps prod.case or.assoc
  show ?case
  proof (cases "node = t - 16")
    case True
    then have h: "(node = t - 16) = True" by simp
    show ?thesis unfolding simps h if_True by blast
  next
    case False
    then have h: "(node = t - 16) = False" by simp
    show ?thesis unfolding simps h if_False by simp
  qed
qed (auto simp: rd_success)

lemma bit_owned_mask: "k < 32 \<Longrightarrow> bit (owned_mask i cs node) k \<longleftrightarrow>
    (\<exists>j < length cs. k = i + j \<and> node = fst (cs ! j) - 16)"
proof (induction cs arbitrary: i)
  case (Cons x cs)
  obtain t len c where x: "x = (t, len, c)" by (cases x)
  have "(\<exists>j < length (x # cs). k = i + j \<and> node = fst ((x # cs) ! j) - 16) \<longleftrightarrow>
      (k = i \<and> node = t - 16) \<or> (\<exists>j < length cs. k = i + 1 + j \<and> node = fst (cs ! j) - 16)"
    by (auto simp: x less_Suc_eq_0_disj)
  moreover have "bit (if node = t - 16 then push_bit i 1 else (0 :: u32)) k \<longleftrightarrow> k = i \<and> node = t - 16"
    using Cons.prems by (auto simp: bit_exp_iff)
  ultimately show ?case
    using Cons.IH [OF Cons.prems, of "i + 1"] by (simp only: x owned_mask.simps bit_or_iff)
qed simp

text \<open>What makes one block pass.\<close>

definition owned_good :: "memory \<Rightarrow> u32 \<Rightarrow> u32 \<Rightarrow> u32 \<Rightarrow> (u32 \<times> u32 \<times> u32) list \<Rightarrow> u32 \<Rightarrow> bool" where
  "owned_good m owner start stop cs n \<longleftrightarrow> exp_block_ok m True start stop n \<and>
     (\<forall>(t, len, c) \<in> set cs. if n = t - 16
        then heap_bytes m n = len \<and> heap_tag m n AND 0xFF = owner \<and> n - heap_padding m True n = c
        else \<not> (n - heap_padding m True n < t + len \<and> c < n + 16 + heap_bytes m n))"

lemma owned_turn_success:
  "fst (owned_turn m owner start stop cs n p a r) = Some (next, b) \<longleftrightarrow>
    m (n + 8) = (True, p) \<and> m (n + 12) = (True, next) \<and>
    owned_good m owner start stop cs n \<and> b = a OR owned_mask 0 cs n"
  by (cases "m n"; cases "m (n + 4)")
    (auto simp: owned_turn_def rd_success Let_def owned_good_def exp_block_ok_guards LmExpHeapRange_inside
      heap_tag_def heap_bytes_def heap_padding_def)

interpretation owned: marking_walker m "owned_turn m owner start stop cs" "owned_good m owner start stop cs" "owned_mask 0 cs"
  for m owner start stop cs
  by unfold_locales (simp add: owned_turn_success)

section \<open>In natural numbers\<close>

lemma intervals_disjoint: "(a :: nat) < b \<Longrightarrow> c < d \<Longrightarrow> {a..<b} \<inter> {c..<d} = {} \<longleftrightarrow> \<not> (a < d \<and> c < b)"
  by auto

lemma target_ok_unat:
  assumes "target_ok m start stop len t" and "unat stop \<le> 0x81800000"
  shows "unat (t - 16) = unat t - 16"
    and "unat (t - 16 - heap_padding m True (t - 16)) = unat t - 16 - unat (heap_padding m True (t - 16))"
    and "unat (t + len) = unat t + unat len"
    and "unat (heap_padding m True (t - 16)) + 16 \<le> unat t"
proof -
  have le: "unat start + 16 + unat (heap_padding m True (t - 16)) \<le> unat t" "unat t + unat len \<le> unat stop"
    using assms(1) by (simp_all add: target_ok_def)
  show a: "unat (t - 16) = unat t - 16"
    using le by (subst unat_minus_le) (simp_all add: word_le_nat_alt)
  show "unat (t - 16 - heap_padding m True (t - 16)) = unat t - 16 - unat (heap_padding m True (t - 16))"
    using le a by (subst unat_minus_le) (simp_all add: word_le_nat_alt)
  show "unat (t + len) = unat t + unat len"
    using le assms(2) by (intro unat_plus_bound) simp
  show "unat (heap_padding m True (t - 16)) + 16 \<le> unat t" using le by simp
qed

lemma block_ok_unat:
  assumes "exp_block_ok m True start stop n"
  shows "unat (n - heap_padding m True n) = unat n - unat (heap_padding m True n)"
    and "unat (n + 16 + heap_bytes m n) = unat n + 16 + unat (heap_bytes m n)"
    and "unat (heap_padding m True n) \<le> unat n"
proof -
  have "unat start + unat (heap_padding m True n) \<le> unat n" using assms by (simp add: exp_block_ok_def)
  then show le: "unat (heap_padding m True n) \<le> unat n" by simp
  then show "unat (n - heap_padding m True n) = unat n - unat (heap_padding m True n)"
    by (subst unat_minus_le) (simp_all add: word_le_nat_alt)
  show "unat (n + 16 + heap_bytes m n) = unat n + 16 + unat (heap_bytes m n)"
    by (rule heap_span_word(2) [OF assms])
qed

lemma target_guards:
  assumes "start < stop" "stop \<le> 0x81800000"
  shows "target_ok m start stop len t \<and> len \<noteq> 0 \<longleftrightarrow> range_inside t len (start + 16) stop \<and> fst (m (t - 16)) \<and>
    heap_padding m True (t - 16) AND 3 = 0 \<and> heap_padding m True (t - 16) \<le> t - 16 - start"
proof (cases "range_inside t len (start + 16) stop")
  case True
  have "unat start < unat stop" "unat stop \<le> 0x81800000"
    using assms by (simp_all add: word_less_nat_alt word_le_nat_alt)
  then have "unat (start + 16) = unat start + 16"
    by (subst unat_plus_bound) simp_all
  with True have r: "t AND 3 = 0" "unat start + 16 \<le> unat t" "0 < unat len" "unat t + unat len \<le> unat stop"
    by (simp_all add: range_inside_unat)
  then have "unat (t - 16) = unat t - 16"
    by (subst unat_minus_le) (simp_all add: word_le_nat_alt)
  moreover from this r(2) have "unat (t - 16 - start) = unat t - 16 - unat start"
    by (subst unat_minus_le) (simp_all add: word_le_nat_alt)
  ultimately show ?thesis
    using True r by (auto simp: target_ok_def word_le_nat_alt)
next
  case False
  have "unat start < unat stop" "unat stop \<le> 0x81800000"
    using assms by (simp_all add: word_less_nat_alt word_le_nat_alt)
  then have "unat (start + 16) = unat start + 16"
    by (subst unat_plus_bound) simp_all
  with False show ?thesis
    by (auto simp: target_ok_def range_inside_unat unat_gt_0)
qed

text \<open>A target with the start of its block.\<close>

definition with_start :: "memory \<Rightarrow> u32 \<times> u32 \<Rightarrow> u32 \<times> u32 \<times> u32" where
  "with_start m x = (fst x, snd x, fst x - 16 - heap_padding m True (fst x - 16))"

lemma owned_good_iff:
  assumes "unat stop \<le> 0x81800000" and "\<forall>(t, len) \<in> set ts. target_ok m start stop len t \<and> len \<noteq> 0"
  shows "owned_good m owner start stop (map (with_start m) ts) n \<longleftrightarrow> exp_block_ok m True start stop n \<and>
    (\<forall>(t, len) \<in> set ts. if n = t - 16 then heap_bytes m n = len \<and> heap_tag m n AND 0xFF = owner
       else block_extent m n (unat (heap_bytes m n)) \<inter> target_extent m (unat len) t = {})"
proof -
  have "n - heap_padding m True n < t + len \<and> t - 16 - heap_padding m True (t - 16) < n + 16 + heap_bytes m n \<longleftrightarrow>
      block_extent m n (unat (heap_bytes m n)) \<inter> target_extent m (unat len) t \<noteq> {}"
    if n: "exp_block_ok m True start stop n" and t: "target_ok m start stop len t" "len \<noteq> 0" for t len
  proof -
    have "0 < unat len" using t(2) by (simp add: unat_gt_0)
    then have "unat t - 16 - unat (heap_padding m True (t - 16)) < unat t - 16 + 16 + unat len"
      "unat n - unat (heap_padding m True n) < unat n + 16 + unat (heap_bytes m n)"
      by linarith+
    note disjoint = intervals_disjoint [OF this(2,1)]
    have "unat t - 16 + 16 + unat len = unat t + unat len"
      using target_ok_unat(4) [OF t(1) assms(1)] by linarith
    with disjoint show ?thesis
      by (simp only: block_extent_def target_extent_def target_ok_unat [OF t(1) assms(1)] block_ok_unat [OF n]
        word_less_nat_alt not_not)
  qed
  note overlap = this
  show ?thesis
  proof (cases "exp_block_ok m True start stop n")
    case True
    have eq: "(case with_start m x of (t, len, c) \<Rightarrow> if n = t - 16
        then heap_bytes m n = len \<and> heap_tag m n AND 0xFF = owner \<and> n - heap_padding m True n = c
        else \<not> (n - heap_padding m True n < t + len \<and> c < n + 16 + heap_bytes m n)) \<longleftrightarrow>
      (case x of (t, len) \<Rightarrow> if n = t - 16 then heap_bytes m n = len \<and> heap_tag m n AND 0xFF = owner
        else block_extent m n (unat (heap_bytes m n)) \<inter> target_extent m (unat len) t = {})"
      if "x \<in> set ts" for x
    proof (cases x)
      case (Pair t len)
      then have "target_ok m start stop len t" "len \<noteq> 0" using assms(2) that by auto
      from overlap [OF True this] show ?thesis
        by (simp only: Pair with_start_def prod.case fst_conv snd_conv) (simp only: not_not split: if_split, blast)
    qed
    show ?thesis
      unfolding owned_good_def set_map Set.ball_simps
      by (rule arg_cong2 [where f = conj, OF refl], rule ball_cong [OF refl], erule eq)
  qed (simp add: owned_good_def)
qed

lemma target_extents_disjoint:
  assumes "unat stop \<le> 0x81800000" and "target_ok m start stop len t" "len \<noteq> 0" and "target_ok m start stop len' t'" "len' \<noteq> 0"
  shows "target_extent m (unat len) t \<inter> target_extent m (unat len') t' = {} \<longleftrightarrow>
    \<not> (t' - 16 - heap_padding m True (t' - 16) < t + len \<and> t - 16 - heap_padding m True (t - 16) < t' + len')"
proof -
  note u = target_ok_unat [OF assms(2,1)] and u' = target_ok_unat [OF assms(4,1)]
  have "0 < unat len" "0 < unat len'" using assms(3,5) by (simp_all add: unat_gt_0)
  then have "unat t - 16 - unat (heap_padding m True (t - 16)) < unat t - 16 + 16 + unat len"
    "unat t' - 16 - unat (heap_padding m True (t' - 16)) < unat t' - 16 + 16 + unat len'" by linarith+
  note disjoint = intervals_disjoint [OF this]
  have "unat t - 16 + 16 + unat len = unat t + unat len" "unat t' - 16 + 16 + unat len' = unat t' + unat len'"
    using u(4) u'(4) by linarith+
  with disjoint show ?thesis
    by (simp only: block_extent_def target_extent_def u u' word_less_nat_alt) blast
qed

section \<open>The whole list\<close>

lemma bit_7: "bit (7 :: u32) k \<longleftrightarrow> k < 3"
proof -
  have "(7 :: u32) = mask 3" by (simp add: mask_eq_exp_minus_1)
  then show ?thesis by (simp only: bit_mask_iff) (auto simp: possible_bit_def)
qed

lemma owned_walk:
  assumes "unat stop \<le> 0x81800000" and "\<forall>(t, len) \<in> set ts. target_ok m start stop len t \<and> len \<noteq> 0"
    and three: "length ts = 3"
  shows "fst (block_walk slot (owned_turn m owner start stop (map (with_start m) ts)) 8192 head 0 0 r) = Some (tail, 7) \<longleftrightarrow>
    owned_blocks m start stop owner head tail ts"
proof -
  let ?cs = "map (with_start m) ts"
  have marks: "(\<forall>i. bit (7 :: u32) i \<longleftrightarrow> (\<exists>n \<in> set ns. bit (owned_mask 0 ?cs n) i)) \<longleftrightarrow>
      (\<forall>(t, len) \<in> set ts. t - 16 \<in> set ns)" (is "?l \<longleftrightarrow> ?r") for ns
  proof
    assume l: ?l
    show ?r
    proof
      fix x assume "x \<in> set ts"
      then obtain j where j: "j < 3" "x = ts ! j" using three by (auto simp: in_set_conv_nth)
      then have "bit (7 :: u32) j" by (simp only: bit_7)
      with l obtain n where n: "n \<in> set ns" "bit (owned_mask 0 ?cs n) j" by blast
      with j three have "n = fst x - 16" by (auto simp: bit_owned_mask with_start_def)
      with n(1) show "case x of (t, len) \<Rightarrow> t - 16 \<in> set ns" by (auto split: prod.split)
    qed
  next
    assume r: ?r
    show ?l
    proof (intro allI iffI)
      fix i assume "bit (7 :: u32) i"
      then have i: "i < 3" by (simp only: bit_7)
      then have "fst (ts ! i) - 16 \<in> set ns" using r nth_mem [of i ts] three by (simp add: case_prod_beta)
      moreover have "bit (owned_mask 0 ?cs (fst (ts ! i) - 16)) i"
        using i three by (simp add: bit_owned_mask with_start_def)
      ultimately show "\<exists>n \<in> set ns. bit (owned_mask 0 ?cs n) i" by blast
    next
      fix i assume "\<exists>n \<in> set ns. bit (owned_mask 0 ?cs n) i"
      then obtain n where n: "bit (owned_mask 0 ?cs n) i" by blast
      then have "i < 32" by (auto dest: bit_imp_le_length)
      with n three show "bit (7 :: u32) i" by (simp only: bit_7) (auto simp: bit_owned_mask)
    qed
  qed
  show ?thesis
    unfolding owned.marked_success owned_blocks_def marks owned_good_iff [OF assms(1,2)]
    unfolding case_prod_beta by (rule arg_cong [where f = Ex], rule ext) blast
qed

end
