(* ===== verification/CameraState.thy ===== *)
theory CameraState
  imports OwnedBlocks
begin

text \<open>
  The guard of the three plain camera blocks, \<open>include/susamune/lm_camera_state.h\<close>: it finds each of
  them as one allocation of the game heap's used list, and nothing else on top of it.
\<close>

section \<open>The code\<close>

abbreviation LM_CAMERA_ROOTS :: u32 where "LM_CAMERA_ROOTS \<equiv> 0x80399BE0"
abbreviation LM_CAMERA_BYTES :: u32 where "LM_CAMERA_BYTES \<equiv> 0xEC"
abbreviation LM_CAMERA_MAX_BLOCKS :: nat where "LM_CAMERA_MAX_BLOCKS \<equiv> 8192"

definition LmCameraWord :: "memory \<Rightarrow> u32 \<Rightarrow> u32 chk" where
  "LmCameraWord m address = rd_word m address"

definition LmCameraRange :: "u32 \<Rightarrow> u32 \<Rightarrow> u32 \<Rightarrow> u32 \<Rightarrow> bool" where
  "LmCameraRange address len start stop \<longleftrightarrow>
     address AND 3 = 0 \<and> address \<ge> start \<and> address < stop \<and> len \<noteq> 0 \<and> len \<le> stop - address"

text \<open>The first loop, from target \<open>i\<close> on; \<open>known\<close> are the targets before it with their
  \<open>cameraStarts\<close>.\<close>

fun camera_starts :: "memory \<Rightarrow> u32 \<Rightarrow> u32 \<Rightarrow> u32 \<Rightarrow> u32 list \<Rightarrow> (u32 \<times> u32 \<times> u32) list \<Rightarrow> (u32 \<times> u32 \<times> u32) list chk" where
  "camera_starts m start stop i [] known = rd_return known"
| "camera_starts m start stop i (t # ts) known =
     rd_note (LM_CAMERA_ROOTS + i * 4) t (
     rd_check (LmCameraRange t LM_CAMERA_BYTES (start + 16) stop) (
     rd_bind (LmCameraWord m (LM_CAMERA_ROOTS + i * 4)) (\<lambda>w.
     rd_check (w = t) (
     rd_bind (LmCameraWord m (t - 16)) (\<lambda>tag.
     let padding = drop_bit 8 tag AND 0x7F in
     rd_check (padding AND 3 = 0 \<and> padding \<le> t - 16 - start) (
     let c = t - 16 - padding in
     rd_check (\<forall>(tj, lenj, cj) \<in> set known. \<not> (c < tj + LM_CAMERA_BYTES \<and> cj < t + LM_CAMERA_BYTES)) (
     camera_starts m start stop (i + 1) ts (known @ [(t, LM_CAMERA_BYTES, c)]) )))))))"

text \<open>\<open>targets\<close> points to three words.\<close>

definition LmCameraGameCheck :: "memory \<Rightarrow> (u32 \<times> u32 \<times> u32) option \<Rightarrow> u32 \<Rightarrow> u32 \<Rightarrow> u32 \<Rightarrow> u32 \<Rightarrow> unit chk" where
  "LmCameraGameCheck m targets start stop head tail =
     (case targets of
        None \<Rightarrow> rd_check False (rd_return ())
      | Some (t0, t1, t2) \<Rightarrow>
          rd_check (\<not> (start < 0x80000000 \<or> stop > 0x81800000 \<or> start \<ge> stop)) (
          rd_bind (camera_starts m start stop 0 [t0, t1, t2] []) (\<lambda>cs.
          rd_bind (block_walk start (owned_turn m 1 start stop cs) LM_CAMERA_MAX_BLOCKS head 0 0) (\<lambda>(previous, found).
          rd_note tail previous (
          rd_check (previous = tail \<and> found = 7) (rd_return ()) )))))"

definition LmCameraGameValidate :: "memory option \<Rightarrow> (u32 \<times> u32 \<times> u32) option \<Rightarrow> u32 \<Rightarrow> u32 \<Rightarrow> u32 \<Rightarrow> u32 \<Rightarrow>
    bool \<times> u32 \<times> u32" where
  "LmCameraGameValidate readWord targets start stop head tail =
     (case readWord of
        None \<Rightarrow> (False, 0, 0)
      | Some m \<Rightarrow> rd_report (LmCameraGameCheck m targets start stop head tail rd_start))"

section \<open>What is accepted\<close>

definition camera_ok :: "memory \<Rightarrow> u32 \<Rightarrow> u32 \<Rightarrow> u32 \<Rightarrow> u32 \<Rightarrow> u32 \<Rightarrow> u32 \<Rightarrow> u32 \<Rightarrow> bool" where
  "camera_ok m t0 t1 t2 start stop head tail \<longleftrightarrow>
     0x80000000 \<le> start \<and> start < stop \<and> stop \<le> 0x81800000 \<and>
     m LM_CAMERA_ROOTS = (True, t0) \<and> m (LM_CAMERA_ROOTS + 4) = (True, t1) \<and> m (LM_CAMERA_ROOTS + 8) = (True, t2) \<and>
     (\<forall>t \<in> {t0, t1, t2}. target_ok m start stop LM_CAMERA_BYTES t) \<and>
     target_extent m 0xEC t0 \<inter> target_extent m 0xEC t1 = {} \<and>
     target_extent m 0xEC t0 \<inter> target_extent m 0xEC t2 = {} \<and>
     target_extent m 0xEC t1 \<inter> target_extent m 0xEC t2 = {} \<and>
     owned_blocks m start stop 1 head tail [(t0, LM_CAMERA_BYTES), (t1, LM_CAMERA_BYTES), (t2, LM_CAMERA_BYTES)]"

section \<open>The check accepts exactly these memories\<close>

lemma LmCameraRange_inside: "LmCameraRange a len start stop \<longleftrightarrow> range_inside a len start stop"
  by (simp add: LmCameraRange_def range_inside_def)

lemma LmCameraWord_success [rd_success]: "fst (LmCameraWord m a r) = Some v \<longleftrightarrow> m a = (True, v)"
  by (simp add: LmCameraWord_def rd_success)

text \<open>The first loop, target by target.\<close>

fun starts_ok :: "memory \<Rightarrow> u32 \<Rightarrow> u32 \<Rightarrow> u32 \<Rightarrow> u32 list \<Rightarrow> (u32 \<times> u32 \<times> u32) list \<Rightarrow> bool" where
  "starts_ok m start stop i [] known \<longleftrightarrow> True"
| "starts_ok m start stop i (t # ts) known \<longleftrightarrow>
     m (LM_CAMERA_ROOTS + i * 4) = (True, t) \<and> target_ok m start stop LM_CAMERA_BYTES t \<and>
     (\<forall>(tj, lenj, cj) \<in> set known.
        \<not> (t - 16 - heap_padding m True (t - 16) < tj + LM_CAMERA_BYTES \<and> cj < t + LM_CAMERA_BYTES)) \<and>
     starts_ok m start stop (i + 1) ts (known @ [with_start m (t, LM_CAMERA_BYTES)])"

lemma camera_starts_success:
  assumes "start < stop" "stop \<le> 0x81800000"
  shows "fst (camera_starts m start stop i ts known r) = Some cs \<longleftrightarrow>
    starts_ok m start stop i ts known \<and> cs = known @ map (\<lambda>t. with_start m (t, LM_CAMERA_BYTES)) ts"
proof (induction ts arbitrary: i known r)
  case (Cons t ts)
  let ?p = "heap_padding m True (t - 16)"
  have guards: "target_ok m start stop LM_CAMERA_BYTES t \<longleftrightarrow> range_inside t LM_CAMERA_BYTES (start + 16) stop \<and>
      fst (m (t - 16)) \<and> ?p AND 3 = 0 \<and> ?p \<le> t - 16 - start"
    using target_guards [OF assms, of m LM_CAMERA_BYTES t] by simp
  have "fst (camera_starts m start stop i (t # ts) known r) = Some cs \<longleftrightarrow>
      range_inside t LM_CAMERA_BYTES (start + 16) stop \<and> m (LM_CAMERA_ROOTS + i * 4) = (True, t) \<and>
      fst (m (t - 16)) \<and> ?p AND 3 = 0 \<and> ?p \<le> t - 16 - start \<and>
      (\<forall>(tj, lenj, cj) \<in> set known. \<not> (t - 16 - ?p < tj + LM_CAMERA_BYTES \<and> cj < t + LM_CAMERA_BYTES)) \<and>
      starts_ok m start stop (i + 1) ts (known @ [with_start m (t, LM_CAMERA_BYTES)]) \<and>
      cs = known @ map (\<lambda>t. with_start m (t, LM_CAMERA_BYTES)) (t # ts)"
    by (cases "m (t - 16)")
      (auto simp: rd_success Let_def Cons.IH LmCameraRange_inside heap_padding_def heap_tag_def with_start_def
        simp del: starts_ok.simps)
  then show ?case unfolding starts_ok.simps guards by blast
qed (auto simp: rd_success)

lemma starts_ok_three:
  assumes "stop \<le> 0x81800000"
  shows "starts_ok m start stop 0 [t0, t1, t2] [] \<longleftrightarrow>
    m LM_CAMERA_ROOTS = (True, t0) \<and> m (LM_CAMERA_ROOTS + 4) = (True, t1) \<and> m (LM_CAMERA_ROOTS + 8) = (True, t2) \<and>
    (\<forall>t \<in> {t0, t1, t2}. target_ok m start stop LM_CAMERA_BYTES t) \<and>
    target_extent m 0xEC t0 \<inter> target_extent m 0xEC t1 = {} \<and>
    target_extent m 0xEC t0 \<inter> target_extent m 0xEC t2 = {} \<and>
    target_extent m 0xEC t1 \<inter> target_extent m 0xEC t2 = {}"
proof -
  have "unat stop \<le> 0x81800000" using assms by (simp add: word_le_nat_alt)
  note disjoint = target_extents_disjoint [OF this, of m start LM_CAMERA_BYTES _ LM_CAMERA_BYTES, simplified]
  show ?thesis
    by (simp add: with_start_def disjoint cong: conj_cong) blast
qed

text \<open>C16: The camera guard accepts a memory if and only if the three camera blocks named by the roots are
  distinct whole allocations of the heap: each is the payload of a used block of the right size and owner
  in a well-formed used list, and no other block and none of the three overlaps another.\<close>

theorem LmCameraGameValidate_iff:
  "LmCameraGameValidate (Some m) (Some (t0, t1, t2)) start stop head tail = (True, 0, 0) \<longleftrightarrow>
    camera_ok m t0 t1 t2 start stop head tail"
proof -
  have "LmCameraGameValidate (Some m) (Some (t0, t1, t2)) start stop head tail = (True, 0, 0) \<longleftrightarrow>
      (\<exists>u. fst (LmCameraGameCheck m (Some (t0, t1, t2)) start stop head tail rd_start) = Some u)"
    by (simp add: LmCameraGameValidate_def rd_report_iff)
  also have "\<dots> \<longleftrightarrow> camera_ok m t0 t1 t2 start stop head tail"
  proof (cases "0x80000000 \<le> start \<and> start < stop \<and> stop \<le> 0x81800000")
    case True
    let ?ts = "[(t0, LM_CAMERA_BYTES), (t1, LM_CAMERA_BYTES), (t2, LM_CAMERA_BYTES)]"
    have max: "unat stop \<le> 0x81800000" using True by (simp add: word_le_nat_alt)
    let ?cs = "map (with_start m) ?ts"
    have "(\<exists>u. fst (LmCameraGameCheck m (Some (t0, t1, t2)) start stop head tail rd_start) = Some u) \<longleftrightarrow>
        starts_ok m start stop 0 [t0, t1, t2] [] \<and>
        fst (block_walk start (owned_turn m 1 start stop ?cs) 8192 head 0 0
          (snd (camera_starts m start stop 0 [t0, t1, t2] [] rd_start))) = Some (tail, 7)"
      using True by (auto simp: LmCameraGameCheck_def rd_success camera_starts_success not_less
        simp del: starts_ok.simps camera_starts.simps)
    also have "\<dots> \<longleftrightarrow> camera_ok m t0 t1 t2 start stop head tail"
    proof (cases "\<forall>t \<in> {t0, t1, t2}. target_ok m start stop LM_CAMERA_BYTES t")
      case ok: True
      then have "\<forall>(t, len) \<in> set ?ts. target_ok m start stop len t \<and> len \<noteq> 0" by auto
      note walk = owned_walk [OF max this, of start 1 head _ tail, simplified]
      show ?thesis
        using True ok by (simp add: starts_ok_three camera_ok_def walk del: starts_ok.simps camera_starts.simps)
    next
      case False
      then show ?thesis
        using True by (simp only: starts_ok_three camera_ok_def) blast
    qed
    finally show ?thesis .
  next
    case False
    then show ?thesis by (auto simp: LmCameraGameCheck_def rd_success camera_ok_def not_le not_less)
  qed
  finally show ?thesis .
qed

end
