(* ===== verification/StateRoots.thy ===== *)
theory StateRoots
  imports OwnedBlocks
begin

text \<open>
  The guards of the scene's root objects, \<open>include/susamune/lm_state_roots.h\<close>: the game mode's
  objects and the resource manager's allocations, found through fixed globals and checked in the
  image they are read from.
\<close>

section \<open>The code\<close>

definition LmStateRootsRead :: "memory \<Rightarrow> u32 \<Rightarrow> u32 chk" where
  "LmStateRootsRead m address = rd_word m address"

definition LmStateRootsExpected :: "memory \<Rightarrow> u32 \<Rightarrow> u32 \<Rightarrow> unit chk" where
  "LmStateRootsExpected m address expected =
     rd_bind (LmStateRootsRead m address) (\<lambda>w. rd_check (w = expected) (rd_return ()))"

definition LmStateRootInside :: "u32 \<Rightarrow> u32 \<Rightarrow> u32 \<Rightarrow> u32 \<Rightarrow> bool" where
  "LmStateRootInside pointer len start stop \<longleftrightarrow>
     pointer AND 3 = 0 \<and> pointer \<ge> start \<and> pointer < stop \<and> len \<noteq> 0 \<and> len \<le> stop - pointer"

text \<open>Both loops; the pairs are compared in the order of the code, which a truth value does not show.\<close>

definition LmStateRootsDisjoint :: "(u32 \<times> u32) list \<Rightarrow> bool" where
  "LmStateRootsDisjoint rs \<longleftrightarrow>
     (\<forall>i < length rs. \<forall>j < i. \<not> (fst (rs ! i) < fst (rs ! j) + snd (rs ! j) \<and>
        fst (rs ! j) < fst (rs ! i) + snd (rs ! i)))"

text \<open>The bits of the epoch masks of \<open>crash_report.h\<close> the guards name.\<close>

definition LM_STATE_RELOCATABLE_GAME_ROOT_MASK :: u32 where
  "LM_STATE_RELOCATABLE_GAME_ROOT_MASK =
     push_bit 10 1 OR push_bit 11 1 OR push_bit 12 1 OR push_bit 13 1 OR push_bit 14 1"

definition LM_STATE_GUARDED_GAME_EPOCH_MASK :: u32 where
  "LM_STATE_GUARDED_GAME_EPOCH_MASK =
     LM_STATE_RELOCATABLE_GAME_ROOT_MASK OR push_bit 7 1 OR push_bit 8 1"

definition LmStateGameEpochMaskAllowed :: "u32 \<Rightarrow> bool" where
  "LmStateGameEpochMaskAllowed epochs \<longleftrightarrow> epochs \<noteq> 0 \<and> epochs AND NOT LM_STATE_GUARDED_GAME_EPOCH_MASK = 0"

definition LmStateGameRootOnlyEpoch :: "u32 \<Rightarrow> bool" where
  "LmStateGameRootOnlyEpoch epochs \<longleftrightarrow> epochs \<noteq> 0 \<and> epochs AND NOT LM_STATE_RELOCATABLE_GAME_ROOT_MASK = 0"

record game_roots =
  gr_missionMode :: u32
  gr_mapArchive :: u32
  gr_gameMode :: u32
  gr_simpleModeler :: u32
  gr_mapCol :: u32
  gr_enTypesManager :: u32

record resource_roots =
  rr_recordBase :: u32
  rr_bulkBase :: u32
  rr_slotCount :: u32
  rr_slotSize :: u32

text \<open>A sequence of expected words, each its own early return.\<close>

fun expect_all :: "memory \<Rightarrow> (u32 \<times> u32) list \<Rightarrow> unit chk" where
  "expect_all m [] = rd_return ()"
| "expect_all m ((a, v) # xs) = rd_bind (LmStateRootsExpected m a v) (\<lambda>_. expect_all m xs)"

text \<open>The first loop over the roots: address noted, range checked.\<close>

fun roots_inside :: "u32 \<Rightarrow> u32 \<Rightarrow> (u32 \<times> u32 \<times> u32) list \<Rightarrow> unit chk" where
  "roots_inside start stop [] = rd_return ()"
| "roots_inside start stop ((global, base, len) # rs) =
     rd_note global base (rd_check (LmStateRootInside base len start stop) (roots_inside start stop rs))"

text \<open>The second loop: the global, where there is one, and the object's virtual table.\<close>

fun roots_tables :: "memory \<Rightarrow> (u32 \<times> u32 \<times> u32) list \<Rightarrow> unit chk" where
  "roots_tables m [] = rd_return ()"
| "roots_tables m ((global, base, vtable) # rs) =
     rd_bind (if global \<noteq> 0 then LmStateRootsExpected m global base else rd_return ()) (\<lambda>_.
     rd_bind (LmStateRootsExpected m base vtable) (\<lambda>_.
     roots_tables m rs ))"

definition LmStateGameRootsCheck :: "memory \<Rightarrow> game_roots \<Rightarrow> u32 \<Rightarrow> u32 \<Rightarrow> unit chk" where
  "LmStateGameRootsCheck m roots start stop =
     (let b0 = gr_missionMode roots; b1 = gr_mapArchive roots; b2 = gr_simpleModeler roots;
          b3 = gr_mapCol roots; b4 = gr_enTypesManager roots;
          five = [(b0, 0x24), (b1, 0x68), (b2, 0xC10), (b3, 0x14), (b4, 8)] in
      rd_bind (roots_inside start stop [(0x804A17C8, b0, 0x24), (0, b1, 0x68), (0x804A17D0, b2, 0xC10),
        (0x804A17D8, b3, 0x14), (0x804A17E8, b4, 8)]) (\<lambda>_.
      rd_check (LmStateRootsDisjoint five) (
      rd_note 0x804A17B0 (gr_gameMode roots) (
      rd_check (gr_gameMode roots = gr_missionMode roots) (
      rd_bind (LmStateRootsExpected m 0x804A17B0 (gr_gameMode roots)) (\<lambda>_.
      rd_bind (roots_tables m [(0x804A17C8, b0, 0x8034F080), (0, b1, 0x80388D5C), (0x804A17D0, b2, 0x8034F0CC),
        (0x804A17D8, b3, 0x8034F180), (0x804A17E8, b4, 0x803560A8)]) (\<lambda>_.
      rd_bind (expect_all m [(b0 + 4, b4), (b0 + 0x18, b1)]) (\<lambda>_.
      rd_bind (LmStateRootsRead m (b0 + 8)) (\<lambda>b5.
      rd_check (LmStateRootInside b5 0xE48 start stop \<and> LmStateRootsDisjoint (five @ [(b5, 0xE48)])) (
      rd_bind (LmStateRootsExpected m b5 0x80358D68) (\<lambda>_.
      rd_bind (LmStateRootsRead m (b4 + 4)) (\<lambda>w.
      rd_check (w \<ge> 8) (
      let b6 = w - 8 in
      rd_check (LmStateRootInside b6 0x31DC0 start stop \<and>
        LmStateRootsDisjoint (five @ [(b5, 0xE48), (b6, 0x31DC0)])) (
      expect_all m [(b6, 0x218), (b6 + 4, 0x17D)] ))))))))))))))"

text \<open>The guard in front of both checks.\<close>

definition roots_heap :: "u32 \<Rightarrow> u32 \<Rightarrow> bool" where
  "roots_heap heapStart heapEnd \<longleftrightarrow> heapStart \<ge> 0x80000000 \<and> heapEnd \<le> 0x81800000 \<and> heapStart < heapEnd \<and>
     (heapStart OR heapEnd) AND 3 = 0"

definition LmStateGameRootsValidate :: "memory option \<Rightarrow> game_roots option \<Rightarrow> u32 \<Rightarrow> u32 \<Rightarrow> bool \<times> u32 \<times> u32" where
  "LmStateGameRootsValidate readWord roots heapStart heapEnd =
     (case (readWord, roots) of
        (Some m, Some r) \<Rightarrow>
          if roots_heap heapStart heapEnd then rd_report (LmStateGameRootsCheck m r heapStart heapEnd rd_start)
          else (False, 0, 0)
      | _ \<Rightarrow> (False, 0, 0))"

definition LmStateResourceRootsCheck :: "memory \<Rightarrow> resource_roots \<Rightarrow> u32 \<Rightarrow> u32 \<Rightarrow> unit chk" where
  "LmStateResourceRootsCheck m roots start stop =
     rd_note 0x804A0D10 (rr_slotCount roots) (
     rd_check (rr_slotCount roots = 7) (
     rd_note 0x804A0D14 (rr_slotSize roots) (
     rd_check (rr_slotSize roots = 0x70800) (
     rd_note 0x804A0D08 (rr_recordBase roots) (
     rd_check (rr_recordBase roots \<ge> 8) (
     let b0 = rr_recordBase roots - 8; b1 = rr_bulkBase roots in
     rd_check (LmStateRootInside b0 0x1C8 start stop) (
     rd_note 0x804A0D0C (rr_bulkBase roots) (
     rd_check (b1 AND 31 = 0 \<and> LmStateRootInside b1 0x313800 start stop \<and>
       LmStateRootsDisjoint [(b0, 0x1C8), (b1, 0x313800)]) (
     rd_bind (expect_all m [(0x804A0D08, rr_recordBase roots), (0x804A0D0C, rr_bulkBase roots)]) (\<lambda>_.
     rd_bind (LmStateRootsRead m 0x804A0D10) (\<lambda>w.
     rd_check (drop_bit 24 w = 7) (
     rd_bind (expect_all m [(0x804A0D14, 0x70800), (b0, 0x40), (b0 + 4, 7)]) (\<lambda>_.
     expect_all m (map (\<lambda>i. (0x80398ECC + word_of_nat i * 4, rr_bulkBase roots + word_of_nat i * 0x70800)) [0..<7])
     )))))))))))))"

definition LmStateResourceRootsValidate :: "memory option \<Rightarrow> resource_roots option \<Rightarrow> u32 \<Rightarrow> u32 \<Rightarrow> bool \<times> u32 \<times> u32" where
  "LmStateResourceRootsValidate readWord roots heapStart heapEnd =
     (case (readWord, roots) of
        (Some m, Some r) \<Rightarrow>
          if roots_heap heapStart heapEnd then rd_report (LmStateResourceRootsCheck m r heapStart heapEnd rd_start)
          else (False, 0, 0)
      | _ \<Rightarrow> (False, 0, 0))"

section \<open>What is accepted\<close>

text \<open>The bytes of an object.\<close>

definition object_bytes :: "u32 \<times> u32 \<Rightarrow> nat set" where
  "object_bytes x = {unat (fst x) ..< unat (fst x) + unat (snd x)}"

text \<open>Objects that lie in the heap, aligned, not empty, and apart from each other.\<close>

definition objects_apart :: "u32 \<Rightarrow> u32 \<Rightarrow> (u32 \<times> u32) list \<Rightarrow> bool" where
  "objects_apart start stop xs \<longleftrightarrow>
     (\<forall>x \<in> set xs. fst x AND 3 = 0 \<and> 0 < unat (snd x) \<and> object_bytes x \<subseteq> {unat start ..< unat stop}) \<and>
     (\<forall>i < length xs. \<forall>j < i. object_bytes (xs ! i) \<inter> object_bytes (xs ! j) = {})"

definition holds :: "memory \<Rightarrow> (u32 \<times> u32) list \<Rightarrow> bool" where
  "holds m xs \<longleftrightarrow> (\<forall>(a, v) \<in> set xs. m a = (True, v))"

definition game_roots_ok :: "memory \<Rightarrow> game_roots \<Rightarrow> u32 \<Rightarrow> u32 \<Rightarrow> bool" where
  "game_roots_ok m r start stop \<longleftrightarrow> roots_heap start stop \<and> gr_gameMode r = gr_missionMode r \<and>
     (\<exists>manager types.
        objects_apart start stop [(gr_missionMode r, 0x24), (gr_mapArchive r, 0x68), (gr_simpleModeler r, 0xC10),
          (gr_mapCol r, 0x14), (gr_enTypesManager r, 8), (manager, 0xE48), (types, 0x31DC0)] \<and>
        holds m [(0x804A17B0, gr_missionMode r), (0x804A17C8, gr_missionMode r), (0x804A17D0, gr_simpleModeler r),
          (0x804A17D8, gr_mapCol r), (0x804A17E8, gr_enTypesManager r),
          (gr_missionMode r, 0x8034F080), (gr_mapArchive r, 0x80388D5C), (gr_simpleModeler r, 0x8034F0CC),
          (gr_mapCol r, 0x8034F180), (gr_enTypesManager r, 0x803560A8), (manager, 0x80358D68),
          (gr_missionMode r + 4, gr_enTypesManager r), (gr_missionMode r + 8, manager),
          (gr_missionMode r + 0x18, gr_mapArchive r), (gr_enTypesManager r + 4, types + 8),
          (types, 0x218), (types + 4, 0x17D)])"

definition resource_roots_ok :: "memory \<Rightarrow> resource_roots \<Rightarrow> u32 \<Rightarrow> u32 \<Rightarrow> bool" where
  "resource_roots_ok m r start stop \<longleftrightarrow> roots_heap start stop \<and> rr_slotCount r = 7 \<and> rr_slotSize r = 0x70800 \<and>
     rr_bulkBase r AND 31 = 0 \<and> 8 \<le> rr_recordBase r \<and>
     objects_apart start stop [(rr_recordBase r - 8, 7 * 0x40 + 8), (rr_bulkBase r, 7 * 0x70800)] \<and>
     (\<exists>w. m 0x804A0D10 = (True, w) \<and> drop_bit 24 w = 7) \<and>
     holds m ([(0x804A0D08, rr_recordBase r), (0x804A0D0C, rr_bulkBase r), (0x804A0D14, 0x70800),
       (rr_recordBase r - 8, 0x40), (rr_recordBase r - 4, 7)] @
       map (\<lambda>i. (0x80398ECC + word_of_nat i * 4, rr_bulkBase r + word_of_nat i * 0x70800)) [0..<7])"

section \<open>The checks accept exactly these memories\<close>

lemma LmStateRootsRead_success [rd_success]: "fst (LmStateRootsRead m a r) = Some v \<longleftrightarrow> m a = (True, v)"
  by (simp add: LmStateRootsRead_def rd_success)

lemma LmStateRootsExpected_success [rd_success]: "fst (LmStateRootsExpected m a v r) = Some u \<longleftrightarrow> m a = (True, v)"
  by (auto simp: LmStateRootsExpected_def rd_success)

lemma expect_all_success [rd_success]: "fst (expect_all m xs r) = Some u \<longleftrightarrow> holds m xs"
  by (induction m xs arbitrary: r rule: expect_all.induct) (auto simp: rd_success holds_def)

lemma LmStateRootInside_inside: "LmStateRootInside a len start stop \<longleftrightarrow> range_inside a len start stop"
  by (simp add: LmStateRootInside_def range_inside_def)

lemma roots_inside_success [rd_success]:
  "fst (roots_inside start stop rs r) = Some u \<longleftrightarrow> (\<forall>(g, b, len) \<in> set rs. range_inside b len start stop)"
  by (induction start stop rs arbitrary: r rule: roots_inside.induct) (auto simp: rd_success LmStateRootInside_inside)

lemma roots_tables_success [rd_success]:
  "fst (roots_tables m rs r) = Some u \<longleftrightarrow>
    holds m (concat (map (\<lambda>(g, b, v). (if g \<noteq> 0 then [(g, b)] else []) @ [(b, v)]) rs))"
  by (induction m rs arbitrary: r rule: roots_tables.induct) (auto simp: rd_success holds_def)

lemma objects_apart_iff:
  assumes "stop \<le> 0x81800000"
  shows "objects_apart start stop xs \<longleftrightarrow>
    (\<forall>x \<in> set xs. range_inside (fst x) (snd x) start stop) \<and> LmStateRootsDisjoint xs"
proof -
  have stop: "unat stop \<le> 0x81800000" using assms by (simp add: word_le_nat_alt)
  have inside: "range_inside (fst x) (snd x) start stop \<longleftrightarrow>
      fst x AND 3 = 0 \<and> 0 < unat (snd x) \<and> object_bytes x \<subseteq> {unat start ..< unat stop}" for x
    by (auto simp: range_inside_unat object_bytes_def)
  have disjoint: "object_bytes x \<inter> object_bytes y = {} \<longleftrightarrow> \<not> (fst x < fst y + snd y \<and> fst y < fst x + snd x)"
    if "range_inside (fst x) (snd x) start stop" "range_inside (fst y) (snd y) start stop" for x y
  proof -
    have r: "0 < unat (snd x)" "unat (fst x) + unat (snd x) \<le> unat stop"
        "0 < unat (snd y)" "unat (fst y) + unat (snd y) \<le> unat stop"
      using that by (simp_all add: range_inside_unat)
    then have "unat (fst x + snd x) = unat (fst x) + unat (snd x)" "unat (fst y + snd y) = unat (fst y) + unat (snd y)"
      using stop by (simp_all add: unat_plus_bound)
    with r show ?thesis
      by (simp add: object_bytes_def intervals_disjoint word_less_nat_alt) blast
  qed
  show ?thesis
  proof (cases "\<forall>x \<in> set xs. range_inside (fst x) (snd x) start stop")
    case True
    then have "xs ! i \<in> set xs" "range_inside (fst (xs ! i)) (snd (xs ! i)) start stop" if "i < length xs" for i
      using that by simp_all
    then have "(\<forall>i < length xs. \<forall>j < i. object_bytes (xs ! i) \<inter> object_bytes (xs ! j) = {}) \<longleftrightarrow> LmStateRootsDisjoint xs"
      unfolding LmStateRootsDisjoint_def using disjoint by (meson less_trans)
    with True inside show ?thesis by (simp add: objects_apart_def)
  next
    case False
    with inside show ?thesis by (auto simp: objects_apart_def)
  qed
qed

lemma LmStateRootsDisjoint_append: "LmStateRootsDisjoint (xs @ ys) \<Longrightarrow> LmStateRootsDisjoint xs"
  by (auto simp: LmStateRootsDisjoint_def nth_append split: if_splits)

lemma LmStateGameRootsCheck_success:
  assumes "roots_heap start stop"
  shows "(\<exists>u. fst (LmStateGameRootsCheck m r start stop rd) = Some u) \<longleftrightarrow> game_roots_ok m r start stop"
proof -
  let ?five = "[(gr_missionMode r, 0x24), (gr_mapArchive r, 0x68), (gr_simpleModeler r, 0xC10),
    (gr_mapCol r, 0x14), (gr_enTypesManager r, 8)]"
  let ?words = "\<lambda>b5 b6. [(0x804A17B0, gr_missionMode r), (0x804A17C8, gr_missionMode r), (0x804A17D0, gr_simpleModeler r),
          (0x804A17D8, gr_mapCol r), (0x804A17E8, gr_enTypesManager r),
          (gr_missionMode r, 0x8034F080), (gr_mapArchive r, 0x80388D5C), (gr_simpleModeler r, 0x8034F0CC),
          (gr_mapCol r, 0x8034F180), (gr_enTypesManager r, 0x803560A8), (b5, 0x80358D68),
          (gr_missionMode r + 4, gr_enTypesManager r), (gr_missionMode r + 8, b5),
          (gr_missionMode r + 0x18, gr_mapArchive r), (gr_enTypesManager r + 4, b6 + 8),
          (b6, 0x218), (b6 + 4, 0x17D)]"
  have stop: "stop \<le> 0x81800000" "0x80000000 \<le> start" using assms by (simp_all add: roots_heap_def)
  have "(\<exists>u. fst (LmStateGameRootsCheck m r start stop rd) = Some u) \<longleftrightarrow>
      gr_gameMode r = gr_missionMode r \<and>
      (\<exists>b5 w. w \<ge> 8 \<and> (\<forall>x \<in> set ?five. range_inside (fst x) (snd x) start stop) \<and>
        range_inside b5 0xE48 start stop \<and> range_inside (w - 8) 0x31DC0 start stop \<and>
        LmStateRootsDisjoint ?five \<and> LmStateRootsDisjoint (?five @ [(b5, 0xE48)]) \<and>
        LmStateRootsDisjoint (?five @ [(b5, 0xE48), (w - 8, 0x31DC0)]) \<and> holds m (?words b5 (w - 8)))"
    (is "?l \<longleftrightarrow> ?r")
  proof
    assume ?l
    then show ?r
      by (simp add: LmStateGameRootsCheck_def Let_def rd_success holds_def LmStateRootInside_inside)
        (elim exE conjE, simp)
  next
    assume ?r
    then show ?l
      by (elim exE conjE) (simp add: LmStateGameRootsCheck_def Let_def rd_success holds_def LmStateRootInside_inside)
  qed
  also have "\<dots> \<longleftrightarrow> gr_gameMode r = gr_missionMode r \<and>
      (\<exists>b5 w. w \<ge> 8 \<and> objects_apart start stop (?five @ [(b5, 0xE48), (w - 8, 0x31DC0)]) \<and> holds m (?words b5 (w - 8)))"
    unfolding objects_apart_iff [OF stop(1)]
    using LmStateRootsDisjoint_append [of ?five] LmStateRootsDisjoint_append [of "?five @ [(_, 0xE48)]"]
    by (simp) blast
  also have "\<dots> \<longleftrightarrow> gr_gameMode r = gr_missionMode r \<and>
      (\<exists>b5 b6. objects_apart start stop (?five @ [(b5, 0xE48), (b6, 0x31DC0)]) \<and> holds m (?words b5 b6))"
  proof -
    have "\<exists>w. w \<ge> 8 \<and> b6 = w - 8" if "objects_apart start stop (?five @ [(b5, 0xE48), (b6, 0x31DC0)])" for b5 b6
    proof -
      have "unat b6 + 0x31DC0 \<le> 0x81800000"
        using that stop(1) by (simp add: objects_apart_iff [OF stop(1)] range_inside_unat word_le_nat_alt)
      then have "unat (b6 + 8) = unat b6 + 8" by (subst unat_plus_bound) simp_all
      then have "b6 + 8 \<ge> 8" by (simp add: word_le_nat_alt)
      then show ?thesis by (intro exI [of _ "b6 + 8"]) simp
    qed
    then show ?thesis by metis
  qed
  finally show ?thesis using assms by (simp add: game_roots_ok_def)
qed

lemma LmStateResourceRootsCheck_success:
  assumes "roots_heap start stop"
  shows "(\<exists>u. fst (LmStateResourceRootsCheck m r start stop rd) = Some u) \<longleftrightarrow> resource_roots_ok m r start stop"
proof -
  have stop: "stop \<le> 0x81800000" using assms by (simp add: roots_heap_def)
  have base: "rr_recordBase r - 8 + 4 = rr_recordBase r - 4" by simp
  show ?thesis
    unfolding resource_roots_ok_def objects_apart_iff [OF stop]
    using assms base
    by (simp add: LmStateResourceRootsCheck_def Let_def rd_success LmStateRootInside_inside holds_def) blast
qed

text \<open>C13: The guard of the scene's root objects accepts a memory if and only if the seven objects it follows
  are aligned, inside the heap, pairwise apart, and linked by the globals, the virtual tables and the
  pointers of the game: no wrapped address, alias or overlap gets through.\<close>

theorem LmStateGameRootsValidate_iff:
  "LmStateGameRootsValidate (Some m) (Some r) start stop = (True, 0, 0) \<longleftrightarrow> game_roots_ok m r start stop"
proof (cases "roots_heap start stop")
  case True
  then have "LmStateGameRootsValidate (Some m) (Some r) start stop = rd_report (LmStateGameRootsCheck m r start stop rd_start)"
    by (simp add: LmStateGameRootsValidate_def)
  with LmStateGameRootsCheck_success [OF True, of m r rd_start] show ?thesis
    by (simp add: rd_report_iff)
qed (simp add: LmStateGameRootsValidate_def game_roots_ok_def)

text \<open>C14: The guard of the resource manager's roots accepts a memory if and only if the record block and the
  bulk block have the seven-slot shape, are aligned, inside the heap and apart, and every slot pointer is
  the address of its slot in the bulk block.\<close>

theorem LmStateResourceRootsValidate_iff:
  "LmStateResourceRootsValidate (Some m) (Some r) start stop = (True, 0, 0) \<longleftrightarrow> resource_roots_ok m r start stop"
proof (cases "roots_heap start stop")
  case True
  then have "LmStateResourceRootsValidate (Some m) (Some r) start stop =
      rd_report (LmStateResourceRootsCheck m r start stop rd_start)"
    by (simp add: LmStateResourceRootsValidate_def)
  with LmStateResourceRootsCheck_success [OF True, of m r rd_start] show ?thesis
    by (simp add: rd_report_iff)
qed (simp add: LmStateResourceRootsValidate_def resource_roots_ok_def)

end
