(* ===== verification/MapArchive.thy ===== *)
theory MapArchive
  imports StateRoots
begin

text \<open>
  The guard of the mission's map mount, \<open>include/susamune/lm_map_archive.h\<close>: the mission object, the
  archive object and the archive's bytes are three allocations of the game heap, linked as a mounted
  RARC archive.
\<close>

section \<open>The code\<close>

abbreviation LM_MAP_ARCHIVE_MAX_BLOCKS :: nat where "LM_MAP_ARCHIVE_MAX_BLOCKS \<equiv> 8192"

record map_roots =
  mr_mission :: u32
  mr_archive :: u32
  mr_backing :: u32
  mr_bytes :: u32
  mr_heap :: u32
  mr_start :: u32
  mr_end :: u32
  mr_usedHead :: u32
  mr_usedTail :: u32

text \<open>The first loop; \<open>known\<close> are the objects before the ones left.\<close>

fun map_starts :: "memory \<Rightarrow> u32 \<Rightarrow> u32 \<Rightarrow> (u32 \<times> u32) list \<Rightarrow> (u32 \<times> u32 \<times> u32) list \<Rightarrow> (u32 \<times> u32 \<times> u32) list chk" where
  "map_starts m start stop [] known = rd_return known"
| "map_starts m start stop ((b, len) # bs) known =
     rd_note b len (
     rd_check (LmStateRootInside b len (start + 16) stop) (
     rd_bind (LmStateRootsRead m (b - 16)) (\<lambda>tag.
     let padding = drop_bit 8 tag AND 0x7F in
     rd_check (padding AND 3 = 0 \<and> padding \<le> b - 16 - start) (
     let c = b - 16 - padding in
     rd_check (\<forall>(bj, lenj, cj) \<in> set known. \<not> (c < bj + lenj \<and> cj < b + len)) (
     map_starts m start stop bs (known @ [(b, len, c)]) )))))"

definition LmMapArchiveCheck :: "memory \<Rightarrow> map_roots option \<Rightarrow> unit chk" where
  "LmMapArchiveCheck m roots =
     (case roots of
        None \<Rightarrow> rd_check False (rd_return ())
      | Some r \<Rightarrow>
          rd_check (\<not> (mr_start r < 0x80000000 \<or> mr_end r > 0x81800000 \<or> mr_start r \<ge> mr_end r \<or>
            (mr_start r OR mr_end r) AND 3 \<noteq> 0)) (
          let b0 = mr_mission r; b1 = mr_archive r; b2 = mr_backing r; len = mr_bytes r in
          rd_check (\<not> (len < 0x40 \<or> len AND 31 \<noteq> 0 \<or> b2 AND 31 \<noteq> 0)) (
          rd_bind (map_starts m (mr_start r) (mr_end r) [(b0, 0x24), (b1, 0x68), (b2, len)] []) (\<lambda>cs.
          rd_bind (expect_all m [(0x804A17C8, b0), (0x804A17B0, b0), (b0, 0x8034F080), (b0 + 0x18, b1),
            (b1, 0x80388D5C), (b1 + 4, mr_heap r), (b1 + 0x2C, 0x52415243), (b1 + 0x38, mr_heap r),
            (b1 + 0x40, b2), (b1 + 0x44, b2 + 0x20), (b1 + 0x5C, b2), (b2, 0x52415243), (b2 + 4, len),
            (b2 + 8, 0x20)]) (\<lambda>_.
          rd_bind (LmStateRootsRead m (b2 + 0xC)) (\<lambda>w.
          rd_check (w \<le> len - 0x20) (
          rd_bind (LmStateRootsExpected m (b1 + 0x60) (b2 + 0x20 + w)) (\<lambda>_.
          rd_bind (block_walk (mr_start r) (owned_turn m 0x0B (mr_start r) (mr_end r) cs)
            LM_MAP_ARCHIVE_MAX_BLOCKS (mr_usedHead r) 0 0) (\<lambda>(previous, found).
          rd_note (mr_usedTail r) previous (
          rd_check (previous = mr_usedTail r \<and> found = 7) (rd_return ())))))))))))"

definition LmMapArchiveValidate :: "memory option \<Rightarrow> map_roots option \<Rightarrow> bool \<times> u32 \<times> u32" where
  "LmMapArchiveValidate readWord roots =
     (case readWord of
        None \<Rightarrow> (False, 0, 0)
      | Some m \<Rightarrow> rd_report (LmMapArchiveCheck m roots rd_start))"

section \<open>What is accepted\<close>

definition map_objects :: "map_roots \<Rightarrow> (u32 \<times> u32) list" where
  "map_objects r = [(mr_mission r, 0x24), (mr_archive r, 0x68), (mr_backing r, mr_bytes r)]"

definition map_archive_ok :: "memory \<Rightarrow> map_roots \<Rightarrow> bool" where
  "map_archive_ok m r \<longleftrightarrow>
     roots_heap (mr_start r) (mr_end r) \<and> 0x40 \<le> mr_bytes r \<and> mr_bytes r AND 31 = 0 \<and> mr_backing r AND 31 = 0 \<and>
     (\<forall>(b, len) \<in> set (map_objects r). target_ok m (mr_start r) (mr_end r) len b) \<and>
     target_extent m 0x24 (mr_mission r) \<inter> target_extent m 0x68 (mr_archive r) = {} \<and>
     target_extent m 0x24 (mr_mission r) \<inter> target_extent m (unat (mr_bytes r)) (mr_backing r) = {} \<and>
     target_extent m 0x68 (mr_archive r) \<inter> target_extent m (unat (mr_bytes r)) (mr_backing r) = {} \<and>
     owned_blocks m (mr_start r) (mr_end r) 0x0B (mr_usedHead r) (mr_usedTail r) (map_objects r) \<and>
     (\<exists>dataOffset. dataOffset \<le> mr_bytes r - 0x20 \<and>
        holds m [(0x804A17C8, mr_mission r), (0x804A17B0, mr_mission r), (mr_mission r, 0x8034F080),
          (mr_mission r + 0x18, mr_archive r), (mr_archive r, 0x80388D5C), (mr_archive r + 4, mr_heap r),
          (mr_archive r + 0x2C, 0x52415243), (mr_archive r + 0x38, mr_heap r), (mr_archive r + 0x40, mr_backing r),
          (mr_archive r + 0x44, mr_backing r + 0x20), (mr_archive r + 0x5C, mr_backing r),
          (mr_backing r, 0x52415243), (mr_backing r + 4, mr_bytes r), (mr_backing r + 8, 0x20),
          (mr_backing r + 0xC, dataOffset), (mr_archive r + 0x60, mr_backing r + 0x20 + dataOffset)])"

section \<open>The check accepts exactly these memories\<close>

fun map_starts_ok :: "memory \<Rightarrow> u32 \<Rightarrow> u32 \<Rightarrow> (u32 \<times> u32) list \<Rightarrow> (u32 \<times> u32 \<times> u32) list \<Rightarrow> bool" where
  "map_starts_ok m start stop [] known \<longleftrightarrow> True"
| "map_starts_ok m start stop ((b, len) # bs) known \<longleftrightarrow>
     target_ok m start stop len b \<and> len \<noteq> 0 \<and>
     (\<forall>(bj, lenj, cj) \<in> set known. \<not> (b - 16 - heap_padding m True (b - 16) < bj + lenj \<and> cj < b + len)) \<and>
     map_starts_ok m start stop bs (known @ [with_start m (b, len)])"

lemma map_starts_success:
  assumes "start < stop" "stop \<le> 0x81800000"
  shows "fst (map_starts m start stop bs known r) = Some cs \<longleftrightarrow>
    map_starts_ok m start stop bs known \<and> cs = known @ map (with_start m) bs"
proof (induction bs arbitrary: known r)
  case (Cons x bs)
  obtain b len where x: "x = (b, len)" by (cases x)
  let ?p = "heap_padding m True (b - 16)"
  note guards = target_guards [OF assms, of m len b]
  have "fst (map_starts m start stop (x # bs) known r) = Some cs \<longleftrightarrow>
      (range_inside b len (start + 16) stop \<and> fst (m (b - 16)) \<and> ?p AND 3 = 0 \<and> ?p \<le> b - 16 - start) \<and>
      (\<forall>(bj, lenj, cj) \<in> set known. \<not> (b - 16 - ?p < bj + lenj \<and> cj < b + len)) \<and>
      map_starts_ok m start stop bs (known @ [with_start m (b, len)]) \<and>
      cs = known @ map (with_start m) (x # bs)"
    by (cases "m (b - 16)")
      (auto simp: x rd_success Let_def Cons.IH LmStateRootInside_inside heap_padding_def heap_tag_def with_start_def
        simp del: map_starts_ok.simps)
  then show ?case unfolding x map_starts_ok.simps guards [symmetric] by blast
qed (auto simp: rd_success)

lemma map_starts_ok_three:
  assumes "stop \<le> 0x81800000" and "a' \<noteq> 0" "b' \<noteq> 0" "c' \<noteq> 0"
  shows "map_starts_ok m start stop [(a, a'), (b, b'), (c, c')] [] \<longleftrightarrow>
    (\<forall>(t, len) \<in> set [(a, a'), (b, b'), (c, c')]. target_ok m start stop len t) \<and>
    target_extent m (unat a') a \<inter> target_extent m (unat b') b = {} \<and>
    target_extent m (unat a') a \<inter> target_extent m (unat c') c = {} \<and>
    target_extent m (unat b') b \<inter> target_extent m (unat c') c = {}"
proof -
  have stop: "unat stop \<le> 0x81800000" using assms(1) by (simp add: word_le_nat_alt)
  note d1 = target_extents_disjoint [OF stop _ assms(2) _ assms(3)]
    and d2 = target_extents_disjoint [OF stop _ assms(2) _ assms(4)]
    and d3 = target_extents_disjoint [OF stop _ assms(3) _ assms(4)]
  show ?thesis
    using assms(2-4) by (simp add: with_start_def d1 [of m start a b] d2 [of m start a c] d3 [of m start b c] cong: conj_cong) blast
qed

text \<open>C15: The guard of the map mount accepts a memory if and only if mission, archive and backing are three
  distinct whole allocations of the game heap with the right sizes and owner, in a well-formed used list
  that nothing else overlaps, and their words are those of a mounted archive whose data lies inside it.\<close>

theorem LmMapArchiveValidate_iff:
  "LmMapArchiveValidate (Some m) (Some r) = (True, 0, 0) \<longleftrightarrow> map_archive_ok m r"
proof (cases "roots_heap (mr_start r) (mr_end r) \<and> 0x40 \<le> mr_bytes r \<and> mr_bytes r AND 31 = 0 \<and> mr_backing r AND 31 = 0")
  case True
  let ?start = "mr_start r" and ?stop = "mr_end r"
  have heap: "?start < ?stop" "?stop \<le> 0x81800000" "unat ?stop \<le> 0x81800000" "mr_bytes r \<noteq> 0"
    using True by (auto simp: roots_heap_def word_le_nat_alt)
  let ?ts = "[(mr_mission r, 0x24), (mr_archive r, 0x68), (mr_backing r, mr_bytes r)]"
  note starts = map_starts_success [OF heap(1,2), of m ?ts "[]"] map_starts_ok_three [OF heap(2) _ _ heap(4)]
  note check = LmMapArchiveValidate_def rd_report_iff LmMapArchiveCheck_def Let_def rd_success
  show ?thesis
  proof (cases "\<forall>(t, len) \<in> set ?ts. target_ok m ?start ?stop len t")
    case ok: True
    then have walk: "fst (block_walk ?start (owned_turn m 0x0B ?start ?stop (map (with_start m) ?ts)) 8192
        (mr_usedHead r) 0 0 rd) = Some (mr_usedTail r, 7) \<longleftrightarrow>
      owned_blocks m ?start ?stop 0x0B (mr_usedHead r) (mr_usedTail r) ?ts" for rd
      using heap(4) by (intro owned_walk [OF heap(3)]) auto
    show ?thesis
      using True ok
      by (simp add: check starts walk [simplified] map_archive_ok_def map_objects_def holds_def roots_heap_def
        not_le not_less del: map_starts_ok.simps map_starts.simps) (rule iffI; elim exE conjE; simp)
  next
    case False
    then have "\<not> map_archive_ok m r"
      unfolding map_archive_ok_def map_objects_def by blast
    moreover have "\<not> map_starts_ok m ?start ?stop ?ts []"
      by (subst starts(2)) (use False in \<open>simp, simp, blast\<close>)
    ultimately show ?thesis
      using True
      by (simp add: check starts(1) roots_heap_def not_le not_less del: map_starts_ok.simps map_starts.simps)
  qed
next
  case False
  then have "\<not> (\<exists>u. fst (LmMapArchiveCheck m (Some r) rd_start) = Some u)"
    by (simp only: LmMapArchiveCheck_def option.case rd_check_success Let_def roots_heap_def not_le not_less de_Morgan_disj not_not) blast
  with False show ?thesis
    by (simp only: LmMapArchiveValidate_def option.case rd_report_iff map_archive_ok_def) blast
qed

end
