(* ===== verification/HeaderBlocks.thy ===== *)
theory HeaderBlocks
  imports OwnedBlocks
begin

text \<open>
  Heap blocks as the guards see them that look at a block's 16-byte header and its payload only, and not at
  the padding in front of it: the render target guard and the shared archive guard.
\<close>

text \<open>A header and the payload behind it.\<close>

definition header_extent :: "u32 \<Rightarrow> u32 \<Rightarrow> nat set" where
  "header_extent n len = {unat n ..< unat n + 16 + unat len}"

text \<open>A block that lies in the heap.\<close>

definition header_block :: "memory \<Rightarrow> u32 \<Rightarrow> u32 \<Rightarrow> u32 \<Rightarrow> bool" where
  "header_block m start stop n \<longleftrightarrow> n AND 3 = 0 \<and> unat start \<le> unat n \<and> fst (m n) \<and> fst (m (n + 4)) \<and>
     unat n + 16 + unat (heap_bytes m n) \<le> unat stop"

lemma header_block_guards:
  "header_block m start stop n \<longleftrightarrow> range_inside n 16 start stop \<and> fst (m n) \<and> fst (m (n + 4)) \<and>
     heap_bytes m n \<le> stop - n - 16"
proof (cases "range_inside n 16 start stop")
  case True
  then have r: "unat start \<le> unat n" "unat n + 16 \<le> unat stop" by (simp_all add: range_inside_unat)
  then have "unat (stop - n) = unat stop - unat n" by (simp add: unat_minus_le word_le_nat_alt)
  moreover from this r have "unat (stop - n - 16) = unat stop - unat n - 16"
    by (subst unat_minus_le) (simp_all add: word_le_nat_alt)
  ultimately show ?thesis
    using True r by (auto simp: header_block_def word_le_nat_alt range_inside_def)
qed (auto simp: header_block_def range_inside_unat)

lemma header_extents_apart:
  assumes "16 \<le> unat b" "unat b + unat sz \<le> 0x81800000" "16 \<le> unat b'" "unat b' + unat sz' \<le> 0x81800000"
  shows "\<not> (b - 16 < b' + sz' \<and> b' - 16 < b + sz) \<longleftrightarrow> header_extent (b - 16) sz \<inter> header_extent (b' - 16) sz' = {}"
proof -
  have u: "unat (x - 16) = unat x - 16 \<and> unat (x + y) = unat x + unat y" if "16 \<le> unat x" "unat x + unat y \<le> 0x81800000" for x y :: u32
    using that by (auto simp: word_le_nat_alt intro!: unat_minus_le [THEN trans] unat_plus_bound)
  have "unat (b - 16) < unat (b - 16) + 16 + unat sz" "unat (b' - 16) < unat (b' - 16) + 16 + unat sz'" by simp_all
  from intervals_disjoint [OF this] show ?thesis
    using u [OF assms(1,2)] u [OF assms(3,4)] assms(1,3) by (auto simp: header_extent_def word_less_nat_alt)
qed

lemma header_block_apart:
  assumes "header_block m start stop n" "16 \<le> unat b" "unat b + unat sz \<le> unat stop" "unat stop \<le> 0x81800000"
  shows "\<not> (n < b + sz \<and> b - 16 < n + 16 + heap_bytes m n) \<longleftrightarrow>
    header_extent n (heap_bytes m n) \<inter> header_extent (b - 16) sz = {}"
proof -
  have "unat n + 16 + unat (heap_bytes m n) \<le> 0x81800000" using assms(1,4) by (simp add: header_block_def)
  moreover from this have "unat (n + 16) = unat n + 16" by (simp add: unat_plus_bound)
  ultimately show ?thesis
    using header_extents_apart [of "n + 16" "heap_bytes m n" b sz] assms(2-4) by (simp add: add.commute)
qed

end
