(* ===== verification/RenderTargets.thy ===== *)
theory RenderTargets
  imports HeaderBlocks
begin

text \<open>
  The guard of the two render target buffers, \<open>include/susamune/lm_render_targets.h\<close>: the buffers the
  owner object names are two allocations of the game heap, and the texture objects still describe them.
\<close>

section \<open>The code\<close>

abbreviation LM_RENDER_TARGET_OWNER :: u32 where "LM_RENDER_TARGET_OWNER \<equiv> 0x803C4B6C"
abbreviation LM_RENDER_TARGET_MAX_BLOCKS :: nat where "LM_RENDER_TARGET_MAX_BLOCKS \<equiv> 8192"

definition LmRenderTargetRead :: "memory \<Rightarrow> u32 \<Rightarrow> u32 chk" where
  "LmRenderTargetRead m address = rd_word m address"

definition LmRenderTargetExpected :: "memory \<Rightarrow> u32 \<Rightarrow> u32 \<Rightarrow> u32 \<Rightarrow> unit chk" where
  "LmRenderTargetExpected m address expected bits =
     rd_bind (LmRenderTargetRead m address) (\<lambda>v. rd_check (v AND bits = expected) (rd_return ()))"

definition LmRenderTargetRange :: "u32 \<Rightarrow> u32 \<Rightarrow> u32 \<Rightarrow> u32 \<Rightarrow> bool" where
  "LmRenderTargetRange base sz start stop \<longleftrightarrow> base AND 3 = 0 \<and> base \<ge> start \<and> base < stop \<and> sz \<noteq> 0 \<and> sz \<le> stop - base"

definition LmRenderTargetTexture :: "memory \<Rightarrow> u32 \<Rightarrow> u32 \<Rightarrow> u32 \<Rightarrow> u32 \<Rightarrow> unit chk" where
  "LmRenderTargetTexture m object backing width height =
     rd_bind (LmRenderTargetExpected m (object + 8)
       ((width - 1) OR push_bit 10 (height - 1) OR push_bit 20 3) 0xFFFFFF) (\<lambda>_.
     rd_bind (LmRenderTargetExpected m (object + 12) (drop_bit 5 backing AND 0x1FFFFF) 0x1FFFFF) (\<lambda>_.
     rd_bind (LmRenderTargetExpected m (object + 20) 3 0xFFFFFFFF) (\<lambda>_.
     LmRenderTargetExpected m (object + 28) (push_bit 16 (width div 4 * (height div 4)) OR 0x0202) 0xFFFFFFFF)))"

text \<open>The loop that reads the buffers' addresses.\<close>

fun render_buffers :: "memory \<Rightarrow> u32 \<Rightarrow> u32 \<Rightarrow> u32 \<Rightarrow> u32 list \<Rightarrow> (u32 \<times> u32) list chk" where
  "render_buffers m start stop i [] = rd_return []"
| "render_buffers m start stop i (sz # szs) =
     rd_bind (LmRenderTargetRead m (LM_RENDER_TARGET_OWNER + 0xA8 + i * 4)) (\<lambda>b.
     rd_check (\<not> (b AND 31 \<noteq> 0 \<or> b < start + 16 \<or> \<not> LmRenderTargetRange b sz start stop)) (
     rd_bind (render_buffers m start stop (i + 1) szs) (\<lambda>bs. rd_return ((b, sz) # bs))))"

text \<open>The loop over the buffers at one block, and one turn of the loop over the blocks.\<close>

fun render_marks :: "u32 \<Rightarrow> u32 \<Rightarrow> u32 \<Rightarrow> nat \<Rightarrow> (u32 \<times> u32) list \<Rightarrow> u32 \<Rightarrow> u32 chk" where
  "render_marks node tag bytes i [] found = rd_return found"
| "render_marks node tag bytes i ((b, sz) # bs) found =
     (if node = b - 16 then
        rd_note (node + (if bytes \<noteq> sz then 4 else 0)) (if bytes \<noteq> sz then bytes else tag) (
        rd_check (bytes = sz \<and> tag AND 0xFF = 0x0D) (
        render_marks node tag bytes (Suc i) bs (found OR push_bit i 1)))
      else if node < b + sz \<and> b - 16 < node + 16 + bytes then
        rd_note node b (rd_check False (rd_return found))
      else render_marks node tag bytes (Suc i) bs found)"

definition render_turn :: "memory \<Rightarrow> u32 \<Rightarrow> u32 \<Rightarrow> (u32 \<times> u32) list \<Rightarrow> u32 \<Rightarrow> u32 \<Rightarrow> u32 \<Rightarrow> (u32 \<times> u32) chk" where
  "render_turn m start stop bs node previous found =
     rd_check (LmRenderTargetRange node 16 start stop) (
     rd_bind (LmRenderTargetRead m node) (\<lambda>tag.
     rd_check (drop_bit 16 tag = 0x484D) (
     rd_bind (LmRenderTargetRead m (node + 4)) (\<lambda>bytes.
     rd_check (bytes \<le> stop - node - 16) (
     rd_bind (LmRenderTargetExpected m (node + 8) previous 0xFFFFFFFF) (\<lambda>_.
     rd_bind (LmRenderTargetRead m (node + 12)) (\<lambda>next.
     rd_bind (render_marks node tag bytes 0 bs found) (\<lambda>found'.
     rd_return (next, found') ))))))))"

text \<open>The check behind the buffers' addresses.\<close>

definition render_rest :: "memory \<Rightarrow> u32 \<Rightarrow> u32 \<Rightarrow> u32 \<Rightarrow> u32 \<Rightarrow> (u32 \<times> u32) list \<Rightarrow> u32 \<Rightarrow> u32 \<Rightarrow> u32 \<Rightarrow> u32 \<Rightarrow> unit chk" where
  "render_rest m start stop head tail bs b0 s0 b1 s1 =
     rd_note (LM_RENDER_TARGET_OWNER + 0xAC) b1 (
     rd_check (\<not> (b0 - 16 < b1 + s1 \<and> b1 - 16 < b0 + s0)) (
     rd_bind (LmRenderTargetTexture m (LM_RENDER_TARGET_OWNER + 0x60) b0 640 480) (\<lambda>_.
     rd_bind (LmRenderTargetTexture m (LM_RENDER_TARGET_OWNER + 0x80) b1 256 256) (\<lambda>_.
     rd_bind (block_walk start (render_turn m start stop bs) LM_RENDER_TARGET_MAX_BLOCKS head 0 0) (\<lambda>(previous, found).
     rd_note tail previous (
     rd_check (previous = tail) (
     rd_note (LM_RENDER_TARGET_OWNER + (if found AND 1 \<noteq> 0 then 0xAC else 0xA8)) (if found AND 1 \<noteq> 0 then b1 else b0) (
     rd_check (found = 3) (rd_return ())))))))))"

definition LmRenderTargetCheck :: "memory \<Rightarrow> u32 \<Rightarrow> u32 \<Rightarrow> u32 \<Rightarrow> u32 \<Rightarrow> unit chk" where
  "LmRenderTargetCheck m start stop head tail =
     rd_note start stop (
     rd_check (\<not> (start < 0x80000000 \<or> stop > 0x81800000 \<or> \<not> LmRenderTargetRange start 16 start stop)) (
     rd_bind (render_buffers m start stop 0 [0x96000, 0x20000]) (\<lambda>bs.
     render_rest m start stop head tail bs (fst (bs ! 0)) (snd (bs ! 0)) (fst (bs ! 1)) (snd (bs ! 1)))))"

definition LmRenderTargetsValidate :: "memory option \<Rightarrow> u32 \<Rightarrow> u32 \<Rightarrow> u32 \<Rightarrow> u32 \<Rightarrow> bool \<times> u32 \<times> u32" where
  "LmRenderTargetsValidate readWord start stop head tail =
     (case readWord of
        None \<Rightarrow> (False, 0, 0)
      | Some m \<Rightarrow> rd_report (LmRenderTargetCheck m start stop head tail rd_start))"

section \<open>What is accepted\<close>

definition word_under :: "memory \<Rightarrow> u32 \<Rightarrow> u32 \<Rightarrow> u32 \<Rightarrow> bool" where
  "word_under m a bits v \<longleftrightarrow> fst (m a) \<and> snd (m a) AND bits = v"

definition texture_describes :: "memory \<Rightarrow> u32 \<Rightarrow> u32 \<Rightarrow> u32 \<Rightarrow> u32 \<Rightarrow> bool" where
  "texture_describes m object backing width height \<longleftrightarrow>
     word_under m (object + 8) 0xFFFFFF ((width - 1) OR push_bit 10 (height - 1) OR push_bit 20 3) \<and>
     word_under m (object + 12) 0x1FFFFF (drop_bit 5 backing AND 0x1FFFFF) \<and> m (object + 20) = (True, 3) \<and>
     m (object + 28) = (True, push_bit 16 (width div 4 * (height div 4)) OR 0x0202)"

definition render_block_ok :: "memory \<Rightarrow> u32 \<Rightarrow> u32 \<Rightarrow> u32 \<Rightarrow> bool" where
  "render_block_ok m start stop n \<longleftrightarrow> header_block m start stop n \<and> drop_bit 16 (heap_tag m n) = 0x484D"

definition render_buffer_ok :: "u32 \<Rightarrow> u32 \<Rightarrow> u32 \<Rightarrow> u32 \<Rightarrow> bool" where
  "render_buffer_ok start stop sz b \<longleftrightarrow> b AND 31 = 0 \<and> unat start + 16 \<le> unat b \<and> unat b + unat sz \<le> unat stop"

definition render_targets_ok :: "memory \<Rightarrow> u32 \<Rightarrow> u32 \<Rightarrow> u32 \<Rightarrow> u32 \<Rightarrow> bool" where
  "render_targets_ok m start stop head tail \<longleftrightarrow>
     0x80000000 \<le> unat start \<and> start AND 3 = 0 \<and> unat start + 16 \<le> unat stop \<and> unat stop \<le> 0x81800000 \<and>
     (\<exists>b0 b1 ns. m (LM_RENDER_TARGET_OWNER + 0xA8) = (True, b0) \<and> m (LM_RENDER_TARGET_OWNER + 0xAC) = (True, b1) \<and>
       render_buffer_ok start stop 0x96000 b0 \<and> render_buffer_ok start stop 0x20000 b1 \<and>
       header_extent (b0 - 16) 0x96000 \<inter> header_extent (b1 - 16) 0x20000 = {} \<and>
       texture_describes m (LM_RENDER_TARGET_OWNER + 0x60) b0 640 480 \<and>
       texture_describes m (LM_RENDER_TARGET_OWNER + 0x80) b1 256 256 \<and>
       block_list m 0 head ns tail \<and> length ns \<le> 8192 \<and> b0 - 16 \<in> set ns \<and> b1 - 16 \<in> set ns \<and>
       (\<forall>n \<in> set ns. render_block_ok m start stop n \<and>
         (\<forall>(b, sz) \<in> {(b0, 0x96000), (b1, 0x20000)}.
            if n = b - 16 then heap_bytes m n = sz \<and> heap_tag m n AND 0xFF = 0x0D
            else header_extent n (heap_bytes m n) \<inter> header_extent (b - 16) sz = {})))"

section \<open>The loop\<close>

fun render_mask :: "nat \<Rightarrow> (u32 \<times> u32) list \<Rightarrow> u32 \<Rightarrow> u32" where
  "render_mask i [] n = 0"
| "render_mask i ((b, sz) # bs) n = (if n = b - 16 then push_bit i 1 else 0) OR render_mask (Suc i) bs n"

definition render_good :: "memory \<Rightarrow> u32 \<Rightarrow> u32 \<Rightarrow> (u32 \<times> u32) list \<Rightarrow> u32 \<Rightarrow> bool" where
  "render_good m start stop bs n \<longleftrightarrow> render_block_ok m start stop n \<and>
     (\<forall>(b, sz) \<in> set bs. if n = b - 16 then heap_bytes m n = sz \<and> heap_tag m n AND 0xFF = 0x0D
        else \<not> (n < b + sz \<and> b - 16 < n + 16 + heap_bytes m n))"

lemma LmRenderTargetRange_inside: "LmRenderTargetRange base sz start stop \<longleftrightarrow> range_inside base sz start stop"
  by (simp add: LmRenderTargetRange_def range_inside_def)

lemma LmRenderTargetExpected_success [rd_success]:
  "fst (LmRenderTargetExpected m a v bits r) = Some u \<longleftrightarrow> word_under m a bits v"
  by (cases "m a") (auto simp: LmRenderTargetExpected_def LmRenderTargetRead_def rd_success word_under_def)

lemma xor_bits_not: "(w :: u32) XOR NOT w = 0xFFFFFFFF"
  by (simp add: bit.xor_cancel_right)

lemma word_under_all: "word_under m a 0xFFFFFFFF v \<longleftrightarrow> m a = (True, v)"
proof -
  have "(0xFFFFFFFF :: u32) = NOT 0" using xor_bits_not [of 0] by (metis bit.xor_compl_right xor_self_eq bit.compl_zero)
  then have all: "(0xFFFFFFFF :: u32) = - 1" by simp
  show ?thesis unfolding word_under_def all and.right_neutral by (cases "m a") auto
qed

lemma LmRenderTargetTexture_success [rd_success]:
  "fst (LmRenderTargetTexture m object backing width height r) = Some u \<longleftrightarrow> texture_describes m object backing width height"
  by (simp add: LmRenderTargetTexture_def rd_success texture_describes_def word_under_all)

lemma render_marks_success [rd_success]:
  "fst (render_marks n tag bytes i bs found r) = Some f \<longleftrightarrow>
    (\<forall>(b, sz) \<in> set bs. if n = b - 16 then bytes = sz \<and> tag AND 0xFF = 0x0D
       else \<not> (n < b + sz \<and> b - 16 < n + 16 + bytes)) \<and> f = found OR render_mask i bs n"
proof (induction bs arbitrary: i found r)
  case (Cons x bs)
  obtain b sz where x: "x = (b, sz)" by (cases x)
  note simps = x render_marks.simps render_mask.simps rd_success Cons.IH list.set Set.ball_simps prod.case or.assoc
  show ?case
  proof (cases "n = b - 16")
    case True
    then have h: "(n = b - 16) = True" by simp
    show ?thesis unfolding simps h if_True by blast
  next
    case False
    then have h: "(n = b - 16) = False" by simp
    show ?thesis
    proof (cases "n < b + sz \<and> b - 16 < n + 16 + bytes")
      case True
      then have o: "(n < b + sz \<and> b - 16 < n + 16 + bytes) = True" by simp
      show ?thesis unfolding simps h if_False o if_True by simp
    next
      case False
      then have o: "(n < b + sz \<and> b - 16 < n + 16 + bytes) = False" by simp
      show ?thesis unfolding simps h if_False o or.left_neutral by simp
    qed
  qed
qed (auto simp: rd_success)

lemma render_turn_success:
  "fst (render_turn m start stop bs n p a r) = Some (next, b) \<longleftrightarrow>
    m (n + 8) = (True, p) \<and> m (n + 12) = (True, next) \<and> render_good m start stop bs n \<and> b = a OR render_mask 0 bs n"
  by (cases "m n"; cases "m (n + 4)")
    (auto simp: render_turn_def rd_success LmRenderTargetRead_def render_good_def render_block_ok_def header_block_guards
      LmRenderTargetRange_inside word_under_all heap_tag_def heap_bytes_def)

interpretation render: marking_walker m "render_turn m start stop bs" "render_good m start stop bs" "render_mask 0 bs"
  for m start stop bs
  by unfold_locales (simp add: render_turn_success)

section \<open>In natural numbers\<close>

lemma render_buffer_guards:
  assumes "unat start + 16 \<le> unat stop" "unat stop \<le> 0x81800000"
  shows "\<not> (b AND 31 \<noteq> 0 \<or> b < start + 16 \<or> \<not> LmRenderTargetRange b sz start stop) \<longleftrightarrow>
    render_buffer_ok start stop sz b \<and> 0 < unat sz"
proof -
  have "unat (start + 16) = unat start + 16" using assms by (subst unat_plus_bound) simp_all
  moreover have "b AND 3 = 0" if "b AND 31 = 0"
  proof -
    have "b AND 3 = (b AND 31) AND 3" by (simp add: and.assoc)
    with that show ?thesis by simp
  qed
  ultimately show ?thesis
    by (auto simp: LmRenderTargetRange_inside range_inside_unat render_buffer_ok_def word_less_nat_alt not_less)
qed

lemma render_buffer_unat:
  assumes "render_buffer_ok start stop sz b" "unat stop \<le> 0x81800000"
  shows "unat (b - 16) = unat b - 16" "unat (b + sz) = unat b + unat sz" "16 \<le> unat b"
proof -
  have le: "unat start + 16 \<le> unat b" "unat b + unat sz \<le> unat stop" using assms(1) by (simp_all add: render_buffer_ok_def)
  then show "16 \<le> unat b" by simp
  then show "unat (b - 16) = unat b - 16" by (subst unat_minus_le) (simp_all add: word_le_nat_alt)
  show "unat (b + sz) = unat b + unat sz" using le assms(2) by (intro unat_plus_bound) simp
qed

lemma buffers_apart:
  assumes "render_buffer_ok start stop s b" "render_buffer_ok start stop s' b'" "unat stop \<le> 0x81800000"
  shows "\<not> (b - 16 < b' + s' \<and> b' - 16 < b + s) \<longleftrightarrow> header_extent (b - 16) s \<inter> header_extent (b' - 16) s' = {}"
proof -
  note u = render_buffer_unat [OF assms(1,3)] render_buffer_unat [OF assms(2,3)]
  have "unat (b - 16) < unat (b - 16) + 16 + unat s" "unat (b' - 16) < unat (b' - 16) + 16 + unat s'" by simp_all
  from intervals_disjoint [OF this] show ?thesis
    using u by (auto simp: header_extent_def word_less_nat_alt)
qed

lemma block_apart:
  assumes "render_block_ok m start stop n" "render_buffer_ok start stop sz b" "unat stop \<le> 0x81800000"
  shows "\<not> (n < b + sz \<and> b - 16 < n + 16 + heap_bytes m n) \<longleftrightarrow>
    header_extent n (heap_bytes m n) \<inter> header_extent (b - 16) sz = {}"
  using assms by (intro header_block_apart) (auto simp: render_block_ok_def render_buffer_ok_def)

lemma bit_3: "bit (3 :: u32) k \<longleftrightarrow> k < 2"
proof -
  have "(3 :: u32) = mask 2" by (simp add: mask_eq_exp_minus_1)
  then show ?thesis by (simp only: bit_mask_iff) (auto simp: possible_bit_def)
qed

lemma bit_two: "bit (2 :: u32) i \<longleftrightarrow> i = 1"
proof -
  have "bit (push_bit 1 1 :: u32) i \<longleftrightarrow> i = 1"
    unfolding bit_push_bit_iff bit_1_iff by (auto simp: possible_bit_def)
  then show ?thesis by simp
qed

lemma render_mask_both:
  "(\<forall>i. bit (3 :: u32) i \<longleftrightarrow> (\<exists>n \<in> set ns. bit (render_mask 0 [(b0, s0), (b1, s1)] n) i)) \<longleftrightarrow> b0 - 16 \<in> set ns \<and> b1 - 16 \<in> set ns"
proof -
  have mask: "bit (render_mask 0 [(b0, s0), (b1, s1)] n) i \<longleftrightarrow> i = 0 \<and> n = b0 - 16 \<or> i = 1 \<and> n = b1 - 16" for n i
    unfolding render_mask.simps bit_or_iff
    by (cases "n = b0 - 16"; cases "n = b1 - 16"; simp add: bit_two bit_1_iff del: bit_numeral_word_iff)
  have bits: "(\<forall>i :: nat. i < 2 \<longleftrightarrow> (\<exists>n \<in> set ns. i = 0 \<and> P n \<or> i = 1 \<and> Q n)) \<longleftrightarrow> (\<exists>n \<in> set ns. P n) \<and> (\<exists>n \<in> set ns. Q n)"
    (is "?l \<longleftrightarrow> ?r") for P Q :: "u32 \<Rightarrow> bool"
  proof
    assume l: ?l
    from spec [OF l, of 0] spec [OF l, of 1] show ?r by simp
  next
    assume r: ?r
    show ?l
    proof
      fix i :: nat
      show "i < 2 \<longleftrightarrow> (\<exists>n \<in> set ns. i = 0 \<and> P n \<or> i = 1 \<and> Q n)"
        using r by (cases "i = 0"; cases "i = 1") auto
    qed
  qed
  show ?thesis unfolding mask bit_3 bits by blast
qed

lemma render_buffers_two:
  assumes "unat start + 16 \<le> unat stop" "unat stop \<le> 0x81800000"
  shows "fst (render_buffers m start stop 0 [0x96000, 0x20000] r) = Some bs \<longleftrightarrow>
    (\<exists>b0 b1. bs = [(b0, 0x96000), (b1, 0x20000)] \<and> m (LM_RENDER_TARGET_OWNER + 0xA8) = (True, b0) \<and>
      m (LM_RENDER_TARGET_OWNER + 0xAC) = (True, b1) \<and> render_buffer_ok start stop 0x96000 b0 \<and> render_buffer_ok start stop 0x20000 b1)"
proof -
  have "(0 :: u32) < 0x96000" "(0 :: u32) < 0x20000" "0 < unat (0x96000 :: u32)" "0 < unat (0x20000 :: u32)" by simp_all
  then show ?thesis
    unfolding render_buffers.simps rd_success LmRenderTargetRead_def render_buffer_guards [OF assms]
    by (simp only: add_0 mult_zero_left add_0_right mult_1 simp_thms) auto
qed

lemma render_rest_success:
  "fst (render_rest m start stop head tail [(b0, s0), (b1, s1)] b0 s0 b1 s1 r) = Some u \<longleftrightarrow>
    \<not> (b0 - 16 < b1 + s1 \<and> b1 - 16 < b0 + s0) \<and>
    texture_describes m (LM_RENDER_TARGET_OWNER + 0x60) b0 640 480 \<and>
    texture_describes m (LM_RENDER_TARGET_OWNER + 0x80) b1 256 256 \<and>
    (\<exists>ns. block_list m 0 head ns tail \<and> length ns \<le> 8192 \<and>
      (\<forall>n \<in> set ns. render_good m start stop [(b0, s0), (b1, s1)] n) \<and> b0 - 16 \<in> set ns \<and> b1 - 16 \<in> set ns)"
proof -
  have "fst (render_rest m start stop head tail [(b0, s0), (b1, s1)] b0 s0 b1 s1 r) = Some u \<longleftrightarrow>
      \<not> (b0 - 16 < b1 + s1 \<and> b1 - 16 < b0 + s0) \<and>
      texture_describes m (LM_RENDER_TARGET_OWNER + 0x60) b0 640 480 \<and>
      texture_describes m (LM_RENDER_TARGET_OWNER + 0x80) b1 256 256 \<and>
      (\<exists>r'. fst (block_walk start (render_turn m start stop [(b0, s0), (b1, s1)]) 8192 head 0 0 r') = Some (tail, 3))"
    by (simp add: render_rest_def rd_success case_prod_beta split_paired_Ex render.marked_success)
  then show ?thesis by (simp only: render.marked_success render_mask_both) blast
qed

lemma render_good_iff:
  assumes "unat stop \<le> 0x81800000" "render_buffer_ok start stop s0 b0" "render_buffer_ok start stop s1 b1"
  shows "render_good m start stop [(b0, s0), (b1, s1)] n \<longleftrightarrow> render_block_ok m start stop n \<and>
    (\<forall>(b, sz) \<in> {(b0, s0), (b1, s1)}. if n = b - 16 then heap_bytes m n = sz \<and> heap_tag m n AND 0xFF = 0x0D
       else header_extent n (heap_bytes m n) \<inter> header_extent (b - 16) sz = {})"
proof (cases "render_block_ok m start stop n")
  case True
  show ?thesis
    unfolding render_good_def list.set block_apart [OF True assms(2,1), symmetric] block_apart [OF True assms(3,1), symmetric]
      Set.ball_simps prod.case by (rule refl)
qed (simp add: render_good_def)

section \<open>The check accepts exactly these memories\<close>

text \<open>C33: The render target guard accepts a memory if and only if the two buffers the owner names are whole
  allocations of the game heap with the right sizes and owner tags, apart from each other and from every other
  block of a well-linked used list, and both texture objects describe them.\<close>

theorem LmRenderTargetsValidate_iff:
  "LmRenderTargetsValidate (Some m) start stop head tail = (True, 0, 0) \<longleftrightarrow> render_targets_ok m start stop head tail"
proof (cases "0x80000000 \<le> unat start \<and> start AND 3 = 0 \<and> unat start + 16 \<le> unat stop \<and> unat stop \<le> 0x81800000")
  case True
  then have heap: "unat start + 16 \<le> unat stop" "unat stop \<le> 0x81800000" by auto
  have guard: "\<not> (start < 0x80000000 \<or> stop > 0x81800000 \<or> \<not> LmRenderTargetRange start 16 start stop)"
    using True by (auto simp: LmRenderTargetRange_inside range_inside_unat word_less_nat_alt word_le_nat_alt)
  have "LmRenderTargetsValidate (Some m) start stop head tail = (True, 0, 0) \<longleftrightarrow>
    (\<exists>u r' bs. fst (render_buffers m start stop 0 [0x96000, 0x20000] \<lparr>rd_address = start, rd_value = stop\<rparr>) = Some bs \<and>
      fst (render_rest m start stop head tail bs (fst (bs ! 0)) (snd (bs ! 0)) (fst (bs ! 1)) (snd (bs ! 1)) r') = Some u \<and>
      r' = snd (render_buffers m start stop 0 [0x96000, 0x20000] \<lparr>rd_address = start, rd_value = stop\<rparr>))"
    using guard by (simp only: LmRenderTargetsValidate_def option.case rd_report_iff LmRenderTargetCheck_def rd_success) blast
  also have "\<dots> \<longleftrightarrow> (\<exists>b0 b1. m (LM_RENDER_TARGET_OWNER + 0xA8) = (True, b0) \<and> m (LM_RENDER_TARGET_OWNER + 0xAC) = (True, b1) \<and>
      render_buffer_ok start stop 0x96000 b0 \<and> render_buffer_ok start stop 0x20000 b1 \<and>
      (\<exists>u r. fst (render_rest m start stop head tail [(b0, 0x96000), (b1, 0x20000)] b0 0x96000 b1 0x20000 r) = Some u))"
    unfolding render_buffers_two [OF heap] render_rest_success
    by (auto simp: render_rest_success simp del: render_buffers.simps)
  also have "\<dots> \<longleftrightarrow> render_targets_ok m start stop head tail" (is "?m \<longleftrightarrow> ?ok")
  proof
    assume ?m
    then obtain b0 b1 ns where b: "m (LM_RENDER_TARGET_OWNER + 0xA8) = (True, b0)" "m (LM_RENDER_TARGET_OWNER + 0xAC) = (True, b1)"
        "render_buffer_ok start stop 0x96000 b0" "render_buffer_ok start stop 0x20000 b1"
      and t: "texture_describes m (LM_RENDER_TARGET_OWNER + 0x60) b0 640 480" "texture_describes m (LM_RENDER_TARGET_OWNER + 0x80) b1 256 256"
      and apart: "\<not> (b0 - 16 < b1 + 0x20000 \<and> b1 - 16 < b0 + 0x96000)"
      and ns: "block_list m 0 head ns tail" "length ns \<le> 8192" "b0 - 16 \<in> set ns" "b1 - 16 \<in> set ns"
      and good: "\<forall>n \<in> set ns. render_good m start stop [(b0, 0x96000), (b1, 0x20000)] n"
      unfolding render_rest_success by blast
    show ?ok
      unfolding render_targets_ok_def using True b t ns apart [unfolded buffers_apart [OF b(3,4) heap(2)]]
        good [unfolded render_good_iff [OF heap(2) b(3,4)]] by blast
  next
    assume ?ok
    then obtain b0 b1 ns where b: "m (LM_RENDER_TARGET_OWNER + 0xA8) = (True, b0)" "m (LM_RENDER_TARGET_OWNER + 0xAC) = (True, b1)"
        "render_buffer_ok start stop 0x96000 b0" "render_buffer_ok start stop 0x20000 b1"
      and t: "texture_describes m (LM_RENDER_TARGET_OWNER + 0x60) b0 640 480" "texture_describes m (LM_RENDER_TARGET_OWNER + 0x80) b1 256 256"
      and apart: "header_extent (b0 - 16) 0x96000 \<inter> header_extent (b1 - 16) 0x20000 = {}"
      and ns: "block_list m 0 head ns tail" "length ns \<le> 8192" "b0 - 16 \<in> set ns" "b1 - 16 \<in> set ns"
      and good: "\<forall>n \<in> set ns. render_block_ok m start stop n \<and>
         (\<forall>(b, sz) \<in> {(b0, 0x96000), (b1, 0x20000)}. if n = b - 16 then heap_bytes m n = sz \<and> heap_tag m n AND 0xFF = 0x0D
            else header_extent n (heap_bytes m n) \<inter> header_extent (b - 16) sz = {})"
      unfolding render_targets_ok_def by blast
    show ?m
      unfolding render_rest_success using b t ns apart [folded buffers_apart [OF b(3,4) heap(2)]]
        good [folded render_good_iff [OF heap(2) b(3,4)]] by blast
  qed
  finally show ?thesis .
next
  case False
  then have "start < 0x80000000 \<or> stop > 0x81800000 \<or> \<not> LmRenderTargetRange start 16 start stop"
    by (auto simp: LmRenderTargetRange_inside range_inside_unat word_less_nat_alt word_le_nat_alt)
  with False show ?thesis
    by (auto simp: LmRenderTargetsValidate_def rd_report_iff LmRenderTargetCheck_def rd_success render_targets_ok_def)
qed

end
