(* ===== verification/SharedArchive.thy ===== *)
theory SharedArchive
  imports HeaderBlocks
begin

text \<open>
  The compiled resource archive that states share with the running game,
  \<open>include/susamune/lm_shared_archive.h\<close>, and the guard of the archives mounted inside it,
  \<open>lm_archive_guard.h\<close>.
\<close>

section \<open>The code\<close>

abbreviation LM_SHARED_ARCHIVE_SIZE :: u32 where "LM_SHARED_ARCHIVE_SIZE \<equiv> 0x419B00"
abbreviation LM_SHARED_ARCHIVE_DATA_OFFSET :: u32 where "LM_SHARED_ARCHIVE_DATA_OFFSET \<equiv> 0x6E20"
abbreviation LM_SHARED_ARCHIVE_METADATA_SIGNATURE :: u32 where "LM_SHARED_ARCHIVE_METADATA_SIGNATURE \<equiv> 0x94D08ED2"
abbreviation LM_SHARED_ARCHIVE_MAX_BLOCKS :: nat where "LM_SHARED_ARCHIVE_MAX_BLOCKS \<equiv> 128"

record LmSharedArchiveDescriptor =
  sa_owner :: u32
  sa_base :: u32
  sa_size :: u32
  sa_systemHeap :: u32
  sa_systemStart :: u32
  sa_systemEnd :: u32
  sa_parentBlockTag :: u32
  sa_ownerBlockTag :: u32
  sa_usedSignature :: u32
  sa_freeSignature :: u32

definition shared_empty :: LmSharedArchiveDescriptor where
  "shared_empty = \<lparr>sa_owner = 0, sa_base = 0, sa_size = 0, sa_systemHeap = 0, sa_systemStart = 0, sa_systemEnd = 0,
     sa_parentBlockTag = 0, sa_ownerBlockTag = 0, sa_usedSignature = 0, sa_freeSignature = 0\<rparr>"

definition LmSharedRead :: "memory \<Rightarrow> u32 \<Rightarrow> u32 chk" where
  "LmSharedRead m address = rd_word m address"

definition LmSharedExpected :: "memory \<Rightarrow> u32 \<Rightarrow> u32 \<Rightarrow> unit chk" where
  "LmSharedExpected m address expected =
     rd_bind (LmSharedRead m address) (\<lambda>v. rd_check (v = expected) (rd_return ()))"

definition LmSharedRange :: "u32 \<Rightarrow> u32 \<Rightarrow> u32 \<Rightarrow> u32 \<Rightarrow> bool" where
  "LmSharedRange base sz start stop \<longleftrightarrow> base AND 3 = 0 \<and> base \<ge> start \<and> base < stop \<and> sz \<noteq> 0 \<and> sz \<le> stop - base"

definition LmSharedOverlap :: "u32 \<Rightarrow> u32 \<Rightarrow> u32 \<Rightarrow> u32 \<Rightarrow> bool" where
  "LmSharedOverlap a sizeA b sizeB \<longleftrightarrow> a < b + sizeB \<and> b < a + sizeA"

definition LmSharedHash :: "u32 \<Rightarrow> u32 \<Rightarrow> u32" where
  "LmSharedHash h word = (h XOR word) * 16777619"

text \<open>What the loop over a list keeps: \<open>found\<close>, the two block tags the descriptor gets, \<open>signature\<close>
  and \<open>count\<close>.\<close>

type_synonym shared_marks = "u32 \<times> u32 \<times> u32 \<times> u32 \<times> u32"

text \<open>The block's part: the archive, its owner object, or a block that must keep clear of both.\<close>

definition shared_block :: "LmSharedArchiveDescriptor \<Rightarrow> bool \<Rightarrow> u32 \<Rightarrow> u32 \<Rightarrow> u32 \<Rightarrow> u32 \<Rightarrow> u32 \<Rightarrow> u32 \<Rightarrow> (u32 \<times> u32 \<times> u32) chk" where
  "shared_block d used node tag bytes found parentTag ownerTag =
     (if used \<and> node = sa_base d - 16 then
        rd_check (\<not> (tag AND 0xFF \<noteq> 0x10 \<or> bytes \<noteq> LM_SHARED_ARCHIVE_SIZE)) (rd_return (found OR 1, tag, ownerTag))
      else if used \<and> node = sa_owner d - 16 then
        rd_check (\<not> (tag AND 0xFF \<noteq> 0x10 \<or> bytes \<noteq> 0x68)) (rd_return (found OR 2, parentTag, tag))
      else rd_check (\<not> (LmSharedOverlap node (bytes + 16) (sa_base d - 16) (LM_SHARED_ARCHIVE_SIZE + 16) \<or>
          LmSharedOverlap node (bytes + 16) (sa_owner d - 16) 0x78)) (rd_return (found, parentTag, ownerTag)))"

definition shared_turn :: "memory \<Rightarrow> LmSharedArchiveDescriptor \<Rightarrow> bool \<Rightarrow> u32 \<Rightarrow> u32 \<Rightarrow> shared_marks \<Rightarrow> (u32 \<times> shared_marks) chk" where
  "shared_turn m d used node previous = (\<lambda>(found, parentTag, ownerTag, signature, count).
     rd_check (LmSharedRange node 16 (sa_systemStart d) (sa_systemEnd d)) (
     rd_bind (LmSharedRead m node) (\<lambda>tag.
     rd_check (\<not> (if used then drop_bit 16 tag \<noteq> 0x484D else tag \<noteq> 0)) (
     rd_bind (LmSharedRead m (node + 4)) (\<lambda>bytes.
     rd_check (bytes \<le> sa_systemEnd d - node - 16) (
     rd_bind (LmSharedExpected m (node + 8) previous) (\<lambda>_.
     rd_bind (LmSharedRead m (node + 12)) (\<lambda>next.
     rd_bind (shared_block d used node tag bytes found parentTag ownerTag)
       (\<lambda>(found, parentTag, ownerTag).
     let signature = LmSharedHash signature node; signature = LmSharedHash signature tag;
         signature = LmSharedHash signature bytes; signature = LmSharedHash signature previous;
         signature = LmSharedHash signature next
     in rd_return (next, found, parentTag, ownerTag, signature, count + 1))))))))))"

definition LmSharedHeapList :: "memory \<Rightarrow> LmSharedArchiveDescriptor \<Rightarrow> bool \<Rightarrow> LmSharedArchiveDescriptor chk" where
  "LmSharedHeapList m d used =
     (let offset = (if used then 0x7C else 0x74) in
     rd_bind (LmSharedRead m (sa_systemHeap d + offset)) (\<lambda>head.
     rd_bind (LmSharedRead m (sa_systemHeap d + offset + 4)) (\<lambda>tail.
     rd_bind (block_walk (sa_systemHeap d + offset) (shared_turn m d used) LM_SHARED_ARCHIVE_MAX_BLOCKS head 0
         (0, sa_parentBlockTag d, sa_ownerBlockTag d, 2166136261, 0))
       (\<lambda>(previous, found, parentTag, ownerTag, signature, count).
     rd_note (sa_systemHeap d + offset + 4) tail (
     rd_check (\<not> (previous \<noteq> tail \<or> used \<and> found \<noteq> 3)) (
     rd_bind (LmSharedExpected m (sa_systemHeap d + offset) head) (\<lambda>_.
     rd_bind (LmSharedExpected m (sa_systemHeap d + offset + 4) tail) (\<lambda>_.
     rd_return
       (if used then d\<lparr>sa_parentBlockTag := parentTag, sa_ownerBlockTag := ownerTag,
          sa_usedSignature := LmSharedHash signature count\<rparr>
        else d\<lparr>sa_freeSignature := LmSharedHash signature count\<rparr>)))))))))"

text \<open>The guards that compare a row of words one after the other, and the loops that hash a row of
  words.\<close>

fun shared_expect_all :: "memory \<Rightarrow> (u32 \<times> u32) list \<Rightarrow> unit chk" where
  "shared_expect_all m [] = rd_return ()"
| "shared_expect_all m ((a, v) # rows) = rd_bind (LmSharedExpected m a v) (\<lambda>_. shared_expect_all m rows)"

fun shared_hash_all :: "memory \<Rightarrow> u32 list \<Rightarrow> u32 \<Rightarrow> u32 chk" where
  "shared_hash_all m [] signature = rd_return signature"
| "shared_hash_all m (a # as) signature =
     rd_bind (LmSharedRead m a) (\<lambda>v. shared_hash_all m as (LmSharedHash signature v))"

definition shared_header :: "u32 list" where
  "shared_header = [0x52415243, LM_SHARED_ARCHIVE_SIZE, 0x20, 0x6E00, 0x412CE0, 0x412CE0, 0, 0,
     0x19, 0x20, 0x358, 0x1C0, 0x2960, 0x44A0, 0x03580100, 0]"

definition shared_metadata_words :: "u32 \<Rightarrow> u32 list" where
  "shared_metadata_words base =
     map (\<lambda>i. base + 0x40 + of_nat (4 * i)) [0..<0x19 * 0x10 div 4] @
     map (\<lambda>i. base + 0x44C0 + of_nat (4 * i)) [0..<0x2960 div 4] @
     concat (map (\<lambda>i. map (\<lambda>j. base + 0x1E0 + of_nat i * 0x14 + of_nat (4 * j)) [0..<0x10 div 4]) [0..<0x358])"

definition LmSharedMetadata :: "memory \<Rightarrow> u32 \<Rightarrow> unit chk" where
  "LmSharedMetadata m base =
     rd_bind (shared_expect_all m (map (\<lambda>i. (base + of_nat i * 4, shared_header ! i)) [0..<16])) (\<lambda>_.
     rd_bind (shared_hash_all m (shared_metadata_words base) 2166136261) (\<lambda>signature.
     rd_note (base + 0x20) signature (
     rd_check (signature = LM_SHARED_ARCHIVE_METADATA_SIGNATURE) (rd_return ()))))"

text \<open>The words of the owner object behind the heap lists.\<close>

definition shared_owner_offsets :: "(u32 \<times> u32) list" where
  "shared_owner_offsets = zip [0x28, 0x40, 0x44, 0x48, 0x4C, 0x50, 0x60] [0x44C5, 0, 0x20, 0x40, 0x1E0, 0x44C0, 0x6E20]"

definition shared_owner_words :: "memory \<Rightarrow> u32 \<Rightarrow> u32 \<Rightarrow> u32 \<Rightarrow> unit chk" where
  "shared_owner_words m owner base heap =
     rd_bind (shared_expect_all m [(owner + 8, owner), (owner + 0xC, heap + 0x58), (owner + 0x18, owner),
       (owner + 0x1C, 0x80494754), (owner + 0x2C, 0x52415243)]) (\<lambda>_.
     rd_bind (LmSharedRead m (owner + 0x30)) (\<lambda>v. rd_check (drop_bit 24 v = 1) (
     rd_bind (LmSharedExpected m (owner + 0x34) 1) (\<lambda>_.
     rd_bind (LmSharedRead m (owner + 0x3C)) (\<lambda>v. rd_check (drop_bit 24 v = 1) (
     rd_bind (shared_expect_all m [(owner + 0x54, 1), (owner + 0x58, 0)]) (\<lambda>_.
     rd_bind (LmSharedRead m (owner + 0x64)) (\<lambda>v. rd_check (drop_bit 24 v = 0) (
     shared_expect_all m (map (\<lambda>(offset, relative). (owner + offset, base + relative)) shared_owner_offsets))))))))))"

definition LmSharedArchiveCheck :: "memory \<Rightarrow> LmSharedArchiveDescriptor chk" where
  "LmSharedArchiveCheck m =
     rd_bind (LmSharedRead m 0x804A0B94) (\<lambda>heap.
     rd_check (LmSharedRange heap 0x88 0x80000000 0x81800000) (
     rd_bind (LmSharedExpected m heap 0x8038886C) (\<lambda>_.
     rd_bind (LmSharedRead m (heap + 0x30)) (\<lambda>start.
     rd_bind (LmSharedRead m (heap + 0x34)) (\<lambda>stop.
     rd_check (\<not> (start < heap + 0x88 \<or> stop > 0x81800000 \<or> \<not> LmSharedRange start 16 (heap + 0x88) stop \<or> stop AND 3 \<noteq> 0)) (
     rd_bind (LmSharedExpected m (heap + 0x38) (stop - start)) (\<lambda>_.
     rd_bind (LmSharedRead m 0x804A12B0) (\<lambda>owner.
     rd_check (\<not> (owner < start + 16 \<or> \<not> LmSharedRange owner 0x68 start stop)) (
     rd_bind (LmSharedExpected m owner 0x80388D5C) (\<lambda>_.
     rd_bind (LmSharedExpected m (owner + 4) heap) (\<lambda>_.
     rd_bind (LmSharedExpected m (owner + 0x38) heap) (\<lambda>_.
     rd_bind (LmSharedRead m (owner + 0x5C)) (\<lambda>base.
     rd_check (\<not> (base < start + 16 \<or> base AND 31 \<noteq> 0 \<or> \<not> LmSharedRange base LM_SHARED_ARCHIVE_SIZE start stop \<or>
         LmSharedOverlap (base - 16) (LM_SHARED_ARCHIVE_SIZE + 16) (owner - 16) 0x78)) (
     rd_bind (LmSharedHeapList m (shared_empty\<lparr>sa_owner := owner, sa_base := base, sa_size := LM_SHARED_ARCHIVE_SIZE,
         sa_systemHeap := heap, sa_systemStart := start, sa_systemEnd := stop\<rparr>) True) (\<lambda>d.
     rd_bind (LmSharedHeapList m d False) (\<lambda>d.
     rd_bind (shared_owner_words m owner base heap) (\<lambda>_.
     rd_bind (LmSharedMetadata m base) (\<lambda>_.
     rd_bind (LmSharedExpected m 0x804A12B0 owner) (\<lambda>_.
     rd_bind (LmSharedExpected m 0x804A0B94 heap) (\<lambda>_. rd_return d))))))))))))))))))))"

text \<open>\<open>out\<close> is null or not; the result carries what \<open>*out\<close> is afterwards.\<close>

definition LmSharedArchiveValidate :: "memory option \<Rightarrow> bool \<Rightarrow> bool \<times> LmSharedArchiveDescriptor \<times> u32 \<times> u32" where
  "LmSharedArchiveValidate readWord out =
     (case readWord of
        Some m \<Rightarrow> if out then
            (case LmSharedArchiveCheck m rd_start of
               (Some d, r) \<Rightarrow> (True, d, 0, 0)
             | (None, r) \<Rightarrow> (False, shared_empty, rd_address r, rd_value r))
          else (False, shared_empty, 0, 0)
      | None \<Rightarrow> (False, shared_empty, 0, 0))"

definition LmSharedArchiveSameIdentity :: "LmSharedArchiveDescriptor option \<Rightarrow> LmSharedArchiveDescriptor option \<Rightarrow> bool" where
  "LmSharedArchiveSameIdentity a b = (case (a, b) of
     (Some a, Some b) \<Rightarrow> sa_size a = LM_SHARED_ARCHIVE_SIZE \<and> sa_owner a = sa_owner b \<and> sa_base a = sa_base b \<and>
        sa_size a = sa_size b \<and> sa_systemHeap a = sa_systemHeap b \<and> sa_systemStart a = sa_systemStart b \<and>
        sa_systemEnd a = sa_systemEnd b \<and> sa_parentBlockTag a = sa_parentBlockTag b \<and>
        sa_ownerBlockTag a = sa_ownerBlockTag b \<and> sa_usedSignature a = sa_usedSignature b \<and>
        sa_freeSignature a = sa_freeSignature b
   | _ \<Rightarrow> False)"

definition LmSharedArchiveContains :: "LmSharedArchiveDescriptor option \<Rightarrow> u32 \<Rightarrow> u32 \<Rightarrow> bool" where
  "LmSharedArchiveContains parent base sz = (case parent of None \<Rightarrow> False | Some p \<Rightarrow>
     sa_size p = LM_SHARED_ARCHIVE_SIZE \<and> LmSharedRange (sa_base p) (sa_size p) 0x80000000 0x81800000 \<and>
     base AND 31 = 0 \<and> sz AND 31 = 0 \<and> sz \<ge> 0x20 \<and>
     LmSharedRange base sz (sa_base p + LM_SHARED_ARCHIVE_DATA_OFFSET) (sa_base p + sa_size p))"

section \<open>The archive guard\<close>

record LmArchiveGuardEntry =
  ge_node :: u32
  ge_object :: u32
  ge_vtable :: u32
  ge_stateFlags :: u32
  ge_archiveHeader :: u32
  ge_fileLength :: u32
  ge_ownerFlags :: u32

definition LmArchiveGuardReasons :: "LmArchiveGuardEntry \<Rightarrow> u32 \<Rightarrow> u32 \<Rightarrow> u32 \<Rightarrow> u32" where
  "LmArchiveGuardReasons entry gameStart gameEnd expectedVtable =
     (if ge_vtable entry \<noteq> expectedVtable then 0x01 else 0) OR
     (if ge_node entry \<noteq> ge_object entry + 0x18 then 0x02 else 0) OR
     (if drop_bit 8 (ge_ownerFlags entry) AND 15 \<noteq> 1 then 0x04 else 0) OR
     (if drop_bit 12 (ge_ownerFlags entry) AND 15 \<noteq> 1 then 0x08 else 0) OR
     (if ge_stateFlags entry AND 0x106 \<noteq> 0x106 then 0x10 else 0) OR
     (if ge_fileLength entry < 0x20 then 0x20 else 0) OR
     (if ge_fileLength entry = 0 \<or> ge_fileLength entry > 0x01800000 \<or> ge_archiveHeader entry < 0x80000000 \<or>
        ge_archiveHeader entry > 0x81800000 - ge_fileLength entry \<or> ge_archiveHeader entry < gameStart \<or>
        ge_archiveHeader entry + ge_fileLength entry > gameEnd then 0x40 else 0)"

definition LmArchiveGuardSharedBackingAllowed :: "LmArchiveGuardEntry option \<Rightarrow> u32 \<Rightarrow> u32 \<Rightarrow> u32 \<Rightarrow> u32 \<Rightarrow> u32 \<Rightarrow>
    LmSharedArchiveDescriptor option \<Rightarrow> bool" where
  "LmArchiveGuardSharedBackingAllowed entry objectOwnerHeap archiveHeap type mountSource gameHeap parent =
     (case (entry, parent) of
        (Some e, Some p) \<Rightarrow> gameHeap \<noteq> sa_systemHeap p \<and> ge_ownerFlags e AND 0xFFFF = 0x2121 \<and>
          objectOwnerHeap = gameHeap \<and> archiveHeap = sa_systemHeap p \<and> type = 0x52415243 \<and>
          mountSource = ge_archiveHeader e \<and> drop_bit 16 (ge_stateFlags e) AND 15 = 1 \<and>
          ge_stateFlags e AND 0x01000000 \<noteq> 0 \<and>
          LmSharedArchiveContains (Some p) (ge_archiveHeader e) (ge_fileLength e)
      | _ \<Rightarrow> False)"

definition LmArchiveGuardFailureValue :: "LmArchiveGuardEntry \<Rightarrow> u32 \<Rightarrow> u32" where
  "LmArchiveGuardFailureValue entry reasons =
     (if reasons AND 0x01 \<noteq> 0 then ge_vtable entry
      else if reasons AND 0x02 \<noteq> 0 then ge_node entry
      else if reasons AND 0x04 \<noteq> 0 then ge_object entry
      else if reasons AND 0x08 \<noteq> 0 then ge_archiveHeader entry
      else if reasons AND 0x10 \<noteq> 0 then ge_stateFlags entry
      else if reasons AND 0x20 \<noteq> 0 then ge_fileLength entry
      else if reasons AND 0x40 \<noteq> 0 then ge_archiveHeader entry
      else 0)"

section \<open>What is accepted\<close>

text \<open>One of the two lists of the system heap: \<open>ns\<close> are its blocks.  On the used list the archive and its
  owner object are whole blocks; every other block, and every free one, keeps clear of them.\<close>

definition shared_allocation :: "memory \<Rightarrow> bool \<Rightarrow> u32 \<Rightarrow> u32 \<Rightarrow> u32 \<Rightarrow> bool" where
  "shared_allocation m used t len n \<longleftrightarrow>
     (if used \<and> n = t - 16 then heap_bytes m n = len \<and> heap_tag m n AND 0xFF = 0x10
      else header_extent n (heap_bytes m n) \<inter> header_extent (t - 16) len = {})"

definition shared_block_ok :: "memory \<Rightarrow> bool \<Rightarrow> LmSharedArchiveDescriptor \<Rightarrow> u32 \<Rightarrow> bool" where
  "shared_block_ok m used d n \<longleftrightarrow> header_block m (sa_systemStart d) (sa_systemEnd d) n \<and>
     (if used then drop_bit 16 (heap_tag m n) = 0x484D else heap_tag m n = 0) \<and>
     shared_allocation m used (sa_base d) LM_SHARED_ARCHIVE_SIZE n \<and> shared_allocation m used (sa_owner d) 0x68 n"

definition shared_list_ok :: "memory \<Rightarrow> bool \<Rightarrow> LmSharedArchiveDescriptor \<Rightarrow> u32 list \<Rightarrow> bool" where
  "shared_list_ok m used d ns \<longleftrightarrow>
     (\<exists>head tail. m (sa_systemHeap d + (if used then 0x7C else 0x74)) = (True, head) \<and>
        m (sa_systemHeap d + (if used then 0x7C else 0x74) + 4) = (True, tail) \<and>
        block_list m 0 head ns tail \<and> length ns \<le> 128) \<and>
     (\<forall>n \<in> set ns. shared_block_ok m used d n) \<and>
     (used \<longrightarrow> sa_base d - 16 \<in> set ns \<and> sa_owner d - 16 \<in> set ns)"

text \<open>The fingerprint of a list: all five words of every block, and the number of blocks.\<close>

definition shared_words :: "memory \<Rightarrow> u32 \<Rightarrow> u32 list" where
  "shared_words m n = [n, heap_tag m n, heap_bytes m n, snd (m (n + 8)), snd (m (n + 12))]"

definition shared_signature :: "memory \<Rightarrow> u32 list \<Rightarrow> u32" where
  "shared_signature m ns = foldl LmSharedHash 2166136261 (concat (map (shared_words m) ns) @ [of_nat (length ns)])"

definition shared_fields_ok :: "memory \<Rightarrow> u32 \<Rightarrow> u32 \<Rightarrow> u32 \<Rightarrow> bool" where
  "shared_fields_ok m owner base heap \<longleftrightarrow>
     (\<forall>(a, v) \<in> set ([(owner + 8, owner), (owner + 0xC, heap + 0x58), (owner + 0x18, owner), (owner + 0x1C, 0x80494754),
        (owner + 0x2C, 0x52415243), (owner + 0x34, 1), (owner + 0x54, 1), (owner + 0x58, 0), (owner + 0x28, base + 0x44C5),
        (owner + 0x40, base), (owner + 0x44, base + 0x20), (owner + 0x48, base + 0x40), (owner + 0x4C, base + 0x1E0),
        (owner + 0x50, base + 0x44C0), (owner + 0x60, base + 0x6E20)] @
        map (\<lambda>i. (base + of_nat i * 4, shared_header ! i)) [0..<16]). m a = (True, v)) \<and>
     (\<forall>(a, v) \<in> {(owner + 0x30, 1), (owner + 0x3C, 1), (owner + 0x64, 0)}. fst (m a) \<and> drop_bit 24 (snd (m a)) = v) \<and>
     (\<forall>a \<in> set (shared_metadata_words base). fst (m a)) \<and>
     foldl LmSharedHash 2166136261 (map (\<lambda>a. snd (m a)) (shared_metadata_words base)) = LM_SHARED_ARCHIVE_METADATA_SIGNATURE"

text \<open>Where the heap, the owner object and the archive lie.\<close>

definition shared_places_ok :: "LmSharedArchiveDescriptor \<Rightarrow> bool" where
  "shared_places_ok d \<longleftrightarrow>
     0x80000000 \<le> unat (sa_systemHeap d) \<and> sa_systemHeap d AND 3 = 0 \<and>
     unat (sa_systemHeap d) + 0x88 \<le> unat (sa_systemStart d) \<and> sa_systemStart d AND 3 = 0 \<and>
     unat (sa_systemStart d) + 16 \<le> unat (sa_systemEnd d) \<and> sa_systemEnd d AND 3 = 0 \<and> unat (sa_systemEnd d) \<le> 0x81800000 \<and>
     unat (sa_systemStart d) + 16 \<le> unat (sa_owner d) \<and> sa_owner d AND 3 = 0 \<and> unat (sa_owner d) + 0x68 \<le> unat (sa_systemEnd d) \<and>
     unat (sa_systemStart d) + 16 \<le> unat (sa_base d) \<and> sa_base d AND 31 = 0 \<and> unat (sa_base d) + 0x419B00 \<le> unat (sa_systemEnd d) \<and>
     header_extent (sa_base d - 16) LM_SHARED_ARCHIVE_SIZE \<inter> header_extent (sa_owner d - 16) 0x68 = {}"

definition shared_archive_ok :: "memory \<Rightarrow> LmSharedArchiveDescriptor \<Rightarrow> bool" where
  "shared_archive_ok m d \<longleftrightarrow> shared_places_ok d \<and> sa_size d = LM_SHARED_ARCHIVE_SIZE \<and>
     (\<forall>(a, v) \<in> {(0x804A0B94, sa_systemHeap d), (sa_systemHeap d, 0x8038886C), (sa_systemHeap d + 0x30, sa_systemStart d),
        (sa_systemHeap d + 0x34, sa_systemEnd d), (sa_systemHeap d + 0x38, sa_systemEnd d - sa_systemStart d),
        (0x804A12B0, sa_owner d), (sa_owner d, 0x80388D5C), (sa_owner d + 4, sa_systemHeap d),
        (sa_owner d + 0x38, sa_systemHeap d), (sa_owner d + 0x5C, sa_base d)}. m a = (True, v)) \<and>
     (\<exists>us fs. shared_list_ok m True d us \<and> shared_list_ok m False d fs \<and>
        sa_usedSignature d = shared_signature m us \<and> sa_freeSignature d = shared_signature m fs) \<and>
     sa_parentBlockTag d = heap_tag m (sa_base d - 16) \<and> sa_ownerBlockTag d = heap_tag m (sa_owner d - 16) \<and>
     shared_fields_ok m (sa_owner d) (sa_base d) (sa_systemHeap d)"

section \<open>The loops\<close>

lemma LmSharedRead_success [rd_success]: "fst (LmSharedRead m a r) = Some v \<longleftrightarrow> m a = (True, v)"
  by (simp add: LmSharedRead_def rd_success)

lemma LmSharedExpected_success [rd_success]: "fst (LmSharedExpected m a v r) = Some u \<longleftrightarrow> m a = (True, v)"
  by (auto simp: LmSharedExpected_def rd_success)

lemma LmSharedRange_inside: "LmSharedRange base sz start stop \<longleftrightarrow> range_inside base sz start stop"
  by (simp add: LmSharedRange_def range_inside_def)

lemma shared_expect_all_success [rd_success]:
  "fst (shared_expect_all m rows r) = Some u \<longleftrightarrow> (\<forall>(a, v) \<in> set rows. m a = (True, v))"
  by (induction rows arbitrary: r) (auto simp: rd_success)

lemma shared_hash_all_success [rd_success]:
  "fst (shared_hash_all m as s r) = Some v \<longleftrightarrow> (\<forall>a \<in> set as. fst (m a)) \<and> v = foldl LmSharedHash s (map (\<lambda>a. snd (m a)) as)"
proof (induction as arbitrary: s r)
  case (Cons a as)
  then show ?case by (cases "m a") (auto simp: rd_success)
qed (auto simp: rd_success)

text \<open>What makes one block pass, and what it does to the marks.\<close>

definition shared_good :: "memory \<Rightarrow> bool \<Rightarrow> LmSharedArchiveDescriptor \<Rightarrow> u32 \<Rightarrow> bool" where
  "shared_good m used d n \<longleftrightarrow> header_block m (sa_systemStart d) (sa_systemEnd d) n \<and>
     (if used then drop_bit 16 (heap_tag m n) = 0x484D else heap_tag m n = 0) \<and>
     (if used \<and> n = sa_base d - 16 then heap_tag m n AND 0xFF = 0x10 \<and> heap_bytes m n = LM_SHARED_ARCHIVE_SIZE
      else if used \<and> n = sa_owner d - 16 then heap_tag m n AND 0xFF = 0x10 \<and> heap_bytes m n = 0x68
      else \<not> (n < sa_base d + LM_SHARED_ARCHIVE_SIZE \<and> sa_base d - 16 < n + 16 + heap_bytes m n) \<and>
        \<not> (n < sa_owner d + 0x68 \<and> sa_owner d - 16 < n + 16 + heap_bytes m n))"

definition shared_mark :: "memory \<Rightarrow> bool \<Rightarrow> LmSharedArchiveDescriptor \<Rightarrow> u32 \<Rightarrow> shared_marks \<Rightarrow> shared_marks" where
  "shared_mark m used d n = (\<lambda>(found, p, q, s, c).
     (if used \<and> n = sa_base d - 16 then found OR 1 else if used \<and> n = sa_owner d - 16 then found OR 2 else found,
      if used \<and> n = sa_base d - 16 then heap_tag m n else p,
      if used \<and> n \<noteq> sa_base d - 16 \<and> n = sa_owner d - 16 then heap_tag m n else q,
      foldl LmSharedHash s (shared_words m n), c + 1))"

lemma shared_block_success:
  "fst (shared_block d used n tag bytes found p q r) = Some (f, p', q') \<longleftrightarrow>
    (if used \<and> n = sa_base d - 16 then tag AND 0xFF = 0x10 \<and> bytes = LM_SHARED_ARCHIVE_SIZE
      else if used \<and> n = sa_owner d - 16 then tag AND 0xFF = 0x10 \<and> bytes = 0x68
      else \<not> (n < sa_base d + LM_SHARED_ARCHIVE_SIZE \<and> sa_base d - 16 < n + 16 + bytes) \<and>
        \<not> (n < sa_owner d + 0x68 \<and> sa_owner d - 16 < n + 16 + bytes)) \<and>
    f = (if used \<and> n = sa_base d - 16 then found OR 1 else if used \<and> n = sa_owner d - 16 then found OR 2 else found) \<and>
    p' = (if used \<and> n = sa_base d - 16 then tag else p) \<and>
    q' = (if used \<and> n \<noteq> sa_base d - 16 \<and> n = sa_owner d - 16 then tag else q)"
proof -
  have overlap: "LmSharedOverlap n (bytes + 16) (t - 16) (sz + 16) \<longleftrightarrow> n < t + sz \<and> t - 16 < n + 16 + bytes" for t sz
    by (simp add: LmSharedOverlap_def add.commute add.left_commute)
  have sz: "(0x78 :: u32) = 0x68 + 16" by simp
  show ?thesis
  proof (cases "used \<and> n = sa_base d - 16")
    case True
    show ?thesis unfolding shared_block_def rd_success sz overlap using True by (simp add: rd_success)
  next
    case False
    then have h: "(used \<and> n = sa_base d - 16) = False" by simp
    show ?thesis
    proof (cases "used \<and> n = sa_owner d - 16")
      case True
      then have o: "(used \<and> n = sa_owner d - 16) = True" by simp
      show ?thesis unfolding shared_block_def h o if_True if_False rd_success using False True by simp
    next
      case False
      then have o: "(used \<and> n = sa_owner d - 16) = False" by simp
      show ?thesis unfolding shared_block_def h o if_False rd_success sz overlap using h o by simp blast
    qed
  qed
qed

lemma shared_turn_success:
  "fst (shared_turn m d used n p a r) = Some (next, b) \<longleftrightarrow>
    m (n + 8) = (True, p) \<and> m (n + 12) = (True, next) \<and> shared_good m used d n \<and> b = shared_mark m used d n a"
proof -
  obtain found pt ot s c where a: "a = (found, pt, ot, s, c)" by (cases a)
  obtain b1 b2 b3 b4 b5 where b: "b = (b1, b2, b3, b4, b5)" by (cases b)
  obtain ok tag where tag: "m n = (ok, tag)" by (cases "m n")
  obtain ok' bytes where bytes: "m (n + 4) = (ok', bytes)" by (cases "m (n + 4)")
  define B where "B y \<longleftrightarrow> fst (shared_block d used n tag bytes found pt ot rd_start) = Some y" for y
  have B: "fst (shared_block d used n tag bytes found pt ot r') = Some y \<longleftrightarrow> B y" for r' y
    unfolding B_def by (cases y) (simp only: shared_block_success)
  have "fst (shared_turn m d used n p a r) = Some (next, b) \<longleftrightarrow>
      range_inside n 16 (sa_systemStart d) (sa_systemEnd d) \<and> ok \<and> (if used then drop_bit 16 tag = 0x484D else tag = 0) \<and> ok' \<and>
      bytes \<le> sa_systemEnd d - n - 16 \<and> m (n + 8) = (True, p) \<and> m (n + 12) = (True, next) \<and>
      B (b1, b2, b3) \<and> b4 = foldl LmSharedHash s [n, tag, bytes, p, next] \<and> b5 = c + 1"
    by (auto simp: shared_turn_def a b rd_success Let_def LmSharedRange_inside tag bytes B)
  also have "\<dots> \<longleftrightarrow> m (n + 8) = (True, p) \<and> m (n + 12) = (True, next) \<and> shared_good m used d n \<and> b = shared_mark m used d n a"
  proof (cases "m (n + 8) = (True, p) \<and> m (n + 12) = (True, next)")
    case True
    then have w: "m (n + 8) = (True, p)" "m (n + 12) = (True, next)" by simp_all
    show ?thesis
      unfolding B_def shared_block_success shared_good_def header_block_guards shared_mark_def a b prod.case prod.inject
        shared_words_def heap_tag_def heap_bytes_def w tag bytes fst_conv snd_conv by argo
  next
    case False
    then show ?thesis by argo
  qed
  finally show ?thesis .
qed

interpretation shared: walker m "shared_turn m d used"
    "\<lambda>n p next a b. shared_good m used d n \<and> b = shared_mark m used d n a"
  for m d used
  by unfold_locales (simp add: shared_turn_success)

lemma shared_steps: "walk_steps (\<lambda>n p next a b. shared_good m used d n \<and> b = shared_mark m used d n a) prev ns a b \<longleftrightarrow>
    (\<forall>n \<in> set ns. shared_good m used d n) \<and> b = fold (shared_mark m used d) ns a"
  by (induction ns arbitrary: prev a) auto

lemma shared_fold:
  assumes "sa_base d \<noteq> sa_owner d"
  shows "fold (shared_mark m used d) ns (f, p, q, s, c) =
    (f OR (if used \<and> sa_base d - 16 \<in> set ns then 1 else 0) OR (if used \<and> sa_owner d - 16 \<in> set ns then 2 else 0),
     if used \<and> sa_base d - 16 \<in> set ns then heap_tag m (sa_base d - 16) else p,
     if used \<and> sa_owner d - 16 \<in> set ns then heap_tag m (sa_owner d - 16) else q,
     foldl LmSharedHash s (concat (map (shared_words m) ns)), c + of_nat (length ns))"
proof (induction ns arbitrary: f p q s c)
  case (Cons n ns)
  let ?b = "\<lambda>n. used \<and> n = sa_base d - 16" and ?o = "\<lambda>n. used \<and> n = sa_owner d - 16"
  have step: "shared_mark m used d n (f, p, q, s, c) = (f OR (if ?b n then 1 else 0) OR (if ?o n then 2 else 0),
      if ?b n then heap_tag m (sa_base d - 16) else p, if ?o n then heap_tag m (sa_owner d - 16) else q,
      foldl LmSharedHash s (shared_words m n), c + 1)"
    using assms by (auto simp: shared_mark_def)
  have or: "(f OR x OR y) OR z OR w = f OR (x OR z) OR (y OR w)" for f x y z w :: u32
    by (intro bit_word_eqI) (auto simp: bit_or_iff)
  have "(if P then v else 0) OR (if Q then v else 0) = (if P \<or> Q then v else 0)" for P Q and v :: u32 by simp
  then show ?case
    unfolding fold_simps step Cons.IH or by (auto simp: add.assoc)
qed simp

lemma shared_places_unat:
  assumes "shared_places_ok d"
  shows "unat (sa_systemEnd d) \<le> 0x81800000"
    and "16 \<le> unat (sa_base d)" "unat (sa_base d) + unat LM_SHARED_ARCHIVE_SIZE \<le> unat (sa_systemEnd d)"
    and "16 \<le> unat (sa_owner d)" "unat (sa_owner d) + unat (0x68 :: u32) \<le> unat (sa_systemEnd d)"
    and "sa_base d \<noteq> sa_owner d"
  using assms by (auto simp: shared_places_ok_def header_extent_def)

lemma shared_good_iff:
  assumes "shared_places_ok d"
  shows "shared_good m used d n \<longleftrightarrow> shared_block_ok m used d n"
proof (cases "header_block m (sa_systemStart d) (sa_systemEnd d) n")
  case True
  note u = shared_places_unat [OF assms]
  note apart = header_block_apart [OF True u(2,3,1)] header_block_apart [OF True u(4,5,1)]
  have clear: "header_extent (sa_base d - 16) LM_SHARED_ARCHIVE_SIZE \<inter> header_extent (sa_owner d - 16) 0x68 = {}"
    using assms by (simp add: shared_places_ok_def)
  have ne: "sa_owner d - 16 \<noteq> sa_base d - 16" using u(6) by simp
  consider (base) "used \<and> n = sa_base d - 16" | (owner) "used \<and> n = sa_owner d - 16"
    | (other) "(used \<and> n = sa_base d - 16) = False" "(used \<and> n = sa_owner d - 16) = False" by blast
  then show ?thesis
  proof cases
    case base
    with clear ne show ?thesis
      by (auto simp: shared_good_def shared_block_ok_def shared_allocation_def)
  next
    case owner
    with clear ne show ?thesis
      by (auto simp: shared_good_def shared_block_ok_def shared_allocation_def)
  next
    case other
    show ?thesis
      unfolding shared_good_def shared_block_ok_def shared_allocation_def other if_False apart ..
  qed
qed (simp add: shared_good_def shared_block_ok_def)

lemma LmSharedHeapList_success:
  assumes "shared_places_ok d"
  shows "fst (LmSharedHeapList m d used r) = Some d' \<longleftrightarrow> (\<exists>ns. shared_list_ok m used d ns \<and>
    d' = (if used then d\<lparr>sa_parentBlockTag := heap_tag m (sa_base d - 16), sa_ownerBlockTag := heap_tag m (sa_owner d - 16),
            sa_usedSignature := shared_signature m ns\<rparr>
          else d\<lparr>sa_freeSignature := shared_signature m ns\<rparr>))"
proof -
  let ?o = "if used then 0x7C else 0x74 :: u32"
  note fold = shared_fold [OF shared_places_unat(6) [OF assms]]
  define D where "D p q s c = (if used then d\<lparr>sa_parentBlockTag := p, sa_ownerBlockTag := q, sa_usedSignature := LmSharedHash s c\<rparr>
      else d\<lparr>sa_freeSignature := LmSharedHash s c\<rparr>)" for p q s c
  have "fst (LmSharedHeapList m d used r) = Some d' \<longleftrightarrow>
    (\<exists>head tail ns. m (sa_systemHeap d + ?o) = (True, head) \<and> m (sa_systemHeap d + ?o + 4) = (True, tail) \<and>
      block_list m 0 head ns tail \<and> length ns \<le> 128 \<and> (\<forall>n \<in> set ns. shared_block_ok m used d n) \<and>
      (\<exists>found p q s c. (found, p, q, s, c) = fold (shared_mark m used d) ns (0, sa_parentBlockTag d, sa_ownerBlockTag d, 2166136261, 0) \<and>
        (used \<longrightarrow> found = 3) \<and> d' = D p q s c))"
  proof -
    have steps: "walk_steps (\<lambda>n p next a b. shared_good m used d n \<and> b = shared_mark m used d n a) prev ns a b \<longleftrightarrow>
        (\<forall>n \<in> set ns. shared_block_ok m used d n) \<and> b = fold (shared_mark m used d) ns a" for prev ns a b
      by (simp only: shared_steps) (simp only: shared_good_iff [OF assms])
    show ?thesis
      unfolding LmSharedHeapList_def Let_def rd_success case_prod_beta shared.walk_success steps split_paired_Ex
        fst_conv snd_conv D_def [symmetric]
      by (rule iffI; elim exE conjE; simp; blast)
  qed
  also have "\<dots> \<longleftrightarrow> (\<exists>ns. shared_list_ok m used d ns \<and>
    d' = (if used then d\<lparr>sa_parentBlockTag := heap_tag m (sa_base d - 16), sa_ownerBlockTag := heap_tag m (sa_owner d - 16),
            sa_usedSignature := shared_signature m ns\<rparr>
          else d\<lparr>sa_freeSignature := shared_signature m ns\<rparr>))"
    unfolding D_def fold shared_list_ok_def shared_signature_def foldl_append foldl.simps
    by (cases used) (auto split: if_splits)
  finally show ?thesis .
qed

section \<open>The check accepts exactly these memories\<close>

lemma shared_owner_words_success:
  "fst (shared_owner_words m owner base heap r) = Some u \<and> fst (LmSharedMetadata m base r') = Some u' \<longleftrightarrow>
    shared_fields_ok m owner base heap"
  unfolding shared_fields_ok_def set_append ball_Un
  by (cases "m (owner + 0x30)"; cases "m (owner + 0x3C)"; cases "m (owner + 0x64)")
    (auto simp: shared_owner_words_def LmSharedMetadata_def rd_success shared_owner_offsets_def)

text \<open>The guards on the places, as the code has them.\<close>

definition shared_guards :: "u32 \<Rightarrow> u32 \<Rightarrow> u32 \<Rightarrow> u32 \<Rightarrow> u32 \<Rightarrow> bool" where
  "shared_guards heap start stop owner base \<longleftrightarrow> LmSharedRange heap 0x88 0x80000000 0x81800000 \<and>
     \<not> (start < heap + 0x88 \<or> stop > 0x81800000 \<or> \<not> LmSharedRange start 16 (heap + 0x88) stop \<or> stop AND 3 \<noteq> 0) \<and>
     \<not> (owner < start + 16 \<or> \<not> LmSharedRange owner 0x68 start stop) \<and>
     \<not> (base < start + 16 \<or> base AND 31 \<noteq> 0 \<or> \<not> LmSharedRange base LM_SHARED_ARCHIVE_SIZE start stop \<or>
         LmSharedOverlap (base - 16) (LM_SHARED_ARCHIVE_SIZE + 16) (owner - 16) 0x78)"

definition shared_descriptor :: "u32 \<Rightarrow> u32 \<Rightarrow> u32 \<Rightarrow> u32 \<Rightarrow> u32 \<Rightarrow> LmSharedArchiveDescriptor" where
  "shared_descriptor heap start stop owner base = shared_empty\<lparr>sa_owner := owner, sa_base := base,
     sa_size := LM_SHARED_ARCHIVE_SIZE, sa_systemHeap := heap, sa_systemStart := start, sa_systemEnd := stop\<rparr>"

lemma shared_guards_places:
  "shared_guards heap start stop owner base \<longleftrightarrow> shared_places_ok (shared_descriptor heap start stop owner base)"
proof -
  have aligned: "base AND 31 = 0 \<Longrightarrow> base AND 3 = 0"
  proof -
    assume "base AND 31 = 0"
    then have "(base AND 31) AND 3 = 0" by simp
    then show "base AND 3 = 0" by (simp add: and.assoc)
  qed
  have overlap: "LmSharedOverlap (base - 16) (LM_SHARED_ARCHIVE_SIZE + 16) (owner - 16) 0x78 \<longleftrightarrow>
      base - 16 < owner + 0x68 \<and> owner - 16 < base + LM_SHARED_ARCHIVE_SIZE"
  proof -
    have "(0x78 :: u32) = 0x68 + 16" "LM_SHARED_ARCHIVE_SIZE + 16 = (16 :: u32) + LM_SHARED_ARCHIVE_SIZE" by simp_all
    then show ?thesis by (simp only: LmSharedOverlap_def diff_add_cancel add.assoc [symmetric] add.commute [of "0x68" "16"])
  qed
  have heap: "unat heap + 0x88 \<le> 0x81800000 \<Longrightarrow> unat (heap + 0x88) = unat heap + 0x88"
    by (subst unat_plus_bound) simp_all
  have first: "unat start + 16 \<le> 0x81800000 \<Longrightarrow> unat (start + 16) = unat start + 16"
    by (subst unat_plus_bound) simp_all
  have apart: "unat start + 16 \<le> unat owner \<Longrightarrow> unat owner + 0x68 \<le> 0x81800000 \<Longrightarrow> unat start + 16 \<le> unat base \<Longrightarrow>
      unat base + 0x419B00 \<le> 0x81800000 \<Longrightarrow>
      \<not> (base - 16 < owner + 0x68 \<and> owner - 16 < base + LM_SHARED_ARCHIVE_SIZE) \<longleftrightarrow>
      header_extent (base - 16) LM_SHARED_ARCHIVE_SIZE \<inter> header_extent (owner - 16) 0x68 = {}"
    by (rule header_extents_apart) simp_all
  have places: "shared_places_ok (shared_descriptor heap start stop owner base) \<longleftrightarrow>
     0x80000000 \<le> unat heap \<and> heap AND 3 = 0 \<and> unat heap + 0x88 \<le> unat start \<and> start AND 3 = 0 \<and>
     unat start + 16 \<le> unat stop \<and> stop AND 3 = 0 \<and> unat stop \<le> 0x81800000 \<and>
     unat start + 16 \<le> unat owner \<and> owner AND 3 = 0 \<and> unat owner + 0x68 \<le> unat stop \<and>
     unat start + 16 \<le> unat base \<and> base AND 31 = 0 \<and> unat base + 0x419B00 \<le> unat stop \<and>
     header_extent (base - 16) LM_SHARED_ARCHIVE_SIZE \<inter> header_extent (owner - 16) 0x68 = {}"
    by (simp add: shared_places_ok_def shared_descriptor_def)
  have core: "LmSharedRange heap 0x88 0x80000000 0x81800000 \<and>
     \<not> (start < heap + 0x88 \<or> stop > 0x81800000 \<or> \<not> LmSharedRange start 16 (heap + 0x88) stop \<or> stop AND 3 \<noteq> 0) \<and>
     \<not> (owner < start + 16 \<or> \<not> LmSharedRange owner 0x68 start stop) \<and>
     \<not> (base < start + 16 \<or> base AND 31 \<noteq> 0 \<or> \<not> LmSharedRange base LM_SHARED_ARCHIVE_SIZE start stop \<or> P) \<longleftrightarrow>
     0x80000000 \<le> unat heap \<and> heap AND 3 = 0 \<and> unat heap + 0x88 \<le> unat start \<and> start AND 3 = 0 \<and>
     unat start + 16 \<le> unat stop \<and> stop AND 3 = 0 \<and> unat stop \<le> 0x81800000 \<and>
     unat start + 16 \<le> unat owner \<and> owner AND 3 = 0 \<and> unat owner + 0x68 \<le> unat stop \<and>
     unat start + 16 \<le> unat base \<and> base AND 31 = 0 \<and> unat base + 0x419B00 \<le> unat stop \<and> Q"
    if "unat start + 16 \<le> unat owner \<Longrightarrow> unat owner + 0x68 \<le> 0x81800000 \<Longrightarrow> unat start + 16 \<le> unat base \<Longrightarrow>
      unat base + 0x419B00 \<le> 0x81800000 \<Longrightarrow> \<not> P \<longleftrightarrow> Q" for P Q
    unfolding LmSharedRange_inside range_inside_unat word_less_nat_alt not_less
    using heap first that aligned by auto
  show ?thesis
    unfolding shared_guards_def overlap places by (rule core [OF apart])
qed

lemma shared_check_success:
  "fst (LmSharedArchiveCheck m r) = Some d \<longleftrightarrow>
    (\<exists>heap start stop owner base d1. (\<forall>(a, v) \<in> {(0x804A0B94, heap), (heap, 0x8038886C), (heap + 0x30, start),
        (heap + 0x34, stop), (heap + 0x38, stop - start), (0x804A12B0, owner), (owner, 0x80388D5C), (owner + 4, heap),
        (owner + 0x38, heap), (owner + 0x5C, base)}. m a = (True, v)) \<and>
      shared_guards heap start stop owner base \<and>
      (\<exists>r. fst (LmSharedHeapList m (shared_descriptor heap start stop owner base) True r) = Some d1) \<and>
      (\<exists>r. fst (LmSharedHeapList m d1 False r) = Some d) \<and> shared_fields_ok m owner base heap)" (is "?l \<longleftrightarrow> ?r")
proof
  assume ?l
  then obtain heap start stop owner base d1 r1 r2 r3 r4 where
    "m 0x804A0B94 = (True, heap)" "m heap = (True, 0x8038886C)" "m (heap + 0x30) = (True, start)" "m (heap + 0x34) = (True, stop)"
    "m (heap + 0x38) = (True, stop - start)" "m 0x804A12B0 = (True, owner)" "m owner = (True, 0x80388D5C)"
    "m (owner + 4) = (True, heap)" "m (owner + 0x38) = (True, heap)" "m (owner + 0x5C) = (True, base)"
    and "shared_guards heap start stop owner base"
    and "fst (LmSharedHeapList m (shared_descriptor heap start stop owner base) True r1) = Some d1"
    and "fst (LmSharedHeapList m d1 False r2) = Some d"
    and "fst (shared_owner_words m owner base heap r3) = Some () \<and> fst (LmSharedMetadata m base r4) = Some ()"
    unfolding LmSharedArchiveCheck_def rd_success shared_guards_def shared_descriptor_def by (elim exE conjE) simp
  then show ?r unfolding shared_owner_words_success by blast
next
  assume ?r
  then obtain heap start stop owner base d1 r1 r2 where
    m: "m 0x804A0B94 = (True, heap)" "m heap = (True, 0x8038886C)" "m (heap + 0x30) = (True, start)" "m (heap + 0x34) = (True, stop)"
    "m (heap + 0x38) = (True, stop - start)" "m 0x804A12B0 = (True, owner)" "m owner = (True, 0x80388D5C)"
    "m (owner + 4) = (True, heap)" "m (owner + 0x38) = (True, heap)" "m (owner + 0x5C) = (True, base)"
    and g: "shared_guards heap start stop owner base"
    and l: "fst (LmSharedHeapList m (shared_descriptor heap start stop owner base) True r1) = Some d1"
      "fst (LmSharedHeapList m d1 False r2) = Some d"
    and f: "shared_fields_ok m owner base heap"
    by blast
  have pl: "shared_places_ok (shared_descriptor heap start stop owner base)" using g by (simp add: shared_guards_places)
  with l(1) have pl1: "shared_places_ok d1"
    unfolding LmSharedHeapList_success [OF pl] by (auto simp: shared_places_ok_def)
  have l1: "fst (LmSharedHeapList m (shared_descriptor heap start stop owner base) True r) = Some d1" for r
    using l(1) unfolding LmSharedHeapList_success [OF pl] .
  have l2: "fst (LmSharedHeapList m d1 False r) = Some d" for r
    using l(2) unfolding LmSharedHeapList_success [OF pl1] .
  have w: "fst (shared_owner_words m owner base heap r) = Some ()" "fst (LmSharedMetadata m base r) = Some ()" for r
    using f shared_owner_words_success by blast+
  show ?l
    unfolding LmSharedArchiveCheck_def rd_success using m g l1 l2 w
    by (simp add: shared_guards_def shared_descriptor_def)
qed

text \<open>C34: The shared archive is accepted, with a descriptor, exactly when the descriptor is the one of a
  memory in which the system heap's two lists are well linked, the archive and its owner object are whole blocks
  of the used list that nothing overlaps, and the owner's fields and the archive's metadata are the known ones;
  the descriptor then carries the two block tags and the fingerprints of both lists.\<close>

theorem shared_archive_accepted:
  "LmSharedArchiveValidate (Some m) True = (True, d, 0, 0) \<longleftrightarrow> shared_archive_ok m d"
proof -
  have "LmSharedArchiveValidate (Some m) True = (True, d, 0, 0) \<longleftrightarrow> fst (LmSharedArchiveCheck m rd_start) = Some d"
    by (auto simp: LmSharedArchiveValidate_def split: option.splits prod.splits)
  also have "\<dots> \<longleftrightarrow> shared_archive_ok m d"
    unfolding shared_check_success
  proof (rule iffI, elim exE conjE)
    fix heap start stop owner base d1 r1 r2
    let ?d = "shared_descriptor heap start stop owner base"
    assume m: "\<forall>(a, v) \<in> {(0x804A0B94, heap), (heap, 0x8038886C), (heap + 0x30, start),
        (heap + 0x34, stop), (heap + 0x38, stop - start), (0x804A12B0, owner), (owner, 0x80388D5C), (owner + 4, heap),
        (owner + 0x38, heap), (owner + 0x5C, base)}. m a = (True, v)"
      and g: "shared_guards heap start stop owner base" and l1: "fst (LmSharedHeapList m ?d True r1) = Some d1"
      and l2: "fst (LmSharedHeapList m d1 False r2) = Some d" and f: "shared_fields_ok m owner base heap"
    have pl: "shared_places_ok ?d" using g by (simp add: shared_guards_places)
    from l1 obtain us where us: "shared_list_ok m True ?d us" and d1: "d1 = ?d\<lparr>sa_parentBlockTag := heap_tag m (base - 16),
        sa_ownerBlockTag := heap_tag m (owner - 16), sa_usedSignature := shared_signature m us\<rparr>"
      unfolding LmSharedHeapList_success [OF pl] by (auto simp: shared_descriptor_def)
    have pl1: "shared_places_ok d1" using pl by (simp add: d1 shared_places_ok_def)
    from l2 obtain fs where fs: "shared_list_ok m False d1 fs" and d: "d = d1\<lparr>sa_freeSignature := shared_signature m fs\<rparr>"
      unfolding LmSharedHeapList_success [OF pl1] by auto
    have sel: "sa_owner d = owner" "sa_base d = base" "sa_size d = LM_SHARED_ARCHIVE_SIZE" "sa_systemHeap d = heap"
      "sa_systemStart d = start" "sa_systemEnd d = stop" "sa_parentBlockTag d = heap_tag m (base - 16)"
      "sa_ownerBlockTag d = heap_tag m (owner - 16)" "sa_usedSignature d = shared_signature m us" "sa_freeSignature d = shared_signature m fs"
      by (simp_all add: d d1 shared_descriptor_def)
    have pld: "shared_places_ok d" using pl by (simp add: d d1 shared_places_ok_def)
    have lists: "shared_list_ok m True d us" "shared_list_ok m False d fs"
      using us fs unfolding d d1 shared_list_ok_def shared_block_ok_def by simp_all
    show "shared_archive_ok m d"
      unfolding shared_archive_ok_def sel using pld m lists f by blast
  next
    assume ok: "shared_archive_ok m d"
    then obtain us fs where us: "shared_list_ok m True d us" and fs: "shared_list_ok m False d fs"
      and sig: "sa_usedSignature d = shared_signature m us" "sa_freeSignature d = shared_signature m fs"
      and tags: "sa_parentBlockTag d = heap_tag m (sa_base d - 16)" "sa_ownerBlockTag d = heap_tag m (sa_owner d - 16)"
      and pld: "shared_places_ok d" and sz: "sa_size d = LM_SHARED_ARCHIVE_SIZE"
      unfolding shared_archive_ok_def by blast
    let ?d = "shared_descriptor (sa_systemHeap d) (sa_systemStart d) (sa_systemEnd d) (sa_owner d) (sa_base d)"
    let ?d1 = "?d\<lparr>sa_parentBlockTag := heap_tag m (sa_base d - 16), sa_ownerBlockTag := heap_tag m (sa_owner d - 16),
      sa_usedSignature := shared_signature m us\<rparr>"
    have pl: "shared_places_ok ?d" and pl1: "shared_places_ok ?d1"
      using pld by (simp_all add: shared_places_ok_def shared_descriptor_def)
    have us': "shared_list_ok m True ?d us" and fs': "shared_list_ok m False ?d1 fs"
      using us fs unfolding shared_list_ok_def shared_block_ok_def by (simp_all add: shared_descriptor_def)
    have "fst (LmSharedHeapList m ?d True rd_start) = Some ?d1"
      unfolding LmSharedHeapList_success [OF pl] using us' by (auto simp: shared_descriptor_def)
    moreover have "fst (LmSharedHeapList m ?d1 False rd_start) = Some d"
      unfolding LmSharedHeapList_success [OF pl1]
      by (rule exI [of _ fs]) (use fs' sig tags sz in \<open>simp add: shared_descriptor_def shared_empty_def\<close>)
    moreover have "shared_guards (sa_systemHeap d) (sa_systemStart d) (sa_systemEnd d) (sa_owner d) (sa_base d)"
      using pl by (simp only: shared_guards_places)
    ultimately show "\<exists>heap start stop owner base d1. (\<forall>(a, v) \<in> {(0x804A0B94, heap), (heap, 0x8038886C), (heap + 0x30, start),
        (heap + 0x34, stop), (heap + 0x38, stop - start), (0x804A12B0, owner), (owner, 0x80388D5C), (owner + 4, heap),
        (owner + 0x38, heap), (owner + 0x5C, base)}. m a = (True, v)) \<and>
      shared_guards heap start stop owner base \<and>
      (\<exists>r. fst (LmSharedHeapList m (shared_descriptor heap start stop owner base) True r) = Some d1) \<and>
      (\<exists>r. fst (LmSharedHeapList m d1 False r) = Some d) \<and> shared_fields_ok m owner base heap"
      using ok unfolding shared_archive_ok_def by blast
  qed
  finally show ?thesis .
qed

section \<open>What the archive guard decides\<close>

lemma reason_bits:
  fixes a b c d e f g :: bool
  shows "(if a then 0x01 else 0 :: u32) OR (if b then 0x02 else 0) OR (if c then 0x04 else 0) OR (if d then 0x08 else 0) OR
    (if e then 0x10 else 0) OR (if f then 0x20 else 0) OR (if g then 0x40 else 0) = 0 \<longleftrightarrow> \<not> (a \<or> b \<or> c \<or> d \<or> e \<or> f \<or> g)"
  by (simp only: or_eq_0_iff) auto

lemma archive_range_guard:
  "\<not> (len < 0x20 \<or> len = 0 \<or> len > 0x01800000 \<or> h < 0x80000000 \<or> h > 0x81800000 - len \<or> h < gs \<or> h + len > ge) \<longleftrightarrow>
    0x20 \<le> unat len \<and> 0x80000000 \<le> unat h \<and> unat h + unat len \<le> 0x81800000 \<and> unat gs \<le> unat h \<and> unat h + unat len \<le> unat ge"
  for len h gs ge :: u32
proof (cases "unat len \<le> 0x01800000")
  case True
  then have "unat (0x81800000 - len) = 0x81800000 - unat len"
    by (subst unat_minus_le) (simp_all add: word_le_nat_alt)
  moreover have "unat h + unat len \<le> 0x81800000 \<Longrightarrow> unat (h + len) = unat h + unat len"
    by (rule unat_plus_bound) simp
  ultimately show ?thesis
    using True by (auto simp: word_less_nat_alt unat_eq_0 [symmetric])
qed (auto simp: word_less_nat_alt)

lemma LmSharedArchiveContains_unat:
  "LmSharedArchiveContains (Some p) b sz \<longleftrightarrow>
    sa_size p = LM_SHARED_ARCHIVE_SIZE \<and> sa_base p AND 3 = 0 \<and> 0x80000000 \<le> unat (sa_base p) \<and>
    unat (sa_base p) + 0x419B00 \<le> 0x81800000 \<and> b AND 31 = 0 \<and> sz AND 31 = 0 \<and> 0x20 \<le> unat sz \<and>
    unat (sa_base p) + 0x6E20 \<le> unat b \<and> unat b + unat sz \<le> unat (sa_base p) + 0x419B00"
proof (cases "sa_size p = LM_SHARED_ARCHIVE_SIZE \<and> unat (sa_base p) + 0x419B00 \<le> 0x81800000")
  case True
  then have "unat (sa_base p + LM_SHARED_ARCHIVE_DATA_OFFSET) = unat (sa_base p) + 0x6E20"
    "unat (sa_base p + LM_SHARED_ARCHIVE_SIZE) = unat (sa_base p) + 0x419B00"
    by (subst unat_plus_bound; simp)+
  moreover have "b AND 3 = 0" if "b AND 31 = 0"
  proof -
    from that have "(b AND 31) AND 3 = 0" by simp
    then show ?thesis by (simp add: and.assoc)
  qed
  ultimately show ?thesis
    using True by (auto simp: LmSharedArchiveContains_def LmSharedRange_inside range_inside_unat word_le_nat_alt)
qed (auto simp: LmSharedArchiveContains_def LmSharedRange_inside range_inside_unat)

text \<open>The archive guard has no complaint exactly about the entries whose file lies, without wrapping around,
  inside both the game heap and main memory and whose fields are in order; and the exception for archives mounted
  inside the shared archive is granted exactly to files that lie in the data part of the parent.\<close>

theorem archive_guard_decides:
  "(LmArchiveGuardReasons e gs ge vt = 0 \<longleftrightarrow>
      ge_vtable e = vt \<and> ge_node e = ge_object e + 0x18 \<and> drop_bit 8 (ge_ownerFlags e) AND 15 = 1 \<and>
      drop_bit 12 (ge_ownerFlags e) AND 15 = 1 \<and> ge_stateFlags e AND 0x106 = 0x106 \<and> 0x20 \<le> unat (ge_fileLength e) \<and>
      0x80000000 \<le> unat (ge_archiveHeader e) \<and> unat (ge_archiveHeader e) + unat (ge_fileLength e) \<le> 0x81800000 \<and>
      unat gs \<le> unat (ge_archiveHeader e) \<and> unat (ge_archiveHeader e) + unat (ge_fileLength e) \<le> unat ge) \<and>
   (LmArchiveGuardSharedBackingAllowed (Some e) objectOwnerHeap archiveHeap type mountSource gameHeap (Some p) \<longleftrightarrow>
      gameHeap \<noteq> sa_systemHeap p \<and> objectOwnerHeap = gameHeap \<and> archiveHeap = sa_systemHeap p \<and> type = 0x52415243 \<and>
      mountSource = ge_archiveHeader e \<and> ge_ownerFlags e AND 0xFFFF = 0x2121 \<and> drop_bit 16 (ge_stateFlags e) AND 15 = 1 \<and>
      ge_stateFlags e AND 0x01000000 \<noteq> 0 \<and> sa_size p = LM_SHARED_ARCHIVE_SIZE \<and> sa_base p AND 3 = 0 \<and>
      0x80000000 \<le> unat (sa_base p) \<and> unat (sa_base p) + 0x419B00 \<le> 0x81800000 \<and>
      ge_archiveHeader e AND 31 = 0 \<and> ge_fileLength e AND 31 = 0 \<and> 0x20 \<le> unat (ge_fileLength e) \<and>
      unat (sa_base p) + 0x6E20 \<le> unat (ge_archiveHeader e) \<and>
      unat (ge_archiveHeader e) + unat (ge_fileLength e) \<le> unat (sa_base p) + 0x419B00)" (is "?a \<and> ?b")
proof
  show ?a
    unfolding LmArchiveGuardReasons_def reason_bits
    using archive_range_guard [of "ge_fileLength e" "ge_archiveHeader e" gs ge] by blast
  show ?b
    unfolding LmArchiveGuardSharedBackingAllowed_def option.case prod.case LmSharedArchiveContains_unat by blast
qed

end
