(* ===== verification/Grain.thy ===== *)
theory Grain
  imports Reader "HOL-Library.Multiset"
begin

text \<open>
  The guard of the two grain (particle) managers, \<open>include/susamune/lm_grain_state.h\<close>: every slot of the
  controller and particle pools is on exactly one of the circular lists.  The loop along a list has no counter;
  that it ends is a theorem.
\<close>

section \<open>The code\<close>

abbreviation LM_GRAIN_MANAGER :: u32 where "LM_GRAIN_MANAGER \<equiv> 0x803CBF48"
abbreviation LM_GRAIN_SMALL_MANAGER :: u32 where "LM_GRAIN_SMALL_MANAGER \<equiv> 0x803CBAF0"
abbreviation LM_GRAIN_SMALL_CONTROLLER_COUNT :: u32 where "LM_GRAIN_SMALL_CONTROLLER_COUNT \<equiv> 15"
abbreviation LM_GRAIN_CONTROLLER_COUNT :: u32 where "LM_GRAIN_CONTROLLER_COUNT \<equiv> 80"
abbreviation LM_GRAIN_CONTROLLER_STRIDE :: u32 where "LM_GRAIN_CONTROLLER_STRIDE \<equiv> 0x1B8"
abbreviation LM_GRAIN_PARTICLE_COUNT :: u32 where "LM_GRAIN_PARTICLE_COUNT \<equiv> 1500"
abbreviation LM_GRAIN_PARTICLE_STRIDE :: u32 where "LM_GRAIN_PARTICLE_STRIDE \<equiv> 0x54"

definition LM_GRAIN_CONTROLLER_POOL_SIZE :: u32 where
  "LM_GRAIN_CONTROLLER_POOL_SIZE = LM_GRAIN_CONTROLLER_COUNT * LM_GRAIN_CONTROLLER_STRIDE"

definition LM_GRAIN_SMALL_CONTROLLER_POOL_SIZE :: u32 where
  "LM_GRAIN_SMALL_CONTROLLER_POOL_SIZE = (LM_GRAIN_SMALL_CONTROLLER_COUNT * LM_GRAIN_CONTROLLER_STRIDE + 31) AND NOT 31"

definition LM_GRAIN_PARTICLE_POOL_SIZE :: u32 where
  "LM_GRAIN_PARTICLE_POOL_SIZE = (LM_GRAIN_PARTICLE_COUNT * LM_GRAIN_PARTICLE_STRIDE + 31) AND NOT 31"

text \<open>A check that may also not return, which is \<open>None\<close>.\<close>

type_synonym 'a grain_check = "reader \<Rightarrow> ('a option \<times> reader) option"

definition grain_do :: "'a chk \<Rightarrow> 'a grain_check" where
  "grain_do c = (\<lambda>r. Some (c r))"

definition grain_bind :: "'a grain_check \<Rightarrow> ('a \<Rightarrow> 'b grain_check) \<Rightarrow> 'b grain_check" where
  "grain_bind c f = (\<lambda>r. case c r of None \<Rightarrow> None | Some (None, r') \<Rightarrow> Some (None, r') | Some (Some x, r') \<Rightarrow> f x r')"

definition LmGrainRead :: "memory \<Rightarrow> u32 \<Rightarrow> u32 chk" where
  "LmGrainRead m address = rd_word m address"

definition LmGrainExpected :: "memory \<Rightarrow> u32 \<Rightarrow> u32 \<Rightarrow> unit chk" where
  "LmGrainExpected m address expected = rd_bind (LmGrainRead m address) (\<lambda>v. rd_check (v = expected) (rd_return ()))"

text \<open>The array of seen bits, a word for 32 slots.\<close>

definition grain_seen :: "u32 list \<Rightarrow> u32 \<Rightarrow> bool" where
  "grain_seen seen index \<longleftrightarrow> seen ! unat (drop_bit 5 index) AND push_bit (unat (index AND 31)) 1 \<noteq> 0"

definition grain_see :: "u32 list \<Rightarrow> u32 \<Rightarrow> u32 list" where
  "grain_see seen index = (let w = unat (drop_bit 5 index) in
     seen[w := seen ! w OR push_bit (unat (index AND 31)) 1])"

text \<open>The loop from \<open>node\<close>, which is \<open>reader->value\<close>, up to the final comparison.\<close>

partial_function (option) grain_loop :: "memory \<Rightarrow> u32 \<Rightarrow> u32 \<Rightarrow> u32 \<Rightarrow> u32 \<Rightarrow> u32 \<Rightarrow> u32 \<Rightarrow> u32 \<Rightarrow> u32 \<Rightarrow> u32 list \<Rightarrow> u32 \<Rightarrow>
    reader \<Rightarrow> ((u32 list \<times> u32) option \<times> reader) option" where
  "grain_loop m sentinel pool slots stride nextOffset previousOffset node previous seen visited r =
     (if node = sentinel then
        Some (rd_bind (LmGrainExpected m (sentinel + previousOffset) previous) (\<lambda>_. rd_return (seen, visited)) r)
      else if node < pool \<or> node - pool \<ge> slots * stride \<or> (node - pool) mod stride \<noteq> 0 then Some (None, r)
      else if grain_seen seen ((node - pool) div stride) then Some (None, r)
      else (case LmGrainExpected m (node + previousOffset) previous r of
          (None, r') \<Rightarrow> Some (None, r')
        | (Some u, r') \<Rightarrow> (case LmGrainRead m (node + nextOffset) r' of
            (None, r'') \<Rightarrow> Some (None, r'')
          | (Some value, r'') \<Rightarrow>
              grain_loop m sentinel pool slots stride nextOffset previousOffset value node
                (grain_see seen ((node - pool) div stride)) (visited + 1) r'')))"

definition LmGrainList :: "memory \<Rightarrow> u32 \<Rightarrow> u32 \<Rightarrow> u32 \<Rightarrow> u32 \<Rightarrow> u32 \<Rightarrow> u32 \<Rightarrow> u32 list \<Rightarrow> u32 \<Rightarrow> (u32 list \<times> u32) grain_check" where
  "LmGrainList m sentinel pool slots stride nextOffset previousOffset seen visited =
     grain_bind (grain_do (LmGrainRead m (sentinel + nextOffset))) (\<lambda>node.
     grain_loop m sentinel pool slots stride nextOffset previousOffset node sentinel seen visited)"

text \<open>The loop over the controllers, from \<open>i\<close> on, \<open>n\<close> of them.\<close>

fun grain_controllers :: "memory \<Rightarrow> u32 \<Rightarrow> u32 \<Rightarrow> u32 \<Rightarrow> nat \<Rightarrow> u32 list \<Rightarrow> u32 \<Rightarrow> (u32 list \<times> u32) grain_check" where
  "grain_controllers m controllers particles i 0 seen visited = grain_do (rd_return (seen, visited))"
| "grain_controllers m controllers particles i (Suc n) seen visited =
     (let node = controllers + i * LM_GRAIN_CONTROLLER_STRIDE in
     grain_bind (grain_do (LmGrainExpected m (node + 0x94) (node + 0x40))) (\<lambda>_.
     grain_bind (LmGrainList m (node + 0x40) particles LM_GRAIN_PARTICLE_COUNT LM_GRAIN_PARTICLE_STRIDE 0x4C 0x50 seen visited)
       (\<lambda>(seen, visited). grain_controllers m controllers particles (i + 1) n seen visited)))"

definition LmGrainManagerValid :: "memory \<Rightarrow> u32 \<Rightarrow> u32 \<Rightarrow> u32 \<Rightarrow> u32 \<Rightarrow> unit grain_check" where
  "LmGrainManagerValid m manager controllers controllerCount particles =
     (let controllerSeen = replicate ((unat LM_GRAIN_CONTROLLER_COUNT + 31) div 32) 0;
          particleSeen = replicate ((unat LM_GRAIN_PARTICLE_COUNT + 31) div 32) 0 in
     grain_bind (grain_do (LmGrainExpected m (manager + 0x60) (manager + 0xC))) (\<lambda>_.
     grain_bind (grain_do (LmGrainExpected m (manager + 0x21C) (manager + 0x64))) (\<lambda>_.
     grain_bind (grain_do (LmGrainExpected m (manager + 0x3D8) (manager + 0x220))) (\<lambda>_.
     grain_bind (LmGrainList m (manager + 0x64) controllers controllerCount LM_GRAIN_CONTROLLER_STRIDE 0x140 0x144
       controllerSeen 0) (\<lambda>(controllerSeen, controllerVisited).
     grain_bind (LmGrainList m (manager + 0x220) controllers controllerCount LM_GRAIN_CONTROLLER_STRIDE 0x140 0x144
       controllerSeen controllerVisited) (\<lambda>(controllerSeen, controllerVisited).
     grain_bind (grain_do (if controllerVisited \<noteq> controllerCount
       then rd_note manager controllerVisited (rd_check False (rd_return ())) else rd_return ())) (\<lambda>_.
     grain_bind (LmGrainList m (manager + 0xC) particles LM_GRAIN_PARTICLE_COUNT LM_GRAIN_PARTICLE_STRIDE 0x4C 0x50
       particleSeen 0) (\<lambda>(particleSeen, particleVisited).
     grain_bind (grain_controllers m controllers particles 0 (unat controllerCount) particleSeen particleVisited)
       (\<lambda>(particleSeen, particleVisited).
     grain_do (if particleVisited \<noteq> LM_GRAIN_PARTICLE_COUNT
       then rd_note (manager + 4) particleVisited (rd_check False (rd_return ())) else rd_return ()))))))))))"

text \<open>The loop over the four pools: each is read from its manager and must lie in the heap, off the managers
  and off the pools before it.\<close>

fun grain_pools :: "memory \<Rightarrow> u32 \<Rightarrow> u32 \<Rightarrow> nat \<Rightarrow> u32 list \<Rightarrow> (u32 \<times> u32) list \<Rightarrow> (u32 \<times> u32) list chk" where
  "grain_pools m gameStart gameEnd i [] pools = rd_return pools"
| "grain_pools m gameStart gameEnd i (sz # sizes) pools =
     (let manager = (if i < 2 then LM_GRAIN_SMALL_MANAGER else LM_GRAIN_MANAGER) in
     rd_bind (LmGrainRead m (manager + of_nat (i mod 2) * 4)) (\<lambda>pool.
     rd_check (\<not> (pool AND 3 \<noteq> 0 \<or> pool < gameStart \<or> pool > gameEnd \<or> sz > gameEnd - pool)) (
     rd_check (\<not> (pool < 0x803CC460 \<and> pool + sz > LM_GRAIN_SMALL_MANAGER)) (
     rd_check (list_all (\<lambda>(p, s). \<not> (pool < p + s \<and> p < pool + sz)) pools) (
     grain_pools m gameStart gameEnd (i + 1) sizes (pools @ [(pool, sz)]))))))"

definition LmGrainCheck :: "memory \<Rightarrow> u32 \<Rightarrow> u32 \<Rightarrow> unit grain_check" where
  "LmGrainCheck m gameStart gameEnd =
     grain_bind (grain_do (rd_check (\<not> (gameStart < 0x80003100 \<or> gameEnd > 0x81800000 \<or> gameStart \<ge> gameEnd \<or>
       (gameStart OR gameEnd) AND 3 \<noteq> 0)) (rd_return ()))) (\<lambda>_.
     grain_bind (grain_do (grain_pools m gameStart gameEnd 0 [LM_GRAIN_SMALL_CONTROLLER_POOL_SIZE,
       LM_GRAIN_PARTICLE_POOL_SIZE, LM_GRAIN_CONTROLLER_POOL_SIZE, LM_GRAIN_PARTICLE_POOL_SIZE] [])) (\<lambda>pools.
     grain_bind (LmGrainManagerValid m LM_GRAIN_SMALL_MANAGER (fst (pools ! 0)) LM_GRAIN_SMALL_CONTROLLER_COUNT (fst (pools ! 1))) (\<lambda>_.
     LmGrainManagerValid m LM_GRAIN_MANAGER (fst (pools ! 2)) LM_GRAIN_CONTROLLER_COUNT (fst (pools ! 3)))))"

definition LmGrainValidate :: "memory option \<Rightarrow> u32 \<Rightarrow> u32 \<Rightarrow> (bool \<times> u32 \<times> u32) option" where
  "LmGrainValidate readWord gameStart gameEnd =
     (case readWord of
        None \<Rightarrow> Some (False, gameStart, gameEnd)
      | Some m \<Rightarrow> map_option rd_report (LmGrainCheck m gameStart gameEnd \<lparr>rd_address = gameStart, rd_value = gameEnd\<rparr>))"

section \<open>What is accepted\<close>

text \<open>A circular list through \<open>s\<close>: the blocks \<open>ns\<close> from \<open>node\<close> on, coming from \<open>prev\<close>.\<close>

fun ring_from :: "memory \<Rightarrow> u32 \<Rightarrow> u32 \<Rightarrow> u32 \<Rightarrow> u32 \<Rightarrow> u32 \<Rightarrow> u32 list \<Rightarrow> bool" where
  "ring_from m s nx pv prev node [] \<longleftrightarrow> node = s \<and> m (s + pv) = (True, prev)"
| "ring_from m s nx pv prev node (n # ns) \<longleftrightarrow> node \<noteq> s \<and> n = node \<and> m (n + pv) = (True, prev) \<and>
     (\<exists>next. m (n + nx) = (True, next) \<and> ring_from m s nx pv n next ns)"

definition ring :: "memory \<Rightarrow> u32 \<Rightarrow> u32 \<Rightarrow> u32 \<Rightarrow> u32 list \<Rightarrow> bool" where
  "ring m s nx pv ns \<longleftrightarrow> (\<exists>node. m (s + nx) = (True, node) \<and> ring_from m s nx pv s node ns)"

definition grain_slot :: "u32 \<Rightarrow> u32 \<Rightarrow> nat \<Rightarrow> u32" where
  "grain_slot pool stride i = pool + of_nat i * stride"

section \<open>Checks that may not return\<close>

text \<open>The check returns, and succeeds with exactly the \<open>x\<close> that satisfy \<open>P\<close>.\<close>

definition grain_result :: "'a grain_check \<Rightarrow> ('a \<Rightarrow> bool) \<Rightarrow> bool" where
  "grain_result c P \<longleftrightarrow> (\<forall>r. \<exists>y r'. c r = Some (y, r') \<and> (\<forall>x. y = Some x \<longleftrightarrow> P x))"

named_theorems grain_rules

lemma grain_result_do [grain_rules]: "(\<And>r x. fst (c r) = Some x \<longleftrightarrow> P x) \<Longrightarrow> grain_result (grain_do c) P"
  unfolding grain_result_def grain_do_def by (metis prod.collapse)

lemma grain_result_cong: "grain_result c P \<Longrightarrow> (\<And>x. P x \<longleftrightarrow> Q x) \<Longrightarrow> grain_result c Q"
  by (simp add: grain_result_def)

lemma grain_result_bind:
  assumes "grain_result c P" and "\<And>x. P x \<Longrightarrow> grain_result (f x) (Q x)"
  shows "grain_result (grain_bind c f) (\<lambda>z. \<exists>x. P x \<and> Q x z)"
  unfolding grain_result_def
proof
  fix r
  obtain y r' where y: "c r = Some (y, r')" "\<And>x. y = Some x \<longleftrightarrow> P x"
    using assms(1) unfolding grain_result_def by blast
  show "\<exists>z r''. grain_bind c f r = Some (z, r'') \<and> (\<forall>x. z = Some x \<longleftrightarrow> (\<exists>w. P w \<and> Q w x))"
  proof (cases y)
    case None
    with y show ?thesis by (auto simp: grain_bind_def)
  next
    case (Some w)
    then have "P w" "\<And>w'. P w' \<Longrightarrow> w' = w" using y(2) by (metis option.inject)+
    note w = this
    from this(1) assms(2) obtain z r'' where z: "f w r' = Some (z, r'')" "\<And>x. z = Some x \<longleftrightarrow> Q w x"
      unfolding grain_result_def by blast
    have "(\<exists>w'. P w' \<and> Q w' x) \<longleftrightarrow> Q w x" for x
    proof
      assume "\<exists>w'. P w' \<and> Q w' x"
      then obtain w' where "P w'" "Q w' x" by blast
      with w(2) [of w'] show "Q w x" by simp
    qed (use w(1) in blast)
    then show ?thesis using y(1) Some z by (simp add: grain_bind_def)
  qed
qed

lemma grain_result_bind_any:
  assumes "grain_result c (\<lambda>x. \<exists>a. P a x)" and "\<And>a x. P a x \<Longrightarrow> grain_result (f x) (Q a x)"
  shows "grain_result (grain_bind c f) (\<lambda>z. \<exists>a x. P a x \<and> Q a x z)"
proof -
  have "grain_result (grain_bind c f) (\<lambda>z. \<exists>x. (\<exists>a. P a x) \<and> (\<exists>a. P a x \<and> Q a x z))"
  proof (rule grain_result_bind [OF assms(1)], elim exE)
    fix x a
    assume a: "P a x"
    have "(\<exists>b. P b x \<and> Q b x z) \<longleftrightarrow> Q a x z" for z
    proof
      assume "\<exists>b. P b x \<and> Q b x z"
      then obtain b where b: "P b x" "Q b x z" by blast
      obtain y r' where "f x undefined = Some (y, r')" "y = Some z"
        using assms(2) [OF b(1)] b(2) unfolding grain_result_def by metis
      moreover obtain y' r'' where "f x undefined = Some (y', r'')" "\<And>z. y' = Some z \<longleftrightarrow> Q a x z"
        using assms(2) [OF a] unfolding grain_result_def by metis
      ultimately show "Q a x z" by simp
    qed (use a in blast)
    then show "grain_result (f x) (\<lambda>z. \<exists>a. P a x \<and> Q a x z)"
      using assms(2) [OF a] by (simp add: grain_result_def)
  qed
  then show ?thesis by (rule grain_result_cong) blast
qed

lemma grain_expected_eq:
  "LmGrainExpected m a v r = (if m a = (True, v) then Some () else None, \<lparr>rd_address = a, rd_value = snd (m a)\<rparr>)"
  by (cases "m a") (auto simp: LmGrainExpected_def LmGrainRead_def rd_word_def rd_bind_def rd_check_def rd_return_def)

lemma grain_read_eq:
  "LmGrainRead m a r = (if fst (m a) then Some (snd (m a)) else None, \<lparr>rd_address = a, rd_value = snd (m a)\<rparr>)"
  by (simp add: LmGrainRead_def rd_word_def)

section \<open>The loop along a list\<close>

definition grain_marked :: "u32 list \<Rightarrow> nat \<Rightarrow> bool" where
  "grain_marked seen i \<longleftrightarrow> bit (seen ! (i div 32)) (i mod 32)"

lemma grain_index:
  assumes "i < 2 ^ 32"
  shows "unat (drop_bit 5 (of_nat i :: u32)) = i div 32" "unat (of_nat i AND 31 :: u32) = i mod 32"
proof -
  have i: "unat (of_nat i :: u32) = i" using assms by (simp add: unat_of_nat take_bit_nat_eq_self)
  show "unat (drop_bit 5 (of_nat i :: u32)) = i div 32"
    using assms by (simp only: unsigned_drop_bit_eq i) (simp add: drop_bit_eq_div [where 'a = nat] take_bit_nat_eq_self)
  have "(31 :: u32) = mask 5" by (simp add: mask_eq_exp_minus_1)
  then show "unat (of_nat i AND 31 :: u32) = i mod 32"
    by (simp only: take_bit_eq_mask [symmetric] unsigned_take_bit_eq i) (simp add: take_bit_eq_mod)
qed

lemma grain_seen_marked: "i < 2 ^ 32 \<Longrightarrow> grain_seen seen (of_nat i) \<longleftrightarrow> grain_marked seen i"
proof -
  assume "i < 2 ^ 32"
  then show ?thesis
    by (simp only: grain_seen_def grain_marked_def grain_index single_bit_and mod_less_divisor zero_less_numeral)
qed

lemma grain_see_marked:
  assumes "i < 2 ^ 32" "i div 32 < length seen"
  shows "grain_marked (grain_see seen (of_nat i)) j \<longleftrightarrow> j = i \<or> grain_marked seen j"
proof (cases "j div 32 = i div 32")
  case True
  then have "j = i \<longleftrightarrow> j mod 32 = i mod 32" by (metis div_mult_mod_eq)
  then show ?thesis
    using True assms(2)
    by (simp only: grain_marked_def grain_see_def Let_def grain_index [OF assms(1)]) (auto simp: bit_or_iff single_bit simp del: push_bit_of_1)
next
  case False
  then show ?thesis
    by (simp only: grain_marked_def grain_see_def Let_def grain_index [OF assms(1)]) auto
qed

lemma length_grain_see [simp]: "length (grain_see seen i) = length seen"
  by (simp add: grain_see_def Let_def)

lemma grain_slot_index:
  assumes "unat pool + n * unat stride < 2 ^ 32" "i < n" "0 < unat stride"
  shows "unat (grain_slot pool stride i) = unat pool + i * unat stride"
    and "(grain_slot pool stride i - pool) div stride = of_nat i" and "i < 2 ^ 32"
proof -
  have le: "i * unat stride \<le> n * unat stride" using assms(2) by simp
  then have b: "unat pool + i * unat stride < 2 ^ 32" using assms(1) by linarith
  have "i * 1 \<le> i * unat stride" using assms(3) by (intro mult_le_mono2) simp
  then show i: "i < 2 ^ 32" using b by linarith
  have w: "of_nat i * stride = (of_nat (i * unat stride) :: u32)" by simp
  have u: "unat (of_nat (i * unat stride) :: u32) = i * unat stride"
    using b by (subst unsigned_of_nat, subst take_bit_nat_eq_self) simp_all
  show "unat (grain_slot pool stride i) = unat pool + i * unat stride"
    unfolding grain_slot_def w by (subst unat_plus_bound) (use b in \<open>simp_all only: u\<close>)
  have "unat ((grain_slot pool stride i - pool) div stride) = i"
    unfolding grain_slot_def w by (simp only: add_diff_cancel_left' unat_div u) (use assms(3) in simp)
  then show "(grain_slot pool stride i - pool) div stride = of_nat i" by (metis of_nat_unat ucast_id)
qed

lemma grain_slot_iff:
  assumes fit: "unat pool + unat slots * unat stride < 2 ^ 32" "0 < unat stride"
  shows "(\<exists>i < unat slots. node = grain_slot pool stride i) \<longleftrightarrow>
    \<not> (node < pool \<or> node - pool \<ge> slots * stride \<or> (node - pool) mod stride \<noteq> 0)" (is "?l \<longleftrightarrow> \<not> ?r")
proof -
  have prod: "unat (slots * stride) = unat slots * unat stride"
    using fit(1) by (simp add: unat_word_ariths)
  show ?thesis
  proof
    assume ?l
    then obtain i where i: "i < unat slots" "node = grain_slot pool stride i" by blast
    note u = grain_slot_index(1) [OF fit(1) i(1) fit(2)]
    then have d: "unat (node - pool) = i * unat stride"
      by (subst unat_minus_le) (simp_all add: i(2) word_le_nat_alt)
    have "i * unat stride < unat slots * unat stride" using i(1) fit(2) by simp
    moreover have "unat ((node - pool) mod stride) = 0" by (simp add: unat_mod d)
    moreover have "unat pool \<le> unat node" using u i(2) by simp
    ultimately show "\<not> ?r" by (simp add: word_less_nat_alt word_le_nat_alt prod d unat_eq_0 del: unat_mod)
  next
    assume r: "\<not> ?r"
    then have le: "unat pool \<le> unat node" by (simp add: word_less_nat_alt)
    then have d: "unat (node - pool) = unat node - unat pool" by (simp add: unat_minus_le word_le_nat_alt)
    have small: "unat (node - pool) < unat slots * unat stride" using r by (simp add: word_le_nat_alt prod)
    have "unat (node - pool) mod unat stride = 0" using r by (metis unat_0 unat_mod)
    then have q: "unat (node - pool) = (unat (node - pool) div unat stride) * unat stride" by auto
    have lt: "unat (node - pool) div unat stride < unat slots" using small by (simp add: less_mult_imp_div_less)
    have "unat (grain_slot pool stride (unat (node - pool) div unat stride)) = unat node"
      using grain_slot_index(1) [OF fit(1) lt fit(2)] q d le by linarith
    then show ?l using lt by (metis word_unat_eq_iff)
  qed
qed

text \<open>What the loop returns: the indices \<open>js\<close> of the slots on the list.\<close>

definition grain_listed :: "memory \<Rightarrow> u32 \<Rightarrow> u32 \<Rightarrow> nat \<Rightarrow> u32 \<Rightarrow> u32 \<Rightarrow> u32 \<Rightarrow> u32 \<Rightarrow> u32 \<Rightarrow> u32 list \<Rightarrow> u32 \<Rightarrow> nat list \<Rightarrow> u32 list \<times> u32 \<Rightarrow> bool" where
  "grain_listed m s pool n stride nx pv prev node seen v js x \<longleftrightarrow>
     ring_from m s nx pv prev node (map (grain_slot pool stride) js) \<and> distinct js \<and>
     (\<forall>i \<in> set js. i < n \<and> \<not> grain_marked seen i) \<and>
     x = (fold (\<lambda>i seen. grain_see seen (of_nat i)) js seen, v + of_nat (length js))"

lemma grain_loop_result:
  assumes fit: "unat pool + unat slots * unat stride < 2 ^ 32" "0 < unat stride" and "unat slots \<le> 32 * length seen"
  shows "grain_result (grain_loop m s pool slots stride nx pv node prev seen v)
    (\<lambda>x. \<exists>js. grain_listed m s pool (unat slots) stride nx pv prev node seen v js x)"
  using assms(3)
proof (induction "card {i. i < unat slots \<and> \<not> grain_marked seen i}" arbitrary: node prev seen v rule: less_induct)
  case less
  note loop = grain_loop.simps [of m s pool slots stride nx pv node prev seen v]
  note no = grain_slot_iff [OF fit, of node]
  show ?case
  proof (cases "node = s")
    case True
    have nil: "ring_from m s nx pv prev s (map (grain_slot pool stride) js) \<longleftrightarrow> js = [] \<and> m (s + pv) = (True, prev)" for js
      by (cases js) auto
    have "(\<exists>js. grain_listed m s pool (unat slots) stride nx pv prev s seen v js x) \<longleftrightarrow>
        m (s + pv) = (True, prev) \<and> x = (seen, v)" for x
      by (auto simp: grain_listed_def nil)
    then show ?thesis
      by (auto simp: True grain_result_def loop [unfolded True] rd_bind_def rd_return_def grain_expected_eq)
  next
    case ne: False
    show ?thesis
    proof (cases "\<exists>i < unat slots. node = grain_slot pool stride i")
      case False
      then have "\<not> grain_listed m s pool (unat slots) stride nx pv prev node seen v js x" for js x
        using ne by (cases js) (auto simp: grain_listed_def)
      with False ne show ?thesis
        unfolding grain_result_def no by (simp add: loop)
    next
      case True
      then obtain i where i: "i < unat slots" "node = grain_slot pool stride i" by blast
      have slot: "\<not> (node < pool \<or> node - pool \<ge> slots * stride \<or> (node - pool) mod stride \<noteq> 0)" using True no by blast
      note ix = grain_slot_index [OF fit(1) i(1) fit(2)]
      have index: "(node - pool) div stride = of_nat i" using ix(2) i(2) by simp
      have inj: "j = i" if "j < unat slots" "grain_slot pool stride j = node" for j
        using ix(1) grain_slot_index(1) [OF fit(1) that(1) fit(2)] that(2) i(2) fit(2) by simp
      note seen_eq = grain_seen_marked [OF ix(3), of seen]
      let ?seen = "grain_see seen (of_nat i)"
      show ?thesis
      proof (cases "grain_marked seen i")
        case True
        then have "\<not> grain_listed m s pool (unat slots) stride nx pv prev node seen v js x" for js x
          using ne inj by (cases js) (auto simp: grain_listed_def)
        with True show ?thesis
          unfolding grain_result_def using ne slot by (simp add: loop index seen_eq)
      next
        case False
        have "i div 32 < length seen" using i(1) less.prems by (simp add: div_less_iff_less_mult mult.commute)
        note see = grain_see_marked [OF ix(3) this]
        have "{j. j < unat slots \<and> \<not> grain_marked ?seen j} \<subset> {j. j < unat slots \<and> \<not> grain_marked seen j}"
          using False i(1) by (auto simp: see)
        then have "card {j. j < unat slots \<and> \<not> grain_marked ?seen j} < card {j. j < unat slots \<and> \<not> grain_marked seen j}"
          by (rule psubset_card_mono [rotated]) simp
        note IH = less.hyps [OF this, simplified, OF less.prems]
        have listed: "(\<exists>js. grain_listed m s pool (unat slots) stride nx pv prev node seen v js x) \<longleftrightarrow>
            m (node + pv) = (True, prev) \<and> fst (m (node + nx)) \<and>
            (\<exists>js. grain_listed m s pool (unat slots) stride nx pv node (snd (m (node + nx))) ?seen (v + 1) js x)" for x
        proof
          assume "\<exists>js. grain_listed m s pool (unat slots) stride nx pv prev node seen v js x"
          then obtain js where js: "grain_listed m s pool (unat slots) stride nx pv prev node seen v js x" by blast
          then obtain j ks where "js = j # ks" using ne by (cases js) (auto simp: grain_listed_def)
          moreover from this js inj have "j = i" by (auto simp: grain_listed_def)
          ultimately have ks: "js = i # ks" by simp
          with js i(2) obtain nxt where "m (node + nx) = (True, nxt)" "m (node + pv) = (True, prev)"
              "grain_listed m s pool (unat slots) stride nx pv node nxt ?seen (v + 1) ks x"
            by (auto simp: grain_listed_def see)
          then show "m (node + pv) = (True, prev) \<and> fst (m (node + nx)) \<and>
            (\<exists>js. grain_listed m s pool (unat slots) stride nx pv node (snd (m (node + nx))) ?seen (v + 1) js x)" by auto
        next
          assume r: "m (node + pv) = (True, prev) \<and> fst (m (node + nx)) \<and>
            (\<exists>js. grain_listed m s pool (unat slots) stride nx pv node (snd (m (node + nx))) ?seen (v + 1) js x)"
          then obtain js where "grain_listed m s pool (unat slots) stride nx pv node (snd (m (node + nx))) ?seen (v + 1) js x" by blast
          with r ne i False have "grain_listed m s pool (unat slots) stride nx pv prev node seen v (i # js) x"
            by (cases "m (node + nx)") (auto simp: grain_listed_def see)
          then show "\<exists>js. grain_listed m s pool (unat slots) stride nx pv prev node seen v js x" by blast
        qed
        show ?thesis
          unfolding grain_result_def listed
        proof
          fix r
          obtain y r' where y: "grain_loop m s pool slots stride nx pv (snd (m (node + nx))) node ?seen (v + 1)
              \<lparr>rd_address = node + nx, rd_value = snd (m (node + nx))\<rparr> = Some (y, r')"
            "\<And>x. y = Some x \<longleftrightarrow> (\<exists>js. grain_listed m s pool (unat slots) stride nx pv node (snd (m (node + nx))) ?seen (v + 1) js x)"
            using IH unfolding grain_result_def by blast
          show "\<exists>y r'. grain_loop m s pool slots stride nx pv node prev seen v r = Some (y, r') \<and> (\<forall>x. y = Some x \<longleftrightarrow>
              m (node + pv) = (True, prev) \<and> fst (m (node + nx)) \<and>
              (\<exists>js. grain_listed m s pool (unat slots) stride nx pv node (snd (m (node + nx))) ?seen (v + 1) js x))"
            using ne slot False y by (simp add: loop index seen_eq grain_expected_eq grain_read_eq)
        qed
      qed
    qed
  qed
qed

section \<open>Slots on lists\<close>

text \<open>The marks a list leaves.\<close>

lemma grain_fold_marked:
  assumes "\<forall>i \<in> set js. i < n" "n \<le> 32 * length seen" "n \<le> 2 ^ 32"
  shows "length (fold (\<lambda>i seen. grain_see seen (of_nat i)) js seen) = length seen"
    and "grain_marked (fold (\<lambda>i seen. grain_see seen (of_nat i)) js seen) j \<longleftrightarrow> j \<in> set js \<or> grain_marked seen j"
proof -
  show "length (fold (\<lambda>i seen. grain_see seen (of_nat i)) js seen) = length seen" for seen
    by (induction js arbitrary: seen) auto
  show "grain_marked (fold (\<lambda>i seen. grain_see seen (of_nat i)) js seen) j \<longleftrightarrow> j \<in> set js \<or> grain_marked seen j"
    using assms
  proof (induction js arbitrary: seen)
    case (Cons i js)
    then have "i < n" by simp
    with Cons.prems have "i < 2 ^ 32" "i div 32 < length seen" by (simp_all add: div_less_iff_less_mult mult.commute)
    note see = grain_see_marked [OF this]
    show ?case using Cons.IH [of "grain_see seen (of_nat i)"] Cons.prems by (auto simp: see)
  qed simp
qed

text \<open>A list of slots: its indices, distinct and not among \<open>taken\<close>.\<close>

definition grain_ring :: "memory \<Rightarrow> u32 \<Rightarrow> u32 \<Rightarrow> u32 \<Rightarrow> u32 \<Rightarrow> nat \<Rightarrow> u32 \<Rightarrow> nat list \<Rightarrow> bool" where
  "grain_ring m s nx pv pool n stride js \<longleftrightarrow> ring m s nx pv (map (grain_slot pool stride) js) \<and> (\<forall>i \<in> set js. i < n)"

text \<open>The state of the seen bits and the count after the lists with the indices \<open>js\<close>.\<close>

definition grain_after :: "nat \<Rightarrow> nat list \<Rightarrow> u32 list \<times> u32 \<Rightarrow> bool" where
  "grain_after len js x \<longleftrightarrow> distinct js \<and> x = (fold (\<lambda>i seen. grain_see seen (of_nat i)) js (replicate len 0), of_nat (length js))"

lemma grain_blank: "n \<le> 32 * len \<Longrightarrow> i < n \<Longrightarrow> \<not> grain_marked (replicate len 0) i"
  by (simp add: grain_marked_def div_less_iff_less_mult mult.commute)

lemma LmGrainList_result:
  assumes fit: "unat pool + unat slots * unat stride < 2 ^ 32" "0 < unat stride" and len: "unat slots \<le> 32 * len"
    and before: "\<forall>i \<in> set ks. i < unat slots" "grain_after len ks (seen, v)"
  shows "grain_result (LmGrainList m s pool slots stride nx pv seen v)
    (\<lambda>x. \<exists>js. grain_ring m s nx pv pool (unat slots) stride js \<and> grain_after len (ks @ js) x)"
proof -
  have n: "unat slots \<le> 2 ^ 32" using unat_u32_less [of slots] by simp
  have seen: "seen = fold (\<lambda>i seen. grain_see seen (of_nat i)) ks (replicate len 0)" and v: "v = of_nat (length ks)" and "distinct ks"
    using before(2) by (simp_all add: grain_after_def)
  have ls: "length seen = len" and marked: "i < unat slots \<Longrightarrow> grain_marked seen i \<longleftrightarrow> i \<in> set ks" for i
    using grain_fold_marked [OF before(1) _ n, of "replicate len 0"] len grain_blank [OF len] by (auto simp: seen)
  have "grain_result (LmGrainList m s pool slots stride nx pv seen v)
    (\<lambda>x. \<exists>node. m (s + nx) = (True, node) \<and> (\<exists>js. grain_listed m s pool (unat slots) stride nx pv s node seen v js x))"
    unfolding LmGrainList_def
    by (rule grain_result_bind, rule grain_result_do)
      (auto simp: LmGrainRead_def rd_success intro!: grain_loop_result fit simp: ls len)
  then show ?thesis
  proof (rule grain_result_cong)
    fix x
    have "grain_listed m s pool (unat slots) stride nx pv s node seen v js x \<longleftrightarrow>
        ring_from m s nx pv s node (map (grain_slot pool stride) js) \<and> (\<forall>i \<in> set js. i < unat slots) \<and> grain_after len (ks @ js) x" for node js
      using marked \<open>distinct ks\<close> by (auto simp: grain_listed_def grain_after_def seen v)
    then show "(\<exists>node. m (s + nx) = (True, node) \<and> (\<exists>js. grain_listed m s pool (unat slots) stride nx pv s node seen v js x)) \<longleftrightarrow>
        (\<exists>js. grain_ring m s nx pv pool (unat slots) stride js \<and> grain_after len (ks @ js) x)"
      by (auto simp: grain_ring_def ring_def)
  qed
qed

text \<open>The particle lists of the controllers from the \<open>k\<close>-th on.\<close>

fun grain_lists :: "memory \<Rightarrow> u32 \<Rightarrow> u32 \<Rightarrow> u32 \<Rightarrow> nat list list \<Rightarrow> bool" where
  "grain_lists m controllers particles k [] \<longleftrightarrow> True"
| "grain_lists m controllers particles k (js # jss) \<longleftrightarrow>
     (let c = controllers + k * LM_GRAIN_CONTROLLER_STRIDE in m (c + 0x94) = (True, c + 0x40) \<and>
        grain_ring m (c + 0x40) 0x4C 0x50 particles 1500 LM_GRAIN_PARTICLE_STRIDE js) \<and>
     grain_lists m controllers particles (k + 1) jss"

lemma grain_controllers_result:
  assumes fit: "unat particles + 1500 * 0x54 < 2 ^ 32"
    and before: "\<forall>i \<in> set ks. i < 1500" "grain_after 47 ks (seen, v)"
  shows "grain_result (grain_controllers m controllers particles k n seen v)
    (\<lambda>x. \<exists>jss. length jss = n \<and> grain_lists m controllers particles k jss \<and> grain_after 47 (ks @ concat jss) x)"
  using before
proof (induction n arbitrary: k ks seen v)
  case 0
  then show ?case by (auto simp: rd_success grain_after_def intro!: grain_result_do)
next
  case (Suc n)
  let ?c = "controllers + k * LM_GRAIN_CONTROLLER_STRIDE"
  let ?ring = "grain_ring m (?c + 0x40) 0x4C 0x50 particles 1500 LM_GRAIN_PARTICLE_STRIDE"
  have list: "grain_result (LmGrainList m (?c + 0x40) particles LM_GRAIN_PARTICLE_COUNT LM_GRAIN_PARTICLE_STRIDE 0x4C 0x50 seen v)
      (\<lambda>x. \<exists>js. ?ring js \<and> grain_after 47 (ks @ js) x)"
    using LmGrainList_result [of particles LM_GRAIN_PARTICLE_COUNT LM_GRAIN_PARTICLE_STRIDE 47 ks seen v] fit Suc.prems by simp
  have IH: "grain_result (grain_controllers m controllers particles (k + 1) n s' v')
      (\<lambda>z. \<exists>jss. length jss = n \<and> grain_lists m controllers particles (k + 1) jss \<and> grain_after 47 (ks @ js @ concat jss) z)"
    if "\<forall>i \<in> set js. i < 1500" "grain_after 47 (ks @ js) (s', v')" for js s' v'
    using Suc.IH [of "ks @ js" s' v' "k + 1"] that Suc.prems(1) by auto
  have "grain_result (grain_controllers m controllers particles k (Suc n) seen v)
    (\<lambda>z. \<exists>u::unit. m (?c + 0x94) = (True, ?c + 0x40) \<and> (\<exists>js x. (?ring js \<and> grain_after 47 (ks @ js) x) \<and>
      (\<exists>jss. length jss = n \<and> grain_lists m controllers particles (k + 1) jss \<and> grain_after 47 ((ks @ js) @ concat jss) z)))"
    unfolding grain_controllers.simps Let_def
    by (rule grain_result_bind [OF grain_result_do], simp add: grain_expected_eq)
      (rule grain_result_bind_any [OF list], auto simp: grain_ring_def split: prod.split intro!: IH dest: bspec [OF Suc.prems(1)])
  then show ?case
  proof (rule grain_result_cong)
    fix z
    have after: "\<exists>x. grain_after 47 (ks @ js) x" if "grain_after 47 ((ks @ js) @ jss) z" for js jss
      using that by (auto simp: grain_after_def)
    show "(\<exists>u::unit. m (?c + 0x94) = (True, ?c + 0x40) \<and> (\<exists>js x. (?ring js \<and> grain_after 47 (ks @ js) x) \<and>
        (\<exists>jss. length jss = n \<and> grain_lists m controllers particles (k + 1) jss \<and> grain_after 47 ((ks @ js) @ concat jss) z))) \<longleftrightarrow>
      (\<exists>jss. length jss = Suc n \<and> grain_lists m controllers particles k jss \<and> grain_after 47 (ks @ concat jss) z)"
      using after by (fastforce simp: Let_def length_Suc_conv)
  qed
qed

section \<open>A manager\<close>

definition grain_manager_ok :: "memory \<Rightarrow> u32 \<Rightarrow> u32 \<Rightarrow> nat \<Rightarrow> u32 \<Rightarrow> bool" where
  "grain_manager_ok m manager controllers n particles \<longleftrightarrow>
     m (manager + 0x60) = (True, manager + 0xC) \<and> m (manager + 0x21C) = (True, manager + 0x64) \<and>
     m (manager + 0x3D8) = (True, manager + 0x220) \<and>
     (\<exists>as bs. ring m (manager + 0x64) 0x140 0x144 (map (grain_slot controllers 0x1B8) as) \<and>
        ring m (manager + 0x220) 0x140 0x144 (map (grain_slot controllers 0x1B8) bs) \<and> mset (as @ bs) = mset [0..<n]) \<and>
     (\<exists>free used. ring m (manager + 0xC) 0x4C 0x50 (map (grain_slot particles 0x54) free) \<and> length used = n \<and>
        (\<forall>i < n. let c = grain_slot controllers 0x1B8 i in m (c + 0x94) = (True, c + 0x40) \<and>
           ring m (c + 0x40) 0x4C 0x50 (map (grain_slot particles 0x54) (used ! i))) \<and>
        mset (free @ concat used) = mset [0..<1500])"

lemma mset_upt_iff: "mset js = mset [0..<n] \<longleftrightarrow> distinct js \<and> (\<forall>i \<in> set js. i < n) \<and> length js = n"
proof
  assume eq: "mset js = mset [0..<n]"
  then have "distinct js" by (metis distinct_upt mset_eq_imp_distinct_iff)
  moreover have "set js = set [0..<n]" using eq by (rule mset_eq_setD)
  moreover have "length js = n" using mset_eq_length [OF eq] by simp
  ultimately show "distinct js \<and> (\<forall>i \<in> set js. i < n) \<and> length js = n" by auto
next
  assume js: "distinct js \<and> (\<forall>i \<in> set js. i < n) \<and> length js = n"
  then have "set js \<subseteq> {..<n}" "card (set js) = n" by (auto simp: distinct_card)
  then have "set js = set [0..<n]" by (metis card_lessThan card_subset_eq finite_lessThan lessThan_atLeast0 set_upt)
  then show "mset js = mset [0..<n]" using js by (metis distinct_upt set_eq_iff_mset_eq_distinct)
qed

lemma grain_after_all:
  assumes "\<forall>i \<in> set js. i < unat slots"
  shows "grain_after len js x \<and> snd x = slots \<longleftrightarrow> grain_after len js x \<and> mset js = mset [0..<unat slots]"
proof (cases "distinct js")
  case True
  have "card (set js) \<le> card {..<unat slots}" using assms by (intro card_mono) auto
  then have "length js \<le> unat slots" using True by (simp add: distinct_card)
  then have "unat (of_nat (length js) :: u32) = length js"
    using unat_u32_less [of slots] by (simp add: unat_of_nat take_bit_nat_eq_self)
  then have "of_nat (length js) = slots \<longleftrightarrow> length js = unat slots" by (metis of_nat_unat ucast_id)
  then show ?thesis using True assms by (auto simp: grain_after_def mset_upt_iff simp del: mset_upt)
qed (simp add: grain_after_def)

lemma grain_after_mset:
  assumes "\<forall>i \<in> set js. i < unat slots"
  shows "(\<exists>x. grain_after len js x \<and> snd x = slots) \<longleftrightarrow> mset js = mset [0..<unat slots]"
proof -
  have "\<exists>x. grain_after len js x" if "mset js = mset [0..<unat slots]"
    using that unfolding mset_upt_iff grain_after_def by blast
  then show ?thesis unfolding grain_after_all [OF assms] by blast
qed

lemma grain_after_prefix: "grain_after len (ks @ js) x \<Longrightarrow> \<exists>x. grain_after len ks x"
  by (auto simp: grain_after_def)

lemma grain_lists_iff:
  "grain_lists m controllers particles (of_nat k) jss \<longleftrightarrow>
    (\<forall>i < length jss. let c = grain_slot controllers 0x1B8 (k + i) in m (c + 0x94) = (True, c + 0x40) \<and>
      grain_ring m (c + 0x40) 0x4C 0x50 particles 1500 0x54 (jss ! i))"
proof (induction jss arbitrary: k)
  case (Cons js jss)
  have "of_nat k + 1 = (of_nat (Suc k) :: u32)" by simp
  then show ?case
    using Cons.IH [of "Suc k"] by (simp only: grain_lists.simps) (auto simp: grain_slot_def less_Suc_eq_0_disj)
qed simp

lemma grain_count_result:
  "grain_result (grain_do (if v \<noteq> w then rd_note a v (rd_check False (rd_return ())) else rd_return ())) (\<lambda>u. v = w)"
  by (rule grain_result_do) (simp add: rd_success)

lemma LmGrainManagerValid_result:
  assumes controllers: "unat controllers + unat slots * 0x1B8 < 2 ^ 32" "unat slots \<le> 80"
    and particles: "unat particles + 1500 * 0x54 < 2 ^ 32"
  shows "grain_result (LmGrainManagerValid m manager controllers slots particles)
    (\<lambda>u. grain_manager_ok m manager controllers (unat slots) particles)"
proof -
  let ?c = "\<lambda>s js. grain_ring m s 0x140 0x144 controllers (unat slots) LM_GRAIN_CONTROLLER_STRIDE js"
  let ?p = "\<lambda>s js. grain_ring m s 0x4C 0x50 particles 1500 LM_GRAIN_PARTICLE_STRIDE js"
  have blank: "grain_after len [] (replicate len 0, 0)" for len by (simp add: grain_after_def)
  have small: "unat slots \<le> 32 * 3" using controllers(2) by simp
  have list: "grain_result (LmGrainList m s controllers slots LM_GRAIN_CONTROLLER_STRIDE 0x140 0x144 seen v)
      (\<lambda>x. \<exists>js. ?c s js \<and> grain_after 3 (ks @ js) x)"
    if "\<forall>i \<in> set ks. i < unat slots" "grain_after 3 ks (seen, v)" for s ks seen v
    using LmGrainList_result [of controllers slots LM_GRAIN_CONTROLLER_STRIDE 3 ks seen v] controllers small that by simp
  have free: "grain_result (LmGrainList m s particles LM_GRAIN_PARTICLE_COUNT LM_GRAIN_PARTICLE_STRIDE 0x4C 0x50 (replicate 47 0) 0)
      (\<lambda>x. \<exists>js. ?p s js \<and> grain_after 47 js x)" for s
    using LmGrainList_result [of particles LM_GRAIN_PARTICLE_COUNT LM_GRAIN_PARTICLE_STRIDE 47 "[]" "replicate 47 0" 0 m s] particles blank
    by simp
  have lens: "(unat LM_GRAIN_CONTROLLER_COUNT + 31) div 32 = 3" "(unat LM_GRAIN_PARTICLE_COUNT + 31) div 32 = 47" by simp_all
  have word: "grain_result (grain_do (LmGrainExpected m a v)) (\<lambda>u. m a = (True, v))" for a v
    by (rule grain_result_do) (simp add: grain_expected_eq)
  have rest: "grain_result (grain_controllers m controllers particles 0 (unat slots) seen v)
      (\<lambda>x. \<exists>jss. length jss = unat slots \<and> grain_lists m controllers particles 0 jss \<and> grain_after 47 (ks @ concat jss) x)"
    if "\<forall>i \<in> set ks. i < 1500" "grain_after 47 ks (seen, v)" for ks seen v
    using grain_controllers_result [OF particles that] .
  have "grain_result (LmGrainManagerValid m manager controllers slots particles) (\<lambda>z.
      \<exists>u::unit. m (manager + 0x60) = (True, manager + 0xC) \<and> (\<exists>u::unit. m (manager + 0x21C) = (True, manager + 0x64) \<and>
      (\<exists>u::unit. m (manager + 0x3D8) = (True, manager + 0x220) \<and>
      (\<exists>as x. (?c (manager + 0x64) as \<and> grain_after 3 as x) \<and>
      (\<exists>bs x. (?c (manager + 0x220) bs \<and> grain_after 3 (as @ bs) x) \<and> (\<exists>u::unit. snd x = slots \<and>
      (\<exists>fs x. (?p (manager + 0xC) fs \<and> grain_after 47 fs x) \<and>
      (\<exists>jss x. (length jss = unat slots \<and> grain_lists m controllers particles 0 jss \<and> grain_after 47 (fs @ concat jss) x) \<and>
        snd x = LM_GRAIN_PARTICLE_COUNT)))))))) "
    unfolding LmGrainManagerValid_def Let_def lens case_prod_beta
    apply (rule grain_result_bind [OF word])
    apply (rule grain_result_bind [OF word])
    apply (rule grain_result_bind [OF word])
    apply (rule grain_result_bind_any)
     apply (rule list [of "[]", simplified])
      apply (use blank in simp)
    apply (rule grain_result_bind_any)
     apply (rule list)
      apply (auto simp: grain_ring_def)[2]
    apply (rule grain_result_bind [OF grain_count_result])
    apply (rule grain_result_bind_any [OF free])
    apply (rule grain_result_bind_any)
     apply (rule rest)
      apply (auto simp: grain_ring_def)[2]
    apply (rule grain_count_result)
    done
  then show ?thesis
  proof (rule grain_result_cong)
    fix z :: unit
    have lists: "grain_lists m controllers particles 0 jss \<longleftrightarrow> (\<forall>i < length jss. let c = grain_slot controllers 0x1B8 i in
        m (c + 0x94) = (True, c + 0x40) \<and> grain_ring m (c + 0x40) 0x4C 0x50 particles 1500 0x54 (jss ! i))" for jss
      using grain_lists_iff [of m controllers particles 0 jss] by simp
    have small: "\<forall>i \<in> set (concat jss). i < 1500" if "grain_lists m controllers particles 0 jss" for jss
    proof
      fix i assume "i \<in> set (concat jss)"
      then obtain js where "js \<in> set jss" "i \<in> set js" by auto
      moreover from this(1) obtain k where "k < length jss" "jss ! k = js" by (auto simp: in_set_conv_nth)
      ultimately show "i < 1500" using that unfolding lists by (fastforce simp: Let_def grain_ring_def)
    qed
    have rings: "(\<exists>as bs. ?c (manager + 0x64) as \<and> ?c (manager + 0x220) bs \<and> (\<exists>x. grain_after 3 (as @ bs) x \<and> snd x = slots)) \<longleftrightarrow>
      (\<exists>as bs. ring m (manager + 0x64) 0x140 0x144 (map (grain_slot controllers 0x1B8) as) \<and>
        ring m (manager + 0x220) 0x140 0x144 (map (grain_slot controllers 0x1B8) bs) \<and> mset (as @ bs) = mset [0..<unat slots])"
    proof -
      have "?c (manager + 0x64) as \<and> ?c (manager + 0x220) bs \<and> (\<exists>x. grain_after 3 (as @ bs) x \<and> snd x = slots) \<longleftrightarrow>
        ring m (manager + 0x64) 0x140 0x144 (map (grain_slot controllers 0x1B8) as) \<and>
        ring m (manager + 0x220) 0x140 0x144 (map (grain_slot controllers 0x1B8) bs) \<and> mset (as @ bs) = mset [0..<unat slots]" for as bs
      proof (cases "\<forall>i \<in> set (as @ bs). i < unat slots")
        case True
        then show ?thesis unfolding grain_after_mset [OF True] by (auto simp: grain_ring_def)
      next
        case False
        then show ?thesis unfolding mset_upt_iff grain_ring_def by auto
      qed
      then show ?thesis by simp
    qed
    have parts: "(\<exists>fs jss. ?p (manager + 0xC) fs \<and> length jss = unat slots \<and> grain_lists m controllers particles 0 jss \<and>
        (\<exists>x. grain_after 47 (fs @ concat jss) x \<and> snd x = LM_GRAIN_PARTICLE_COUNT)) \<longleftrightarrow>
      (\<exists>free used. ring m (manager + 0xC) 0x4C 0x50 (map (grain_slot particles 0x54) free) \<and> length used = unat slots \<and>
        (\<forall>i < unat slots. let c = grain_slot controllers 0x1B8 i in m (c + 0x94) = (True, c + 0x40) \<and>
           ring m (c + 0x40) 0x4C 0x50 (map (grain_slot particles 0x54) (used ! i))) \<and>
        mset (free @ concat used) = mset [0..<1500])"
    proof -
      have "?p (manager + 0xC) fs \<and> length jss = unat slots \<and> grain_lists m controllers particles 0 jss \<and>
          (\<exists>x. grain_after 47 (fs @ concat jss) x \<and> snd x = LM_GRAIN_PARTICLE_COUNT) \<longleftrightarrow>
        ring m (manager + 0xC) 0x4C 0x50 (map (grain_slot particles 0x54) fs) \<and> length jss = unat slots \<and>
        (\<forall>i < unat slots. let c = grain_slot controllers 0x1B8 i in m (c + 0x94) = (True, c + 0x40) \<and>
           ring m (c + 0x40) 0x4C 0x50 (map (grain_slot particles 0x54) (jss ! i))) \<and>
        mset (fs @ concat jss) = mset [0..<1500]" (is "?l \<longleftrightarrow> ?r") for fs jss
      proof
        assume l: ?l
        then have all: "\<forall>i \<in> set (fs @ concat jss). i < unat LM_GRAIN_PARTICLE_COUNT"
          using small [of jss] by (auto simp: grain_ring_def)
        show ?r using l unfolding grain_after_mset [OF all] by (auto simp: lists grain_ring_def Let_def)
      next
        assume r: ?r
        then have "\<forall>i \<in> set (fs @ concat jss). i < 1500" unfolding mset_upt_iff by blast
        then have all: "\<forall>i \<in> set (fs @ concat jss). i < unat LM_GRAIN_PARTICLE_COUNT"
          and each: "k < length jss \<Longrightarrow> \<forall>i \<in> set (jss ! k). i < 1500" "\<forall>i \<in> set fs. i < 1500" for k by auto
        show ?l using r each unfolding grain_after_mset [OF all] by (auto simp: lists grain_ring_def Let_def)
      qed
      then show ?thesis by simp
    qed
    show "(\<exists>u::unit. m (manager + 0x60) = (True, manager + 0xC) \<and> (\<exists>u::unit. m (manager + 0x21C) = (True, manager + 0x64) \<and>
      (\<exists>u::unit. m (manager + 0x3D8) = (True, manager + 0x220) \<and>
      (\<exists>as x. (?c (manager + 0x64) as \<and> grain_after 3 as x) \<and>
      (\<exists>bs x. (?c (manager + 0x220) bs \<and> grain_after 3 (as @ bs) x) \<and> (\<exists>u::unit. snd x = slots \<and>
      (\<exists>fs x. (?p (manager + 0xC) fs \<and> grain_after 47 fs x) \<and>
      (\<exists>jss x. (length jss = unat slots \<and> grain_lists m controllers particles 0 jss \<and> grain_after 47 (fs @ concat jss) x) \<and>
        snd x = LM_GRAIN_PARTICLE_COUNT)))))))) \<longleftrightarrow> grain_manager_ok m manager controllers (unat slots) particles" (is "?l \<longleftrightarrow> ?r")
    proof
      assume ?l
      then obtain as bs fs jss x y where l: "m (manager + 0x60) = (True, manager + 0xC)" "m (manager + 0x21C) = (True, manager + 0x64)"
          "m (manager + 0x3D8) = (True, manager + 0x220)"
        and c: "?c (manager + 0x64) as" "?c (manager + 0x220) bs" "grain_after 3 (as @ bs) x" "snd x = slots"
        and p: "?p (manager + 0xC) fs" "length jss = unat slots" "grain_lists m controllers particles 0 jss"
          "grain_after 47 (fs @ concat jss) y" "snd y = LM_GRAIN_PARTICLE_COUNT"
        by (elim exE conjE) (rule that)
      show ?r unfolding grain_manager_ok_def rings [symmetric] parts [symmetric]
        by (intro conjI l exI [of _ as] exI [of _ bs] exI [of _ x] exI [of _ fs] exI [of _ jss] exI [of _ y] c p)
    next
      assume r: ?r
      then obtain as bs x where c: "?c (manager + 0x64) as" "?c (manager + 0x220) bs" "grain_after 3 (as @ bs) x" "snd x = slots"
        unfolding grain_manager_ok_def rings [symmetric] by blast
      from r obtain fs jss y where p: "?p (manager + 0xC) fs" "length jss = unat slots" "grain_lists m controllers particles 0 jss"
          "grain_after 47 (fs @ concat jss) y" "snd y = LM_GRAIN_PARTICLE_COUNT"
        unfolding grain_manager_ok_def parts [symmetric] by blast
      obtain x' y' where "grain_after 3 as x'" "grain_after 47 fs y'" using grain_after_prefix c(3) p(4) by blast
      with r c p show ?l
        unfolding grain_manager_ok_def
        by (intro exI conjI) (assumption | blast)+
    qed
  qed
qed

section \<open>The check\<close>

text \<open>A pool of \<open>sz\<close> bytes at \<open>p\<close>: in the heap and off the managers, which lie in static memory.\<close>

definition grain_extent :: "u32 \<Rightarrow> nat \<Rightarrow> nat set" where
  "grain_extent p sz = {unat p ..< unat p + sz}"

definition grain_pool_ok :: "u32 \<Rightarrow> u32 \<Rightarrow> u32 \<Rightarrow> nat \<Rightarrow> bool" where
  "grain_pool_ok gameStart gameEnd p sz \<longleftrightarrow> p AND 3 = 0 \<and> unat gameStart \<le> unat p \<and> unat p + sz \<le> unat gameEnd \<and>
     grain_extent p sz \<inter> {0x803CBAF0..<0x803CC460} = {}"

definition grain_ok :: "memory \<Rightarrow> u32 \<Rightarrow> u32 \<Rightarrow> bool" where
  "grain_ok m gameStart gameEnd \<longleftrightarrow>
     0x80003100 \<le> unat gameStart \<and> unat gameStart < unat gameEnd \<and> unat gameEnd \<le> 0x81800000 \<and>
     gameStart AND 3 = 0 \<and> gameEnd AND 3 = 0 \<and>
     (\<exists>p0 p1 p2 p3. m 0x803CBAF0 = (True, p0) \<and> m 0x803CBAF4 = (True, p1) \<and> m 0x803CBF48 = (True, p2) \<and> m 0x803CBF4C = (True, p3) \<and>
        grain_pool_ok gameStart gameEnd p0 6624 \<and> grain_pool_ok gameStart gameEnd p1 126016 \<and>
        grain_pool_ok gameStart gameEnd p2 35200 \<and> grain_pool_ok gameStart gameEnd p3 126016 \<and>
        grain_extent p1 126016 \<inter> grain_extent p0 6624 = {} \<and> grain_extent p2 35200 \<inter> grain_extent p0 6624 = {} \<and>
        grain_extent p2 35200 \<inter> grain_extent p1 126016 = {} \<and> grain_extent p3 126016 \<inter> grain_extent p0 6624 = {} \<and>
        grain_extent p3 126016 \<inter> grain_extent p1 126016 = {} \<and> grain_extent p3 126016 \<inter> grain_extent p2 35200 = {} \<and>
        grain_manager_ok m 0x803CBAF0 p0 15 p1 \<and> grain_manager_ok m 0x803CBF48 p2 80 p3)"

lemma grain_sizes:
  "LM_GRAIN_SMALL_CONTROLLER_POOL_SIZE = 6624" "LM_GRAIN_PARTICLE_POOL_SIZE = 126016" "LM_GRAIN_CONTROLLER_POOL_SIZE = 35200"
proof -
  have n: "(NOT 31 :: u32) = 0xFFFFFFE0" by simp
  show "LM_GRAIN_SMALL_CONTROLLER_POOL_SIZE = 6624" "LM_GRAIN_PARTICLE_POOL_SIZE = 126016" "LM_GRAIN_CONTROLLER_POOL_SIZE = 35200"
    by (simp_all add: LM_GRAIN_SMALL_CONTROLLER_POOL_SIZE_def LM_GRAIN_PARTICLE_POOL_SIZE_def LM_GRAIN_CONTROLLER_POOL_SIZE_def)
qed

lemma grain_pool_guards:
  assumes "unat gameEnd \<le> 0x81800000" "0 < unat sz" "unat sz \<le> 0x81800000"
  shows "\<not> (p AND 3 \<noteq> 0 \<or> p < gameStart \<or> p > gameEnd \<or> sz > gameEnd - p) \<and>
      \<not> (p < 0x803CC460 \<and> p + sz > LM_GRAIN_SMALL_MANAGER) \<longleftrightarrow> grain_pool_ok gameStart gameEnd p (unat sz)"
proof (cases "unat p \<le> unat gameEnd")
  case True
  then have d: "unat (gameEnd - p) = unat gameEnd - unat p" by (simp add: unat_minus_le word_le_nat_alt)
  have "unat p + unat sz \<le> unat gameEnd \<Longrightarrow> unat (p + sz) = unat p + unat sz"
    using assms(1) by (intro unat_plus_bound) simp
  moreover have "grain_extent p (unat sz) \<inter> {0x803CBAF0..<0x803CC460} = {} \<longleftrightarrow> \<not> (unat p < 0x803CC460 \<and> 0x803CBAF0 < unat p + unat sz)"
    unfolding grain_extent_def using assms(2) by (auto simp: Int_atLeastLessThan)
  ultimately show ?thesis
    using True d by (cases "unat p + unat sz \<le> unat gameEnd") (auto simp: grain_pool_ok_def word_less_nat_alt)
qed (auto simp: grain_pool_ok_def word_less_nat_alt)

lemma grain_pools_apart:
  assumes "grain_pool_ok gs ge p (unat s)" "grain_pool_ok gs ge q (unat t)" "unat ge \<le> 0x81800000" "0 < unat s" "0 < unat t"
  shows "\<not> (p < q + t \<and> q < p + s) \<longleftrightarrow> grain_extent p (unat s) \<inter> grain_extent q (unat t) = {}"
proof -
  have "unat (p + s) = unat p + unat s" "unat (q + t) = unat q + unat t"
    using assms(1-3) by (auto simp: grain_pool_ok_def intro!: unat_plus_bound)
  then show ?thesis
    unfolding grain_extent_def using assms(4,5) by (auto simp: word_less_nat_alt Int_atLeastLessThan)
qed

lemma grain_pools_step:
  assumes "unat ge \<le> 0x81800000" "0 < unat sz" "unat sz \<le> 0x81800000"
  shows "fst (grain_pools m gs ge i (sz # sizes) pools r) = Some ps \<longleftrightarrow>
    (\<exists>p. m ((if i < 2 then LM_GRAIN_SMALL_MANAGER else LM_GRAIN_MANAGER) + of_nat (i mod 2) * 4) = (True, p) \<and>
      grain_pool_ok gs ge p (unat sz) \<and> (\<forall>(q, t) \<in> set pools. \<not> (p < q + t \<and> q < p + sz)) \<and>
      fst (grain_pools m gs ge (i + 1) sizes (pools @ [(p, sz)])
        (snd (LmGrainRead m ((if i < 2 then LM_GRAIN_SMALL_MANAGER else LM_GRAIN_MANAGER) + of_nat (i mod 2) * 4) r))) = Some ps)"
  unfolding grain_pools.simps Let_def rd_success LmGrainRead_def grain_pool_guards [OF assms, symmetric] list_all_iff
  by blast

lemma grain_pools_success:
  assumes ge: "unat ge \<le> 0x81800000"
  shows "fst (grain_pools m gs ge 0 [6624, 126016, 35200, 126016] [] r) = Some ps \<longleftrightarrow>
    (\<exists>p0 p1 p2 p3. ps = [(p0, 6624), (p1, 126016), (p2, 35200), (p3, 126016)] \<and>
      m 0x803CBAF0 = (True, p0) \<and> m 0x803CBAF4 = (True, p1) \<and> m 0x803CBF48 = (True, p2) \<and> m 0x803CBF4C = (True, p3) \<and>
      grain_pool_ok gs ge p0 6624 \<and> grain_pool_ok gs ge p1 126016 \<and>
      grain_pool_ok gs ge p2 35200 \<and> grain_pool_ok gs ge p3 126016 \<and>
      grain_extent p1 126016 \<inter> grain_extent p0 6624 = {} \<and> grain_extent p2 35200 \<inter> grain_extent p0 6624 = {} \<and>
      grain_extent p2 35200 \<inter> grain_extent p1 126016 = {} \<and> grain_extent p3 126016 \<inter> grain_extent p0 6624 = {} \<and>
      grain_extent p3 126016 \<inter> grain_extent p1 126016 = {} \<and> grain_extent p3 126016 \<inter> grain_extent p2 35200 = {})"
proof -
  note apart = grain_pools_apart [OF _ _ ge, of gs _ 6624 _ 126016, simplified] grain_pools_apart [OF _ _ ge, of gs _ 126016 _ 6624, simplified]
    grain_pools_apart [OF _ _ ge, of gs _ 6624 _ 35200, simplified] grain_pools_apart [OF _ _ ge, of gs _ 35200 _ 6624, simplified]
    grain_pools_apart [OF _ _ ge, of gs _ 35200 _ 126016, simplified] grain_pools_apart [OF _ _ ge, of gs _ 126016 _ 35200, simplified]
    grain_pools_apart [OF _ _ ge, of gs _ 126016 _ 126016, simplified]
  show ?thesis
    by (simp add: grain_pools_step [OF ge] rd_success apart del: grain_pools.simps(2) cong: conj_cong) blast
qed

lemma LmGrainCheck_result: "grain_result (LmGrainCheck m gs ge) (\<lambda>u. grain_ok m gs ge)"
proof -
  let ?g = "unat gs \<ge> 0x80003100 \<and> unat gs < unat ge \<and> unat ge \<le> 0x81800000 \<and> gs AND 3 = 0 \<and> ge AND 3 = 0"
  have "(gs OR ge) AND 3 = 0 \<longleftrightarrow> gs AND 3 = 0 \<and> ge AND 3 = 0"
    by (simp only: and.commute [of _ 3] bit.conj_disj_distrib or_eq_0_iff)
  then have guard: "grain_result (grain_do (rd_check (\<not> (gs < 0x80003100 \<or> ge > 0x81800000 \<or> gs \<ge> ge \<or>
       (gs OR ge) AND 3 \<noteq> 0)) (rd_return ()))) (\<lambda>u. ?g)"
    by (intro grain_result_do) (auto simp: rd_success word_less_nat_alt word_le_nat_alt)
  let ?pools = "\<lambda>ps. fst (grain_pools m gs ge 0 [6624, 126016, 35200, 126016] [] rd_start) = Some ps"
  have pools: "grain_result (grain_do (grain_pools m gs ge 0 [6624, 126016, 35200, 126016] [])) ?pools" if ?g
    using that by (intro grain_result_do) (simp add: grain_pools_success del: grain_pools.simps)
  have small: "grain_result (LmGrainManagerValid m LM_GRAIN_SMALL_MANAGER (fst (ps ! 0)) LM_GRAIN_SMALL_CONTROLLER_COUNT (fst (ps ! 1)))
      (\<lambda>u. grain_manager_ok m LM_GRAIN_SMALL_MANAGER (fst (ps ! 0)) 15 (fst (ps ! 1)))"
    and big: "grain_result (LmGrainManagerValid m LM_GRAIN_MANAGER (fst (ps ! 2)) LM_GRAIN_CONTROLLER_COUNT (fst (ps ! 3)))
      (\<lambda>u. grain_manager_ok m LM_GRAIN_MANAGER (fst (ps ! 2)) 80 (fst (ps ! 3)))" if ?g "?pools ps" for ps
  proof -
    have "unat ge \<le> 0x81800000" using that(1) by blast
    from that(2) [unfolded grain_pools_success [OF this]] obtain p0 p1 p2 p3 where
      ps: "ps = [(p0, 6624), (p1, 126016), (p2, 35200), (p3, 126016)]"
      and ok: "grain_pool_ok gs ge p0 6624" "grain_pool_ok gs ge p1 126016" "grain_pool_ok gs ge p2 35200" "grain_pool_ok gs ge p3 126016"
      by blast
    have fit: "unat p0 + 15 * 0x1B8 < 2 ^ 32" "unat p1 + 1500 * 0x54 < 2 ^ 32" "unat p2 + 80 * 0x1B8 < 2 ^ 32" "unat p3 + 1500 * 0x54 < 2 ^ 32"
      using ok that(1) by (simp_all add: grain_pool_ok_def)
    show "grain_result (LmGrainManagerValid m LM_GRAIN_SMALL_MANAGER (fst (ps ! 0)) LM_GRAIN_SMALL_CONTROLLER_COUNT (fst (ps ! 1)))
        (\<lambda>u. grain_manager_ok m LM_GRAIN_SMALL_MANAGER (fst (ps ! 0)) 15 (fst (ps ! 1)))"
      "grain_result (LmGrainManagerValid m LM_GRAIN_MANAGER (fst (ps ! 2)) LM_GRAIN_CONTROLLER_COUNT (fst (ps ! 3)))
        (\<lambda>u. grain_manager_ok m LM_GRAIN_MANAGER (fst (ps ! 2)) 80 (fst (ps ! 3)))"
      using LmGrainManagerValid_result [of p0 15 p1 m LM_GRAIN_SMALL_MANAGER] LmGrainManagerValid_result [of p2 80 p3 m LM_GRAIN_MANAGER] fit
      by (simp_all add: ps)
  qed
  have inner: "grain_result (grain_bind (grain_do (grain_pools m gs ge 0 [6624, 126016, 35200, 126016] [])) (\<lambda>ps.
      grain_bind (LmGrainManagerValid m LM_GRAIN_SMALL_MANAGER (fst (ps ! 0)) LM_GRAIN_SMALL_CONTROLLER_COUNT (fst (ps ! 1))) (\<lambda>_.
      LmGrainManagerValid m LM_GRAIN_MANAGER (fst (ps ! 2)) LM_GRAIN_CONTROLLER_COUNT (fst (ps ! 3)))))
    (\<lambda>u. \<exists>ps. ?pools ps \<and> (\<exists>w::unit. grain_manager_ok m LM_GRAIN_SMALL_MANAGER (fst (ps ! 0)) 15 (fst (ps ! 1)) \<and>
        grain_manager_ok m LM_GRAIN_MANAGER (fst (ps ! 2)) 80 (fst (ps ! 3))))" if g: ?g
  proof (rule grain_result_bind [OF pools [OF g]])
    fix ps assume ps: "?pools ps"
    show "grain_result (grain_bind (LmGrainManagerValid m LM_GRAIN_SMALL_MANAGER (fst (ps ! 0)) LM_GRAIN_SMALL_CONTROLLER_COUNT (fst (ps ! 1))) (\<lambda>_.
        LmGrainManagerValid m LM_GRAIN_MANAGER (fst (ps ! 2)) LM_GRAIN_CONTROLLER_COUNT (fst (ps ! 3))))
      (\<lambda>u. \<exists>w::unit. grain_manager_ok m LM_GRAIN_SMALL_MANAGER (fst (ps ! 0)) 15 (fst (ps ! 1)) \<and>
        grain_manager_ok m LM_GRAIN_MANAGER (fst (ps ! 2)) 80 (fst (ps ! 3)))"
      by (rule grain_result_bind [OF small [OF g ps] big [OF g ps]])
  qed
  have "grain_result (LmGrainCheck m gs ge) (\<lambda>u. \<exists>v::unit. ?g \<and> (\<exists>ps. ?pools ps \<and>
      (\<exists>w::unit. grain_manager_ok m LM_GRAIN_SMALL_MANAGER (fst (ps ! 0)) 15 (fst (ps ! 1)) \<and>
        grain_manager_ok m LM_GRAIN_MANAGER (fst (ps ! 2)) 80 (fst (ps ! 3)))))"
    unfolding LmGrainCheck_def grain_sizes by (rule grain_result_bind [OF guard inner])
  then show ?thesis
  proof (rule grain_result_cong)
    fix u :: unit
    show "(\<exists>v::unit. ?g \<and> (\<exists>ps. ?pools ps \<and>
      (\<exists>w::unit. grain_manager_ok m LM_GRAIN_SMALL_MANAGER (fst (ps ! 0)) 15 (fst (ps ! 1)) \<and>
        grain_manager_ok m LM_GRAIN_MANAGER (fst (ps ! 2)) 80 (fst (ps ! 3))))) \<longleftrightarrow> grain_ok m gs ge"
    proof (cases "unat ge \<le> 0x81800000")
      case True
      show ?thesis unfolding grain_pools_success [OF True] grain_ok_def by (auto simp del: grain_pools.simps)
    qed (simp add: grain_ok_def)
  qed
qed

section \<open>The guard returns, and accepts exactly the managers whose lists partition the pools\<close>

text \<open>C35: The grain guard returns for every memory: although the loop along a list has no bound of its own,
  a list that does not lead back to its head runs into a slot it has already seen, or leaves the pool.\<close>

theorem LmGrainValidate_returns: "\<exists>valid address value. LmGrainValidate readWord gs ge = Some (valid, address, value)"
proof (cases readWord)
  case (Some m)
  obtain y r where "LmGrainCheck m gs ge \<lparr>rd_address = gs, rd_value = ge\<rparr> = Some (y, r)"
    using LmGrainCheck_result [of m gs ge] unfolding grain_result_def by blast
  then show ?thesis using Some by (cases "rd_report (y, r)") (simp add: LmGrainValidate_def)
qed (auto simp: LmGrainValidate_def)

text \<open>C36: The grain guard accepts a memory if and only if, for both managers, the four pools lie apart in the game
  heap and every slot of the controller pool and of the particle pool is on exactly one of the manager's lists.\<close>

theorem LmGrainValidate_iff: "LmGrainValidate (Some m) gs ge = Some (True, 0, 0) \<longleftrightarrow> grain_ok m gs ge"
proof -
  obtain y r where y: "LmGrainCheck m gs ge \<lparr>rd_address = gs, rd_value = ge\<rparr> = Some (y, r)" "\<forall>x. y = Some x \<longleftrightarrow> grain_ok m gs ge"
    using LmGrainCheck_result [of m gs ge] unfolding grain_result_def by blast
  then show ?thesis by (cases y) (simp_all add: LmGrainValidate_def rd_report_def)
qed

end
