(* ===== verification/Persistent.thy ===== *)
theory Persistent
  imports HeaderBlocks Crc
begin

text \<open>
  The profile of the allocations that outlive a restore, \<open>include/susamune/lm_persistent_profile.h\<close>: it is
  captured from the two permanent heaps and the typed globals, carries a checksum, and two profiles are compared
  word by word.
\<close>

section \<open>The code\<close>

abbreviation LM_PERSISTENT_MAGIC :: u32 where "LM_PERSISTENT_MAGIC \<equiv> 0x4C4D5052"
abbreviation LM_PERSISTENT_RECORDS :: nat where "LM_PERSISTENT_RECORDS \<equiv> 48"
abbreviation LM_PERSISTENT_ANCHORS :: nat where "LM_PERSISTENT_ANCHORS \<equiv> 64"

record LmPersistentAllocation =
  pa_heap :: u32
  pa_node :: u32
  pa_tag :: u32
  pa_bytes :: u32
  pa_previous :: u32
  pa_next :: u32

record LmPersistentProfile =
  pp_magic :: u32
  pp_version :: u32
  pp_generation :: u32
  pp_checksum :: u32
  pp_configId :: u32
  pp_rootHeap :: u32
  pp_systemHeap :: u32
  pp_count :: u32
  pp_anchors :: "u32 list"
  pp_allocations :: "LmPersistentAllocation list"

definition persistent_no_allocation :: LmPersistentAllocation where
  "persistent_no_allocation = \<lparr>pa_heap = 0, pa_node = 0, pa_tag = 0, pa_bytes = 0, pa_previous = 0, pa_next = 0\<rparr>"

text \<open>All words 0.\<close>

definition persistent_zero :: LmPersistentProfile where
  "persistent_zero = \<lparr>pp_magic = 0, pp_version = 0, pp_generation = 0, pp_checksum = 0, pp_configId = 0, pp_rootHeap = 0,
     pp_systemHeap = 0, pp_count = 0, pp_anchors = replicate LM_PERSISTENT_ANCHORS 0,
     pp_allocations = replicate LM_PERSISTENT_RECORDS persistent_no_allocation\<rparr>"

text \<open>The structure as the words and the bytes it is made of.\<close>

definition allocation_words :: "LmPersistentAllocation \<Rightarrow> u32 list" where
  "allocation_words a = [pa_heap a, pa_node a, pa_tag a, pa_bytes a, pa_previous a, pa_next a]"

definition profile_words :: "LmPersistentProfile \<Rightarrow> u32 list" where
  "profile_words p = [pp_magic p, pp_version p, pp_generation p, pp_checksum p, pp_configId p, pp_rootHeap p,
     pp_systemHeap p, pp_count p] @ pp_anchors p @ concat (map allocation_words (pp_allocations p))"

definition LmPersistentChecksum :: "LmPersistentProfile \<Rightarrow> u32" where
  "LmPersistentChecksum p = NOT (crc_masked (\<lambda>i. 12 \<le> i \<and> i < 16) 0 (NOT 0) (image32 (profile_words p)))"

definition LmPersistentProfileValid :: "LmPersistentProfile \<Rightarrow> u32 \<Rightarrow> bool" where
  "LmPersistentProfileValid p generation \<longleftrightarrow> pp_magic p = LM_PERSISTENT_MAGIC \<and> pp_version p = 1 \<and>
     pp_generation p = generation \<and> pp_count p \<noteq> 0 \<and> unat (pp_count p) \<le> LM_PERSISTENT_RECORDS \<and>
     pp_checksum p = LmPersistentChecksum p"

definition LmPersistentWord :: "memory \<Rightarrow> u32 \<Rightarrow> u32 chk" where
  "LmPersistentWord m address = rd_note address 0 (
     rd_check (address AND 3 = 0 \<and> address \<ge> 0x80000000 \<and> address \<le> 0x817FFFFC) (rd_word m address))"

text \<open>The loop over the used list; \<open>left\<close> is the room in the array of allocations.\<close>

fun persistent_loop :: "memory \<Rightarrow> u32 \<Rightarrow> u32 \<Rightarrow> u32 \<Rightarrow> nat \<Rightarrow> u32 \<Rightarrow> u32 \<Rightarrow> LmPersistentProfile \<Rightarrow> (u32 \<times> LmPersistentProfile) chk" where
  "persistent_loop m heap start stop 0 node previous p =
     (if node = 0 then rd_return (previous, p) else rd_check False (rd_return (previous, p)))"
| "persistent_loop m heap start stop (Suc left) node previous p =
     (if node = 0 then rd_return (previous, p) else
     rd_check (\<not> (node < start \<or> node > stop - 16)) (
     rd_bind (LmPersistentWord m node) (\<lambda>tag.
     rd_check (drop_bit 16 tag = 0x484D) (
     rd_bind (LmPersistentWord m (node + 4)) (\<lambda>bytes.
     rd_check (\<not> (bytes AND 3 \<noteq> 0 \<or> bytes > stop - node - 16)) (
     rd_bind (LmPersistentWord m (node + 8)) (\<lambda>prev.
     rd_check (prev = previous) (
     rd_bind (LmPersistentWord m (node + 12)) (\<lambda>next.
     persistent_loop m heap start stop left next node
       (p\<lparr>pp_count := pp_count p + 1, pp_allocations := (pp_allocations p)[unat (pp_count p) :=
         \<lparr>pa_heap = heap, pa_node = node, pa_tag = tag, pa_bytes = bytes, pa_previous = prev, pa_next = next\<rparr>]\<rparr>))))))))))"

definition LmPersistentList :: "memory \<Rightarrow> LmPersistentProfile \<Rightarrow> u32 \<Rightarrow> LmPersistentProfile chk" where
  "LmPersistentList m p heap =
     rd_bind (LmPersistentWord m (heap + 0x30)) (\<lambda>start.
     rd_bind (LmPersistentWord m (heap + 0x34)) (\<lambda>stop.
     rd_check (\<not> (start \<ge> stop \<or> start < 0x80000000 \<or> stop > 0x81800000 \<or> (start OR stop) AND 3 \<noteq> 0)) (
     rd_bind (LmPersistentWord m (heap + 0x7C)) (\<lambda>node.
     rd_bind (LmPersistentWord m (heap + 0x80)) (\<lambda>tail.
     rd_bind (persistent_loop m heap start stop (LM_PERSISTENT_RECORDS - unat (pp_count p)) node 0 p) (\<lambda>(previous, p).
     rd_check (previous = tail) (rd_return p)))))))"

definition LmPersistentBacking :: "LmPersistentProfile \<Rightarrow> u32 \<Rightarrow> u32 \<Rightarrow> bool" where
  "LmPersistentBacking p address bytes \<longleftrightarrow>
     \<not> (bytes = 0 \<or> address < 0x80000000 \<or> address > 0x81800000 - bytes) \<and>
     list_ex (\<lambda>a. pa_heap a = pp_systemHeap p \<and> address \<ge> pa_node a + 16 \<and>
       address - (pa_node a + 16) \<le> pa_bytes a \<and> bytes \<le> pa_bytes a - (address - (pa_node a + 16)))
       (take (unat (pp_count p)) (pp_allocations p))"

text \<open>The loops of the anchors: \<open>anchors\<close> holds the \<open>n\<close> words written so far.\<close>

fun persistent_read_all :: "memory \<Rightarrow> u32 list \<Rightarrow> u32 list chk" where
  "persistent_read_all m [] = rd_return []"
| "persistent_read_all m (a # as) =
     rd_bind (LmPersistentWord m a) (\<lambda>v. rd_bind (persistent_read_all m as) (\<lambda>vs. rd_return (v # vs)))"

fun persistent_expect_all :: "memory \<Rightarrow> (u32 \<times> u32) list \<Rightarrow> u32 list chk" where
  "persistent_expect_all m [] = rd_return []"
| "persistent_expect_all m ((a, expected) # rows) =
     rd_bind (LmPersistentWord m a) (\<lambda>v. rd_check (v = expected) (
     rd_bind (persistent_expect_all m rows) (\<lambda>vs. rd_return (v # vs))))"

fun persistent_descriptors :: "memory \<Rightarrow> u32 list \<Rightarrow> u32 list chk" where
  "persistent_descriptors m [] = rd_return []"
| "persistent_descriptors m (i # is') =
     (let descriptor = 0x803C8428 + i * 0x14 in
     rd_bind (LmPersistentWord m descriptor) (\<lambda>a.
     rd_bind (LmPersistentWord m (descriptor + 4)) (\<lambda>b.
     rd_bind (LmPersistentWord m (descriptor + 8)) (\<lambda>z. rd_check (z = 0) (
     rd_bind (persistent_descriptors m is') (\<lambda>vs. rd_return (a # b # vs)))))))"

definition LmPersistentAnchors :: "memory \<Rightarrow> LmPersistentProfile \<Rightarrow> LmPersistentProfile chk" where
  "LmPersistentAnchors m p =
     rd_bind (persistent_read_all m [0x804A0BA0, 0x804A0BA4, 0x804A0BBC, 0x804A0BC0, 0x804A0BCC, 0x804A0BD0, 0x804A0BD4, 0x804A0BF8]) (\<lambda>g.
     rd_check (\<not> (\<not> LmPersistentBacking p (g ! 0) 0x80000 \<or> \<not> LmPersistentBacking p (g ! 2) 0x96000 \<or>
       \<not> LmPersistentBacking p (g ! 3) 0x96000 \<or> g ! 2 = g ! 3 \<or> g ! 2 \<noteq> g ! 4 \<or> g ! 3 \<noteq> g ! 5)) (
     rd_bind (persistent_expect_all m [(g ! 1, g ! 0), (g ! 1 + 4, g ! 0 + 0x80000 - 4), (g ! 1 + 8, 0x80000)]) (\<lambda>fifo.
     let pad = g ! 7; mode = g ! 6 in
     rd_check (LmPersistentBacking p pad 0x98) (
     rd_bind (persistent_expect_all m [(pad, 0x8038925C), (pad + 4, pp_systemHeap p)]) (\<lambda>pads.
     rd_bind (LmPersistentWord m (pad + 0x74)) (\<lambda>port.
     rd_bind (persistent_expect_all m [(pad + 0x68, 0), (pad + 0x78, 0), (pad + 0x7C, 0)]) (\<lambda>_.
     rd_check (\<not> (mode < 0x80000000 \<or> mode > 0x81800000 - 0x3C)) (
     rd_bind (persistent_read_all m (map (\<lambda>i. mode + of_nat i * 4) [0..<15])) (\<lambda>modes.
     rd_bind (persistent_descriptors m [0, 1, 2, 3, 4]) (\<lambda>descriptors.
     rd_bind (LmPersistentWord m 0x803E3CF8) (\<lambda>data.
     rd_check (LmPersistentBacking p data 0x1EC) (
     rd_bind (persistent_read_all m [data + 0x180, 0x804A042C, data + 0x184, 0x804A0444, data + 0x1E8, 0x804A045C]) (\<lambda>audio.
     rd_bind (persistent_expect_all m [(0x803E3D04, 0x80398780), (0x803E3D04 + 4, 0), (0x803E3D04 + 8, 0x8039890C)]) (\<lambda>camera.
     let anchors = g @ fifo @ pads @ [drop_bit 16 port] @ modes @ descriptors @ [data] @ audio @ camera in
     rd_return (p\<lparr>pp_anchors := anchors @ drop (length anchors) (pp_anchors p)\<rparr>)))))))))))))))"

text \<open>The profile \<open>*out\<close> gets, the result and the fault; \<open>out\<close> is null when the second argument is \<open>False\<close>.\<close>

definition LmPersistentCapture :: "memory option \<Rightarrow> bool \<Rightarrow> u32 \<Rightarrow> u32 \<Rightarrow> u32 \<Rightarrow> u32 \<Rightarrow>
    (bool \<times> LmPersistentProfile \<times> u32 \<times> u32) option" where
  "LmPersistentCapture readWord out rootHeap systemHeap configId generation =
     (if \<not> out then None else Some (case readWord of
        None \<Rightarrow> (False, persistent_zero, 0, 0)
      | Some m \<Rightarrow>
         (case rd_bind (LmPersistentList m (persistent_zero\<lparr>pp_rootHeap := rootHeap, pp_systemHeap := systemHeap,
                 pp_configId := configId, pp_generation := generation\<rparr>) rootHeap) (\<lambda>p.
               rd_bind (LmPersistentList m p systemHeap) (LmPersistentAnchors m)) rd_start of
            (Some p, r) \<Rightarrow>
              (let p = p\<lparr>pp_magic := LM_PERSISTENT_MAGIC, pp_version := 1\<rparr> in
               (True, p\<lparr>pp_checksum := LmPersistentChecksum p\<rparr>, 0, 0))
          | (None, r) \<Rightarrow> (False, persistent_zero, rd_address r, rd_value r))))"

text \<open>The first word from \<open>i\<close> on that differs, the checksum left out.\<close>

fun persistent_differing :: "nat \<Rightarrow> u32 list \<Rightarrow> u32 list \<Rightarrow> nat option" where
  "persistent_differing i (a # as) (b # bs) =
     (if i \<noteq> 3 \<and> a \<noteq> b then Some i else persistent_differing (Suc i) as bs)"
| "persistent_differing i _ _ = None"

text \<open>The result, and what is stored in \<open>*differingWord\<close> if anything is.\<close>

definition LmPersistentMatch :: "LmPersistentProfile \<Rightarrow> LmPersistentProfile \<Rightarrow> bool \<times> nat option" where
  "LmPersistentMatch saved live =
     (if \<not> LmPersistentProfileValid saved (pp_generation live) \<or> \<not> LmPersistentProfileValid live (pp_generation live) then (False, None)
      else (case persistent_differing 0 (profile_words saved) (profile_words live) of
          Some i \<Rightarrow> (False, Some i)
        | None \<Rightarrow> (True, Some 0)))"

section \<open>What is captured\<close>

definition persistent_block_ok :: "memory \<Rightarrow> u32 \<Rightarrow> u32 \<Rightarrow> u32 \<Rightarrow> bool" where
  "persistent_block_ok m start stop n \<longleftrightarrow> header_block m start stop n \<and> drop_bit 16 (heap_tag m n) = 0x484D \<and> heap_bytes m n AND 3 = 0"

definition persistent_allocation :: "memory \<Rightarrow> u32 \<Rightarrow> u32 \<Rightarrow> LmPersistentAllocation" where
  "persistent_allocation m heap n = \<lparr>pa_heap = heap, pa_node = n, pa_tag = heap_tag m n, pa_bytes = heap_bytes m n,
     pa_previous = snd (m (n + 8)), pa_next = snd (m (n + 12))\<rparr>"

text \<open>A word that a reader may look at.\<close>

definition word_there :: "memory \<Rightarrow> u32 \<Rightarrow> u32 \<Rightarrow> bool" where
  "word_there m a v \<longleftrightarrow> a AND 3 = 0 \<and> 0x80000000 \<le> a \<and> a \<le> 0x817FFFFC \<and> m a = (True, v)"

definition persistent_heap_ok :: "memory \<Rightarrow> u32 \<Rightarrow> u32 list \<Rightarrow> bool" where
  "persistent_heap_ok m heap ns \<longleftrightarrow>
     (\<exists>start stop head tail. word_there m (heap + 0x30) start \<and> word_there m (heap + 0x34) stop \<and>
        word_there m (heap + 0x7C) head \<and> word_there m (heap + 0x80) tail \<and>
        0x80000000 \<le> unat start \<and> unat start < unat stop \<and> unat stop \<le> 0x81800000 \<and> start AND 3 = 0 \<and> stop AND 3 = 0 \<and>
        block_list m 0 head ns tail \<and> (\<forall>n \<in> set ns. persistent_block_ok m start stop n))"

lemma LmPersistentWord_success [rd_success]: "fst (LmPersistentWord m a r) = Some v \<longleftrightarrow> word_there m a v"
  by (auto simp: LmPersistentWord_def rd_success word_there_def)

definition persistent_record :: "memory \<Rightarrow> u32 \<Rightarrow> u32 \<Rightarrow> LmPersistentProfile \<Rightarrow> LmPersistentProfile" where
  "persistent_record m heap n p = p\<lparr>pp_count := pp_count p + 1,
     pp_allocations := (pp_allocations p)[unat (pp_count p) := persistent_allocation m heap n]\<rparr>"

lemma aligned_unat: "w AND 3 = 0 \<longleftrightarrow> unat w mod 4 = 0" for w :: u32
proof -
  have "w AND 3 = take_bit 2 w" by (simp add: take_bit_eq_mask mask_eq_exp_minus_1)
  moreover have "unat (take_bit 2 w) = unat w mod 4" by (simp only: unsigned_take_bit_eq) (simp add: take_bit_eq_mod)
  ultimately show ?thesis by (metis unat_eq_0)
qed

lemma aligned_add: "n AND 3 = 0 \<Longrightarrow> k AND 3 = 0 \<Longrightarrow> (n + k) AND 3 = 0" for n k :: u32
proof -
  assume nk: "n AND 3 = 0" "k AND 3 = 0"
  have "(x mod 2 ^ LENGTH(32)) mod 4 = x mod 4" for x :: nat by (rule mod_mod_cancel) simp
  moreover have "4 dvd unat n + unat k" using nk unfolding aligned_unat mod_eq_0_iff_dvd by (rule dvd_add)
  ultimately show ?thesis unfolding aligned_unat unat_word_ariths by (simp only: mod_eq_0_iff_dvd [symmetric])
qed

lemma persistent_block_guards:
  assumes "0x80000000 \<le> unat start" "unat start < unat stop" "unat stop \<le> 0x81800000"
  shows "\<not> (n < start \<or> n > stop - 16) \<and> word_there m n tag \<and> drop_bit 16 tag = 0x484D \<and> word_there m (n + 4) bytes \<and>
      \<not> (bytes AND 3 \<noteq> 0 \<or> bytes > stop - n - 16) \<and> word_there m (n + 8) prev \<and> word_there m (n + 12) next \<longleftrightarrow>
    persistent_block_ok m start stop n \<and> tag = heap_tag m n \<and> bytes = heap_bytes m n \<and> m (n + 8) = (True, prev) \<and> m (n + 12) = (True, next)"
proof -
  have last: "unat (stop - 16) = unat stop - 16" using assms by (subst unat_minus_le) (simp_all add: word_le_nat_alt)
  show ?thesis
  proof (cases "n AND 3 = 0 \<and> unat start \<le> unat n \<and> unat n + 16 \<le> unat stop")
    case True
    have there: "word_there m (n + k) v \<longleftrightarrow> m (n + k) = (True, v)" if "k AND 3 = 0" "unat k \<le> 12" for k v
    proof -
      have "unat (n + k) = unat n + unat k" using True that(2) assms(3) by (intro unat_plus_bound) simp
      then show ?thesis
        using True that assms by (auto simp: word_there_def aligned_add word_le_nat_alt)
    qed
    have r: "range_inside n 16 start stop" using True by (simp add: range_inside_unat)
    have e: "\<not> (n < start \<or> n > stop - 16)" using True last by (auto simp: word_less_nat_alt)
    show ?thesis
      using there [of 0] there [of 4] there [of 8] there [of 12] r e
      by (cases "m n"; cases "m (n + 4)")
        (auto simp: persistent_block_ok_def header_block_guards heap_tag_def heap_bytes_def not_less)
  next
    case False
    then have "n AND 3 \<noteq> 0 \<or> n < start \<or> n > stop - 16" using last assms by (auto simp: word_less_nat_alt)
    then show ?thesis
      using False by (auto simp: persistent_block_ok_def header_block_def word_there_def)
  qed
qed

lemma persistent_loop_success:
  assumes "0x80000000 \<le> unat start" "unat start < unat stop" "unat stop \<le> 0x81800000"
  shows "fst (persistent_loop m heap start stop left node prev p r) = Some (fin, q) \<longleftrightarrow>
    (\<exists>ns. block_list m prev node ns fin \<and> length ns \<le> left \<and> (\<forall>n \<in> set ns. persistent_block_ok m start stop n) \<and>
      q = fold (persistent_record m heap) ns p)"
proof (induction left arbitrary: node prev p r)
  case 0
  then show ?case by (cases "node = 0") (auto simp: rd_success)
next
  case (Suc left)
  show ?case
  proof (cases "node = 0")
    case True
    have "block_list m prev node ns fin \<longleftrightarrow> ns = [] \<and> fin = prev" for ns using True by (cases ns) auto
    with True show ?thesis by (auto simp: rd_success)
  next
    case False
    let ?alloc = "\<lambda>tag bytes prev next. p\<lparr>pp_count := pp_count p + 1, pp_allocations := (pp_allocations p)[unat (pp_count p) :=
         \<lparr>pa_heap = heap, pa_node = node, pa_tag = tag, pa_bytes = bytes, pa_previous = prev, pa_next = next\<rparr>]\<rparr>"
    have "fst (persistent_loop m heap start stop (Suc left) node prev p r) = Some (fin, q) \<longleftrightarrow>
      (\<exists>tag bytes next. (\<not> (node < start \<or> node > stop - 16) \<and> word_there m node tag \<and> drop_bit 16 tag = 0x484D \<and>
        word_there m (node + 4) bytes \<and> \<not> (bytes AND 3 \<noteq> 0 \<or> bytes > stop - node - 16) \<and> word_there m (node + 8) prev \<and>
        word_there m (node + 12) next) \<and>
        (\<exists>ns. block_list m node next ns fin \<and> length ns \<le> left \<and> (\<forall>n \<in> set ns. persistent_block_ok m start stop n) \<and>
          q = fold (persistent_record m heap) ns (?alloc tag bytes prev next)))"
      using False by (simp add: rd_success Suc.IH)
    also have "\<dots> \<longleftrightarrow> (\<exists>next. persistent_block_ok m start stop node \<and> m (node + 8) = (True, prev) \<and> m (node + 12) = (True, next) \<and>
        (\<exists>ns. block_list m node next ns fin \<and> length ns \<le> left \<and> (\<forall>n \<in> set ns. persistent_block_ok m start stop n) \<and>
          q = fold (persistent_record m heap) (node # ns) p))"
      unfolding persistent_block_guards [OF assms]
      by (rule iffI; elim exE conjE; force simp: persistent_record_def persistent_allocation_def)
    also have "\<dots> \<longleftrightarrow> (\<exists>ns. block_list m prev node ns fin \<and> length ns \<le> Suc left \<and> (\<forall>n \<in> set ns. persistent_block_ok m start stop n) \<and>
        q = fold (persistent_record m heap) ns p)" (is "?l \<longleftrightarrow> ?r")
    proof
      assume ?l
      then obtain ns "next" where "persistent_block_ok m start stop node" "m (node + 8) = (True, prev)" "m (node + 12) = (True, next)"
        "block_list m node next ns fin" "length ns \<le> left" "\<forall>n \<in> set ns. persistent_block_ok m start stop n"
        "q = fold (persistent_record m heap) (node # ns) p" by blast
      with False show ?r by (intro exI [of _ "node # ns"]) auto
    next
      assume ?r
      then obtain ns where ns: "block_list m prev node ns fin" "length ns \<le> Suc left" "\<forall>n \<in> set ns. persistent_block_ok m start stop n"
        "q = fold (persistent_record m heap) ns p" by blast
      then obtain ks where "ns = node # ks" using False by (cases ns) auto
      with ns show ?l by auto
    qed
    finally show ?thesis .
  qed
qed

text \<open>The array of allocations: \<open>as\<close> are the entries written so far.\<close>

definition persistent_filled :: "LmPersistentProfile \<Rightarrow> LmPersistentAllocation list \<Rightarrow> LmPersistentProfile" where
  "persistent_filled p as = p\<lparr>pp_count := of_nat (length as),
     pp_allocations := as @ replicate (LM_PERSISTENT_RECORDS - length as) persistent_no_allocation\<rparr>"

lemma persistent_record_filled:
  assumes "length as < LM_PERSISTENT_RECORDS"
  shows "persistent_record m heap n (persistent_filled p as) = persistent_filled p (as @ [persistent_allocation m heap n])"
proof -
  have "unat (of_nat (length as) :: u32) = length as"
    using assms by (simp add: unat_of_nat take_bit_nat_eq_self)
  moreover have "(as @ replicate (48 - length as) persistent_no_allocation)[length as := x] =
      (as @ [x]) @ replicate (48 - Suc (length as)) persistent_no_allocation" for x
  proof -
    obtain k where "48 - length as = Suc k" using assms by (cases "48 - length as") auto
    then show ?thesis by (simp add: list_update_append)
  qed
  ultimately show ?thesis by (simp add: persistent_record_def persistent_filled_def)
qed

lemma persistent_fold_filled:
  "length as + length ns \<le> LM_PERSISTENT_RECORDS \<Longrightarrow>
    fold (persistent_record m heap) ns (persistent_filled p as) = persistent_filled p (as @ map (persistent_allocation m heap) ns)"
  by (induction ns arbitrary: "as") (simp_all add: persistent_record_filled)

lemma LmPersistentList_success:
  assumes "length as \<le> LM_PERSISTENT_RECORDS"
  shows "fst (LmPersistentList m (persistent_filled p as) heap r) = Some q \<longleftrightarrow>
    (\<exists>ns. persistent_heap_ok m heap ns \<and> length as + length ns \<le> LM_PERSISTENT_RECORDS \<and>
      q = persistent_filled p (as @ map (persistent_allocation m heap) ns))"
proof -
  have count: "unat (pp_count (persistent_filled p as)) = length as"
    using assms by (simp add: persistent_filled_def unat_of_nat take_bit_nat_eq_self)
  have or3: "(start OR stop) AND 3 = 0 \<longleftrightarrow> start AND 3 = 0 \<and> stop AND 3 = 0" for start stop :: u32
    by (simp only: and.commute [of _ 3] bit.conj_disj_distrib or_eq_0_iff)
  have guard: "\<not> (start \<ge> stop \<or> start < 0x80000000 \<or> stop > 0x81800000 \<or> (start OR stop) AND 3 \<noteq> 0) \<longleftrightarrow>
      0x80000000 \<le> unat start \<and> unat start < unat stop \<and> unat stop \<le> 0x81800000 \<and> start AND 3 = 0 \<and> stop AND 3 = 0" for start stop :: u32
    unfolding or3 by (auto simp: word_less_nat_alt word_le_nat_alt)
  have loop: "fst (persistent_loop m heap start stop (48 - length as) node 0 (persistent_filled p as) r) = Some (fin, q) \<longleftrightarrow>
      (\<exists>ns. block_list m 0 node ns fin \<and> (\<forall>n \<in> set ns. persistent_block_ok m start stop n) \<and> length as + length ns \<le> 48 \<and>
        q = persistent_filled p (as @ map (persistent_allocation m heap) ns))"
    if "0x80000000 \<le> unat start \<and> unat start < unat stop \<and> unat stop \<le> 0x81800000 \<and> start AND 3 = 0 \<and> stop AND 3 = 0" for start stop node fin q r
  proof -
    have b: "0x80000000 \<le> unat start" "unat start < unat stop" "unat stop \<le> 0x81800000" using that by auto
    show ?thesis
      unfolding persistent_loop_success [OF b]
    proof (rule arg_cong [where f = Ex], rule ext)
      fix ns
      show "(block_list m 0 node ns fin \<and> length ns \<le> 48 - length as \<and> (\<forall>n \<in> set ns. persistent_block_ok m start stop n) \<and>
          q = fold (persistent_record m heap) ns (persistent_filled p as)) =
        (block_list m 0 node ns fin \<and> (\<forall>n \<in> set ns. persistent_block_ok m start stop n) \<and> length as + length ns \<le> 48 \<and>
        q = persistent_filled p (as @ map (persistent_allocation m heap) ns))"
        using assms persistent_fold_filled [of "as" ns m heap p] by auto
    qed
  qed
  show ?thesis (is "?l \<longleftrightarrow> ?r")
  proof
    assume ?l
    then obtain start stop node tail y r' where w: "word_there m (heap + 0x30) start" "word_there m (heap + 0x34) stop"
        "word_there m (heap + 0x7C) node" "word_there m (heap + 0x80) tail"
      and g: "0x80000000 \<le> unat start \<and> unat start < unat stop \<and> unat stop \<le> 0x81800000 \<and> start AND 3 = 0 \<and> stop AND 3 = 0"
      and y: "fst (persistent_loop m heap start stop (48 - length as) node 0 (persistent_filled p as) r') = Some (tail, y)" "q = y"
      unfolding LmPersistentList_def rd_success count guard case_prod_beta by auto
    from y(1) [unfolded loop [OF g]] y(2) w g show ?r unfolding persistent_heap_ok_def by blast
  next
    assume ?r
    then obtain ns start stop node tail where w: "word_there m (heap + 0x30) start" "word_there m (heap + 0x34) stop"
        "word_there m (heap + 0x7C) node" "word_there m (heap + 0x80) tail"
      and g: "0x80000000 \<le> unat start \<and> unat start < unat stop \<and> unat stop \<le> 0x81800000 \<and> start AND 3 = 0 \<and> stop AND 3 = 0"
      and ns: "block_list m 0 node ns tail" "\<forall>n \<in> set ns. persistent_block_ok m start stop n" "length as + length ns \<le> 48"
        "q = persistent_filled p (as @ map (persistent_allocation m heap) ns)"
      unfolding persistent_heap_ok_def by blast
    have "fst (persistent_loop m heap start stop (48 - length as) node 0 (persistent_filled p as) r') = Some (tail, q)" for r'
      unfolding loop [OF g] using ns by blast
    then show ?l
      unfolding LmPersistentList_def rd_success count guard case_prod_beta using w g by simp blast
  qed
qed

text \<open>The profile before the anchors are read, and the end of a successful capture.\<close>

definition persistent_base :: "memory \<Rightarrow> u32 \<Rightarrow> u32 \<Rightarrow> u32 \<Rightarrow> u32 \<Rightarrow> u32 list \<Rightarrow> u32 list \<Rightarrow> LmPersistentProfile" where
  "persistent_base m root system config generation us ss =
     persistent_filled (persistent_zero\<lparr>pp_rootHeap := root, pp_systemHeap := system, pp_configId := config, pp_generation := generation\<rparr>)
       (map (persistent_allocation m root) us @ map (persistent_allocation m system) ss)"

definition persistent_stamped :: "LmPersistentProfile \<Rightarrow> LmPersistentProfile" where
  "persistent_stamped p = (let p = p\<lparr>pp_magic := LM_PERSISTENT_MAGIC, pp_version := 1\<rparr> in p\<lparr>pp_checksum := LmPersistentChecksum p\<rparr>)"

lemma anchors_reader: "LmPersistentAnchors m p r = LmPersistentAnchors m p r'"
  by (simp add: LmPersistentAnchors_def rd_bind_def LmPersistentWord_def rd_note_def)

lemma checksum_self: "LmPersistentChecksum (p\<lparr>pp_checksum := c\<rparr>) = LmPersistentChecksum p"
proof -
  have bytes: "image32 (profile_words (p\<lparr>pp_checksum := c\<rparr>)) ! i = image32 (profile_words p) ! i" if "\<not> (12 \<le> i \<and> i < 16)" for i
  proof -
    obtain rest where rest: "\<And>c. profile_words (p\<lparr>pp_checksum := c\<rparr>) = [pp_magic p, pp_version p, pp_generation p] @ [c] @ rest"
      unfolding profile_words_def by simp
    have self: "profile_words p = [pp_magic p, pp_version p, pp_generation p] @ [pp_checksum p] @ rest"
      using rest [of "pp_checksum p"] by simp
    show ?thesis unfolding self rest using that
      by (simp only: image32_append nth_append length_image32) (auto simp: nth_append)
  qed
  have "length (image32 (profile_words (p\<lparr>pp_checksum := c\<rparr>))) = length (image32 (profile_words p))"
    by (simp add: profile_words_def)
  from crc_masked_skip [OF this, of "\<lambda>i. 12 \<le> i \<and> i < 16"] bytes show ?thesis
    by (simp add: LmPersistentChecksum_def)
qed

text \<open>The capture as the two lists followed by the anchors.\<close>

lemma captured_reader:
  "LmPersistentCapture (Some m) True root system config generation = Some (True, p, 0, 0) \<longleftrightarrow>
    (\<exists>us ss q r. persistent_heap_ok m root us \<and> persistent_heap_ok m system ss \<and> length us + length ss \<le> LM_PERSISTENT_RECORDS \<and>
      LmPersistentAnchors m (persistent_base m root system config generation us ss) rd_start = (Some q, r) \<and>
      p = persistent_stamped q)"
proof -
  let ?z = "persistent_zero\<lparr>pp_rootHeap := root, pp_systemHeap := system, pp_configId := config, pp_generation := generation\<rparr>"
  let ?check = "rd_bind (LmPersistentList m ?z root) (\<lambda>p. rd_bind (LmPersistentList m p system) (LmPersistentAnchors m))"
  have z: "?z = persistent_filled ?z []"
    by (simp add: persistent_filled_def persistent_zero_def)
  have root: "fst (LmPersistentList m ?z root r) = Some q \<longleftrightarrow>
      (\<exists>us. persistent_heap_ok m root us \<and> length us \<le> 48 \<and> q = persistent_filled ?z (map (persistent_allocation m root) us))" for q r
    using LmPersistentList_success [of "[]" m ?z root r q] unfolding z [symmetric] by simp
  have system: "fst (LmPersistentList m (persistent_filled ?z (map (persistent_allocation m root) us)) system r) = Some q \<longleftrightarrow>
      (\<exists>ss. persistent_heap_ok m system ss \<and> length us + length ss \<le> 48 \<and> q = persistent_base m root system config generation us ss)"
    if "length us \<le> 48" for us q r
    using LmPersistentList_success [of "map (persistent_allocation m root) us" m ?z system r q] that by (simp add: persistent_base_def)
  have "fst (?check rd_start) = Some q \<longleftrightarrow> (\<exists>us ss r. persistent_heap_ok m root us \<and> persistent_heap_ok m system ss \<and>
      length us + length ss \<le> 48 \<and> LmPersistentAnchors m (persistent_base m root system config generation us ss) rd_start = (Some q, r))"
    (is "?l q \<longleftrightarrow> ?r q") for q
  proof
    assume "?l q"
    then obtain p1 p2 r1 r2 where p: "fst (LmPersistentList m ?z root rd_start) = Some p1" "fst (LmPersistentList m p1 system r1) = Some p2"
      "fst (LmPersistentAnchors m p2 r2) = Some q" unfolding rd_success by blast
    from p(1) [unfolded root] obtain us where us: "persistent_heap_ok m root us" "length us \<le> 48"
      "p1 = persistent_filled ?z (map (persistent_allocation m root) us)" by blast
    from p(2) [unfolded us(3) system [OF us(2)]] obtain ss where ss: "persistent_heap_ok m system ss" "length us + length ss \<le> 48"
      "p2 = persistent_base m root system config generation us ss" by blast
    with p(3) us(1) show "?r q" by (metis anchors_reader prod.collapse)
  next
    assume "?r q"
    then obtain us ss r where us: "persistent_heap_ok m root us" "persistent_heap_ok m system ss" "length us + length ss \<le> 48"
      and a: "LmPersistentAnchors m (persistent_base m root system config generation us ss) rd_start = (Some q, r)" by blast
    have len: "length us \<le> 48" using us(3) by simp
    have "fst (LmPersistentList m ?z root rd_start) = Some (persistent_filled ?z (map (persistent_allocation m root) us))"
      unfolding root using us(1) len by blast
    moreover have "fst (LmPersistentList m (persistent_filled ?z (map (persistent_allocation m root) us)) system r') =
        Some (persistent_base m root system config generation us ss)" for r'
      unfolding system [OF len] using us by blast
    moreover have "fst (LmPersistentAnchors m (persistent_base m root system config generation us ss) r') = Some q" for r'
      using a anchors_reader [of m _ r' rd_start] by simp
    ultimately show "?l q" unfolding rd_success by blast
  qed
  moreover have "LmPersistentCapture (Some m) True root system config generation = Some (True, p, 0, 0) \<longleftrightarrow>
      (\<exists>q. fst (?check rd_start) = Some q \<and> p = persistent_stamped q)"
    by (cases "?check rd_start") (auto simp: LmPersistentCapture_def persistent_stamped_def Let_def split: option.splits)
  ultimately show ?thesis by blast
qed

text \<open>The globals in order, said of the memory alone: the block of the system heap's used list that holds a structure, and
  the values that the anchors record.\<close>

definition system_holds :: "memory \<Rightarrow> u32 list \<Rightarrow> u32 \<Rightarrow> nat \<Rightarrow> bool" where
  "system_holds m ss a k \<longleftrightarrow> 0x80000000 \<le> unat a \<and> unat a + k \<le> 0x81800000 \<and>
     (\<exists>n \<in> set ss. unat n + 16 \<le> unat a \<and> unat a + k \<le> unat n + 16 + unat (heap_bytes m n))"

definition persistent_globals :: "memory \<Rightarrow> u32 \<Rightarrow> u32 list \<Rightarrow> u32 list \<Rightarrow> bool" where
  "persistent_globals m system ss anchors \<longleftrightarrow>
     (\<exists>buffer fifo xfb0 xfb1 mode pad port modes descriptors data v0 n0 v1 n1 v2 n2.
        list_all (\<lambda>(a, v). word_there m a v)
          [(0x804A0BA0, buffer), (0x804A0BA4, fifo), (0x804A0BBC, xfb0), (0x804A0BC0, xfb1), (0x804A0BCC, xfb0),
           (0x804A0BD0, xfb1), (0x804A0BD4, mode), (0x804A0BF8, pad)] \<and>
        system_holds m ss buffer 0x80000 \<and> system_holds m ss xfb0 0x96000 \<and> system_holds m ss xfb1 0x96000 \<and> xfb0 \<noteq> xfb1 \<and>
        list_all (\<lambda>(a, v). word_there m a v) [(fifo, buffer), (fifo + 4, buffer + 0x7FFFC), (fifo + 8, 0x80000)] \<and>
        system_holds m ss pad 0x98 \<and>
        list_all (\<lambda>(a, v). word_there m a v) [(pad, 0x8038925C), (pad + 4, system), (pad + 0x74, port), (pad + 0x68, 0),
           (pad + 0x78, 0), (pad + 0x7C, 0)] \<and>
        0x80000000 \<le> unat mode \<and> unat mode + 0x3C \<le> 0x81800000 \<and>
        list_all2 (word_there m) (map (\<lambda>i. mode + of_nat i * 4) [0..<15]) modes \<and>
        list_all2 (\<lambda>i (a, b). word_there m (0x803C8428 + i * 0x14) a \<and> word_there m (0x803C8428 + i * 0x14 + 4) b \<and>
           word_there m (0x803C8428 + i * 0x14 + 8) 0) [0, 1, 2, 3, 4] descriptors \<and>
        word_there m 0x803E3CF8 data \<and> system_holds m ss data 0x1EC \<and>
        list_all (\<lambda>(a, v). word_there m a v) [(data + 0x180, v0), (0x804A042C, n0), (data + 0x184, v1), (0x804A0444, n1),
           (data + 0x1E8, v2), (0x804A045C, n2), (0x803E3D04, 0x80398780), (0x803E3D08, 0), (0x803E3D0C, 0x8039890C)] \<and>
        anchors = [buffer, fifo, xfb0, xfb1, xfb0, xfb1, mode, pad, buffer, buffer + 0x7FFFC, 0x80000, 0x8038925C, system,
          drop_bit 16 port] @ modes @ concat (map (\<lambda>(a, b). [a, b]) descriptors) @ [data, v0, n0, v1, n1, v2, n2, 0x80398780, 0, 0x8039890C])"

lemma persistent_read_all_success [rd_success]:
  "fst (persistent_read_all m as r) = Some vs \<longleftrightarrow> list_all2 (word_there m) as vs"
  by (induction "as" arbitrary: vs r) (auto simp: rd_success list_all2_Cons1)

lemma persistent_expect_all_success [rd_success]:
  "fst (persistent_expect_all m rows r) = Some vs \<longleftrightarrow> list_all (\<lambda>(a, v). word_there m a v) rows \<and> vs = map snd rows"
  by (induction rows arbitrary: vs r) (auto simp: rd_success)

lemma persistent_descriptors_success [rd_success]:
  "fst (persistent_descriptors m is r) = Some vs \<longleftrightarrow>
    (\<exists>ds. list_all2 (\<lambda>i (a, b). word_there m (0x803C8428 + i * 0x14) a \<and> word_there m (0x803C8428 + i * 0x14 + 4) b \<and>
       word_there m (0x803C8428 + i * 0x14 + 8) 0) is ds \<and> vs = concat (map (\<lambda>(a, b). [a, b]) ds))"
  by (induction "is" arbitrary: vs r) (auto simp: rd_success list_all2_Cons1 Let_def, force)

lemma persistent_mode_room: "\<not> (mode < 0x80000000 \<or> mode > 0x81800000 - 0x3C) \<longleftrightarrow> 0x80000000 \<le> unat mode \<and> unat mode + 0x3C \<le> 0x81800000"
  for mode :: u32
  by (auto simp: word_less_nat_alt)

lemma eight_words:
  "list_all2 P [a0, a1, a2, a3, a4, a5, a6, a7] vs \<longleftrightarrow> (\<exists>v0 v1 v2 v3 v4 v5 v6 v7. vs = [v0, v1, v2, v3, v4, v5, v6, v7] \<and>
    P a0 v0 \<and> P a1 v1 \<and> P a2 v2 \<and> P a3 v3 \<and> P a4 v4 \<and> P a5 v5 \<and> P a6 v6 \<and> P a7 v7)"
  by (simp only: list_all2_Cons1 list_all2_Nil) (rule iffI; elim exE conjE; hypsubst; (intro exI conjI)?; (rule refl | assumption))

lemma six_words:
  "list_all2 P [a0, a1, a2, a3, a4, a5] vs \<longleftrightarrow> (\<exists>v0 v1 v2 v3 v4 v5. vs = [v0, v1, v2, v3, v4, v5] \<and>
    P a0 v0 \<and> P a1 v1 \<and> P a2 v2 \<and> P a3 v3 \<and> P a4 v4 \<and> P a5 v5)"
  by (simp only: list_all2_Cons1 list_all2_Nil) (rule iffI; elim exE conjE; hypsubst; (intro exI conjI)?; (rule refl | assumption))

lemma persistent_anchors_success:
  assumes backing: "\<And>a k. k \<in> {0x80000, 0x96000, 0x98, 0x1EC} \<Longrightarrow> LmPersistentBacking p a k \<longleftrightarrow> system_holds m ss a (unat k)"
  shows "fst (LmPersistentAnchors m p r) = Some q \<longleftrightarrow> (\<exists>anchors. persistent_globals m (pp_systemHeap p) ss anchors \<and>
    q = p\<lparr>pp_anchors := anchors @ drop (length anchors) (pp_anchors p)\<rparr>)" (is "?l \<longleftrightarrow> ?r")
proof -
  have holds: "LmPersistentBacking p a 0x80000 = system_holds m ss a 0x80000" "LmPersistentBacking p a 0x96000 = system_holds m ss a 0x96000"
    "LmPersistentBacking p a 0x98 = system_holds m ss a 0x98" "LmPersistentBacking p a 0x1EC = system_holds m ss a 0x1EC" for a
    using backing [of "0x80000" a] backing [of "0x96000" a] backing [of "0x98" a] backing [of "0x1EC" a] by simp_all
  have words: "b + 0x80000 - 4 = b + 0x7FFFC" "0x803E3D04 + 4 = (0x803E3D08 :: u32)" "0x803E3D04 + 8 = (0x803E3D0C :: u32)" for b :: u32
    by simp_all
  have eight: "[v0, v1, v2, v3, v4, v5, v6, v7] ! 0 = v0" "[v0, v1, v2, v3, v4, v5, v6, v7] ! 1 = v1"
    "[v0, v1, v2, v3, v4, v5, v6, v7] ! 2 = v2" "[v0, v1, v2, v3, v4, v5, v6, v7] ! 3 = v3"
    "[v0, v1, v2, v3, v4, v5, v6, v7] ! 4 = v4" "[v0, v1, v2, v3, v4, v5, v6, v7] ! 5 = v5"
    "[v0, v1, v2, v3, v4, v5, v6, v7] ! 6 = v6" "[v0, v1, v2, v3, v4, v5, v6, v7] ! 7 = v7" for v0 v1 v2 v3 v4 v5 v6 v7 :: u32
    by simp_all
  note lists = list.pred_inject prod.case list.map snd_conv append_Cons append_Nil append_assoc simp_thms
  show ?thesis
  proof
    assume ?l
    then show ?r
      unfolding LmPersistentAnchors_def Let_def rd_success persistent_mode_room holds words eight_words six_words
      apply (elim exE conjE)
      apply hypsubst
      apply (simp only: eight de_Morgan_disj not_not lists persistent_globals_def)
      apply (elim exE conjE)
      apply hypsubst
      apply (intro exI conjI)
      apply (assumption | rule refl)+
      apply (simp only: lists)
      done
  next
    assume ?r
    then show ?l
      unfolding LmPersistentAnchors_def Let_def rd_success persistent_mode_room holds words eight_words six_words
      apply (elim exE conjE)
      apply (simp only: persistent_globals_def lists)
      apply (elim exE conjE)
      apply hypsubst
      apply (intro exI conjI)
      apply ((rule refl | assumption | (simp only: eight de_Morgan_disj not_not lists; fail) |
          (simp only: eight de_Morgan_disj not_not lists, intro conjI))+)
      done
  qed
qed

lemma persistent_globals_length: "persistent_globals m system ss anchors \<Longrightarrow> length anchors = 49"
  by (auto simp: persistent_globals_def list_all2_Cons1 dest!: list_all2_lengthD)

lemma system_block_holds:
  fixes n a k w :: u32
  assumes "unat n + 16 + unat w \<le> 0x81800000" "k \<noteq> 0" "unat k \<le> 0x81800000"
  shows "a \<ge> n + 16 \<and> a - (n + 16) \<le> w \<and> k \<le> w - (a - (n + 16)) \<longleftrightarrow> unat n + 16 \<le> unat a \<and> unat a + unat k \<le> unat n + 16 + unat w"
proof -
  have n: "unat (n + 16) = unat n + 16" using assms(1) by (subst unat_plus_bound) simp_all
  show ?thesis
  proof (cases "n + 16 \<le> a \<and> a - (n + 16) \<le> w")
    case True
    then have "unat (a - (n + 16)) = unat a - (unat n + 16)" "unat (w - (a - (n + 16))) = unat w - (unat a - (unat n + 16))"
      by (simp_all add: unat_minus_le n)
    with True show ?thesis by (auto simp: word_le_nat_alt n)
  next
    case False
    have "0 < unat k" using assms(2) by (simp add: unat_gt_0)
    moreover have "unat (a - (n + 16)) = unat a - (unat n + 16)" if "n + 16 \<le> a" using that by (simp add: unat_minus_le n)
    ultimately show ?thesis using False by (auto simp: word_le_nat_alt n)
  qed
qed

lemma persistent_backing_holds:
  assumes heaps: "persistent_heap_ok m root us" "persistent_heap_ok m system ss" "length us + length ss \<le> LM_PERSISTENT_RECORDS"
    and k: "k \<noteq> 0" "unat k \<le> 0x1800000"
  shows "LmPersistentBacking (persistent_base m root system config generation us ss) a k \<longleftrightarrow> system_holds m ss a (unat k)"
proof -
  have taken: "take (unat (pp_count (persistent_base m root system config generation us ss)))
      (pp_allocations (persistent_base m root system config generation us ss)) =
      map (persistent_allocation m root) us @ map (persistent_allocation m system) ss"
  proof -
    have "unat (of_nat (length us + length ss) :: u32) = length us + length ss"
      using heaps(3) by (simp only: unat_of_nat take_bit_nat_eq_self_iff) simp
    then show ?thesis using heaps(3) by (simp add: persistent_base_def persistent_filled_def del: of_nat_add)
  qed
  have inside: "unat n + 16 + unat (heap_bytes m n) \<le> 0x81800000" if "n \<in> set ss" for n
    using heaps(2) that by (force simp: persistent_heap_ok_def persistent_block_ok_def header_block_def)
  have same: "us = ss" if "root = system"
    using heaps(1,2) that by (auto simp: persistent_heap_ok_def word_there_def dest: block_list_unique)
  have room: "\<not> (k = 0 \<or> a < 0x80000000 \<or> a > 0x81800000 - k) \<longleftrightarrow> 0x80000000 \<le> unat a \<and> unat a + unat k \<le> 0x81800000"
  proof -
    have "unat (0x81800000 - k) = 0x81800000 - unat k" using k(2) by (subst unat_minus_le) (simp_all add: word_le_nat_alt)
    then show ?thesis using k by (auto simp: word_less_nat_alt)
  qed
  have "list_ex (\<lambda>x. pa_heap x = system \<and> a \<ge> pa_node x + 16 \<and> a - (pa_node x + 16) \<le> pa_bytes x \<and>
      k \<le> pa_bytes x - (a - (pa_node x + 16))) (map (persistent_allocation m root) us @ map (persistent_allocation m system) ss) \<longleftrightarrow>
      (\<exists>n \<in> set ss. a \<ge> n + 16 \<and> a - (n + 16) \<le> heap_bytes m n \<and> k \<le> heap_bytes m n - (a - (n + 16)))"
    using same by (simp add: list_ex_iff bex_Un persistent_allocation_def) blast
  also have "\<dots> \<longleftrightarrow> (\<exists>n \<in> set ss. unat n + 16 \<le> unat a \<and> unat a + unat k \<le> unat n + 16 + unat (heap_bytes m n))"
    using inside k by (intro bex_cong refl system_block_holds) auto
  finally show ?thesis
    unfolding LmPersistentBacking_def taken system_holds_def room
    by (simp add: persistent_base_def persistent_filled_def)
qed

lemma persistent_checksum_plain:
  "LmPersistentChecksum p = NOT (foldl crc_byte (NOT 0) (image32 (profile_words (p\<lparr>pp_checksum := 0\<rparr>))))"
proof -
  let ?bs = "image32 (profile_words (p\<lparr>pp_checksum := 0\<rparr>))"
  have z: "?bs ! k = 0" if k: "12 \<le> k" "k < 16" for k
  proof -
    have "k \<in> {12, 13, 14, 15}" using k by auto
    then show ?thesis by (auto simp: profile_words_def image32_def be32_def nth_append)
  qed
  have masked: "map (\<lambda>k. if 12 \<le> 0 + k \<and> 0 + k < 16 then 0 else ?bs ! k) [0..<length ?bs] = ?bs"
    by (rule nth_equalityI) (auto simp: z)
  have "LmPersistentChecksum p = LmPersistentChecksum (p\<lparr>pp_checksum := 0\<rparr>)" by (simp only: checksum_self)
  also have "\<dots> = NOT (foldl crc_byte (NOT 0) ?bs)"
    unfolding LmPersistentChecksum_def crc_masked_foldl masked ..
  finally show ?thesis .
qed

text \<open>C37: A capture succeeds, without a fault, exactly when the used lists of both permanent heaps are sound (linked both
  ways, inside their heap, every tag \<open>HM\<close>, at most 48 blocks together) and the typed globals are: the render buffers and
  the FIFO with its descriptor, the pad and the audio data lie in used blocks of the system heap that hold them whole and
  have the contents that the boot gave them.  The profile is then determined: every used block in list order with its
  links, the 49 anchors in the order of the globals, zeroes behind both, and as checksum the CRC-32 of the whole with the
  checksum word taken as 0.\<close>

theorem persistent_captured:
  "LmPersistentCapture (Some m) True root system config generation = Some (True, p, 0, 0) \<longleftrightarrow>
    (\<exists>us ss anchors. persistent_heap_ok m root us \<and> persistent_heap_ok m system ss \<and> length us + length ss \<le> LM_PERSISTENT_RECORDS \<and>
      persistent_globals m system ss anchors \<and>
      pp_magic p = LM_PERSISTENT_MAGIC \<and> pp_version p = 1 \<and> pp_generation p = generation \<and> pp_configId p = config \<and>
      pp_rootHeap p = root \<and> pp_systemHeap p = system \<and> pp_count p = of_nat (length us + length ss) \<and>
      pp_anchors p = anchors @ replicate 15 0 \<and>
      pp_allocations p = map (persistent_allocation m root) us @ map (persistent_allocation m system) ss @
        replicate (LM_PERSISTENT_RECORDS - (length us + length ss)) persistent_no_allocation \<and>
      pp_checksum p = NOT (foldl crc_byte (NOT 0) (image32 (profile_words (p\<lparr>pp_checksum := 0\<rparr>)))))"
proof -
  have anchors: "(\<exists>q r. LmPersistentAnchors m (persistent_base m root system config generation us ss) rd_start = (Some q, r) \<and>
      p = persistent_stamped q) \<longleftrightarrow>
    (\<exists>anchors. persistent_globals m system ss anchors \<and> p = persistent_stamped ((persistent_base m root system config generation us ss)
      \<lparr>pp_anchors := anchors @ replicate 15 0\<rparr>))"
    if heaps: "persistent_heap_ok m root us" "persistent_heap_ok m system ss" "length us + length ss \<le> LM_PERSISTENT_RECORDS" for us ss
  proof -
    let ?b = "persistent_base m root system config generation us ss"
    have b: "pp_systemHeap ?b = system" "pp_anchors ?b = replicate 64 0"
      by (simp_all add: persistent_base_def persistent_filled_def persistent_zero_def)
    have "fst (LmPersistentAnchors m ?b rd_start) = Some q \<longleftrightarrow> (\<exists>anchors. persistent_globals m system ss anchors \<and>
        q = ?b\<lparr>pp_anchors := anchors @ drop (length anchors) (replicate 64 0)\<rparr>)" for q
      using persistent_anchors_success [of ?b m ss rd_start q] persistent_backing_holds [OF heaps] b by force
    also have "\<dots> q \<longleftrightarrow> (\<exists>anchors. persistent_globals m system ss anchors \<and> q = ?b\<lparr>pp_anchors := anchors @ replicate 15 0\<rparr>)" for q
      using persistent_globals_length [of m system ss] by force
    finally show ?thesis by (metis prod.collapse fst_conv)
  qed
  have stamped: "p = persistent_stamped ((persistent_base m root system config generation us ss)\<lparr>pp_anchors := anchors @ replicate 15 0\<rparr>) \<longleftrightarrow>
      pp_magic p = LM_PERSISTENT_MAGIC \<and> pp_version p = 1 \<and> pp_generation p = generation \<and> pp_configId p = config \<and>
      pp_rootHeap p = root \<and> pp_systemHeap p = system \<and> pp_count p = of_nat (length us + length ss) \<and>
      pp_anchors p = anchors @ replicate 15 0 \<and>
      pp_allocations p = map (persistent_allocation m root) us @ map (persistent_allocation m system) ss @
        replicate (LM_PERSISTENT_RECORDS - (length us + length ss)) persistent_no_allocation \<and>
      pp_checksum p = NOT (foldl crc_byte (NOT 0) (image32 (profile_words (p\<lparr>pp_checksum := 0\<rparr>))))" (is "p = persistent_stamped ?q \<longleftrightarrow> ?fields")
    for us ss anchors
  proof
    have check: "pp_checksum (persistent_stamped q) = LmPersistentChecksum (persistent_stamped q)" for q
      by (simp add: persistent_stamped_def Let_def checksum_self)
    assume "p = persistent_stamped ?q"
    then show ?fields using check [of ?q] unfolding persistent_checksum_plain [symmetric]
      by (simp add: persistent_stamped_def Let_def persistent_base_def persistent_filled_def persistent_zero_def)
  next
    assume f: ?fields
    let ?s = "?q\<lparr>pp_magic := LM_PERSISTENT_MAGIC, pp_version := 1\<rparr>"
    have "p\<lparr>pp_checksum := 0\<rparr> = ?s\<lparr>pp_checksum := 0\<rparr>"
      using f by (intro LmPersistentProfile.equality) (simp_all add: persistent_base_def persistent_filled_def persistent_zero_def)
    then have "pp_checksum p = LmPersistentChecksum ?s" using f unfolding persistent_checksum_plain by simp
    then show "p = persistent_stamped ?q"
      using f by (intro LmPersistentProfile.equality)
        (simp_all add: persistent_stamped_def Let_def persistent_base_def persistent_filled_def persistent_zero_def)
  qed
  show ?thesis unfolding captured_reader using anchors by (simp only: stamped) blast
qed

text \<open>A memory that is captured: an empty root heap, and one block of the system heap that holds everything.\<close>

definition persistent_demo :: memory where
  "persistent_demo a = (True, case map_of [(0x80400130, 0x80900000), (0x80400134, 0x80A00000), (0x80400030, 0x80500000),
     (0x80400034, 0x80800000), (0x8040007C, 0x80500000), (0x80400080, 0x80500000), (0x80500000, 0x484D0000), (0x80500004, 0x200000),
     (0x804A0BA0, 0x80500010), (0x804A0BA4, 0x80410000), (0x804A0BBC, 0x80580010), (0x804A0BC0, 0x80616010),
     (0x804A0BCC, 0x80580010), (0x804A0BD0, 0x80616010), (0x804A0BD4, 0x80420000), (0x804A0BF8, 0x806AC010),
     (0x80410000, 0x80500010), (0x80410004, 0x8058000C), (0x80410008, 0x80000), (0x806AC010, 0x8038925C), (0x806AC014, 0x80400000),
     (0x803E3CF8, 0x806AD000), (0x803E3D04, 0x80398780), (0x803E3D0C, 0x8039890C)] a of Some v \<Rightarrow> v | None \<Rightarrow> 0)"

theorem persistent_captured_witness:
  "\<exists>p. LmPersistentCapture (Some persistent_demo) True 0x80400100 0x80400000 7 3 = Some (True, p, 0, 0) \<and>
     pp_allocations p ! 0 = \<lparr>pa_heap = 0x80400000, pa_node = 0x80500000, pa_tag = 0x484D0000, pa_bytes = 0x200000,
       pa_previous = 0, pa_next = 0\<rparr>"
proof -
  let ?m = persistent_demo
  let ?there = "\<lambda>a v. word_there ?m a v"
  have there: "?there a v \<longleftrightarrow> a AND 3 = 0 \<and> 0x80000000 \<le> a \<and> a \<le> 0x817FFFFC \<and> snd (?m a) = v" for a v
    by (auto simp: word_there_def persistent_demo_def)
  have root: "persistent_heap_ok ?m 0x80400100 []"
    by (simp add: persistent_heap_ok_def there) (simp add: persistent_demo_def)
  have system: "persistent_heap_ok ?m 0x80400000 [0x80500000]"
    by (simp add: persistent_heap_ok_def there persistent_block_ok_def header_block_def heap_bytes_def heap_tag_def) (simp add: persistent_demo_def)
  have holds: "system_holds ?m [0x80500000] a k \<longleftrightarrow> 0x80500010 \<le> unat a \<and> unat a + k \<le> 0x80700010" for a k
    by (auto simp: system_holds_def heap_bytes_def persistent_demo_def)
  let ?modes = "[0, 0, 0, 0, 0, 0, 0, 0, 0, 0, 0, 0, 0, 0, 0]"
  let ?anchors = "[0x80500010, 0x80410000, 0x80580010, 0x80616010, 0x80580010, 0x80616010, 0x80420000, 0x806AC010, 0x80500010, 0x8058000C,
     0x80000, 0x8038925C, 0x80400000, 0] @ ?modes @ [0, 0, 0, 0, 0, 0, 0, 0, 0, 0] @ [0x806AD000, 0, 0, 0, 0, 0, 0, 0x80398780, 0, 0x8039890C]"
  let ?p = "\<lparr>pp_magic = LM_PERSISTENT_MAGIC, pp_version = 1, pp_generation = 3, pp_checksum = 0, pp_configId = 7, pp_rootHeap = 0x80400100,
     pp_systemHeap = 0x80400000, pp_count = 1, pp_anchors = ?anchors @ replicate 15 0,
     pp_allocations = persistent_allocation ?m 0x80400000 0x80500000 # replicate 47 persistent_no_allocation\<rparr>"
  have modes: "list_all2 (word_there ?m) (map (\<lambda>i. 0x80420000 + word_of_nat i * 4) [0..<15]) ?modes"
  proof -
    have upt: "[0..<15] = [0, 1, 2, 3, 4, 5, 6, 7, 8, 9, 10, 11, 12, 13, 14 :: nat]" by code_simp
    show ?thesis unfolding upt by (simp only: list.map list.rel_inject there) (simp add: persistent_demo_def)
  qed
  have globals: "persistent_globals ?m 0x80400000 [0x80500000] ?anchors"
    unfolding persistent_globals_def
    by (rule exI [of _ "0x80500010"], rule exI [of _ "0x80410000"], rule exI [of _ "0x80580010"], rule exI [of _ "0x80616010"],
        rule exI [of _ "0x80420000"], rule exI [of _ "0x806AC010"], rule exI [of _ 0], rule exI [of _ ?modes],
        rule exI [of _ "[(0, 0), (0, 0), (0, 0), (0, 0), (0, 0)]"], rule exI [of _ "0x806AD000"], (rule exI [of _ 0])+)
      (simp add: there holds, simp add: persistent_demo_def modes)
  let ?q = "?p\<lparr>pp_checksum := NOT (foldl crc_byte (NOT 0) (image32 (profile_words ?p)))\<rparr>"
  have "LmPersistentCapture (Some ?m) True 0x80400100 0x80400000 7 3 = Some (True, ?q, 0, 0)"
    unfolding persistent_captured
  proof (intro exI conjI)
    show "persistent_heap_ok ?m 0x80400100 []" by (rule root)
    show "persistent_heap_ok ?m 0x80400000 [0x80500000]" by (rule system)
    show "persistent_globals ?m 0x80400000 [0x80500000] ?anchors" by (rule globals)
    show "pp_checksum ?q = NOT (foldl crc_byte (NOT 0) (image32 (profile_words (?q\<lparr>pp_checksum := 0\<rparr>))))"
      by (simp only: LmPersistentProfile.simps)
  qed simp_all
  moreover have "pp_allocations ?q ! 0 = \<lparr>pa_heap = 0x80400000, pa_node = 0x80500000, pa_tag = 0x484D0000, pa_bytes = 0x200000,
       pa_previous = 0, pa_next = 0\<rparr>"
    by (simp add: persistent_allocation_def heap_tag_def heap_bytes_def persistent_demo_def)
  ultimately show ?thesis by blast
qed

section \<open>Comparing profiles\<close>

definition profile_wf :: "LmPersistentProfile \<Rightarrow> bool" where
  "profile_wf p \<longleftrightarrow> length (pp_anchors p) = LM_PERSISTENT_ANCHORS \<and> length (pp_allocations p) = LM_PERSISTENT_RECORDS"

lemma differing_none:
  "length as = length bs \<Longrightarrow> persistent_differing i as bs = None \<longleftrightarrow> (\<forall>k < length as. i + k \<noteq> 3 \<longrightarrow> as ! k = bs ! k)"
proof (induction i as bs rule: persistent_differing.induct)
  case (1 i a as b bs)
  then show ?case by (auto simp: less_Suc_eq_0_disj)
qed auto

lemma profile_words_inj:
  assumes "profile_wf p" "profile_wf q" "profile_words p = profile_words q"
  shows "p = q"
proof -
  have len: "length (pp_anchors p) = length (pp_anchors q)" "length (pp_allocations p) = length (pp_allocations q)"
    using assms(1,2) by (simp_all add: profile_wf_def)
  have allocs: "concat (map allocation_words as) = concat (map allocation_words bs) \<Longrightarrow> as = bs" if "length as = length bs" for "as" bs
    using that by (induction "as" bs rule: list_induct2) (auto simp: allocation_words_def)
  have "pp_anchors p @ concat (map allocation_words (pp_allocations p)) = pp_anchors q @ concat (map allocation_words (pp_allocations q))"
    using assms(3) by (simp add: profile_words_def)
  then have "pp_anchors p = pp_anchors q" "pp_allocations p = pp_allocations q"
    using len allocs by auto
  then show ?thesis using assms(3) by (simp add: profile_words_def)
qed

text \<open>C38: Two profiles match exactly when they are equal in every word, the checksum included, and valid: although the
  comparison skips the checksum, the validity of both leaves no room for a difference there.\<close>

theorem persistent_match:
  assumes "profile_wf saved" "profile_wf live"
  shows "LmPersistentMatch saved live = (True, Some 0) \<longleftrightarrow> saved = live \<and> LmPersistentProfileValid live (pp_generation live)"
proof -
  have len: "length (profile_words p) = 8 + 64 + 6 * 48" if "profile_wf p" for p
    using that by (simp add: profile_words_def profile_wf_def length_concat allocation_words_def comp_def sum_list_triv)
  have eq: "profile_words (p\<lparr>pp_checksum := c\<rparr>) = (profile_words p)[3 := c]" for p c
    by (simp add: profile_words_def eval_nat_numeral)
  have "saved = live" if valid: "LmPersistentProfileValid saved (pp_generation live)" "LmPersistentProfileValid live (pp_generation live)"
    and none: "persistent_differing 0 (profile_words saved) (profile_words live) = None"
  proof -
    have "profile_words saved ! k = profile_words live ! k" if "k < 8 + 64 + 6 * 48" "k \<noteq> 3" for k
      using none that differing_none [of "profile_words saved" "profile_words live" 0] len [OF assms(1)] len [OF assms(2)] by auto
    then have "profile_words (saved\<lparr>pp_checksum := 0\<rparr>) = profile_words (live\<lparr>pp_checksum := 0\<rparr>)"
      unfolding eq by (intro nth_equalityI) (simp_all add: len assms nth_list_update)
    then have z: "saved\<lparr>pp_checksum := 0\<rparr> = live\<lparr>pp_checksum := 0\<rparr>"
      using assms by (intro profile_words_inj) (simp_all add: profile_wf_def)
    have "pp_checksum saved = pp_checksum live"
      using valid unfolding LmPersistentProfileValid_def by (metis z checksum_self)
    with z show ?thesis by (metis LmPersistentProfile.surjective LmPersistentProfile.update_convs(4))
  qed
  moreover have "persistent_differing 0 (profile_words live) (profile_words live) = None" by (simp add: differing_none)
  ultimately show ?thesis
    by (auto simp: LmPersistentMatch_def LmPersistentProfileValid_def split: option.splits)
qed

theorem persistent_match_witness:
  "let p = persistent_stamped (persistent_zero\<lparr>pp_count := 1\<rparr>) in
    LmPersistentMatch p p = (True, Some 0) \<and> LmPersistentMatch p (p\<lparr>pp_checksum := pp_checksum p + 1\<rparr>) \<noteq> (True, Some 0)"
proof -
  let ?q = "persistent_zero\<lparr>pp_count := 1, pp_magic := LM_PERSISTENT_MAGIC, pp_version := 1\<rparr>"
  let ?p = "?q\<lparr>pp_checksum := LmPersistentChecksum ?q\<rparr>"
  have p: "persistent_stamped (persistent_zero\<lparr>pp_count := 1\<rparr>) = ?p"
    by (simp add: persistent_stamped_def Let_def)
  have wf: "profile_wf ?p" "profile_wf (?p\<lparr>pp_checksum := pp_checksum ?p + 1\<rparr>)"
    by (simp_all add: profile_wf_def persistent_zero_def)
  have "LmPersistentProfileValid ?p (pp_generation ?p)"
    by (simp add: LmPersistentProfileValid_def checksum_self)
  then have "LmPersistentMatch ?p ?p = (True, Some 0)" using persistent_match [OF wf(1,1)] by blast
  moreover have "?p \<noteq> ?p\<lparr>pp_checksum := pp_checksum ?p + 1\<rparr>"
  proof
    assume "?p = ?p\<lparr>pp_checksum := pp_checksum ?p + 1\<rparr>"
    from arg_cong [OF this, of pp_checksum] show False by simp
  qed
  then have "LmPersistentMatch ?p (?p\<lparr>pp_checksum := pp_checksum ?p + 1\<rparr>) \<noteq> (True, Some 0)"
    using persistent_match [OF wf] by blast
  ultimately show ?thesis unfolding p Let_def by blast
qed

end
