(* ===== verification/StateCodec.thy ===== *)
theory StateCodec
  imports Prelude
begin

text \<open>
  The LZ stream of the save-state payload, \<open>include/susamune/lm_state_codec.h\<close>: the packer with its
  4096-entry hash table, the bounded decoder, the meaning of a stream as the bytes it expands to, and
  the proofs that the decoder computes that meaning and that packing loses nothing.

  Positions and counts are \<open>nat\<close>: they index byte arrays of a 32-bit address space and every sum the code
  forms is at most one of these sizes plus 4, so nothing wraps.
\<close>

section \<open>The packer\<close>

text \<open>\<open>LM_STATE_EMIT(value >> 8); LM_STATE_EMIT(value);\<close>\<close>

definition emit16 :: "u32 \<Rightarrow> bytes" where
  "emit16 w = [ucast (drop_bit 8 w), ucast w]"

definition pack_hash :: "bytes \<Rightarrow> nat \<Rightarrow> nat" where
  "pack_hash src pos =
     unat (drop_bit 20 (de32 (src ! pos) (src ! (pos + 1)) (src ! (pos + 2)) (src ! (pos + 3)) * 2654435761))"

function match_length :: "bytes \<Rightarrow> nat \<Rightarrow> nat \<Rightarrow> nat \<Rightarrow> nat \<Rightarrow> nat" where
  "match_length src sz previous pos len =
     (if len < 32771 \<and> pos + len < sz \<and> src ! (previous + len) = src ! (pos + len)
      then match_length src sz previous pos (len + 1) else len)"
  by pat_completeness auto
termination by (relation "measure (\<lambda>(_, _, _, _, len). 32771 - len)") auto

text \<open>The two loops that write literal tokens for \<open>src[anchor..pos)\<close>.  \<open>Inl\<close> is the return of 0; either way
  the bytes are what has been written to \<open>dst\<close> so far, their number is \<open>out\<close>.\<close>

function pack_literals :: "bytes \<Rightarrow> nat \<Rightarrow> nat \<Rightarrow> nat \<Rightarrow> bytes \<Rightarrow> bytes + bytes" where
  "pack_literals src capacity anchor pos out =
     (if anchor < pos then
        let count = (if pos - anchor > 32768 then 32768 else pos - anchor) in
        if length out > capacity \<or> count + 2 > capacity - length out then Inl out
        else pack_literals src capacity (anchor + count) pos
               (out @ emit16 (of_nat (count - 1)) @ take count (drop anchor src))
      else Inr out)"
  by pat_completeness auto
termination by (relation "measure (\<lambda>(_, _, anchor, pos, _). pos - anchor)") auto

definition match_token :: "nat \<Rightarrow> nat \<Rightarrow> bytes" where
  "match_token len distance = emit16 (0x8000 OR of_nat (len - 4)) @ emit16 (of_nat distance)"

text \<open>The search at one position: the length of the match and where it starts.\<close>

definition pack_search :: "bytes \<Rightarrow> nat \<Rightarrow> nat list \<Rightarrow> nat \<Rightarrow> nat \<times> nat" where
  "pack_search src sz table pos =
     (let previous = table ! pack_hash src pos in
      if previous \<noteq> 0 \<and> pos + 1 - previous \<le> 65535
      then (match_length src sz (previous - 1) pos 0, previous - 1) else (0, previous))"

function pack_loop :: "bytes \<Rightarrow> nat \<Rightarrow> nat \<Rightarrow> nat \<Rightarrow> nat \<Rightarrow> bytes \<Rightarrow> nat list \<Rightarrow> bytes + bytes" where
  "pack_loop src sz capacity pos anchor out table =
     (if pos + 4 \<le> sz then
        let (len, previous) = pack_search src sz table pos;
            table' = table[pack_hash src pos := pos + 1] in
        if len < 4 then pack_loop src sz capacity (pos + 1) anchor out table'
        else (case pack_literals src capacity anchor pos out of
            Inl out' \<Rightarrow> Inl out'
          | Inr out' \<Rightarrow>
              if length out' > capacity \<or> capacity - length out' < 4 then Inl out'
              else pack_loop src sz capacity (pos + len) (pos + len)
                     (out' @ match_token len (pos - previous)) table')
      else pack_literals src capacity anchor sz out)"
  by pat_completeness auto
termination by (relation "measure (\<lambda>(_, sz, _, pos, _, _, _). sz - pos)") auto

text \<open>The returned count, and the bytes behind \<open>dst\<close> (\<open>None\<close> for the null pointer) afterwards.\<close>

definition LmStatePack :: "bytes \<Rightarrow> nat \<Rightarrow> bytes option \<Rightarrow> nat \<Rightarrow> nat \<times> bytes option" where
  "LmStatePack src sz dst capacity =
     (let write = (\<lambda>out. map_option (\<lambda>d. out @ drop (length out) d) dst) in
      case pack_loop src sz capacity 0 0 [] (replicate 4096 0) of
        Inl out \<Rightarrow> (0, write out)
      | Inr out \<Rightarrow> (length out, write out))"

section \<open>The decoder\<close>

definition token16 :: "u8 \<Rightarrow> u8 \<Rightarrow> u32" where
  "token16 a b = push_bit 8 (ucast a) OR ucast b"

definition token_count :: "u32 \<Rightarrow> nat" where
  "token_count token = unat (token AND 0x7fff) + (if token AND 0x8000 \<noteq> 0 then 4 else 1)"

fun copy_match :: "bytes \<Rightarrow> nat \<Rightarrow> nat \<Rightarrow> nat \<Rightarrow> bytes" where
  "copy_match dst out distance 0 = dst"
| "copy_match dst out distance (Suc n) = copy_match (dst[out := dst ! (out - distance)]) (Suc out) distance n"

fun copy_literal :: "bytes \<Rightarrow> nat \<Rightarrow> bytes \<Rightarrow> nat \<Rightarrow> nat \<Rightarrow> bytes" where
  "copy_literal dst out src pos 0 = dst"
| "copy_literal dst out src pos (Suc n) = copy_literal (dst[out := src ! pos]) (Suc out) src (Suc pos) n"

function unpack_loop :: "bytes \<Rightarrow> nat \<Rightarrow> bytes option \<Rightarrow> nat \<Rightarrow> nat \<Rightarrow> nat \<Rightarrow> bool \<times> bytes option" where
  "unpack_loop src sz dst expected pos out =
     (if pos < sz then
        if sz - pos < 2 then (False, dst)
        else
          let token = token16 (src ! pos) (src ! (pos + 1)); count = token_count token in
          if out > expected \<or> count > expected - out then (False, dst)
          else if token AND 0x8000 \<noteq> 0 then
            if sz - (pos + 2) < 2 then (False, dst)
            else
              let distance = unat (token16 (src ! (pos + 2)) (src ! (pos + 3))) in
              if distance = 0 \<or> distance > out then (False, dst)
              else unpack_loop src sz (map_option (\<lambda>d. copy_match d out distance count) dst) expected
                     (pos + 4) (out + count)
          else if count > sz - (pos + 2) then (False, dst)
          else unpack_loop src sz (map_option (\<lambda>d. copy_literal d out src (pos + 2) count) dst) expected
                 (pos + 2 + count) (out + count)
      else (out = expected, dst))"
  by pat_completeness auto
termination by (relation "measure (\<lambda>(_, sz, _, _, pos, _). sz - pos)") auto

definition LmStateUnpack :: "bytes \<Rightarrow> nat \<Rightarrow> bytes option \<Rightarrow> nat \<Rightarrow> bool \<times> bytes option" where
  "LmStateUnpack src sz dst expected = unpack_loop src sz dst expected 0 0"

declare match_length.simps [simp del] pack_literals.simps [simp del] pack_loop.simps [simp del]
  unpack_loop.simps [simp del]

section \<open>What a stream means\<close>

text \<open>A match repeats what is \<open>distance\<close> bytes back, byte by byte, so it may overlap itself.\<close>

fun repeat_back :: "bytes \<Rightarrow> nat \<Rightarrow> nat \<Rightarrow> bytes" where
  "repeat_back acc distance 0 = acc"
| "repeat_back acc distance (Suc n) = repeat_back (acc @ [acc ! (length acc - distance)]) distance n"

text \<open>The bytes a stream expands to behind \<open>acc\<close>; \<open>None\<close> for a broken stream or more than \<open>expected\<close> bytes.\<close>

function expand :: "nat \<Rightarrow> bytes \<Rightarrow> bytes \<Rightarrow> bytes option" where
  "expand expected acc [] = Some acc"
| "expand expected acc [a] = None"
| "expand expected acc (a # b # bs) =
     (let token = token16 a b; count = token_count token in
      if length acc + count > expected then None
      else if token AND 0x8000 \<noteq> 0 then
        (case bs of
           c # d # bs' \<Rightarrow>
             let distance = unat (token16 c d) in
             if distance = 0 \<or> distance > length acc then None
             else expand expected (repeat_back acc distance count) bs'
         | _ \<Rightarrow> None)
      else if count > length bs then None
      else expand expected (acc @ take count bs) (drop count bs))"
  by pat_completeness auto
termination by (relation "measure (\<lambda>(_, _, bs). length bs)") auto

declare expand.simps(3) [simp del]

section \<open>The decoder computes the meaning\<close>

lemma length_repeat_back [simp]: "length (repeat_back acc distance n) = length acc + n"
  by (induction n arbitrary: acc) auto

lemma expand_length: "expand expected acc bs = Some acc' \<Longrightarrow> length acc \<le> length acc'"
  by (induction expected acc bs rule: expand.induct)
    (fastforce simp: expand.simps(3) Let_def split: if_splits list.splits)+

lemma copy_literal_eq:
  "n \<le> length rest \<Longrightarrow> pos + n \<le> length src \<Longrightarrow>
    copy_literal (acc @ rest) (length acc) src pos n = (acc @ take n (drop pos src)) @ drop n rest"
proof (induction n arbitrary: acc rest pos)
  case (Suc n)
  then obtain r rest' where rest: "rest = r # rest'" by (cases rest) auto
  from Suc.prems have src: "drop pos src = src ! pos # drop (Suc pos) src" by (simp add: Cons_nth_drop_Suc)
  show ?case
    using Suc.prems Suc.IH [of rest' "Suc pos" "acc @ [src ! pos]"] by (simp add: rest src)
qed simp

lemma copy_match_eq:
  "n \<le> length rest \<Longrightarrow> 0 < distance \<Longrightarrow> distance \<le> length acc \<Longrightarrow>
    copy_match (acc @ rest) (length acc) distance n = repeat_back acc distance n @ drop n rest"
proof (induction n arbitrary: acc rest)
  case (Suc n)
  then obtain r rest' where rest: "rest = r # rest'" by (cases rest) auto
  from Suc.prems have "(acc @ rest) ! (length acc - distance) = acc ! (length acc - distance)"
    by (simp add: nth_append del: nth_append_length) linarith
  with Suc.prems Suc.IH [of rest' "acc @ [acc ! (length acc - distance)]"] show ?case by (simp add: rest)
qed simp

lemma two_bytes:
  assumes "pos + 2 \<le> sz" and "sz \<le> length src"
  shows "drop pos (take sz src) = src ! pos # src ! (pos + 1) # drop (pos + 2) (take sz src)"
proof -
  have "drop pos (take sz src) = take sz src ! pos # drop (Suc pos) (take sz src)"
    "drop (Suc pos) (take sz src) = take sz src ! Suc pos # drop (Suc (Suc pos)) (take sz src)"
    using assms by (subst Cons_nth_drop_Suc; simp)+
  with assms show ?thesis by simp
qed

lemma case_short: "length bs < 2 \<Longrightarrow> (case bs of c # d # bs' \<Rightarrow> f c d bs' | _ \<Rightarrow> None) = None"
  by (cases bs; cases "tl bs") auto

lemma drop_rest:
  assumes "length acc + n \<le> length (acc' :: 'a list)"
  shows "drop (length acc' - (length acc + n)) (drop n rest) = drop (length acc' - length acc) rest"
  using assms by (simp add: algebra_simps)

lemma unpack_expand:
  assumes "sz \<le> length src" and "pos \<le> sz" and "length acc \<le> expected" and "expected \<le> length acc + length rest"
  shows "case expand expected acc (drop pos (take sz src)) of
      None \<Rightarrow> \<not> fst (unpack_loop src sz (Some (acc @ rest)) expected pos (length acc))
    | Some acc' \<Rightarrow> unpack_loop src sz (Some (acc @ rest)) expected pos (length acc) =
        (length acc' = expected, Some (acc' @ drop (length acc' - length acc) rest))"
  using assms(2-)
proof (induction "sz - pos" arbitrary: acc rest pos rule: less_induct)
  case less
  note unfold = unpack_loop.simps [of src sz "Some (acc @ rest)" expected pos "length acc"]
  consider "pos = sz" | "pos + 1 = sz" | "pos + 2 \<le> sz" using less.prems by linarith
  then show ?case
  proof cases
    case 1
    then show ?thesis unfolding unfold by simp
  next
    case 2
    then have "drop pos (take sz src) = [src ! pos]"
      using assms(1) by (subst Cons_nth_drop_Suc [symmetric]) simp_all
    with 2 show ?thesis by (auto simp: unfold)
  next
    case 3
    define token where "token = token16 (src ! pos) (src ! (pos + 1))"
    define n where "n = token_count token"
    note bytes = two_bytes [OF 3 assms(1)]
    note step = unfold [folded token_def, unfolded Let_def, folded n_def]
      and meaning = expand.simps(3) [of expected acc "src ! pos" "src ! (pos + 1)",
        folded token_def, unfolded Let_def, folded n_def]
    show ?thesis
    proof (cases "length acc + n \<le> expected \<and> (token AND 0x8000 = 0 \<longrightarrow> n \<le> sz - (pos + 2)) \<and>
        (token AND 0x8000 \<noteq> 0 \<longrightarrow> pos + 4 \<le> sz)")
      case False
      have "length (drop (pos + 2) (take sz src)) < 2" if "\<not> pos + 4 \<le> sz" using that by simp
      then have "(case drop (pos + 2) (take sz src) of c # d # bs' \<Rightarrow> f c d bs' | _ \<Rightarrow> None) = None"
        if "\<not> pos + 4 \<le> sz" for f :: "u8 \<Rightarrow> u8 \<Rightarrow> bytes \<Rightarrow> bytes option"
        by (rule case_short) (use that in blast)
      with False 3 less.prems assms(1) show ?thesis
        unfolding bytes step meaning
        by (cases "length acc + n \<le> expected"; cases "token AND 0x8000 = 0") auto
    next
      case True
      show ?thesis
      proof (cases "token AND 0x8000 = 0")
        case literal: True
        let ?lit = "take n (drop (pos + 2) src)"
        have n: "n \<le> sz - (pos + 2)" using True literal by simp
        have "take n (drop (pos + 2) (take sz src)) = ?lit"
          "drop n (drop (pos + 2) (take sz src)) = drop (pos + 2 + n) (take sz src)" "length ?lit = n"
          using n 3 assms(1) by (simp_all add: drop_take add.commute min.absorb1)
        moreover have "copy_literal (acc @ rest) (length acc) src (pos + 2) n = (acc @ ?lit) @ drop n rest"
          using True n 3 less.prems assms(1) by (intro copy_literal_eq) auto
        moreover have "sz - (pos + 2 + n) < sz - pos" "pos + 2 + n \<le> sz" "length (acc @ ?lit) \<le> expected"
          "expected \<le> length (acc @ ?lit) + length (drop n rest)"
          using True n 3 less.prems assms(1) by auto
        moreover note less.hyps [OF calculation(5-)]
        ultimately show ?thesis
          using True literal n 3 less.prems assms(1) unfolding bytes step meaning
          by (auto simp: drop_rest dest!: expand_length split: option.splits simp del: append_assoc)
      next
        case match: False
        let ?dist = "unat (token16 (src ! (pos + 2)) (src ! (pos + 3)))"
        have p4: "pos + 4 \<le> sz" using True match by simp
        have "drop (pos + 2) (take sz src) = src ! (pos + 2) # src ! (pos + 3) # drop (pos + 4) (take sz src)"
          using two_bytes [of "pos + 2" sz src] p4 assms(1) by (simp add: numeral_eq_Suc)
        moreover have "copy_match (acc @ rest) (length acc) ?dist n = repeat_back acc ?dist n @ drop n rest"
          if "0 < ?dist" "?dist \<le> length acc"
          using that True less.prems by (intro copy_match_eq) auto
        moreover have "sz - (pos + 4) < sz - pos" "length (repeat_back acc ?dist n) \<le> expected"
          "expected \<le> length (repeat_back acc ?dist n) + length (drop n rest)"
          using True p4 3 less.prems assms(1) by auto
        moreover note less.hyps [OF calculation(3) p4 calculation(4-)]
        ultimately show ?thesis
          using True match p4 3 less.prems assms(1) unfolding bytes step meaning
          by (auto simp: drop_rest not_le dest!: expand_length split: option.splits)
      qed
    qed
  qed
qed

section \<open>The packer's stream means its input\<close>

lemma token16_emit16: "token16 (ucast (drop_bit 8 w)) (ucast w) = take_bit 16 w"
proof (rule bit_word_eqI)
  fix n assume "n < LENGTH(32)"
  then consider "n < 8" | "8 \<le> n" "n < 16" | "16 \<le> n" "n < 32" by fastforce
  then show "bit (token16 (ucast (drop_bit 8 w)) (ucast w)) n = bit (take_bit 16 w) n"
    by cases (auto simp: token16_def bit_or_iff bit_push_bit_iff bit_ucast_iff bit_drop_bit_eq bit_take_bit_iff)
qed

lemma take_bit_of_nat_small: "k < 2 ^ n \<Longrightarrow> take_bit n (of_nat k :: u32) = of_nat k"
  by (metis take_bit_nat_eq_self take_bit_of_nat)

lemma expand_append: "expand expected acc bs = Some acc' \<Longrightarrow> expand expected acc (bs @ cs) = expand expected acc' cs"
proof (induction expected acc bs rule: expand.induct)
  case (3 expected acc a b bs)
  show ?case
  proof (cases "token16 a b AND 0x8000 = 0")
    case True
    with 3 show ?thesis
      by (auto simp: expand.simps(3) Let_def split: if_splits)
  next
    case False
    with 3 show ?thesis
      by (auto simp: expand.simps(3) Let_def split: if_splits list.splits)
  qed
qed auto

lemma token_words:
  assumes "k < 32768"
  shows "(of_nat k :: u32) AND 0x7fff = of_nat k" and "(of_nat k :: u32) AND 0x8000 = 0"
    and "(0x8000 OR of_nat k :: u32) AND 0x7fff = of_nat k" and "(0x8000 OR of_nat k :: u32) AND 0x8000 \<noteq> 0"
    and "take_bit 16 (0x8000 OR of_nat k :: u32) = 0x8000 OR of_nat k"
proof -
  have m: "(0x7fff :: u32) = mask 15" "(0x8000 :: u32) = push_bit 15 1"
    by (simp_all add: mask_eq_exp_minus_1 push_bit_eq_mult)
  have low: "take_bit 15 (of_nat k :: u32) = of_nat k" using assms by (intro take_bit_of_nat_small) simp
  then have b: "bit (of_nat k :: u32) i \<Longrightarrow> i < 15" for i
    by (metis bit_take_bit_iff)
  have e: "bit (0x8000 :: u32) i \<longleftrightarrow> i = 15" and f: "bit (0x7fff :: u32) i \<longleftrightarrow> i < 15" for i
    unfolding m by (simp_all only: bit_push_bit_iff bit_1_iff bit_mask_iff) (auto simp: possible_bit_def)
  note bits = bit_and_iff bit_or_iff bit_take_bit_iff e f bit_0_eq
  show "(of_nat k :: u32) AND 0x7fff = of_nat k"
    by (rule bit_word_eqI, simp only: bits) (blast dest: b)
  show "(of_nat k :: u32) AND 0x8000 = 0"
    by (rule bit_word_eqI, simp only: bits) (auto dest: b)
  show "(0x8000 OR of_nat k :: u32) AND 0x7fff = of_nat k"
    by (rule bit_word_eqI, simp only: bits) (auto dest: b)
  have "bit ((0x8000 OR of_nat k :: u32) AND 0x8000) 15"
    by (simp only: bits simp_thms)
  then show "(0x8000 OR of_nat k :: u32) AND 0x8000 \<noteq> 0" by force
  show "take_bit 16 (0x8000 OR of_nat k :: u32) = 0x8000 OR of_nat k"
    by (rule bit_word_eqI, simp only: bits) (auto dest: b)
qed

lemma unat_of_nat_small: "k < 2 ^ 32 \<Longrightarrow> unat (of_nat k :: u32) = k"
  by (simp add: unsigned_of_nat take_bit_nat_eq_self del: of_nat_add)

lemma expand_literal:
  assumes "0 < n" "n \<le> 32768" "length lit = n" "length acc + n \<le> expected"
  shows "expand expected acc (emit16 (of_nat (n - 1)) @ lit) = Some (acc @ lit)"
proof -
  let ?w = "of_nat (n - 1) :: u32"
  have k: "n - 1 < 32768" using assms by simp
  have "token16 (ucast (drop_bit 8 ?w)) (ucast ?w) = ?w"
    using k by (simp only: token16_emit16) (rule take_bit_of_nat_small, simp)
  moreover have "token_count ?w = n"
    using assms unat_of_nat_small [of "n - 1"] by (simp only: token_count_def token_words [OF k]) simp
  ultimately show ?thesis
    using assms token_words(2) [OF k] by (simp add: emit16_def expand.simps(3) Let_def del: of_nat_diff)
qed

lemma expand_match:
  assumes "4 \<le> len" "len \<le> 32771" "0 < distance" "distance \<le> 65535" "distance \<le> length acc"
    "length acc + len \<le> expected"
  shows "expand expected acc (match_token len distance) = Some (repeat_back acc distance len)"
proof -
  let ?w = "0x8000 OR of_nat (len - 4) :: u32" and ?d = "of_nat distance :: u32"
  have k: "len - 4 < 32768" using assms by simp
  have "token16 (ucast (drop_bit 8 ?w)) (ucast ?w) = ?w"
    by (simp only: token16_emit16 token_words [OF k])
  moreover have "token16 (ucast (drop_bit 8 ?d)) (ucast ?d) = ?d"
    using assms by (simp only: token16_emit16) (rule take_bit_of_nat_small, simp)
  moreover have "token_count ?w = len"
    using assms unat_of_nat_small [of "len - 4"] token_words(4) [OF k]
    by (simp only: token_count_def token_words [OF k]) simp
  moreover have "unat ?d = distance" using assms by (intro unat_of_nat_small) simp
  ultimately show ?thesis
    using assms token_words(4) [OF k]
    by (simp add: match_token_def emit16_def expand.simps(3) Let_def del: of_nat_diff)
qed

lemma match_length_bounds:
  "len \<le> 32771 \<Longrightarrow> pos + len \<le> sz \<Longrightarrow> len \<le> match_length src sz previous pos len \<and>
    match_length src sz previous pos len \<le> 32771 \<and> pos + match_length src sz previous pos len \<le> sz"
proof (induction src sz previous pos len rule: match_length.induct)
  case (1 src sz previous pos len)
  show ?case
    by (subst (1 2 3) match_length.simps) (use 1 in \<open>simp, fastforce\<close>)
qed

lemma match_length_equal:
  assumes "\<forall>i < len. src ! (previous + i) = src ! (pos + i)" and "i < match_length src sz previous pos len"
  shows "src ! (previous + i) = src ! (pos + i)"
  using assms
proof (induction src sz previous pos len rule: match_length.induct)
  case (1 src sz previous pos len)
  show ?case
  proof (cases "len < 32771 \<and> pos + len < sz \<and> src ! (previous + len) = src ! (pos + len)")
    case True
    with 1 show ?thesis by (simp add: match_length.simps [of src sz previous pos len] less_Suc_eq)
  next
    case False
    then have "match_length src sz previous pos len = len" by (subst match_length.simps) auto
    with 1 show ?thesis by simp
  qed
qed

lemma repeat_back_source:
  assumes "\<forall>i < n. src ! (previous + i) = src ! (pos + i)" "previous < pos" "pos + n \<le> length src"
  shows "repeat_back (take pos src) (pos - previous) n = take (pos + n) src"
  using assms
proof (induction n arbitrary: pos previous)
  case (Suc n)
  then have "take pos src ! previous = src ! pos" by (metis add_0_right nth_take zero_less_Suc)
  moreover have "\<forall>i < n. src ! (Suc previous + i) = src ! (Suc pos + i)"
    using Suc.prems(1) by (metis Suc_less_eq add_Suc_shift)
  ultimately show ?case
    using Suc.IH [of "Suc previous" "Suc pos"] Suc.prems
    by (simp add: min.absorb2 flip: take_Suc_conv_app_nth)
qed simp

lemma pack_literals_expand:
  assumes "expand sz [] out = Some (take anchor src)" "anchor \<le> pos" "pos \<le> sz" "sz \<le> length src"
    and "pack_literals src capacity anchor pos out = Inr out'"
  shows "expand sz [] out' = Some (take pos src)"
  using assms
proof (induction src capacity anchor pos out rule: pack_literals.induct)
  case (1 src capacity anchor pos out)
  show ?case
  proof (cases "anchor < pos")
    case True
    define count where "count = (if pos - anchor > 32768 then 32768 else pos - anchor)"
    let ?lit = "take count (drop anchor src)"
    have count: "0 < count" "count \<le> 32768" "anchor + count \<le> pos" using True by (auto simp: count_def)
    have "take (anchor + count) src = take anchor src @ ?lit" by (rule take_add)
    moreover have "expand sz [] (out @ emit16 (of_nat (count - 1)) @ ?lit) = Some (take anchor src @ ?lit)"
      using 1 count by (subst expand_append [OF 1(2)], intro expand_literal) auto
    ultimately show ?thesis
      using 1 True count by (simp add: pack_literals.simps [of src capacity anchor pos] Let_def flip: count_def split: if_splits)
  next
    case False
    then have "pack_literals src capacity anchor pos out = Inr out" by (subst pack_literals.simps) simp
    with 1 False show ?thesis by simp
  qed
qed

lemma pack_hash_less: "pack_hash src pos < 4096"
proof -
  have "unat (drop_bit 20 w) < 4096" for w :: u32
    using unat_u32_less [of w] unfolding unsigned_drop_bit_eq
    by (simp add: drop_bit_eq_div [where 'a = nat] take_bit_nat_eq_self less_mult_imp_div_less)
  then show ?thesis by (simp add: pack_hash_def)
qed

lemma pack_search_match:
  assumes "pack_search src sz table pos = (len, previous)" "4 \<le> len" "pos \<le> sz" "sz \<le> length src"
    and "length table = 4096" "\<forall>t \<in> set table. t \<le> pos"
  shows "previous < pos" "pos - previous \<le> 65535" "len \<le> 32771" "pos + len \<le> sz"
    "repeat_back (take pos src) (pos - previous) len = take (pos + len) src"
proof -
  let ?t = "table ! pack_hash src pos"
  have "?t \<le> pos" using assms(5,6) pack_hash_less by simp
  with assms(1,2) have t: "previous = ?t - 1" "0 < ?t" "?t \<le> pos" "pos + 1 - ?t \<le> 65535"
    "len = match_length src sz previous pos 0"
    by (auto simp: pack_search_def Let_def split: if_splits)
  show "previous < pos" "pos - previous \<le> 65535" using t by auto
  show "len \<le> 32771" "pos + len \<le> sz"
    using match_length_bounds [of 0 pos sz src previous] t(5) assms(3) by auto
  then show "repeat_back (take pos src) (pos - previous) len = take (pos + len) src"
    using t match_length_equal [of 0 src previous pos _ sz] assms(4) by (intro repeat_back_source) auto
qed

lemma table_update: "\<forall>t \<in> set table. t \<le> pos \<Longrightarrow> pos < b \<Longrightarrow> \<forall>t \<in> set (table[h := pos + 1]). t \<le> (b :: nat)"
  using set_update_subset_insert [of table h "pos + 1"] by fastforce

lemma pack_loop_expand:
  assumes "expand sz [] out = Some (take anchor src)" "anchor \<le> pos" "pos \<le> sz" "sz \<le> length src"
    and "length table = 4096" "\<forall>t \<in> set table. t \<le> pos"
    and "pack_loop src sz capacity pos anchor out table = Inr out'"
  shows "expand sz [] out' = Some (take sz src)"
  using assms
proof (induction src sz capacity pos anchor out table rule: pack_loop.induct)
  case (1 src sz capacity pos anchor out table)
  note unfold = pack_loop.simps [of src sz capacity pos anchor out table]
  show ?case
  proof (cases "pos + 4 \<le> sz")
    case True
    obtain len previous where search: "pack_search src sz table pos = (len, previous)" by fastforce
    let ?table = "table[pack_hash src pos := pos + 1]"
    show ?thesis
    proof (cases "len < 4")
      case less: True
      have "pack_loop src sz capacity (pos + 1) anchor out ?table = Inr out'"
        using 1(9) True less by (simp add: unfold search)
      with "1.IH"(1) [OF True refl search [symmetric] refl less] 1 table_update [of table pos "pos + 1"] True
      show ?thesis by simp
    next
      case more: False
      then have len: "4 \<le> len" by simp
      note found = pack_search_match [OF search len 1(5,6,7,8)]
      obtain out1 where out1: "pack_literals src capacity anchor pos out = Inr out1"
        and next_loop: "pack_loop src sz capacity (pos + len) (pos + len) (out1 @ match_token len (pos - previous)) ?table = Inr out'"
        and room: "\<not> (length out1 > capacity \<or> capacity - length out1 < 4)"
        using 1(9) True more by (auto simp: unfold search split: sum.splits if_splits)
      have "expand sz [] out1 = Some (take pos src)"
        by (rule pack_literals_expand [OF 1(3-6) out1])
      then have "expand sz [] (out1 @ match_token len (pos - previous)) = Some (take (pos + len) src)"
        using found len 1(6) by (simp add: expand_append expand_match)
      with "1.IH"(2) [OF True refl search [symmetric] refl more out1 room] next_loop found len 1
        table_update [of table pos "pos + len"]
      show ?thesis by simp
    qed
  next
    case False
    then have "pack_literals src capacity anchor sz out = Inr out'" using 1(9) by (simp add: unfold)
    with 1 show ?thesis by (intro pack_literals_expand [of sz out anchor src sz]) auto
  qed
qed

section \<open>Room\<close>

lemma pack_literals_room:
  "length out \<le> capacity \<Longrightarrow> case pack_literals src capacity anchor pos out of Inl o1 \<Rightarrow> length o1 \<le> capacity | Inr o1 \<Rightarrow> length o1 \<le> capacity"
proof (induction src capacity anchor pos out rule: pack_literals.induct)
  case (1 src capacity anchor pos out)
  show ?case
    by (subst pack_literals.simps) (use 1 in \<open>auto simp: Let_def emit16_def\<close>)
qed

lemma pack_literals_fits:
  assumes "length out + (if anchor < pos then 2 * (pos - anchor) + 1 else 0) \<le> capacity" "pos \<le> length src"
  shows "\<exists>o1. pack_literals src capacity anchor pos out = Inr o1 \<and>
    length o1 \<le> length out + (if anchor < pos then 2 * (pos - anchor) + 1 else 0)"
  using assms
proof (induction src capacity anchor pos out rule: pack_literals.induct)
  case (1 src capacity anchor pos out)
  show ?case
  proof (cases "anchor < pos")
    case True
    define count where "count = (if pos - anchor > 32768 then 32768 else pos - anchor)"
    have count: "0 < count" "anchor + count \<le> pos" "count = 32768 \<or> anchor + count = pos"
      using True by (auto simp: count_def)
    have room: "\<not> (length out > capacity \<or> count + 2 > capacity - length out)"
      using 1(2) count True by auto
    let ?o = "out @ emit16 (of_nat (count - 1)) @ take count (drop anchor src)"
    have len: "length ?o = length out + 2 + count" using 1(3) count by (simp add: emit16_def)
    have "length ?o + (if anchor + count < pos then 2 * (pos - (anchor + count)) + 1 else 0) \<le> capacity"
      using 1(2) count True unfolding len by auto
    from "1.IH" [OF True count_def room this 1(3)] show ?thesis
      using count room True 1(2) unfolding len
      by (subst pack_literals.simps) (auto simp flip: count_def split: if_splits)
  next
    case False
    then show ?thesis by (subst pack_literals.simps) simp
  qed
qed

lemma pack_loop_room:
  "length out \<le> capacity \<Longrightarrow> case pack_loop src sz capacity pos anchor out table of Inl o1 \<Rightarrow> length o1 \<le> capacity | Inr o1 \<Rightarrow> length o1 \<le> capacity"
proof (induction src sz capacity pos anchor out table rule: pack_loop.induct)
  case (1 src sz capacity pos anchor out table)
  note unfold = pack_loop.simps [of src sz capacity pos anchor out table]
  obtain len previous where search: "pack_search src sz table pos = (len, previous)" by fastforce
  show ?case
  proof (cases "pos + 4 \<le> sz \<and> 4 \<le> len")
    case True
    then have guards: "pos + 4 \<le> sz" "\<not> len < 4" by auto
    show ?thesis
    proof (cases "pack_literals src capacity anchor pos out")
      case (Inl o1)
      with pack_literals_room [OF 1(3), of src anchor pos] guards show ?thesis by (simp add: unfold search)
    next
      case (Inr o1)
      with pack_literals_room [OF 1(3), of src anchor pos] have "length o1 \<le> capacity" by simp
      with "1.IH"(2) [OF guards(1) refl search [symmetric] refl guards(2) Inr] guards Inr show ?thesis
        by (simp add: unfold search match_token_def emit16_def)
    qed
  next
    case False
    with "1.IH"(1) [OF _ refl search [symmetric] refl _ 1(3)] pack_literals_room [OF 1(3), of src anchor sz]
    show ?thesis by (auto simp: unfold search)
  qed
qed

lemma pack_loop_fits:
  assumes "length out + 2 * (sz - anchor) + 2 \<le> capacity" "anchor \<le> pos" "pos \<le> sz" "sz \<le> length src"
    and "length table = 4096" "\<forall>t \<in> set table. t \<le> pos"
  shows "\<exists>o1. pack_loop src sz capacity pos anchor out table = Inr o1"
  using assms
proof (induction src sz capacity pos anchor out table rule: pack_loop.induct)
  case (1 src sz capacity pos anchor out table)
  note unfold = pack_loop.simps [of src sz capacity pos anchor out table]
  show ?case
  proof (cases "pos + 4 \<le> sz")
    case True
    obtain len previous where search: "pack_search src sz table pos = (len, previous)" by fastforce
    show ?thesis
    proof (cases "len < 4")
      case less: True
      have "\<exists>o1. pack_loop src sz capacity (pos + 1) anchor out (table[pack_hash src pos := pos + 1]) = Inr o1"
        using 1(3-7) True table_update [OF 1(8), of "pos + 1"]
        by (intro "1.IH"(1) [OF True refl search [symmetric] refl less]) simp_all
      with True less show ?thesis by (simp add: unfold search)
    next
      case more: False
      then have len: "4 \<le> len" by simp
      note found = pack_search_match [OF search len 1(5,6,7,8)]
      have "length out + (if anchor < pos then 2 * (pos - anchor) + 1 else 0) \<le> capacity" using 1(3-5) by auto
      from pack_literals_fits [OF this, of src] 1(5,6)
      obtain o1 where o1: "pack_literals src capacity anchor pos out = Inr o1"
        and l: "length o1 \<le> length out + (2 * (pos - anchor) + 1)" by (auto split: if_splits)
      have room: "\<not> (length o1 > capacity \<or> capacity - length o1 < 4)"
        using l 1(3-5) True by auto
      have "length (o1 @ match_token len (pos - previous)) + 2 * (sz - (pos + len)) + 2 \<le> capacity"
        using l len found 1(3-5) by (simp add: match_token_def emit16_def)
      then have "\<exists>o2. pack_loop src sz capacity (pos + len) (pos + len) (o1 @ match_token len (pos - previous))
          (table[pack_hash src pos := pos + 1]) = Inr o2"
        using 1(6,7) found len table_update [OF 1(8), of "pos + len"]
        by (intro "1.IH"(2) [OF True refl search [symmetric] refl more o1 room]) simp_all
      with True more room show ?thesis by (simp add: unfold search o1)
    qed
  next
    case False
    have "length out + (if anchor < sz then 2 * (sz - anchor) + 1 else 0) \<le> capacity" using 1(3) by auto
    from pack_literals_fits [OF this 1(6)] False show ?thesis by (auto simp: unfold)
  qed
qed

lemma pack_succeeds:
  assumes "sz \<le> length src" "2 * sz + 2 \<le> capacity"
  shows "\<exists>o1. pack_loop src sz capacity 0 0 [] (replicate 4096 0) = Inr o1"
  using assms by (intro pack_loop_fits) auto

lemma pack_written:
  assumes "pack_loop src sz capacity 0 0 [] (replicate 4096 0) = Inr o1" "sz \<le> length src"
  shows "expand sz [] o1 = Some (take sz src)" "length o1 \<le> capacity" "0 < sz \<Longrightarrow> 0 < length o1"
proof -
  show "expand sz [] o1 = Some (take sz src)" by (rule pack_loop_expand [OF _ _ _ _ _ _ assms(1)]) (use assms in auto)
  then show "0 < length o1" if "0 < sz" using that assms(2) by (cases o1) auto
  show "length o1 \<le> capacity" using pack_loop_room [of "[]" capacity src sz 0 0 "replicate 4096 0"] assms(1) by simp
qed

lemma copy_bounds:
  "length (copy_match d out distance n) = length d" "length (copy_literal d out src pos n) = length d"
  "out + n \<le> k \<Longrightarrow> drop k (copy_match d out distance n) = drop k d"
  "out + n \<le> k \<Longrightarrow> drop k (copy_literal d out src pos n) = drop k d"
  by (induction n arbitrary: d out pos) auto

lemma unpack_dry:
  "fst (unpack_loop src sz (Some d) expected pos out) = fst (unpack_loop src sz None expected pos out) \<and>
    (\<exists>d'. snd (unpack_loop src sz (Some d) expected pos out) = Some d' \<and> length d' = length d \<and>
      drop expected d' = drop expected d)"
proof (induction "sz - pos" arbitrary: d pos out rule: less_induct)
  case less
  define token where "token = token16 (src ! pos) (src ! (pos + 1))"
  define n where "n = token_count token"
  note step = unpack_loop.simps [of src sz _ expected pos out, folded token_def, unfolded Let_def, folded n_def]
  let ?dist = "unat (token16 (src ! (pos + 2)) (src ! (pos + 3)))"
  show ?case
  proof (cases "pos < sz \<and> \<not> sz - pos < 2 \<and> \<not> (out > expected \<or> n > expected - out)")
    case True
    then have fits: "out + n \<le> expected" by auto
    note m = less [of "pos + 4" "copy_match d out ?dist n" "out + n"]
      and l = less [of "pos + 2 + n" "copy_literal d out src (pos + 2) n" "out + n"]
    show ?thesis
      using True m l fits unfolding step [of "Some d"] step [of None]
      by (auto simp: copy_bounds del: conjI)
  next
    case False
    then show ?thesis unfolding step [of "Some d"] step [of None] by auto
  qed
qed

section \<open>The properties\<close>

text \<open>C18: The decoder accepts a stream if and only if the stream expands to exactly the expected number of bytes,
  and then it leaves these bytes at the start of the destination and the rest of it as it was.\<close>

theorem unpack_expands:
  assumes "sz \<le> length src" and "expected \<le> length d"
  shows "LmStateUnpack src sz (Some d) expected = (True, r) \<longleftrightarrow>
    (\<exists>bs. expand expected [] (take sz src) = Some bs \<and> length bs = expected \<and> r = Some (bs @ drop expected d))"
  using unpack_expand [OF assms(1), of 0 "[]" expected d] assms(2)
  by (cases "expand expected [] (take sz src)") (auto simp: LmStateUnpack_def)

lemma unpack_expands_witness:
  "LmStateUnpack [0, 0, 65, 128, 1, 0, 1] 7 (Some [1, 2, 3, 4, 5, 6, 7]) 6 = (True, Some [65, 65, 65, 65, 65, 65, 7])"
proof -
  have "expand 6 [] (take 7 [0, 0, 65, 128, 1, 0, 1]) = Some [65, 65, 65, 65, 65, 65]" by code_simp
  then show ?thesis by (subst unpack_expands) simp_all
qed

text \<open>C19: A run of the decoder without a destination decides exactly as a run with one, and a run with one never
  writes past the expected length, whatever the stream.\<close>

theorem dry_run_decides:
  "fst (LmStateUnpack src sz None expected) = fst (LmStateUnpack src sz (Some d) expected) \<and>
   (\<exists>d'. snd (LmStateUnpack src sz (Some d) expected) = Some d' \<and> length d' = length d \<and>
     drop expected d' = drop expected d)"
  using unpack_dry [of src sz d expected 0 0] by (auto simp: LmStateUnpack_def)

text \<open>C17: What the packer packs, the decoder unpacks: if packing reports a length, the decoder accepts that many
  bytes of the packed buffer and restores the input.\<close>

theorem unpack_pack:
  assumes "sz \<le> length src" and "capacity \<le> length d" and "LmStatePack src sz (Some d) capacity = (n, Some d')"
    and "0 < n" and "sz \<le> length e"
  shows "LmStateUnpack d' n (Some e) sz = (True, Some (take sz src @ drop sz e))"
proof -
  obtain o1 where o1: "pack_loop src sz capacity 0 0 [] (replicate 4096 0) = Inr o1"
      "n = length o1" "d' = o1 @ drop (length o1) d"
    using assms(3,4) by (auto simp: LmStatePack_def split: sum.splits)
  note written = pack_written [OF o1(1) assms(1)]
  have "n \<le> length d'" "take n d' = o1" using o1 written assms(2) by auto
  with unpack_expand [of n d' 0 "[]" sz e] written(1) assms(1,5) show ?thesis
    by (simp add: LmStateUnpack_def)
qed

lemma unpack_pack_witness:
  "\<exists>n d'. LmStatePack [7, 7, 7, 7, 7, 7, 7, 9] 8 (Some (replicate 18 0)) 18 = (n, Some d') \<and> 0 < n \<and>
     LmStateUnpack d' n (Some (replicate 8 0)) 8 = (True, Some [7, 7, 7, 7, 7, 7, 7, 9])"
proof -
  let ?src = "[7, 7, 7, 7, 7, 7, 7, 9] :: bytes"
  obtain o1 where o1: "pack_loop ?src 8 18 0 0 [] (replicate 4096 0) = Inr o1"
    using pack_succeeds [of 8 ?src 18] by auto
  then have n: "0 < length o1" using pack_written(3) [OF o1] by simp
  have "LmStatePack ?src 8 (Some (replicate 18 0)) 18 = (length o1, Some (o1 @ drop (length o1) (replicate 18 0)))"
    by (simp add: LmStatePack_def o1)
  with unpack_pack [OF _ _ this n, of "replicate 8 0"] n show ?thesis by simp
qed

text \<open>C20: The packer stays inside its capacity, also when it gives up, and it never gives up when the capacity is
  twice the input and two bytes more.\<close>

theorem pack_room:
  assumes "LmStatePack src sz (Some d) capacity = (n, Some d')" and "sz \<le> length src"
  shows "n \<le> capacity \<and> drop capacity d' = drop capacity d \<and> (0 < sz \<and> 2 * sz + 2 \<le> capacity \<longrightarrow> 0 < n)"
proof (cases "pack_loop src sz capacity 0 0 [] (replicate 4096 0)")
  case (Inl o1)
  moreover have "length o1 \<le> capacity"
    using pack_loop_room [of "[]" capacity src sz 0 0 "replicate 4096 0"] Inl by simp
  ultimately show ?thesis using assms pack_succeeds [of sz src capacity] by (auto simp: LmStatePack_def)
next
  case (Inr o1)
  with assms pack_written [OF Inr assms(2)] show ?thesis by (auto simp: LmStatePack_def)
qed

lemma pack_room_witness: "0 < fst (LmStatePack [1, 2, 3] 3 (Some (replicate 8 0)) 8)"
proof -
  obtain n d' where r: "LmStatePack [1, 2, 3] 3 (Some (replicate 8 0)) 8 = (n, Some d')"
    by (cases "pack_loop [1, 2, 3] 3 8 0 0 [] (replicate 4096 0)") (auto simp: LmStatePack_def)
  with pack_room [OF r] show ?thesis by simp
qed

end
