(* ===== verification/CrashReport.thy ===== *)
theory CrashReport
  imports Format StorageFormat
begin

text \<open>
  The report of a crash, \<open>include/susamune/crash_report.h\<close>, and what \<open>launcher/kernel/SusamuneCrash.c\<close> computes from
  it: its checksum, whether it is valid, and the text that goes beside it on the card.  The game's processor leaves the
  report as 2,048 bytes in a mailbox, and the kernel checks, copies and writes those bytes, so a report is a list of
  bytes here, and the structure is the table of its fields.
\<close>

section \<open>The structure\<close>

text \<open>The members in their order, with their sizes in bytes.\<close>

definition crash_fields :: "(string \<times> nat) list" where
  "crash_fields = [
     (''magic'', 4), (''version'', 2), (''reportSize'', 2), (''state'', 4), (''captureSeq'', 4), (''checksum'', 4),
     (''gameId'', 4), (''modFileCrc32'', 4), (''modFileSize'', 4),
     (''modCodeSize'', 4), (''modWriteCount'', 4), (''arenaReserve'', 4), (''exception'', 2), (''captureFlags'', 2),
     (''dsisr'', 4), (''dar'', 4), (''timeBaseHigh'', 4), (''timeBaseLow'', 4),
     (''gpr'', 32 * 4), (''cr'', 4), (''lr'', 4), (''ctr'', 4), (''xer'', 4), (''srr0'', 4), (''srr1'', 4),
     (''contextMode'', 2), (''contextState'', 2), (''currentThread'', 4),
     (''appAddress'', 4), (''appDirector'', 4), (''appHeap'', 4), (''appContext'', 4), (''prevScene'', 4),
     (''currentScene'', 4), (''nextScene'', 4), (''cutSceneId'', 4), (''marDirector'', 4), (''mario'', 4), (''camera'', 4),
     (''directorReady'', 4), (''directorStateAreaEpisode'', 4), (''directorGameState'', 4), (''directorDemoStates'', 4),
     (''directorCollectedShine'', 4), (''breadcrumbSeq'', 4), (''breadcrumbCount'', 4),
     (''breadcrumbs'', 16 * 20), (''backtrace'', 32 * 8),
     (''stackBase'', 4), (''stackSize'', 4), (''stack'', 512),
     (''pcWindowBase'', 4), (''pcWindowSize'', 4), (''pcWindow'', 64),
     (''lrWindowBase'', 4), (''lrWindowSize'', 4), (''lrWindow'', 64),
     (''directorWindowBase'', 4), (''directorWindowSize'', 2), (''reserved0'', 2), (''directorWindow'', 320),
     (''marioWindowBase'', 4), (''marioWindowSize'', 2), (''reserved1'', 2), (''marioWindow'', 128),
     (''reserved'', 48)]"

fun field_offset :: "(string \<times> nat) list \<Rightarrow> string \<Rightarrow> nat" where
  "field_offset [] f = 0"
| "field_offset ((g, n) # fs) f = (if f = g then 0 else n + field_offset fs f)"

definition half_at :: "bytes \<Rightarrow> nat \<Rightarrow> u16" where
  "half_at bs i = push_bit 8 (ucast (bs ! i)) OR ucast (bs ! (i + 1))"

definition be16 :: "u16 \<Rightarrow> bytes" where
  "be16 w = [ucast (drop_bit 8 w), ucast w]"

definition rep_word :: "bytes \<Rightarrow> string \<Rightarrow> u32" where
  "rep_word r f = word_at r (field_offset crash_fields f)"

definition rep_half :: "bytes \<Rightarrow> string \<Rightarrow> u16" where
  "rep_half r f = half_at r (field_offset crash_fields f)"

definition rep_bytes :: "bytes \<Rightarrow> string \<Rightarrow> bytes" where
  "rep_bytes r f = drop (field_offset crash_fields f) r"

abbreviation SUSAMUNE_CRASH_REPORT_SIZE :: nat where "SUSAMUNE_CRASH_REPORT_SIZE \<equiv> 2048"
abbreviation SUSAMUNE_CRASH_MAGIC :: u32 where "SUSAMUNE_CRASH_MAGIC \<equiv> 0x53435248"
abbreviation SUSAMUNE_CRASH_STATE_READY :: u32 where "SUSAMUNE_CRASH_STATE_READY \<equiv> 3"

text \<open>The compile-time checks of the header.\<close>

lemma crash_layout:
  "field_offset crash_fields ''modCodeSize'' = 32" "field_offset crash_fields ''gpr'' = 64"
  "sum_list (map snd crash_fields) = SUSAMUNE_CRASH_REPORT_SIZE" "distinct (map fst crash_fields)"
  by (simp_all add: crash_fields_def)

lemma crash_offsets [simp]:
  "field_offset crash_fields ''magic'' = 0" "field_offset crash_fields ''version'' = 4"
  "field_offset crash_fields ''reportSize'' = 6" "field_offset crash_fields ''state'' = 8"
  "field_offset crash_fields ''captureSeq'' = 12" "field_offset crash_fields ''checksum'' = 16"
  by (simp_all add: crash_fields_def)

section \<open>Checks\<close>

definition CrashChecksum :: "bytes \<Rightarrow> u32" where
  "CrashChecksum report =
     (let c = field_offset crash_fields ''checksum''
      in crc_masked (\<lambda>i. c \<le> i \<and> i < c + 4) 0 0xFFFFFFFF report XOR 0xFFFFFFFF)"

definition ValidReport :: "bytes \<Rightarrow> bool" where
  "ValidReport report \<longleftrightarrow>
     rep_word report ''magic'' = SUSAMUNE_CRASH_MAGIC \<and>
     rep_half report ''version'' = 1 \<and>
     rep_half report ''reportSize'' = of_nat SUSAMUNE_CRASH_REPORT_SIZE \<and>
     rep_word report ''state'' = SUSAMUNE_CRASH_STATE_READY \<and>
     rep_word report ''breadcrumbCount'' \<le> 16 \<and>
     rep_word report ''stackSize'' \<le> 512 \<and>
     rep_word report ''pcWindowSize'' \<le> 64 \<and>
     rep_word report ''lrWindowSize'' \<le> 64 \<and>
     rep_half report ''directorWindowSize'' \<le> 320 \<and>
     rep_half report ''marioWindowSize'' \<le> 128 \<and>
     rep_word report ''checksum'' = CrashChecksum report"

definition GenerationNewer :: "u32 \<Rightarrow> u32 \<Rightarrow> bool" where
  "GenerationNewer candidate current \<longleftrightarrow> sint (candidate - current) > 0"

definition BytesCrc :: "bytes \<Rightarrow> u32" where
  "BytesCrc data = foldl crc_byte 0xFFFFFFFF data XOR 0xFFFFFFFF"

section \<open>The text\<close>

definition eol :: string where "eol = [CHR 0x0D, CHR 0x0A]"

definition ExceptionName :: "u32 \<Rightarrow> string" where
  "ExceptionName ex =
     (let names = [''System reset'', ''Machine check'', ''DSI'', ''ISI'',
        ''External interrupt'', ''Alignment'', ''Program'',
        ''Floating point unavailable'', ''Decrementer'', ''System call'',
        ''Trace'', ''Performance monitor'', ''IABR'', ''Reserved'', ''Thermal'']
      in if unat ex < length names then names ! unat ex else ''Unknown'')"

definition RegionName :: "u32 \<Rightarrow> string" where
  "RegionName gameId =
     (if gameId = 0x474D534A then ''JP/GMSJ''
      else if gameId = 0x474D5345 then ''US/GMSE''
      else if gameId = 0x474D5350 then ''PAL/GMSP''
      else if gameId = SUSAMUNE_MOD_GAME_ID_LMJ then ''JP/GLMJ''
      else ''unknown'')"

text \<open>\<open>EmitHex\<close>: a head line and a line for every 16 bytes of \<open>data\<close>.\<close>

definition hex_row :: "u32 \<Rightarrow> bytes \<Rightarrow> nat \<Rightarrow> nat \<Rightarrow> string" where
  "hex_row base data sz offset =
     sprintf ''%08X:'' [AInt (base + of_nat offset)] @
     concat (map (\<lambda>i. sprintf '' %02X'' [AInt (ucast (data ! (offset + i)))])
       [0..<(if sz - offset < 16 then sz - offset else 16)]) @ eol"

definition EmitHex :: "string \<Rightarrow> u32 \<Rightarrow> bytes \<Rightarrow> nat \<Rightarrow> string list" where
  "EmitHex label base data sz =
     sprintf (''%s base=%08X size=%u'' @ eol) [AStr label, AInt base, AInt (of_nat sz)] #
     map (\<lambda>k. hex_row base data sz (16 * k)) [0..<(sz + 15) div 16]"

definition text_head :: "bytes \<Rightarrow> string list" where
  "text_head r =
     (let w = (\<lambda>f. AInt (rep_word r f)); h = (\<lambda>f. AInt (ucast (rep_half r f)))
      in [if rep_word r ''gameId'' = SUSAMUNE_MOD_GAME_ID_LMJ
          then sprintf (''DarkMoonshine Luigi'' @ [CHR 0x27] @ ''s Mansion crash report v%u'' @ eol) [h ''version'']
          else sprintf (''Moonshine crash report v%u'' @ eol) [h ''version''],
          sprintf (''generation=%u region=%s game_id=%08X mod_crc32=%08X'' @ eol)
            [w ''captureSeq'', AStr (RegionName (rep_word r ''gameId'')), w ''gameId'', w ''modFileCrc32''],
          sprintf (''mod_file_size=%u mod_code_size=%u hook_writes=%u arena_reserve=%u'' @ eol)
            [w ''modFileSize'', w ''modCodeSize'', w ''modWriteCount'', w ''arenaReserve''],
          sprintf (''exception=%u (%s) flags=%04X dsisr=%08X dar=%08X'' @ eol)
            [h ''exception'', AStr (ExceptionName (ucast (rep_half r ''exception''))), h ''captureFlags'', w ''dsisr'', w ''dar''],
          sprintf (''srr0=%08X srr1=%08X lr=%08X cr=%08X ctr=%08X xer=%08X'' @ eol)
            [w ''srr0'', w ''srr1'', w ''lr'', w ''cr'', w ''ctr'', w ''xer''],
          sprintf (''time_base=%08X%08X context_mode=%u context_state=%u thread=%08X'' @ eol)
            [w ''timeBaseHigh'', w ''timeBaseLow'', h ''contextMode'', h ''contextState'', w ''currentThread'']])"

definition text_gpr :: "bytes \<Rightarrow> string list" where
  "text_gpr r = map (\<lambda>k. let i = 4 * k; gpr = (\<lambda>j. AInt (word_at (rep_bytes r ''gpr'') (4 * j))); n = (\<lambda>j. AInt (of_nat j))
     in sprintf (''r%02u=%08X r%02u=%08X r%02u=%08X r%02u=%08X'' @ eol)
       [n i, gpr i, n (i + 1), gpr (i + 1), n (i + 2), gpr (i + 2), n (i + 3), gpr (i + 3)]) [0..<8]"

definition text_game :: "bytes \<Rightarrow> string list" where
  "text_game r =
     (let w = (\<lambda>f. AInt (rep_word r f)); top = (\<lambda>f. AInt (drop_bit 24 (rep_word r f)));
          mid = (\<lambda>f. AInt (drop_bit 16 (rep_word r f) AND 0xFF)); low = (\<lambda>f. AInt (rep_word r f AND 0xFFFF))
      in if rep_word r ''gameId'' = SUSAMUNE_MOD_GAME_ID_LMJ
         then [sprintf (''heaps root=%08X system=%08X game=%08X current=%08X'' @ eol)
                 [w ''appAddress'', w ''appDirector'', w ''appHeap'', w ''appContext''],
               sprintf (''lm scene_ptr=%08X scene_id=%08X map=%u game_mode=%08X mission_mode=%08X count=%u'' @ eol)
                 [w ''prevScene'', w ''currentScene'', w ''nextScene'', w ''cutSceneId'', w ''marDirector'', w ''directorReady''],
               sprintf (''dvd outstanding=%u ring_state=%08X current_info=%08X'' @ eol)
                 [w ''mario'', w ''camera'', w ''directorStateAreaEpisode''],
               sprintf (''aram command_count=%u piece_count=%u'' @ eol)
                 [w ''directorGameState'', w ''directorDemoStates'']]
         else [sprintf (''app=%08X director=%08X heap=%08X context=%u cutscene=%08X'' @ eol)
                 [w ''appAddress'', w ''appDirector'', w ''appHeap'', w ''appContext'', w ''cutSceneId''],
               sprintf (''scenes prev=%02X/%02X/%04X current=%02X/%02X/%04X next=%02X/%02X/%04X'' @ eol)
                 [top ''prevScene'', mid ''prevScene'', low ''prevScene'', top ''currentScene'', mid ''currentScene'',
                  low ''currentScene'', top ''nextScene'', mid ''nextScene'', low ''nextScene''],
               sprintf (''globals mar_director=%08X mario=%08X camera=%08X ready=%u state_area_episode=%08X'' @ eol)
                 [w ''marDirector'', w ''mario'', w ''camera'', w ''directorReady'', w ''directorStateAreaEpisode''],
               sprintf (''director game_state=%08X demo_states=%08X collected_shine=%08X'' @ eol)
                 [w ''directorGameState'', w ''directorDemoStates'', w ''directorCollectedShine'']])"

text \<open>The trail of breadcrumbs, a ring of 16 whose oldest entry is \<open>breadcrumbCount\<close> behind the newest, and the stack frames
  up to the first empty one.\<close>

definition text_breadcrumbs :: "bytes \<Rightarrow> string list" where
  "text_breadcrumbs r =
     (let start = rep_word r ''breadcrumbSeq'' - rep_word r ''breadcrumbCount''
      in (eol @ ''Breadcrumbs (1=app, 2=context, 3=setup-enter, '' @
          ''4=setup-return, 5=stage-ready, 256=state-save, '' @
          ''257=state-load, 271=state-refused, 272=save-phase, '' @
          ''273=load-phase, 288=warp):'' @ eol) #
         map (\<lambda>i. let entry = (\<lambda>k. AInt (word_at (rep_bytes r ''breadcrumbs'') (20 * unat ((start + of_nat i) mod 16) + 4 * k)))
           in sprintf (''%02u event=%u time=%08X%08X arg0=%08X arg1=%08X'' @ eol)
             [AInt (of_nat i), entry 0, entry 1, entry 2, entry 3, entry 4])
           [0..<min (unat (rep_word r ''breadcrumbCount'')) 16])"

definition text_backtrace :: "bytes \<Rightarrow> string list" where
  "text_backtrace r =
     (let frame = (\<lambda>i k. word_at (rep_bytes r ''backtrace'') (8 * i + 4 * k))
      in (eol @ ''Backtrace:'' @ eol) #
         map (\<lambda>i. sprintf (''%02u sp=%08X lr=%08X'' @ eol) [AInt (of_nat i), AInt (frame i 0), AInt (frame i 1)])
           (takeWhile (\<lambda>i. frame i 0 \<noteq> 0) [0..<32]))"

definition effect_fields :: "(string \<times> nat) list" where
  "effect_fields = [(''magic'', 4), (''version'', 2), (''size'', 2), (''flags'', 4), (''ownerBase'', 4), (''slotsBase'', 4),
     (''heapBase'', 4), (''configBase'', 4), (''managerCount'', 4), (''owner'', 40), (''slots'', 36), (''heap'', 128), (''config'', 32)]"

lemma effect_layout: "sum_list (map snd effect_fields) = 268"
  by (simp add: effect_fields_def)

definition text_effect :: "bytes \<Rightarrow> string list" where
  "text_effect r =
     (let aux = drop 0x28 (rep_bytes r ''directorWindow'');
          at = field_offset effect_fields;
          w = (\<lambda>f. word_at aux (at f));
          part = (\<lambda>label flag base f. if w ''flags'' AND flag \<noteq> 0
            then EmitHex label (w base) (drop (at f) aux) (the (map_of effect_fields f)) else [])
      in if w ''magic'' = 0x4C4D4558 \<and> half_at aux (at ''version'') = 1 \<and> half_at aux (at ''size'') = 268
         then sprintf (''lm effect aux v%u flags=%08X owner=%08X slots=%08X heap=%08X config=%08X manager_count=%u'' @ eol)
                [AInt (ucast (half_at aux (at ''version''))), AInt (w ''flags''), AInt (w ''ownerBase''), AInt (w ''slotsBase''),
                 AInt (w ''heapBase''), AInt (w ''configBase''), AInt (w ''managerCount'')] #
              part ''effect-owner'' 1 ''ownerBase'' ''owner'' @
              part ''effect-slot0'' 2 ''slotsBase'' ''slots'' @
              part ''effect-heap'' 4 ''heapBase'' ''heap'' @
              part ''effect-config'' 8 ''configBase'' ''config''
         else [])"

definition text_windows :: "bytes \<Rightarrow> string list" where
  "text_windows r =
     (let hexw = (\<lambda>label name. EmitHex label (rep_word r (name @ ''Base'')) (rep_bytes r name) (unat (rep_word r (name @ ''Size''))));
          hexh = (\<lambda>label name. EmitHex label (rep_word r (name @ ''Base'')) (rep_bytes r name) (unat (rep_half r (name @ ''Size''))))
      in (eol @ ''Memory windows:'' @ eol) #
         hexw ''stack'' ''stack'' @ hexw ''pc'' ''pcWindow'' @ hexw ''lr'' ''lrWindow'' @
         (if rep_word r ''gameId'' = SUSAMUNE_MOD_GAME_ID_LMJ
          then hexh ''dvd'' ''directorWindow'' @ hexh ''aram'' ''marioWindow'' @
            (if rep_half r ''captureFlags'' AND 32 \<noteq> 0 then text_effect r else [])
          else hexh ''director'' ''directorWindow'' @ hexh ''mario'' ''marioWindow''))"

text \<open>The pieces \<open>WriteText\<close> emits, in order.\<close>

definition report_text :: "bytes \<Rightarrow> string list" where
  "report_text r = text_head r @ text_gpr r @ text_game r @ text_breadcrumbs r @ text_backtrace r @ text_windows r"

end
