(* ===== verification/CrashTelemetry.thy ===== *)
theory CrashTelemetry
  imports Prelude
begin

text \<open>
  The crash telemetry shared by the game's processor and the launcher's, \<open>include/susamune/lm_crash_telemetry.h\<close>:
  the ring of critical phase records with one producer (the PowerPC) and one consumer (the ARM), and the
  bounded copies of the effect objects a crash report takes.

  The two processors see the ring through caches that nothing keeps coherent but the calls
  \<open>io->invalidate\<close> (forget the own copy of a line) and \<open>io->publish\<close> (write it to memory).  An operation is
  therefore a resumption: it works on the caller's view and stops at each of these calls, so that the other
  processor's steps can come in between.
\<close>

section \<open>Records\<close>

abbreviation LM_CRITICAL_MAGIC :: u32 where "LM_CRITICAL_MAGIC \<equiv> 0x4C4D4351"
abbreviation LM_CRITICAL_VERSION :: u32 where "LM_CRITICAL_VERSION \<equiv> 2"
abbreviation LM_CRITICAL_COUNT :: nat where "LM_CRITICAL_COUNT \<equiv> 32"
abbreviation SUSAMUNE_PHASE_TRACE_MAGIC :: u32 where "SUSAMUNE_PHASE_TRACE_MAGIC \<equiv> 0x53504853"
abbreviation SUSAMUNE_PHASE_ACTION_SAVE :: u32 where "SUSAMUNE_PHASE_ACTION_SAVE \<equiv> 1"
abbreviation SUSAMUNE_PHASE_ACTION_LOAD :: u32 where "SUSAMUNE_PHASE_ACTION_LOAD \<equiv> 2"
abbreviation SUSAMUNE_PHASE_ACTION_POST_LOAD :: u32 where "SUSAMUNE_PHASE_ACTION_POST_LOAD \<equiv> 3"
abbreviation SUSAMUNE_PHASE_ACTION_WARP :: u32 where "SUSAMUNE_PHASE_ACTION_WARP \<equiv> 4"

record phase_trace =
  pt_magic :: u32
  pt_sequenceBegin :: u32
  pt_action :: u32
  pt_phase :: u32
  pt_phaseInverse :: u32
  pt_arg0 :: u32
  pt_arg1 :: u32
  pt_sequenceEnd :: u32

record critical_control =
  cc_magic :: u32
  cc_version :: u32
  cc_cursor :: u32
  cc_cursorInverse :: u32
  cc_dropped :: u32
  cc_droppedInverse :: u32
  cc_reserved0 :: u32
  cc_reserved1 :: u32

record critical_ring =
  cr_producer :: critical_control
  cr_consumer :: critical_control
  cr_entries :: "phase_trace list"

section \<open>The tests\<close>

definition LmPhaseValid :: "phase_trace \<Rightarrow> bool" where
  "LmPhaseValid t \<longleftrightarrow>
     pt_magic t = SUSAMUNE_PHASE_TRACE_MAGIC \<and> pt_sequenceBegin t \<noteq> 0 \<and> pt_sequenceBegin t AND 1 = 0 \<and>
     pt_sequenceBegin t = pt_sequenceEnd t \<and> pt_phase t XOR pt_phaseInverse t = 0xFFFFFFFF \<and>
     pt_action t \<ge> SUSAMUNE_PHASE_ACTION_SAVE \<and> pt_action t \<le> SUSAMUNE_PHASE_ACTION_WARP"

definition LmPhaseCritical :: "phase_trace \<Rightarrow> bool" where
  "LmPhaseCritical t \<longleftrightarrow>
     pt_action t = SUSAMUNE_PHASE_ACTION_WARP \<or>
     pt_action t = SUSAMUNE_PHASE_ACTION_POST_LOAD \<and> (pt_phase t = 0xF4 \<or> pt_phase t = 0xF3) \<or>
     pt_action t = SUSAMUNE_PHASE_ACTION_SAVE \<and> (pt_phase t = 0x7F \<or> pt_phase t = 0x5F \<or> pt_phase t = 0xF9) \<or>
     pt_action t = SUSAMUNE_PHASE_ACTION_LOAD \<and>
       (pt_phase t = 0x01 \<or> pt_phase t = 0x07 \<or> pt_phase t = 0x6B \<or> pt_phase t = 0xD9 \<or> pt_phase t = 0xDA \<or>
        pt_phase t \<ge> 0xF4 \<and> pt_phase t \<le> 0xFA)"

definition LmCriticalControlValid :: "critical_control \<Rightarrow> bool" where
  "LmCriticalControlValid c \<longleftrightarrow>
     cc_magic c = LM_CRITICAL_MAGIC \<and> cc_version c = LM_CRITICAL_VERSION \<and>
     cc_cursor c XOR cc_cursorInverse c = 0xFFFFFFFF \<and> cc_dropped c XOR cc_droppedInverse c = 0xFFFFFFFF"

definition LmCriticalControlInit :: critical_control where
  "LmCriticalControlInit = \<lparr>cc_magic = LM_CRITICAL_MAGIC, cc_version = LM_CRITICAL_VERSION, cc_cursor = 0,
     cc_cursorInverse = 0xFFFFFFFF, cc_dropped = 0, cc_droppedInverse = 0xFFFFFFFF, cc_reserved0 = 0, cc_reserved1 = 0\<rparr>"

section \<open>Operations and cache lines\<close>

text \<open>The parts of the ring that are invalidated and published by themselves.\<close>

datatype ring_part = Producer | Consumer | Entry nat

fun move_part :: "ring_part \<Rightarrow> critical_ring \<Rightarrow> critical_ring \<Rightarrow> critical_ring" where
  "move_part Producer src dst = dst\<lparr>cr_producer := cr_producer src\<rparr>"
| "move_part Consumer src dst = dst\<lparr>cr_consumer := cr_consumer src\<rparr>"
| "move_part (Entry i) src dst = dst\<lparr>cr_entries := (cr_entries dst)[i := cr_entries src ! i]\<rparr>"

text \<open>An operation in progress: finished with the caller's view and a result, or at a call of \<open>io\<close> with the
  view of before the call and how it goes on.\<close>

datatype 'a proc =
    Ret critical_ring 'a
  | Invalidate ring_part critical_ring "critical_ring \<Rightarrow> 'a proc"
  | Publish ring_part critical_ring "'a proc"

definition LmCriticalInit :: "critical_ring \<Rightarrow> unit proc" where
  "LmCriticalInit ring =
     (let ring = ring\<lparr>cr_producer := LmCriticalControlInit\<lparr>cc_magic := 0\<rparr>, cr_consumer := LmCriticalControlInit\<rparr>
      in Publish Producer ring (Publish Consumer ring (Ret ring ())))"

text \<open>The rest of the attach, when both lines are fresh.\<close>

definition attach_fresh :: "critical_ring \<Rightarrow> bool proc" where
  "attach_fresh ring =
     (if \<not> LmCriticalControlValid (cr_consumer ring) then Ret ring False
      else if cc_magic (cr_producer ring) = 0 \<and> cc_cursor (cr_consumer ring) = 0 then
        let ring = ring\<lparr>cr_producer := LmCriticalControlInit\<rparr> in
        Publish Producer ring (Ret ring (LmCriticalControlValid (cr_producer ring)))
      else Ret ring (LmCriticalControlValid (cr_producer ring)))"

definition LmCriticalAttach :: "critical_ring \<Rightarrow> bool proc" where
  "LmCriticalAttach ring =
     Invalidate Consumer ring (\<lambda>ring. Invalidate Producer ring attach_fresh)"

definition ring_slot :: "critical_control \<Rightarrow> nat" where
  "ring_slot c = unat (cc_cursor c mod 32)"

definition advance :: "critical_control \<Rightarrow> critical_control" where
  "advance c = c\<lparr>cc_cursor := cc_cursor c + 1, cc_cursorInverse := NOT (cc_cursor c + 1)\<rparr>"

definition drop_one :: "critical_control \<Rightarrow> critical_control" where
  "drop_one c =
     (let d = (if cc_dropped c \<noteq> 0xFFFFFFFF then cc_dropped c + 1 else cc_dropped c)
      in c\<lparr>cc_dropped := d, cc_droppedInverse := NOT d\<rparr>)"

definition LmCriticalEnqueue :: "critical_ring \<Rightarrow> phase_trace \<Rightarrow> bool proc" where
  "LmCriticalEnqueue ring trace =
     Invalidate Consumer ring (\<lambda>ring.
     if \<not> LmCriticalControlValid (cr_consumer ring) \<or> \<not> LmCriticalControlValid (cr_producer ring) \<or>
        \<not> LmPhaseValid trace \<or> \<not> LmPhaseCritical trace then Ret ring False
     else if cc_cursor (cr_producer ring) - cc_cursor (cr_consumer ring) \<ge> 32 then
       let ring = ring\<lparr>cr_producer := drop_one (cr_producer ring)\<rparr> in
       Publish Producer ring (Ret ring False)
     else
       let i = ring_slot (cr_producer ring);
           ring = ring\<lparr>cr_entries := (cr_entries ring)[i := trace]\<rparr> in
       Publish (Entry i) ring (
       let ring = ring\<lparr>cr_producer := advance (cr_producer ring)\<rparr> in
       Publish Producer ring (Ret ring True)))"

text \<open>The result is the returned truth value and \<open>*trace\<close>, whose value before the call is \<open>old\<close>.\<close>

definition LmCriticalPeek :: "critical_ring \<Rightarrow> phase_trace \<Rightarrow> (bool \<times> phase_trace) proc" where
  "LmCriticalPeek ring old =
     Invalidate Producer ring (\<lambda>ring.
     if \<not> LmCriticalControlValid (cr_producer ring) \<or> \<not> LmCriticalControlValid (cr_consumer ring)
     then Ret ring (False, old)
     else
       let pending = cc_cursor (cr_producer ring) - cc_cursor (cr_consumer ring) in
       if pending = 0 \<or> pending > 32 then Ret ring (False, old)
       else
         let i = ring_slot (cr_consumer ring) in
         Invalidate (Entry i) ring (\<lambda>ring.
         let trace = cr_entries ring ! i in
         Ret ring (LmPhaseValid trace \<and> LmPhaseCritical trace, trace)))"

definition LmCriticalAcknowledge :: "critical_ring \<Rightarrow> unit proc" where
  "LmCriticalAcknowledge ring =
     (let ring = ring\<lparr>cr_consumer := advance (cr_consumer ring)\<rparr> in
      Publish Consumer ring (Ret ring ()))"

text \<open>An operation nothing interrupts.\<close>

primrec run_alone :: "'a proc \<Rightarrow> critical_ring \<Rightarrow> critical_ring \<times> critical_ring \<times> 'a" where
  "run_alone (Ret view x) ram = (ram, view, x)"
| "run_alone (Invalidate p view k) ram = run_alone (k (move_part p ram view)) ram"
| "run_alone (Publish p view k) ram = run_alone k (move_part p view ram)"

section \<open>The two processors\<close>

inductive proc_step :: "critical_ring \<Rightarrow> 'a proc \<Rightarrow> critical_ring \<Rightarrow> 'a proc \<Rightarrow> bool" where
  "proc_step ram (Invalidate p view k) ram (k (move_part p ram view))"
| "proc_step ram (Publish p view k) (move_part p view ram) k"

inductive_simps proc_step_Ret: "proc_step ram (Ret view x) ram' q"
inductive_simps proc_step_Invalidate: "proc_step ram (Invalidate p view k) ram' q"
inductive_simps proc_step_Publish: "proc_step ram (Publish p view k) ram' q"

lemmas proc_step_simps = proc_step_Ret proc_step_Invalidate proc_step_Publish

datatype ppc = PIdle critical_ring | PAttach "bool proc" | PEnqueue phase_trace "bool proc"

datatype arm =
    AIdle critical_ring
  | APeek "(bool \<times> phase_trace) proc"
  | AHold critical_ring phase_trace
  | AAck "unit proc"

text \<open>The memory, what the processors are doing, the records whose enqueue has returned 1, and the records the
  consumer has handled.  The consumer handles a record it has peeked before it acknowledges it.\<close>

record telemetry =
  ty_ram :: critical_ring
  ty_ppc :: ppc
  ty_arm :: arm
  ty_sent :: "phase_trace list"
  ty_handled :: "phase_trace list"

inductive telemetry_step :: "telemetry \<Rightarrow> telemetry \<Rightarrow> bool" where
  attach: "ty_ppc s = PIdle v \<Longrightarrow> telemetry_step s (s\<lparr>ty_ppc := PAttach (LmCriticalAttach v)\<rparr>)"
| attaching: "ty_ppc s = PAttach p \<Longrightarrow> proc_step (ty_ram s) p ram q \<Longrightarrow>
    telemetry_step s (s\<lparr>ty_ram := ram, ty_ppc := PAttach q\<rparr>)"
| attached: "ty_ppc s = PAttach (Ret v b) \<Longrightarrow> telemetry_step s (s\<lparr>ty_ppc := PIdle v\<rparr>)"
| enqueue: "ty_ppc s = PIdle v \<Longrightarrow> telemetry_step s (s\<lparr>ty_ppc := PEnqueue t (LmCriticalEnqueue v t)\<rparr>)"
| enqueuing: "ty_ppc s = PEnqueue t p \<Longrightarrow> proc_step (ty_ram s) p ram q \<Longrightarrow>
    telemetry_step s (s\<lparr>ty_ram := ram, ty_ppc := PEnqueue t q\<rparr>)"
| enqueued: "ty_ppc s = PEnqueue t (Ret v b) \<Longrightarrow>
    telemetry_step s (s\<lparr>ty_ppc := PIdle v, ty_sent := ty_sent s @ (if b then [t] else [])\<rparr>)"
| peek: "ty_arm s = AIdle v \<Longrightarrow> telemetry_step s (s\<lparr>ty_arm := APeek (LmCriticalPeek v old)\<rparr>)"
| peeking: "ty_arm s = APeek p \<Longrightarrow> proc_step (ty_ram s) p ram q \<Longrightarrow>
    telemetry_step s (s\<lparr>ty_ram := ram, ty_arm := APeek q\<rparr>)"
| peeked: "ty_arm s = APeek (Ret v (b, t)) \<Longrightarrow> telemetry_step s (s\<lparr>ty_arm := (if b then AHold v t else AIdle v)\<rparr>)"
| handle: "ty_arm s = AHold v t \<Longrightarrow>
    telemetry_step s (s\<lparr>ty_arm := AAck (LmCriticalAcknowledge v), ty_handled := ty_handled s @ [t]\<rparr>)"
| acknowledging: "ty_arm s = AAck p \<Longrightarrow> proc_step (ty_ram s) p ram q \<Longrightarrow>
    telemetry_step s (s\<lparr>ty_ram := ram, ty_arm := AAck q\<rparr>)"
| acknowledged: "ty_arm s = AAck (Ret v x) \<Longrightarrow> telemetry_step s (s\<lparr>ty_arm := AIdle v\<rparr>)"

text \<open>The start: the consumer has initialised the memory, the producer attaches with an arbitrary old view.\<close>

definition telemetry_start :: "critical_ring \<Rightarrow> critical_ring \<Rightarrow> critical_ring \<Rightarrow> telemetry" where
  "telemetry_start ram varm vppc =
     (case run_alone (LmCriticalInit varm) ram of (ram', varm', _) \<Rightarrow>
        \<lparr>ty_ram = ram', ty_ppc = PAttach (LmCriticalAttach vppc), ty_arm = AIdle varm', ty_sent = [], ty_handled = []\<rparr>)"

inductive telemetry_reachable :: "telemetry \<Rightarrow> bool" where
  start: "length (cr_entries ram) = 32 \<Longrightarrow> length (cr_entries varm) = 32 \<Longrightarrow> length (cr_entries vppc) = 32 \<Longrightarrow>
    telemetry_reachable (telemetry_start ram varm vppc)"
| step: "telemetry_reachable s \<Longrightarrow> telemetry_step s s' \<Longrightarrow> telemetry_reachable s'"

section \<open>Counters\<close>

definition counts :: "nat \<Rightarrow> critical_control \<Rightarrow> bool" where
  "counts n c \<longleftrightarrow> cc_cursor c = of_nat n \<and> LmCriticalControlValid c"

text \<open>The producer's line before the first attach has no magic.\<close>

definition produced :: "nat \<Rightarrow> critical_control \<Rightarrow> bool" where
  "produced n c \<longleftrightarrow> counts n c \<or> n = 0 \<and> cc_magic c = 0"

lemma produced_valid: "produced n c \<Longrightarrow> LmCriticalControlValid c \<Longrightarrow> counts n c"
  by (auto simp: produced_def LmCriticalControlValid_def)

lemma xor_not: "(w :: u32) XOR NOT w = 0xFFFFFFFF"
  by (simp add: bit.xor_cancel_right)

lemma all_ones: "(- 1 :: u32) = 0xFFFFFFFF"
  using xor_not [of 0] by (metis bit.xor_compl_right xor_self_eq bit.compl_zero)

lemma counts_advance: "counts n c \<Longrightarrow> counts (Suc n) (advance c)"
  by (auto simp: counts_def advance_def LmCriticalControlValid_def all_ones add.commute)

lemma counts_drop: "counts n c \<Longrightarrow> counts n (drop_one c)"
  by (auto simp: counts_def drop_one_def Let_def LmCriticalControlValid_def all_ones)

lemma counts_init: "counts 0 LmCriticalControlInit"
  by (simp add: counts_def LmCriticalControlInit_def LmCriticalControlValid_def)

lemma counts_magic: "counts n c \<Longrightarrow> cc_magic c \<noteq> 0"
  by (auto simp: counts_def LmCriticalControlValid_def)

lemma counts_slot:
  assumes "counts n c"
  shows "ring_slot c = n mod 32"
proof -
  have "unat (of_nat n mod 32 :: u32) = unat (of_nat n :: u32) mod 32" by (simp add: unat_mod_distrib)
  also have "\<dots> = n mod 2 ^ 32 mod 32" by (simp add: unsigned_of_nat take_bit_eq_mod)
  also have "\<dots> = n mod 32" by (rule mod_mod_cancel) simp
  finally show ?thesis using assms by (simp add: counts_def ring_slot_def)
qed

text \<open>The difference of two cursors is the number of records between them, wrapped or not.\<close>

lemma counts_pending:
  assumes "counts n c" "counts k d" "k \<le> n" "n \<le> k + 32"
  shows "cc_cursor c - cc_cursor d = of_nat (n - k)" "unat (cc_cursor c - cc_cursor d) = n - k"
proof -
  show a: "cc_cursor c - cc_cursor d = of_nat (n - k)" using assms by (simp add: counts_def of_nat_diff)
  show "unat (cc_cursor c - cc_cursor d) = n - k"
    using assms unfolding a by (simp add: unsigned_of_nat take_bit_nat_eq_self del: of_nat_diff)
qed

section \<open>The invariant\<close>

definition good :: "phase_trace \<Rightarrow> bool" where
  "good t \<longleftrightarrow> LmPhaseValid t \<and> LmPhaseCritical t"

text \<open>The records visible to the consumer: those sent, and the one of an enqueue about to return 1.\<close>

fun in_flight :: "ppc \<Rightarrow> phase_trace list" where
  "in_flight (PEnqueue t (Ret v True)) = [t]"
| "in_flight _ = []"

text \<open>\<open>pub\<close> are the visible records, \<open>r\<close> of them acknowledged.\<close>

definition ram_ok :: "critical_ring \<Rightarrow> phase_trace list \<Rightarrow> nat \<Rightarrow> bool" where
  "ram_ok ram pub r \<longleftrightarrow>
     produced (length pub) (cr_producer ram) \<and> counts r (cr_consumer ram) \<and> r \<le> length pub \<and> length pub \<le> r + 32 \<and>
     length (cr_entries ram) = 32 \<and> (\<forall>t \<in> set pub. good t) \<and>
     (\<forall>i. r \<le> i \<and> i < length pub \<longrightarrow> cr_entries ram ! (i mod 32) = pub ! i)"

text \<open>The states of an enqueue of \<open>t\<close>, by the call it is stopped at; \<open>n\<close> records are visible.\<close>

definition enqueue_ok :: "critical_ring \<Rightarrow> nat \<Rightarrow> nat \<Rightarrow> phase_trace \<Rightarrow> bool proc \<Rightarrow> bool" where
  "enqueue_ok ram n r t p \<longleftrightarrow>
     (\<exists>v. length (cr_entries v) = 32 \<and>
       (p = LmCriticalEnqueue v t \<and> cr_producer v = cr_producer ram \<or>
        p = Publish Producer v (Ret v False) \<and> counts n (cr_producer v) \<or>
        p = Publish (Entry (n mod 32)) v (Publish Producer (v\<lparr>cr_producer := advance (cr_producer v)\<rparr>)
              (Ret (v\<lparr>cr_producer := advance (cr_producer v)\<rparr>) True)) \<and>
          counts n (cr_producer v) \<and> cr_entries v ! (n mod 32) = t \<and> good t \<and> n < r + 32 \<or>
        p = Publish Producer v (Ret v True) \<and> counts (Suc n) (cr_producer v) \<and> cr_entries ram ! (n mod 32) = t \<and>
          good t \<and> n < r + 32 \<or>
        (\<exists>b. p = Ret v b \<and> cr_producer v = cr_producer ram)))"

definition attach_ok :: "critical_ring \<Rightarrow> nat \<Rightarrow> nat \<Rightarrow> bool proc \<Rightarrow> bool" where
  "attach_ok ram n r p \<longleftrightarrow>
     (\<exists>v. length (cr_entries v) = 32 \<and>
       (p = LmCriticalAttach v \<or>
        p = Invalidate Producer v attach_fresh \<or>
        (\<exists>b. p = Publish Producer v (Ret v b)) \<and> n = 0 \<and> counts 0 (cr_producer v) \<or>
        (\<exists>b. p = Ret v b \<and> cr_producer v = cr_producer ram)))"

fun ppc_ok :: "critical_ring \<Rightarrow> nat \<Rightarrow> nat \<Rightarrow> ppc \<Rightarrow> bool" where
  "ppc_ok ram n r (PIdle v) \<longleftrightarrow> cr_producer v = cr_producer ram \<and> length (cr_entries v) = 32"
| "ppc_ok ram n r (PAttach p) \<longleftrightarrow> attach_ok ram n r p"
| "ppc_ok ram n r (PEnqueue t p) \<longleftrightarrow> enqueue_ok ram n r t p"

definition peek_ok :: "critical_ring \<Rightarrow> phase_trace list \<Rightarrow> nat \<Rightarrow> (bool \<times> phase_trace) proc \<Rightarrow> bool" where
  "peek_ok ram pub r p \<longleftrightarrow>
     (\<exists>v. length (cr_entries v) = 32 \<and> cr_consumer v = cr_consumer ram \<and>
       ((\<exists>old. p = LmCriticalPeek v old) \<or>
        r < length pub \<and> p = Invalidate (Entry (r mod 32)) v (\<lambda>ring.
          let trace = cr_entries ring ! (r mod 32) in Ret ring (LmPhaseValid trace \<and> LmPhaseCritical trace, trace)) \<or>
        (\<exists>b t. p = Ret v (b, t) \<and> (b \<longrightarrow> r < length pub \<and> t = pub ! r))))"

text \<open>\<open>h\<close> records are handled.\<close>

fun arm_ok :: "critical_ring \<Rightarrow> phase_trace list \<Rightarrow> nat \<Rightarrow> nat \<Rightarrow> arm \<Rightarrow> bool" where
  "arm_ok ram pub r h (AIdle v) \<longleftrightarrow> h = r \<and> cr_consumer v = cr_consumer ram \<and> length (cr_entries v) = 32"
| "arm_ok ram pub r h (APeek p) \<longleftrightarrow> h = r \<and> peek_ok ram pub r p"
| "arm_ok ram pub r h (AHold v t) \<longleftrightarrow> h = r \<and> cr_consumer v = cr_consumer ram \<and> length (cr_entries v) = 32 \<and>
     r < length pub \<and> t = pub ! r"
| "arm_ok ram pub r h (AAck p) \<longleftrightarrow> (\<exists>v. length (cr_entries v) = 32 \<and>
     (p = Publish Consumer v (Ret v ()) \<and> counts (Suc r) (cr_consumer v) \<and> h = Suc r \<and> r < length pub \<or>
      p = Ret v () \<and> cr_consumer v = cr_consumer ram \<and> h = r))"

definition telemetry_inv :: "telemetry \<Rightarrow> bool" where
  "telemetry_inv s \<longleftrightarrow>
     (let pub = ty_sent s @ in_flight (ty_ppc s) in
      \<exists>r. ram_ok (ty_ram s) pub r \<and> ppc_ok (ty_ram s) (length pub) r (ty_ppc s) \<and>
        arm_ok (ty_ram s) pub r (length (ty_handled s)) (ty_arm s) \<and> length (ty_handled s) \<le> length pub \<and>
        ty_handled s = take (length (ty_handled s)) pub)"

section \<open>The steps keep the invariant\<close>

lemma enqueue_step:
  assumes ram: "ram_ok ram pub r" and p: "enqueue_ok ram (length pub) r t p" and "proc_step ram p ram' q"
    and pub: "in_flight (PEnqueue t p) = []"
  shows "ram_ok ram' (pub @ in_flight (PEnqueue t q)) r \<and>
    enqueue_ok ram' (length (pub @ in_flight (PEnqueue t q))) r t q \<and> cr_consumer ram' = cr_consumer ram"
proof -
  let ?n = "length pub"
  from p obtain v where v: "length (cr_entries v) = 32" and cases:
    "p = LmCriticalEnqueue v t \<and> cr_producer v = cr_producer ram \<or>
     p = Publish Producer v (Ret v False) \<and> counts ?n (cr_producer v) \<or>
     p = Publish (Entry (?n mod 32)) v (Publish Producer (v\<lparr>cr_producer := advance (cr_producer v)\<rparr>)
              (Ret (v\<lparr>cr_producer := advance (cr_producer v)\<rparr>) True)) \<and>
       counts ?n (cr_producer v) \<and> cr_entries v ! (?n mod 32) = t \<and> good t \<and> ?n < r + 32 \<or>
     p = Publish Producer v (Ret v True) \<and> counts (Suc ?n) (cr_producer v) \<and> cr_entries ram ! (?n mod 32) = t \<and>
       good t \<and> ?n < r + 32 \<or>
     (\<exists>b. p = Ret v b \<and> cr_producer v = cr_producer ram)"
    unfolding enqueue_ok_def by blast
  from ram have n: "r \<le> ?n" "?n \<le> r + 32" and rc: "counts r (cr_consumer ram)" by (auto simp: ram_ok_def)
  from cases show ?thesis
  proof (elim disjE conjE exE)
    assume [simp]: "p = LmCriticalEnqueue v t" and vp: "cr_producer v = cr_producer ram"
    let ?w = "v\<lparr>cr_consumer := cr_consumer ram\<rparr>"
    from assms(3) have [simp]: "ram' = ram" by (simp add: LmCriticalEnqueue_def proc_step_simps)
    note q = assms(3) [simplified, unfolded LmCriticalEnqueue_def proc_step_simps, simplified]
    show ?thesis
    proof (cases "LmCriticalControlValid (cr_producer ram) \<and> good t")
      case False
      then have "q = Ret ?w False" using q vp by (auto simp: good_def)
      then show ?thesis using ram v vp by (auto simp: enqueue_ok_def intro!: exI [of _ ?w])
    next
      case True
      with ram have c: "counts ?n (cr_producer ram)" by (auto simp: ram_ok_def dest: produced_valid)
      note pending = counts_pending [OF c rc n]
      show ?thesis
      proof (cases "?n < r + 32")
        case full: False
        then have "(32 :: u32) \<le> cc_cursor (cr_producer ram) - cc_cursor (cr_consumer ram)"
          using n pending(2) by (simp add: word_le_nat_alt)
        then have "q = Publish Producer (?w\<lparr>cr_producer := drop_one (cr_producer ram)\<rparr>)
            (Ret (?w\<lparr>cr_producer := drop_one (cr_producer ram)\<rparr>) False)"
          using q vp True rc by (simp add: good_def counts_def Let_def)
        then show ?thesis using ram v counts_drop [OF c]
          by (auto simp: enqueue_ok_def intro!: exI [of _ "?w\<lparr>cr_producer := drop_one (cr_producer ram)\<rparr>"])
      next
        case room: True
        then have "\<not> (32 :: u32) \<le> cc_cursor (cr_producer ram) - cc_cursor (cr_consumer ram)"
          using n pending(2) by (simp add: word_le_nat_alt)
        then have "q = Publish (Entry (?n mod 32)) (?w\<lparr>cr_entries := (cr_entries v)[?n mod 32 := t]\<rparr>)
           (Publish Producer (?w\<lparr>cr_entries := (cr_entries v)[?n mod 32 := t], cr_producer := advance (cr_producer ram)\<rparr>)
             (Ret (?w\<lparr>cr_entries := (cr_entries v)[?n mod 32 := t], cr_producer := advance (cr_producer ram)\<rparr>) True))"
          using q vp True rc by (simp add: good_def counts_def [of r] Let_def counts_slot [OF c])
        then show ?thesis using ram v vp c True room
          by (auto simp: enqueue_ok_def intro!: exI [of _ "?w\<lparr>cr_entries := (cr_entries v)[?n mod 32 := t]\<rparr>"])
      qed
    qed
  next
    assume "p = Publish Producer v (Ret v False)" "counts ?n (cr_producer v)"
    then show ?thesis using assms(3) ram v
      by (auto simp: proc_step_simps enqueue_ok_def ram_ok_def produced_def)
  next
    let ?v = "v\<lparr>cr_producer := advance (cr_producer v)\<rparr>"
    assume p: "p = Publish (Entry (?n mod 32)) v (Publish Producer ?v (Ret ?v True))"
      and c: "counts ?n (cr_producer v)" "cr_entries v ! (?n mod 32) = t" "good t" "?n < r + 32"
    have apart: "?n mod 32 \<noteq> i mod 32" if "r \<le> i" "i < ?n" for i
    proof
      assume "?n mod 32 = i mod 32"
      then have "(?n - i) mod 32 = 0" using that by (metis less_imp_le mod_eq_dvd_iff_nat mod_0_imp_dvd dvd_imp_mod_0)
      with that c(4) show False by (simp add: mod_eq_0_iff_dvd)
    qed
    from p assms(3) have q: "ram' = ram\<lparr>cr_entries := (cr_entries ram)[?n mod 32 := t]\<rparr>" "q = Publish Producer ?v (Ret ?v True)"
      using c(2) by (simp_all add: proc_step_simps)
    then have "ram_ok ram' pub r" using ram apart by (auto simp: ram_ok_def)
    moreover have "enqueue_ok ram' ?n r t q"
      unfolding enqueue_ok_def using q v c counts_advance [OF c(1)] ram
      by (intro exI [of _ ?v]) (auto simp: ram_ok_def)
    ultimately show ?thesis using q by simp
  next
    assume p: "p = Publish Producer v (Ret v True)"
      and c: "counts (Suc ?n) (cr_producer v)" "cr_entries ram ! (?n mod 32) = t" "good t" "?n < r + 32"
    from p assms(3) have q: "ram' = ram\<lparr>cr_producer := cr_producer v\<rparr>" "q = Ret v True"
      by (simp_all add: proc_step_simps)
    have "ram_ok ram' (pub @ [t]) r"
      using ram q c by (auto simp: ram_ok_def produced_def nth_append less_Suc_eq)
    then show ?thesis using q v by (auto simp: enqueue_ok_def)
  next
    fix b assume "p = Ret v b"
    with assms(3) show ?thesis by (simp add: proc_step_simps)
  qed
qed

lemma attach_step:
  assumes ram: "ram_ok ram pub r" and p: "attach_ok ram (length pub) r p" and "proc_step ram p ram' q"
  shows "ram_ok ram' pub r \<and> attach_ok ram' (length pub) r q \<and> cr_consumer ram' = cr_consumer ram"
proof -
  let ?n = "length pub"
  from p obtain v where v: "length (cr_entries v) = 32" and cases:
    "p = LmCriticalAttach v \<or> p = Invalidate Producer v attach_fresh \<or>
     (\<exists>b. p = Publish Producer v (Ret v b)) \<and> ?n = 0 \<and> counts 0 (cr_producer v) \<or>
     (\<exists>b. p = Ret v b \<and> cr_producer v = cr_producer ram)"
    unfolding attach_ok_def by blast
  from cases show ?thesis
  proof (elim disjE conjE exE)
    assume p: "p = Invalidate Producer v attach_fresh"
    let ?w = "v\<lparr>cr_producer := cr_producer ram\<rparr>"
    let ?i = "?w\<lparr>cr_producer := LmCriticalControlInit\<rparr>"
    from p assms(3) have [simp]: "ram' = ram" "q = attach_fresh ?w" by (simp_all add: proc_step_simps)
    show ?thesis
    proof (cases "LmCriticalControlValid (cr_consumer v) \<and> cc_magic (cr_producer ram) = 0 \<and> cc_cursor (cr_consumer v) = 0")
      case True
      with ram have "?n = 0" by (auto simp: ram_ok_def produced_def dest: counts_magic)
      with True ram v show ?thesis
        by (auto simp: attach_ok_def attach_fresh_def Let_def counts_init intro!: exI [of _ ?i])
    next
      case False
      with ram v show ?thesis
        by (auto simp: attach_ok_def attach_fresh_def intro!: exI [of _ ?w])
    qed
  qed (use assms(3) v ram in \<open>auto simp: LmCriticalAttach_def attach_ok_def proc_step_simps ram_ok_def produced_def
      intro!: exI [of _ "v\<lparr>cr_consumer := cr_consumer ram\<rparr>"]\<close>)
qed

lemma peek_step:
  assumes ram: "ram_ok ram pub r" and p: "peek_ok ram pub r p" and "proc_step ram p ram' q"
  shows "ram' = ram \<and> peek_ok ram pub r q"
proof -
  let ?k = "\<lambda>ring. let trace = cr_entries ring ! (r mod 32) in Ret ring (LmPhaseValid trace \<and> LmPhaseCritical trace, trace)"
  from p obtain v where v: "length (cr_entries v) = 32" "cr_consumer v = cr_consumer ram" and cases:
    "(\<exists>old. p = LmCriticalPeek v old) \<or> r < length pub \<and> p = Invalidate (Entry (r mod 32)) v ?k \<or>
     (\<exists>b t. p = Ret v (b, t) \<and> (b \<longrightarrow> r < length pub \<and> t = pub ! r))"
    unfolding peek_ok_def by blast
  from ram have n: "r \<le> length pub" "length pub \<le> r + 32" and rc: "counts r (cr_consumer ram)"
    by (auto simp: ram_ok_def)
  from cases show ?thesis
  proof (elim disjE conjE exE)
    fix old assume p: "p = LmCriticalPeek v old"
    let ?w = "v\<lparr>cr_producer := cr_producer ram\<rparr>"
    from p assms(3) have ram': "ram' = ram" by (simp add: LmCriticalPeek_def proc_step_simps)
    note q = assms(3) [unfolded p LmCriticalPeek_def proc_step_simps, simplified]
    show ?thesis
    proof (cases "LmCriticalControlValid (cr_producer ram) \<and> r < length pub")
      case True
      with ram have c: "counts (length pub) (cr_producer ram)" by (auto simp: ram_ok_def dest: produced_valid)
      note pending = counts_pending [OF c rc n]
      have "cc_cursor (cr_producer ram) - cc_cursor (cr_consumer ram) \<noteq> 0"
        using pending(2) True by (metis unat_0 not_less_zero diff_is_0_eq leD)
      moreover have "\<not> cc_cursor (cr_producer ram) - cc_cursor (cr_consumer ram) > 32"
        using pending(2) n by (simp add: word_less_nat_alt)
      ultimately have "q = Invalidate (Entry (r mod 32)) ?w ?k"
        using q True rc v by (simp add: counts_def [of r] Let_def counts_slot [OF rc])
      with True v show ?thesis by (auto simp: ram' peek_ok_def intro!: exI [of _ ?w])
    next
      case False
      have "q = Ret ?w (False, old)"
      proof (cases "LmCriticalControlValid (cr_producer ram)")
        case True
        with ram have c: "counts (length pub) (cr_producer ram)" by (auto simp: ram_ok_def dest: produced_valid)
        have "cc_cursor (cr_producer ram) - cc_cursor (cr_consumer ram) = 0"
          using counts_pending(1) [OF c rc n] False True by simp
        with q v show ?thesis by simp
      qed (use q v in simp)
      with v show ?thesis by (auto simp: ram' peek_ok_def intro!: exI [of _ ?w])
    qed
  next
    assume "r < length pub" and "p = Invalidate (Entry (r mod 32)) v ?k"
    with assms(3) ram v show ?thesis
      by (auto simp: proc_step_simps peek_ok_def ram_ok_def Let_def
          intro!: exI [of _ "v\<lparr>cr_entries := (cr_entries v)[r mod 32 := cr_entries ram ! (r mod 32)]\<rparr>"])
  qed (use assms(3) in \<open>simp add: proc_step_simps\<close>)
qed

text \<open>What one processor's steps do not disturb in the other.\<close>

lemma ppc_ok_frame:
  "ppc_ok ram n r x \<Longrightarrow> r \<le> r' \<Longrightarrow> ppc_ok (ram\<lparr>cr_consumer := c\<rparr>) n r' x"
  by (cases x) (fastforce simp: attach_ok_def enqueue_ok_def)+

lemma arm_ok_frame:
  assumes "arm_ok ram pub r h x" "cr_consumer ram' = cr_consumer ram"
  shows "arm_ok ram' (pub @ ts) r h x"
proof (cases x)
  case (APeek p)
  with assms show ?thesis by (simp add: peek_ok_def nth_append) (fastforce simp: nth_append)
qed (use assms in \<open>fastforce simp: nth_append\<close>)+

lemma inv_ppc:
  assumes "telemetry_inv s" and "pub = ty_sent s @ in_flight (ty_ppc s)"
    and "\<And>r. ram_ok (ty_ram s) pub r \<Longrightarrow> ppc_ok (ty_ram s) (length pub) r (ty_ppc s) \<Longrightarrow>
      ram_ok ram' (pub @ ts) r \<and> ppc_ok ram' (length (pub @ ts)) r p' \<and> cr_consumer ram' = cr_consumer (ty_ram s)"
    and "sent' @ in_flight p' = pub @ ts"
  shows "telemetry_inv (s\<lparr>ty_ram := ram', ty_ppc := p', ty_sent := sent'\<rparr>)"
proof -
  from assms(1,2) obtain r where r: "ram_ok (ty_ram s) pub r" "ppc_ok (ty_ram s) (length pub) r (ty_ppc s)"
      "arm_ok (ty_ram s) pub r (length (ty_handled s)) (ty_arm s)" "length (ty_handled s) \<le> length pub"
      "ty_handled s = take (length (ty_handled s)) pub"
    by (auto simp: telemetry_inv_def Let_def)
  from assms(3) [OF r(1,2)] have new: "ram_ok ram' (pub @ ts) r" "ppc_ok ram' (length (pub @ ts)) r p'"
      "cr_consumer ram' = cr_consumer (ty_ram s)" by auto
  have "ty_handled s = take (length (ty_handled s)) (pub @ ts)" using r(4,5) by simp
  with new arm_ok_frame [OF r(3) new(3), of ts] r(4) show ?thesis
    unfolding telemetry_inv_def Let_def by (intro exI [of _ r]) (simp add: assms(4))
qed

lemma inv_arm:
  assumes "telemetry_inv s" and "pub = ty_sent s @ in_flight (ty_ppc s)"
    and "\<And>r. ram_ok (ty_ram s) pub r \<Longrightarrow> arm_ok (ty_ram s) pub r (length (ty_handled s)) (ty_arm s) \<Longrightarrow>
      length (ty_handled s) \<le> length pub \<Longrightarrow> ty_handled s = take (length (ty_handled s)) pub \<Longrightarrow>
      \<exists>r' c. ram' = (ty_ram s)\<lparr>cr_consumer := c\<rparr> \<and> r \<le> r' \<and> ram_ok ram' pub r' \<and> arm_ok ram' pub r' (length hs) a' \<and>
        length hs \<le> length pub \<and> hs = take (length hs) pub"
  shows "telemetry_inv (s\<lparr>ty_ram := ram', ty_arm := a', ty_handled := hs\<rparr>)"
proof -
  from assms(1,2) obtain r where r: "ram_ok (ty_ram s) pub r" "ppc_ok (ty_ram s) (length pub) r (ty_ppc s)"
      "arm_ok (ty_ram s) pub r (length (ty_handled s)) (ty_arm s)" "length (ty_handled s) \<le> length pub"
      "ty_handled s = take (length (ty_handled s)) pub"
    by (auto simp: telemetry_inv_def Let_def)
  from assms(3) [OF r(1,3-5)] obtain r' c where new: "ram' = (ty_ram s)\<lparr>cr_consumer := c\<rparr>" "r \<le> r'"
      "ram_ok ram' pub r'" "arm_ok ram' pub r' (length hs) a'" "length hs \<le> length pub" "hs = take (length hs) pub"
    by blast
  with ppc_ok_frame [OF r(2) new(2), of c] assms(2) show ?thesis
    unfolding telemetry_inv_def Let_def by (intro exI [of _ r']) simp
qed

lemma inv_arm_same:
  assumes "telemetry_inv s" and "pub = ty_sent s @ in_flight (ty_ppc s)"
    and "\<And>r. ram_ok (ty_ram s) pub r \<Longrightarrow> arm_ok (ty_ram s) pub r (length (ty_handled s)) (ty_arm s) \<Longrightarrow>
      length (ty_handled s) \<le> length pub \<Longrightarrow> ty_handled s = take (length (ty_handled s)) pub \<Longrightarrow>
      arm_ok (ty_ram s) pub r (length hs) a' \<and> length hs \<le> length pub \<and> hs = take (length hs) pub"
  shows "telemetry_inv (s\<lparr>ty_arm := a', ty_handled := hs\<rparr>)"
proof -
  have "telemetry_inv (s\<lparr>ty_ram := ty_ram s, ty_arm := a', ty_handled := hs\<rparr>)"
  proof (rule inv_arm [OF assms(1,2)])
    fix r assume "ram_ok (ty_ram s) pub r" "arm_ok (ty_ram s) pub r (length (ty_handled s)) (ty_arm s)"
      "length (ty_handled s) \<le> length pub" "ty_handled s = take (length (ty_handled s)) pub"
    from this(1) assms(3) [OF this]
    show "\<exists>r' c. ty_ram s = (ty_ram s)\<lparr>cr_consumer := c\<rparr> \<and> r \<le> r' \<and> ram_ok (ty_ram s) pub r' \<and>
        arm_ok (ty_ram s) pub r' (length hs) a' \<and> length hs \<le> length pub \<and> hs = take (length hs) pub"
      by (intro exI [of _ r] exI [of _ "cr_consumer (ty_ram s)"]) auto
  qed
  then show ?thesis by simp
qed

lemma acknowledge_step:
  assumes "ram_ok ram pub r" and "arm_ok ram pub r h (AAck p)" and "proc_step ram p ram' q"
  shows "\<exists>r' c. ram' = ram\<lparr>cr_consumer := c\<rparr> \<and> r \<le> r' \<and> ram_ok ram' pub r' \<and> arm_ok ram' pub r' h (AAck q)"
proof -
  from assms(2,3) obtain v where v: "length (cr_entries v) = 32" "p = Publish Consumer v (Ret v ())"
      "counts (Suc r) (cr_consumer v)" "h = Suc r" "r < length pub"
    by (auto simp: proc_step_simps)
  with assms(3) have q: "ram' = ram\<lparr>cr_consumer := cr_consumer v\<rparr>" "q = Ret v ()" by (simp_all add: proc_step_simps)
  have "ram_ok ram' pub (Suc r)" using assms(1) v q by (auto simp: ram_ok_def)
  with q v show ?thesis by (intro exI [of _ "Suc r"] exI [of _ "cr_consumer v"]) auto
qed

lemma telemetry_inv_step:
  assumes inv: "telemetry_inv s" and "telemetry_step s s'"
  shows "telemetry_inv s'"
  using assms(2)
proof cases
  case (attach v)
  have "telemetry_inv (s\<lparr>ty_ram := ty_ram s, ty_ppc := PAttach (LmCriticalAttach v), ty_sent := ty_sent s\<rparr>)"
    using attach by (intro inv_ppc [OF inv refl, where ts = "[]"]) (auto simp: attach_ok_def)
  with attach show ?thesis by simp
next
  case (attaching p ram q)
  have "telemetry_inv (s\<lparr>ty_ram := ram, ty_ppc := PAttach q, ty_sent := ty_sent s\<rparr>)"
    using attaching attach_step [OF _ _ attaching(3)] by (intro inv_ppc [OF inv refl, where ts = "[]"]) auto
  with attaching show ?thesis by simp
next
  case (attached v b)
  have "telemetry_inv (s\<lparr>ty_ram := ty_ram s, ty_ppc := PIdle v, ty_sent := ty_sent s\<rparr>)"
    using attached by (intro inv_ppc [OF inv refl, where ts = "[]"]) (auto simp: attach_ok_def attach_fresh_def LmCriticalAttach_def)
  with attached show ?thesis by simp
next
  case (enqueue v t)
  have "telemetry_inv (s\<lparr>ty_ram := ty_ram s, ty_ppc := PEnqueue t (LmCriticalEnqueue v t), ty_sent := ty_sent s\<rparr>)"
    using enqueue by (intro inv_ppc [OF inv refl, where ts = "[]"]) (auto simp: enqueue_ok_def LmCriticalEnqueue_def)
  with enqueue show ?thesis by simp
next
  case (enqueuing t p ram q)
  have none: "in_flight (PEnqueue t p) = []" using enqueuing(3) by cases auto
  have "telemetry_inv (s\<lparr>ty_ram := ram, ty_ppc := PEnqueue t q, ty_sent := ty_sent s\<rparr>)"
    using enqueuing none enqueue_step [OF _ _ enqueuing(3) none]
    by (intro inv_ppc [OF inv refl, where ts = "in_flight (PEnqueue t q)"]) auto
  with enqueuing show ?thesis by simp
next
  case (enqueued t v b)
  have "telemetry_inv (s\<lparr>ty_ram := ty_ram s, ty_ppc := PIdle v, ty_sent := ty_sent s @ (if b then [t] else [])\<rparr>)"
    using enqueued by (intro inv_ppc [OF inv refl, where ts = "[]"]) (auto simp: enqueue_ok_def LmCriticalEnqueue_def)
  with enqueued show ?thesis by simp
next
  case (peek v old)
  have "telemetry_inv (s\<lparr>ty_arm := APeek (LmCriticalPeek v old), ty_handled := ty_handled s\<rparr>)"
    using peek by (intro inv_arm_same [OF inv refl]) (auto simp: peek_ok_def)
  with peek show ?thesis by simp
next
  case (peeking p ram q)
  with inv have ram: "ram = ty_ram s"
    by (auto simp: telemetry_inv_def Let_def dest: peek_step [OF _ _ peeking(3)])
  have "telemetry_inv (s\<lparr>ty_arm := APeek q, ty_handled := ty_handled s\<rparr>)"
    using peeking peek_step [OF _ _ peeking(3)] by (intro inv_arm_same [OF inv refl]) auto
  with peeking ram show ?thesis by simp
next
  case (peeked v b t)
  have "telemetry_inv (s\<lparr>ty_arm := (if b then AHold v t else AIdle v), ty_handled := ty_handled s\<rparr>)"
    using peeked by (intro inv_arm_same [OF inv refl]) (auto simp: peek_ok_def LmCriticalPeek_def)
  with peeked show ?thesis by simp
next
  case (handle v t)
  define pub where "pub = ty_sent s @ in_flight (ty_ppc s)"
  have "telemetry_inv (s\<lparr>ty_arm := AAck (LmCriticalAcknowledge v), ty_handled := ty_handled s @ [t]\<rparr>)"
  proof (rule inv_arm_same [OF inv pub_def])
    fix r assume r: "ram_ok (ty_ram s) pub r" "arm_ok (ty_ram s) pub r (length (ty_handled s)) (ty_arm s)"
      "ty_handled s = take (length (ty_handled s)) pub"
    let ?v = "v\<lparr>cr_consumer := advance (cr_consumer v)\<rparr>"
    have h: "length (ty_handled s) = r" "r < length pub" "t = pub ! r" using r(2) handle by auto
    have "take (Suc r) pub = ty_handled s @ [t]" using r(3) h by (simp add: take_Suc_conv_app_nth)
    moreover have "counts (Suc r) (cr_consumer ?v)"
      using r handle by (auto simp: ram_ok_def intro: counts_advance)
    ultimately show "arm_ok (ty_ram s) pub r (length (ty_handled s @ [t])) (AAck (LmCriticalAcknowledge v)) \<and>
        length (ty_handled s @ [t]) \<le> length pub \<and> ty_handled s @ [t] = take (length (ty_handled s @ [t])) pub"
      using r handle h by (auto simp: LmCriticalAcknowledge_def Let_def intro!: exI [of _ ?v])
  qed
  with handle show ?thesis by simp
next
  case (acknowledging p ram q)
  have "telemetry_inv (s\<lparr>ty_ram := ram, ty_arm := AAck q, ty_handled := ty_handled s\<rparr>)"
    using acknowledging acknowledge_step [OF _ _ acknowledging(3)]
    by (intro inv_arm [OF inv refl]) fastforce
  with acknowledging show ?thesis by simp
next
  case (acknowledged v x)
  have "telemetry_inv (s\<lparr>ty_arm := AIdle v, ty_handled := ty_handled s\<rparr>)"
    using acknowledged by (intro inv_arm_same [OF inv refl]) auto
  with acknowledged show ?thesis by simp
qed

lemma telemetry_inv_start:
  assumes "length (cr_entries ram) = 32" "length (cr_entries varm) = 32" "length (cr_entries vppc) = 32"
  shows "telemetry_inv (telemetry_start ram varm vppc)"
  using assms
  by (auto simp: telemetry_inv_def telemetry_start_def LmCriticalInit_def Let_def ram_ok_def produced_def counts_init
      attach_ok_def LmCriticalAttach_def)

lemma telemetry_invariant: "telemetry_reachable s \<Longrightarrow> telemetry_inv s"
  by (induction rule: telemetry_reachable.induct) (auto intro: telemetry_inv_start telemetry_inv_step)

section \<open>Running alone\<close>

text \<open>An operation nothing interrupts is one of the interleavings.\<close>

lemma attach_alone:
  "telemetry_reachable s \<Longrightarrow> ty_ppc s = PAttach p \<Longrightarrow> run_alone p (ty_ram s) = (ram, v, b) \<Longrightarrow>
    telemetry_reachable (s\<lparr>ty_ram := ram, ty_ppc := PIdle v\<rparr>)"
proof (induction p arbitrary: s)
  case (Ret view x)
  from telemetry_reachable.step [OF Ret(1) attached [OF Ret(2)]] Ret(3) show ?case by (cases s) simp
next
  case (Invalidate part view k)
  from telemetry_reachable.step [OF Invalidate(2) attaching [OF Invalidate(3) proc_step.intros(1)]] Invalidate(1,4)
  show ?case by fastforce
next
  case (Publish part view k)
  from telemetry_reachable.step [OF Publish(2) attaching [OF Publish(3) proc_step.intros(2)]] Publish(1,4)
  show ?case by fastforce
qed

definition blank_control :: critical_control where
  "blank_control = LmCriticalControlInit\<lparr>cc_magic := 7\<rparr>"

definition warp_trace :: phase_trace where
  "warp_trace = \<lparr>pt_magic = SUSAMUNE_PHASE_TRACE_MAGIC, pt_sequenceBegin = 2, pt_action = SUSAMUNE_PHASE_ACTION_WARP,
     pt_phase = 0, pt_phaseInverse = 0xFFFFFFFF, pt_arg0 = 0, pt_arg1 = 0, pt_sequenceEnd = 2\<rparr>"

definition blank_ring :: critical_ring where
  "blank_ring = \<lparr>cr_producer = blank_control, cr_consumer = blank_control, cr_entries = replicate 32 warp_trace\<rparr>"

definition demo_ring :: critical_ring where
  "demo_ring = \<lparr>cr_producer = LmCriticalControlInit, cr_consumer = LmCriticalControlInit, cr_entries = replicate 32 warp_trace\<rparr>"

definition demo_telemetry :: telemetry where
  "demo_telemetry = \<lparr>ty_ram = demo_ring, ty_ppc = PIdle demo_ring, ty_arm = AIdle (demo_ring\<lparr>cr_producer :=
     LmCriticalControlInit\<lparr>cc_magic := 0\<rparr>\<rparr>), ty_sent = [], ty_handled = []\<rparr>"

lemma demo_telemetry_reachable: "telemetry_reachable demo_telemetry"
proof -
  have "telemetry_reachable (telemetry_start blank_ring blank_ring blank_ring)"
    by (rule telemetry_reachable.start) (simp_all add: blank_ring_def)
  from attach_alone [OF this] show ?thesis
    by (simp add: telemetry_start_def LmCriticalInit_def LmCriticalAttach_def attach_fresh_def Let_def demo_telemetry_def
        demo_ring_def blank_ring_def LmCriticalControlInit_def LmCriticalControlValid_def)
qed

section \<open>The queue\<close>

text \<open>C21: Whatever the interleaving of the two processors, the consumer handles exactly the records whose enqueue
  succeeded, each once and in order, up to one that is being enqueued; all of them are valid critical records,
  and the producer is never more than the ring's 32 records ahead.\<close>

theorem critical_queue_fifo:
  assumes "telemetry_reachable s"
  shows "ty_handled s = take (length (ty_handled s)) (ty_sent s @ in_flight (ty_ppc s)) \<and>
    length (ty_sent s) \<le> length (ty_handled s) + 32 \<and> (\<forall>t \<in> set (ty_handled s). LmPhaseValid t \<and> LmPhaseCritical t)"
proof -
  define pub where "pub = ty_sent s @ in_flight (ty_ppc s)"
  from telemetry_invariant [OF assms] obtain r where r: "ram_ok (ty_ram s) pub r"
      "arm_ok (ty_ram s) pub r (length (ty_handled s)) (ty_arm s)" "ty_handled s = take (length (ty_handled s)) pub"
    unfolding telemetry_inv_def Let_def pub_def by blast
  have "r \<le> length (ty_handled s)" using r(2) by (cases "ty_arm s") auto
  with r(1) have "length (ty_sent s) \<le> length (ty_handled s) + 32" by (simp add: ram_ok_def pub_def)
  moreover have "set (ty_handled s) \<subseteq> set pub" using r(3) by (metis set_take_subset)
  ultimately show ?thesis using r(1,3) by (auto simp: ram_ok_def good_def pub_def)
qed

lemma critical_queue_fifo_witness: "length (ty_sent demo_telemetry) \<le> length (ty_handled demo_telemetry) + 32"
  using critical_queue_fifo [OF demo_telemetry_reachable] by blast

text \<open>C22: With both processors idle the ring is a bounded queue of the records sent and not yet handled: an enqueue
  is refused exactly before the attach, for a record that is not valid and critical, and when 32 records wait;
  a peek returns the oldest waiting record, or nothing exactly when none waits.\<close>

theorem critical_queue_refines:
  assumes "telemetry_reachable s" and "ty_ppc s = PIdle v" and "ty_arm s = AIdle w"
    and "waiting = drop (length (ty_handled s)) (ty_sent s)"
  shows "snd (snd (run_alone (LmCriticalEnqueue v t) (ty_ram s))) =
      (cc_magic (cr_producer (ty_ram s)) \<noteq> 0 \<and> LmPhaseValid t \<and> LmPhaseCritical t \<and> length waiting < 32) \<and>
    snd (snd (run_alone (LmCriticalPeek w old) (ty_ram s))) = (case waiting of [] \<Rightarrow> (False, old) | x # _ \<Rightarrow> (True, x))"
proof -
  let ?ram = "ty_ram s" and ?sent = "ty_sent s"
  from telemetry_invariant [OF assms(1)] obtain r where r: "ram_ok ?ram ?sent r" "cr_producer v = cr_producer ?ram"
      "length (ty_handled s) = r" "cr_consumer w = cr_consumer ?ram" "length (cr_entries w) = 32"
    unfolding telemetry_inv_def Let_def by (auto simp: assms)
  then have n: "r \<le> length ?sent" "length ?sent \<le> r + 32" and rc: "counts r (cr_consumer ?ram)"
    by (auto simp: ram_ok_def)
  have valid: "LmCriticalControlValid (cr_consumer ?ram)" using rc by (simp add: counts_def)
  have waiting: "waiting = drop r ?sent" using assms(4) r(3) by simp
  consider (off) "cc_magic (cr_producer ?ram) = 0" "?sent = []" "\<not> LmCriticalControlValid (cr_producer ?ram)"
    | (on) "counts (length ?sent) (cr_producer ?ram)" "LmCriticalControlValid (cr_producer ?ram)"
    using r(1) by (auto simp: ram_ok_def produced_def counts_def LmCriticalControlValid_def)
  then show ?thesis
  proof cases
    case off
    with r waiting show ?thesis by (simp add: LmCriticalEnqueue_def LmCriticalPeek_def)
  next
    case on
    note pending = counts_pending [OF on(1) rc n] and magic = counts_magic [OF on(1)]
    let ?p = "cc_cursor (cr_producer ?ram) - cc_cursor (cr_consumer ?ram)"
    have le: "(32 :: u32) \<le> ?p \<longleftrightarrow> \<not> length ?sent < r + 32" "\<not> ?p > 32" "?p = 0 \<longleftrightarrow> length ?sent = r"
      using pending n by (auto simp: word_le_nat_alt word_less_nat_alt unsigned_eq_0_iff [symmetric])
    have "snd (snd (run_alone (LmCriticalEnqueue v t) ?ram)) = (good t \<and> length ?sent < r + 32)"
      using r on valid le(1) by (auto simp: LmCriticalEnqueue_def Let_def good_def)
    moreover have "snd (snd (run_alone (LmCriticalPeek w old) ?ram)) =
        (if length ?sent = r then (False, old) else (True, ?sent ! r))"
    proof (cases "length ?sent = r")
      case False
      then have "cr_entries ?ram ! (r mod 32) = ?sent ! r" "good (?sent ! r)" using r(1) n by (auto simp: ram_ok_def)
      with False r on valid le(2,3) show ?thesis
        by (simp add: LmCriticalPeek_def Let_def counts_slot [OF rc] good_def)
    qed (use r on valid le(3) in \<open>simp add: LmCriticalPeek_def Let_def\<close>)
    ultimately show ?thesis
      using waiting n magic by (auto simp: good_def hd_drop_conv_nth [symmetric] split: list.split)
  qed
qed

lemma critical_queue_refines_witness:
  "snd (snd (run_alone (LmCriticalEnqueue demo_ring warp_trace) demo_ring))"
  using critical_queue_refines [OF demo_telemetry_reachable, of demo_ring _ "[]" warp_trace]
  by (simp add: demo_telemetry_def demo_ring_def LmCriticalControlInit_def warp_trace_def LmPhaseValid_def
      LmPhaseCritical_def)

section \<open>The effect objects of a report\<close>

record effect_aux =
  ea_magic :: u32
  ea_version :: u16
  ea_size :: u16
  ea_flags :: u32
  ea_ownerBase :: u32
  ea_slotsBase :: u32
  ea_heapBase :: u32
  ea_configBase :: u32
  ea_managerCount :: u32
  ea_owner :: "u32 list"
  ea_slots :: "u32 list"
  ea_heap :: "u32 list"
  ea_config :: "u32 list"

definition effect_zero :: effect_aux where
  "effect_zero = \<lparr>ea_magic = 0, ea_version = 0, ea_size = 0, ea_flags = 0, ea_ownerBase = 0, ea_slotsBase = 0,
     ea_heapBase = 0, ea_configBase = 0, ea_managerCount = 0, ea_owner = replicate 10 0, ea_slots = replicate 9 0,
     ea_heap = replicate 32 0, ea_config = replicate 8 0\<rparr>"

definition LmEffectMem1Range :: "u32 \<Rightarrow> u32 \<Rightarrow> bool" where
  "LmEffectMem1Range address sz \<longleftrightarrow>
     sz \<noteq> 0 \<and> address AND 3 = 0 \<and> sz \<le> 0x01800000 \<and> address \<ge> 0x80000000 \<and> address \<le> 0x81800000 - sz"

text \<open>The callback \<open>read(out, address, size)\<close>: its result and the words behind \<open>out\<close>, given those of before.\<close>

type_synonym effect_read = "u32 \<Rightarrow> u32 \<Rightarrow> u32 list \<Rightarrow> bool \<times> u32 list"

definition LmEffectCopy :: "u32 list \<Rightarrow> u32 \<Rightarrow> u32 \<Rightarrow> effect_read \<Rightarrow> bool \<times> u32 list" where
  "LmEffectCopy out address sz read = (if LmEffectMem1Range address sz then read address sz out else (False, out))"

text \<open>The reads that depend on the owner object.\<close>

definition capture_owner :: "effect_aux \<Rightarrow> effect_read \<Rightarrow> effect_aux" where
  "capture_owner aux read =
     (let aux = aux\<lparr>ea_flags := ea_flags aux OR 1, ea_slotsBase := ea_owner aux ! 2, ea_configBase := ea_owner aux ! 9\<rparr>;
          (ok, slots) = (if ea_owner aux ! 3 \<noteq> 0 then LmEffectCopy (ea_slots aux) (ea_slotsBase aux) 36 read
            else (False, ea_slots aux));
          aux = aux\<lparr>ea_slots := slots, ea_flags := (if ok then ea_flags aux OR 2 else ea_flags aux)\<rparr>;
          (ok, config) = LmEffectCopy (ea_config aux) (ea_configBase aux) 32 read
      in aux\<lparr>ea_config := config, ea_flags := (if ok then ea_flags aux OR 8 else ea_flags aux)\<rparr>)"

definition LmCaptureEffectAux :: "effect_aux \<Rightarrow> u32 \<Rightarrow> u32 \<Rightarrow> effect_read \<Rightarrow> bool \<times> effect_aux" where
  "LmCaptureEffectAux aux pc owner read =
     (if pc \<noteq> 0x801717E0 then (False, aux)
      else
        let aux = effect_zero\<lparr>ea_magic := 0x4C4D4558, ea_version := 1, ea_size := 268, ea_ownerBase := owner\<rparr>;
            aux = aux\<lparr>ea_heapBase := hd (snd (LmEffectCopy [ea_heapBase aux] 0x803CE4A8 4 read))\<rparr>;
            aux = aux\<lparr>ea_managerCount := hd (snd (LmEffectCopy [ea_managerCount aux] 0x804A19B0 4 read))\<rparr>;
            (ok, words) = LmEffectCopy (ea_owner aux) owner 40 read;
            aux = aux\<lparr>ea_owner := words\<rparr>;
            aux = (if ok then capture_owner aux read else aux);
            (ok, heap) = LmEffectCopy (ea_heap aux) (ea_heapBase aux) 128 read
        in (True, aux\<lparr>ea_heap := heap, ea_flags := (if ok then ea_flags aux OR 4 else ea_flags aux)\<rparr>))"

lemma mem1_range_iff:
  "LmEffectMem1Range address sz \<longleftrightarrow>
     address AND 3 = 0 \<and> 0 < unat sz \<and> 0x80000000 \<le> unat address \<and> unat address + unat sz \<le> 0x81800000"
proof -
  have "unat (0x81800000 - sz) = 0x81800000 - unat sz" if "unat sz \<le> 0x01800000"
    using that by (subst unat_minus_le) (simp_all add: word_le_nat_alt)
  then show ?thesis
    by (auto simp: LmEffectMem1Range_def word_le_nat_alt simp flip: unat_gt_0)
qed

text \<open>C23: Capturing the effect objects of a crash reads main memory only: the outcome does not depend on what the
  callback does with a range that is not a word-aligned, non-empty part of MEM1, however the pointers found on the
  way are damaged.\<close>

theorem effect_reads_inside:
  assumes "\<And>address sz out. address AND 3 = 0 \<Longrightarrow> 0 < unat sz \<Longrightarrow> 0x80000000 \<le> unat address \<Longrightarrow>
      unat address + unat sz \<le> 0x81800000 \<Longrightarrow> read address sz out = read' address sz out"
  shows "LmCaptureEffectAux aux pc owner read = LmCaptureEffectAux aux pc owner read'"
proof -
  have copy: "LmEffectCopy out address sz read = LmEffectCopy out address sz read'" for out address sz
    using assms [of address sz out] by (auto simp: LmEffectCopy_def mem1_range_iff)
  then have "capture_owner a read = capture_owner a read'" for a
    by (simp only: capture_owner_def copy)
  with copy show ?thesis by (simp only: LmCaptureEffectAux_def)
qed

lemma effect_reads_inside_witness:
  "LmCaptureEffectAux effect_zero 0x801717E0 0 (\<lambda>address sz out. (True, map (\<lambda>_. address) out)) =
   LmCaptureEffectAux effect_zero 0x801717E0 0
     (\<lambda>address sz out. if unat address < 0x80000000 then (True, out) else (True, map (\<lambda>_. address) out))"
  by (rule effect_reads_inside) simp

end
