(* ===== verification/CrashDump.thy ===== *)
theory CrashDump
  imports CrashReport CrashTelemetry Effects
begin

text \<open>
  The dump files of \<open>launcher/kernel/SusamuneCrash.c\<close>: every phase of a save, load or warp that the game reports is
  appended to one of eight files, and each attempt starts a file of its own, over an unused or the oldest one, so that
  the last attempts before a crash can be read afterwards.
\<close>

section \<open>State\<close>

text \<open>
  The statics of the module, the mailbox, the phase trace and the ring of critical records in shared memory (with the
  kernel's cached view of the ring), the staged mod, the lines written to the log, and the volume.
\<close>

record 's crash =
  cs_Snapshot :: bytes
  cs_BinPaths :: "string list"
  cs_TextPaths :: "string list"
  cs_LmDumpPaths :: "string list"
  cs_LmDumpGenerations :: "u32 list"
  cs_LmDumpDirectory :: string
  cs_AttemptedSeq :: u32
  cs_LastPoll :: u32
  cs_LastPhaseSequence :: u32
  cs_LastCriticalPhaseSequence :: u32
  cs_LastCriticalDropped :: u32
  cs_LmDumpGeneration :: u32
  cs_LmDumpModCrc :: u32
  cs_CrashEnabled :: bool
  cs_LmDumpEnabled :: bool
  cs_LmDumpOpen :: bool
  cs_mailbox :: bytes
  cs_trace :: phase_trace
  cs_ring :: critical_ring
  cs_view :: critical_ring
  cs_mod :: bytes
  cs_log :: "string list"
  cs_vol :: 's

text \<open>What the rest of the kernel provides: the game's id, and the path prefix of the storage and whether it is there.\<close>

record crash_env =
  ce_game_id :: u32
  ce_prefix :: string
  ce_available :: bool

abbreviation FIL_report :: nat where "FIL_report \<equiv> 20"
abbreviation FIL_dump :: nat where "FIL_dump \<equiv> 21"
abbreviation FIL_text :: nat where "FIL_text \<equiv> 22"

abbreviation SUSAMUNE_LM_DUMP_SLOTS :: nat where "SUSAMUNE_LM_DUMP_SLOTS \<equiv> 8"
abbreviation SUSAMUNE_LM_DUMP_MAGIC :: u32 where "SUSAMUNE_LM_DUMP_MAGIC \<equiv> 0x4C4D4450"

definition on_card :: "('s, 'a) state \<Rightarrow> ('s crash, 'a) state" where
  "on_card = zoom cs_vol (\<lambda>v s. s\<lparr>cs_vol := v\<rparr>)"

definition dbgprintf :: "string \<Rightarrow> fmt_arg list \<Rightarrow> ('s crash, unit) state" where
  "dbgprintf fmt args = modify (\<lambda>s. s\<lparr>cs_log := cs_log s @ [sprintf fmt args]\<rparr>)"

section \<open>The records of a dump file\<close>

record lm_dump_header =
  dh_magic :: u32
  dh_version :: u16
  dh_headerSize :: u16
  dh_generation :: u32
  dh_generationInverse :: u32
  dh_gameId :: u32
  dh_modFileCrc32 :: u32
  dh_recordSize :: u32
  dh_saveSequence :: u32

definition dump_header_bytes :: "lm_dump_header \<Rightarrow> bytes" where
  "dump_header_bytes h = be32 (dh_magic h) @ be16 (dh_version h) @ be16 (dh_headerSize h) @
     image32 [dh_generation h, dh_generationInverse h, dh_gameId h, dh_modFileCrc32 h, dh_recordSize h, dh_saveSequence h]"

definition dump_header_of_bytes :: "bytes \<Rightarrow> lm_dump_header" where
  "dump_header_of_bytes b = \<lparr>dh_magic = word_at b 0, dh_version = half_at b 4, dh_headerSize = half_at b 6,
     dh_generation = word_at b 8, dh_generationInverse = word_at b 12, dh_gameId = word_at b 16,
     dh_modFileCrc32 = word_at b 20, dh_recordSize = word_at b 24, dh_saveSequence = word_at b 28\<rparr>"

definition trace_bytes :: "phase_trace \<Rightarrow> bytes" where
  "trace_bytes t = image32 [pt_magic t, pt_sequenceBegin t, pt_action t, pt_phase t, pt_phaseInverse t, pt_arg0 t, pt_arg1 t,
     pt_sequenceEnd t]"

definition trace_of_bytes :: "bytes \<Rightarrow> phase_trace" where
  "trace_of_bytes b = \<lparr>pt_magic = word_at b 0, pt_sequenceBegin = word_at b 4, pt_action = word_at b 8, pt_phase = word_at b 12,
     pt_phaseInverse = word_at b 16, pt_arg0 = word_at b 20, pt_arg1 = word_at b 24, pt_sequenceEnd = word_at b 28\<rparr>"

definition ValidLmDumpHeader :: "lm_dump_header \<Rightarrow> bool" where
  "ValidLmDumpHeader h \<longleftrightarrow>
     dh_magic h = SUSAMUNE_LM_DUMP_MAGIC \<and> (dh_version h = 1 \<or> dh_version h = 2) \<and> dh_headerSize h = 32 \<and>
     dh_generation h \<noteq> 0 \<and> dh_generation h XOR dh_generationInverse h = 0xFFFFFFFF \<and>
     dh_gameId h = SUSAMUNE_MOD_GAME_ID_LMJ \<and> dh_recordSize h = 32 \<and>
     dh_saveSequence h \<noteq> 0 \<and> dh_saveSequence h AND 1 = 0"

definition ValidPhaseTrace :: "phase_trace \<Rightarrow> bool" where
  "ValidPhaseTrace t = LmPhaseValid t"

text \<open>The phases that start an attempt: a save that is complete, and the start of a load.\<close>

definition save_complete :: "phase_trace \<Rightarrow> bool" where
  "save_complete t \<longleftrightarrow> pt_action t = SUSAMUNE_PHASE_ACTION_SAVE \<and> pt_phase t = 0x7F"

definition load_start :: "phase_trace \<Rightarrow> bool" where
  "load_start t \<longleftrightarrow> pt_action t = SUSAMUNE_PHASE_ACTION_LOAD \<and> pt_phase t = 0x01"

definition ValidLmDumpAnchor :: "u16 \<Rightarrow> phase_trace \<Rightarrow> bool" where
  "ValidLmDumpAnchor version t \<longleftrightarrow> save_complete t \<or> version = 2 \<and> load_start t"

section \<open>Operations\<close>

text \<open>The header of the file at \<open>path\<close>, if the C function returns true.\<close>

definition ReadLmDumpHeader :: "'s volume \<Rightarrow> string \<Rightarrow> ('s, lm_dump_header option) state" where
  "ReadLmDumpHeader ops path = do {
     result \<leftarrow> vf_open ops FIL_report path OpenRead;
     if result \<noteq> FR_OK then ret None
     else do {
       (result, bytes) \<leftarrow> vf_read ops FIL_report 32;
       (result, first) \<leftarrow> (if result = FR_OK \<and> length bytes = 32 then vf_read ops FIL_report 32 else ret (result, []));
       closeRet \<leftarrow> vf_close ops FIL_report;
       let header = dump_header_of_bytes bytes;
       let trace = trace_of_bytes first;
       ret (if result = FR_OK \<and> closeRet = FR_OK \<and> length first = 32 \<and>
            ValidLmDumpHeader header \<and> ValidPhaseTrace trace \<and> ValidLmDumpAnchor (dh_version header) trace \<and>
            pt_sequenceBegin trace = dh_saveSequence header then Some header else None)
     }
   }"

text \<open>The slot of the next attempt: the first unused one, else the oldest.\<close>

fun dump_target_loop :: "u32 list \<Rightarrow> nat list \<Rightarrow> nat \<Rightarrow> nat" where
  "dump_target_loop gens [] oldest = oldest"
| "dump_target_loop gens (i # is) oldest =
     (if gens ! i = 0 then i
      else dump_target_loop gens is (if GenerationNewer (gens ! oldest) (gens ! i) then i else oldest))"

definition LmDumpTarget :: "u32 list \<Rightarrow> nat" where
  "LmDumpTarget gens = dump_target_loop gens [0..<SUSAMUNE_LM_DUMP_SLOTS] 0"

definition CloseLmDump :: "'s volume \<Rightarrow> ('s crash, bool) state" where
  "CloseLmDump ops = do {
     opened \<leftarrow> gets cs_LmDumpOpen;
     if \<not> opened then ret True
     else do {
       result \<leftarrow> on_card (vf_close ops FIL_dump);
       modify (\<lambda>s. s\<lparr>cs_LmDumpOpen := False\<rparr>);
       ret (result = FR_OK)
     }
   }"

definition DisableLmDump :: "'s volume \<Rightarrow> ('s crash, unit) state" where
  "DisableLmDump ops = do {
     closed \<leftarrow> CloseLmDump ops;
     modify (\<lambda>s. s\<lparr>cs_LmDumpEnabled := False\<rparr>)
   }"

definition WriteLmDump :: "'s volume \<Rightarrow> bytes \<Rightarrow> bool \<Rightarrow> ('s crash, bool) state" where
  "WriteLmDump ops data sync = do {
     opened \<leftarrow> gets cs_LmDumpOpen;
     if \<not> opened then ret False
     else do {
       (result, wrote) \<leftarrow> on_card (vf_write ops FIL_dump data);
       let result = (if result = FR_OK \<and> wrote \<noteq> length data then FR_DISK_ERR else result);
       result \<leftarrow> (if result = FR_OK \<and> sync then on_card (vf_sync ops FIL_dump) else ret result);
       if result \<noteq> FR_OK then do { u \<leftarrow> DisableLmDump ops; ret False }
       else ret True
     }
   }"

definition dump_header :: "u32 \<Rightarrow> u32 \<Rightarrow> phase_trace \<Rightarrow> lm_dump_header" where
  "dump_header generation crc trace =
     \<lparr>dh_magic = SUSAMUNE_LM_DUMP_MAGIC, dh_version = 2, dh_headerSize = 32, dh_generation = generation,
      dh_generationInverse = NOT generation, dh_gameId = SUSAMUNE_MOD_GAME_ID_LMJ, dh_modFileCrc32 = crc,
      dh_recordSize = 32, dh_saveSequence = pt_sequenceBegin trace\<rparr>"

definition next_dump_generation :: "u32 \<Rightarrow> u32" where
  "next_dump_generation g = (if g + 1 = 0 then 1 else g + 1)"

definition BeginLmDump :: "'s volume \<Rightarrow> phase_trace \<Rightarrow> ('s crash, unit) state" where
  "BeginLmDump ops trace = do {
     closed \<leftarrow> CloseLmDump ops;
     if \<not> closed then modify (\<lambda>s. s\<lparr>cs_LmDumpEnabled := False\<rparr>)
     else do {
       generation \<leftarrow> gets (\<lambda>s. next_dump_generation (cs_LmDumpGeneration s));
       target \<leftarrow> gets (\<lambda>s. LmDumpTarget (cs_LmDumpGenerations s));
       header \<leftarrow> gets (\<lambda>s. dump_header generation (cs_LmDumpModCrc s) trace);
       path \<leftarrow> gets (\<lambda>s. cs_LmDumpPaths s ! target);
       result \<leftarrow> on_card (vf_open ops FIL_dump path OpenCreateAlways);
       if result \<noteq> FR_OK then modify (\<lambda>s. s\<lparr>cs_LmDumpEnabled := False\<rparr>)
       else do {
         modify (\<lambda>s. s\<lparr>cs_LmDumpOpen := True\<rparr>);
         okay \<leftarrow> WriteLmDump ops (dump_header_bytes header) False;
         okay \<leftarrow> (if okay then WriteLmDump ops (trace_bytes trace) True else ret False);
         if \<not> okay then ret ()
         else modify (\<lambda>s. s\<lparr>cs_LmDumpGeneration := generation,
           cs_LmDumpGenerations := (cs_LmDumpGenerations s)[target := generation]\<rparr>)
       }
     }
   }"

definition RecordLmDump :: "'s volume \<Rightarrow> phase_trace \<Rightarrow> ('s crash, unit) state" where
  "RecordLmDump ops trace = do {
     enabled \<leftarrow> gets cs_LmDumpEnabled;
     opened \<leftarrow> gets cs_LmDumpOpen;
     if \<not> enabled then ret ()
     else if save_complete trace then BeginLmDump ops trace
     else if \<not> opened \<and> load_start trace then BeginLmDump ops trace
     else if opened then do { okay \<leftarrow> WriteLmDump ops (trace_bytes trace) True; ret () }
     else ret ()
   }"

text \<open>At boot: the paths, the directory, and the generations of the files found.\<close>

definition dump_directory :: "string \<Rightarrow> string" where
  "dump_directory prefix = sprintf ''%s/lm_dumps'' [AStr prefix]"

definition dump_path :: "string \<Rightarrow> nat \<Rightarrow> string" where
  "dump_path dir i = sprintf ''%s/lm_attempt_%c.bin'' [AStr dir, AInt (97 + of_nat i)]"

fun InitLmDumpSlots :: "'s volume \<Rightarrow> nat list \<Rightarrow> ('s crash, unit) state" where
  "InitLmDumpSlots ops [] = ret ()"
| "InitLmDumpSlots ops (i # is) = do {
     path \<leftarrow> gets (\<lambda>s. cs_LmDumpPaths s ! i);
     found \<leftarrow> on_card (ReadLmDumpHeader ops path);
     (case found of
        None \<Rightarrow> ret ()
      | Some header \<Rightarrow> modify (\<lambda>s. s\<lparr>cs_LmDumpGenerations := (cs_LmDumpGenerations s)[i := dh_generation header],
          cs_LmDumpGeneration :=
            (if cs_LmDumpGeneration s = 0 \<or> GenerationNewer (dh_generation header) (cs_LmDumpGeneration s)
             then dh_generation header else cs_LmDumpGeneration s)\<rparr>));
     InitLmDumpSlots ops is
   }"

definition InitLmDump :: "'s volume \<Rightarrow> crash_env \<Rightarrow> u32 \<Rightarrow> bool \<Rightarrow> ('s crash, unit) state" where
  "InitLmDump ops env modFileCrc32 stagedModValid = do {
     modify (\<lambda>s. s\<lparr>cs_LmDumpGeneration := 0, cs_LmDumpGenerations := replicate SUSAMUNE_LM_DUMP_SLOTS 0,
       cs_LmDumpModCrc := modFileCrc32, cs_LmDumpEnabled := False, cs_LmDumpOpen := False\<rparr>);
     crashEnabled \<leftarrow> gets cs_CrashEnabled;
     if \<not> crashEnabled \<or> ce_game_id env \<noteq> SUSAMUNE_MOD_GAME_ID_LMJ \<or> \<not> stagedModValid then ret ()
     else do {
       let dir = dump_directory (ce_prefix env);
       modify (\<lambda>s. s\<lparr>cs_LmDumpDirectory := dir, cs_LmDumpPaths := map (dump_path dir) [0..<SUSAMUNE_LM_DUMP_SLOTS]\<rparr>);
       result \<leftarrow> on_card (vf_mkdir ops dir);
       if result \<noteq> FR_OK \<and> result \<noteq> FR_EXIST then ret ()
       else do {
         modify (\<lambda>s. s\<lparr>cs_LmDumpEnabled := True\<rparr>);
         InitLmDumpSlots ops [0..<SUSAMUNE_LM_DUMP_SLOTS]
       }
     }
   }"

end
