(* ===== verification/CrashHistory.thy ===== *)
theory CrashHistory
  imports CrashDump
begin

text \<open>
  What the dump files hold: after any run of reported phases, the last eight attempts of this session are on the card,
  each in a file of its own, record by record.
\<close>

section \<open>The slot of the next attempt\<close>

text \<open>Generations as their distance to the newest: the wrapping comparison orders them as long as they lie within half the
  range.\<close>

lemma GenerationNewer_age:
  assumes "p < 2 ^ 31" "q < 2 ^ 31"
  shows "GenerationNewer (n - of_nat p) (n - of_nat q) \<longleftrightarrow> p < q"
proof -
  have diff: "(n - of_nat p) - (n - of_nat q) = (of_int (int q - int p) :: u32)" by simp
  have "sint (of_int k :: u32) = k" if "- (2 ^ 31) \<le> k" "k < 2 ^ 31" for k
    using signed_take_bit_int_eq_self [of 31 k] that by (simp add: sint_sbintrunc')
  from this [of "int q - int p"] assms have "sint (of_int (int q - int p) :: u32) = int q - int p" by simp
  then show ?thesis unfolding GenerationNewer_def diff by simp
qed

lemma dump_target_cases:
  assumes "\<And>i. i \<in> insert oldest (set is) \<Longrightarrow> gens ! i \<noteq> 0 \<Longrightarrow> gens ! i = n - of_nat (age i) \<and> age i < 2 ^ 31"
    and "gens ! oldest \<noteq> 0 \<or> oldest \<in> set is \<and> oldest = hd is"
  shows "dump_target_loop gens is oldest \<in> insert oldest (set is) \<and>
    (gens ! dump_target_loop gens is oldest = 0 \<or>
     (\<forall>i \<in> insert oldest (set is). gens ! i \<noteq> 0 \<and> age i \<le> age (dump_target_loop gens is oldest)))"
  using assms
proof (induction "is" arbitrary: oldest)
  case (Cons i "is")
  show ?case
  proof (cases "gens ! i = 0")
    case False
    with Cons.prems(2) have old: "gens ! oldest \<noteq> 0" by auto
    define o' where "o' = (if GenerationNewer (gens ! oldest) (gens ! i) then i else oldest)"
    have newer: "GenerationNewer (gens ! oldest) (gens ! i) \<longleftrightarrow> age oldest < age i"
      using Cons.prems(1) [of oldest] Cons.prems(1) [of i] old False GenerationNewer_age [of "age oldest" "age i" n] by simp
    have "dump_target_loop gens is o' \<in> insert o' (set is) \<and> (gens ! dump_target_loop gens is o' = 0 \<or>
        (\<forall>j \<in> insert o' (set is). gens ! j \<noteq> 0 \<and> age j \<le> age (dump_target_loop gens is o')))"
      by (rule Cons.IH) (use Cons.prems(1) old False in \<open>auto simp: o'_def split: if_splits\<close>)
    moreover have "age oldest \<le> age o'" "age i \<le> age o'" using newer by (auto simp: o'_def)
    moreover have "o' = i \<or> o' = oldest" by (simp add: o'_def)
    ultimately show ?thesis using False old by (auto simp: o'_def [symmetric] intro: order_trans)
  qed simp
qed simp

lemma LmDumpTarget_cases:
  assumes "\<And>i. i < 8 \<Longrightarrow> gens ! i \<noteq> 0 \<Longrightarrow> gens ! i = n - of_nat (age i) \<and> age i < 2 ^ 31"
  shows "LmDumpTarget gens < 8 \<and>
    (gens ! LmDumpTarget gens = 0 \<or> (\<forall>i < 8. gens ! i \<noteq> 0 \<and> age i \<le> age (LmDumpTarget gens)))"
proof -
  have slots: "insert 0 (set [0..<8]) = {..<8 :: nat}" by auto
  have "dump_target_loop gens [0..<8] 0 \<in> insert 0 (set [0..<8]) \<and> (gens ! dump_target_loop gens [0..<8] 0 = 0 \<or>
      (\<forall>i \<in> insert 0 (set [0..<8]). gens ! i \<noteq> 0 \<and> age i \<le> age (dump_target_loop gens [0..<8] 0)))"
    by (rule dump_target_cases [where n = n and age = age]) (use assms in \<open>auto simp: upt_rec\<close>)
  then show ?thesis unfolding LmDumpTarget_def slots by auto
qed

text \<open>The slots written in this session, newest first, and their ages; every other slot in use is older.\<close>

definition newest_first :: "u32 list \<Rightarrow> u32 \<Rightarrow> nat list \<Rightarrow> (nat \<Rightarrow> nat) \<Rightarrow> bool" where
  "newest_first gens n slots age \<longleftrightarrow> distinct slots \<and> set slots \<subseteq> {..<8} \<and>
     (\<forall>i < 8. gens ! i \<noteq> 0 \<longrightarrow> gens ! i = n - of_nat (age i)) \<and> (\<forall>i \<in> set slots. gens ! i \<noteq> 0) \<and>
     sorted_wrt (\<lambda>i j. age i < age j) slots \<and>
     (\<forall>i \<in> set slots. \<forall>j < 8. j \<notin> set slots \<longrightarrow> gens ! j \<noteq> 0 \<longrightarrow> age i < age j)"

definition slots_after :: "nat \<Rightarrow> nat list \<Rightarrow> nat list" where
  "slots_after t slots = t # (if t \<in> set slots then butlast slots else slots)"

lemma sorted_wrt_last:
  "sorted_wrt (\<lambda>i j. age i < (age j :: nat)) xs \<Longrightarrow> x \<in> set xs \<Longrightarrow> x \<noteq> last xs \<Longrightarrow> age x < age (last xs)"
proof (induction xs)
  case (Cons y ys)
  then show ?case by (cases "ys = []") auto
qed simp

lemma oldest_is_last:
  assumes "newest_first gens n slots age" "\<And>i. i < 8 \<Longrightarrow> gens ! i \<noteq> 0 \<and> age i \<le> age t" "t \<in> set slots"
  shows "slots = butlast slots @ [t]" "length slots = 8"
proof -
  have sub: "set slots \<subseteq> {..<8}" and "distinct slots" and sorted: "sorted_wrt (\<lambda>i j. age i < age j) slots"
    using assms(1) by (auto simp: newest_first_def)
  have "j \<in> set slots" if "j < 8" for j
    using assms(1) assms(2) [OF that] assms(3) that unfolding newest_first_def by (meson leD)
  then have "set slots = {..<8}" using sub by auto
  with distinct_card [OF \<open>distinct slots\<close>] show "length slots = 8" by simp
  have "slots \<noteq> []" using assms(3) by auto
  moreover have "last slots < 8" using sub \<open>slots \<noteq> []\<close> last_in_set by blast
  then have "t = last slots" using sorted_wrt_last [OF sorted assms(3)] assms(2) [of "last slots"] by force
  ultimately show "slots = butlast slots @ [t]" by simp
qed

lemma newest_first_begin:
  assumes nf: "newest_first gens n slots age" and old: "\<forall>i < 8. gens ! i \<noteq> 0 \<longrightarrow> age i < 2 ^ 31" and len: "length gens = 8"
    and t: "t = LmDumpTarget gens" and g: "g = next_dump_generation n"
  shows "t < 8" "length (slots_after t slots) = min 8 (Suc (length slots))" "t \<notin> set (tl (slots_after t slots))"
    "\<And>k. Suc k < length (slots_after t slots) \<Longrightarrow> slots_after t slots ! Suc k = slots ! k \<and> k < length slots"
    "newest_first (gens[t := g]) g (slots_after t slots) (\<lambda>i. if i = t then 0 else age i + (if n + 1 = 0 then 2 else 1))"
proof -
  have target: "t < 8 \<and> (gens ! t = 0 \<or> (\<forall>i < 8. gens ! i \<noteq> 0 \<and> age i \<le> age t))"
    unfolding t by (rule LmDumpTarget_cases) (use nf old in \<open>auto simp: newest_first_def\<close>)
  then show "t < 8" by simp
  have full: "slots = butlast slots @ [t]" "length slots = 8" if "t \<in> set slots"
    using oldest_is_last [OF nf _ that] target that nf by (auto simp: newest_first_def)
  have d: "distinct slots" "set slots \<subseteq> {..<8}" using nf by (auto simp: newest_first_def)
  have room: "length slots < 8" if "t \<notin> set slots"
  proof -
    have "card (set slots) < card {..<8 :: nat}" using d(2) that \<open>t < 8\<close> by (intro psubset_card_mono) auto
    then show ?thesis using distinct_card [OF d(1)] by simp
  qed
  show "length (slots_after t slots) = min 8 (Suc (length slots))"
    using full(2) room by (cases "t \<in> set slots") (simp_all add: slots_after_def)
  have rest: "t \<notin> set (butlast slots)" if "t \<in> set slots"
    using full(1) [OF that] d(1) by (metis distinct_butlast not_distinct_conv_prefix)
  then show "t \<notin> set (tl (slots_after t slots))" by (simp add: slots_after_def)
  show "slots_after t slots ! Suc k = slots ! k \<and> k < length slots" if "Suc k < length (slots_after t slots)" for k
    using that by (auto simp: slots_after_def nth_butlast split: if_splits)
  show "newest_first (gens[t := g]) g (slots_after t slots) (\<lambda>i. if i = t then 0 else age i + (if n + 1 = 0 then 2 else 1))"
  proof -
    define d where "d = (if n + 1 = 0 then 2 else 1 :: nat)"
    define r where "r = (if t \<in> set slots then butlast slots else slots)"
    have gd: "g = n + of_nat d" "g \<noteq> 0"
    proof -
      have "n = - 1" if "n + 1 = 0" using that by (simp add: eq_neg_iff_add_eq_0)
      then show "g = n + of_nat d" "g \<noteq> 0" by (auto simp: g next_dump_generation_def d_def)
    qed
    have r: "distinct r" "set r \<subseteq> set slots" "t \<notin> set r" "sorted_wrt (\<lambda>i j. age i < age j) r" "set slots \<subseteq> insert t (set r)"
    proof -
      have "sorted_wrt (\<lambda>i j. age i < age j) slots" using nf by (simp add: newest_first_def)
      then show "sorted_wrt (\<lambda>i j. age i < age j) r" using full(1) by (auto simp: r_def) (metis sorted_wrt_append)
      show "distinct r" using d(1) by (simp add: r_def distinct_butlast)
      show "set r \<subseteq> set slots" by (auto simp: r_def dest: in_set_butlastD)
      show "t \<notin> set r" using rest by (simp add: r_def)
      show "set slots \<subseteq> insert t (set r)" using full(1) by (auto simp: r_def) (metis Un_iff empty_iff empty_set list.set_intros(1) set_ConsD set_append)
    qed
    have pos: "0 < d" by (simp add: d_def)
    have "sorted_wrt (\<lambda>i j. (if i = t then 0 else age i + d) < (if j = t then 0 else age j + d)) r"
      by (rule sorted_wrt_mono_rel [OF _ r(4)]) (use r(3) in auto)
    then have "sorted_wrt (\<lambda>i j. (if i = t then 0 else age i + d) < (if j = t then 0 else age j + d)) (t # r)"
      unfolding sorted_wrt.simps using r(3) pos by auto
    moreover have "age i + d < age j + d" if "i \<in> set r" "j < 8" "j \<notin> set r" "j \<noteq> t" "gens ! j \<noteq> 0" for i j
    proof -
      have "i \<in> set slots" "j \<notin> set slots" using that r(2,5) by auto
      then show ?thesis using nf that by (auto simp: newest_first_def)
    qed
    ultimately show ?thesis
      using nf r \<open>t < 8\<close> gd len pos
      unfolding newest_first_def slots_after_def r_def [symmetric] d_def [symmetric]
      by (auto simp: nth_list_update)
  qed
qed

section \<open>Writing\<close>

lemma wp_on_card [simp]: "wp (on_card c) Q s = wp c (\<lambda>x v. Q x (s\<lparr>cs_vol := v\<rparr>)) (cs_vol s)"
  by (simp add: on_card_def)

text \<open>The dump file is open, holds \<open>b\<close> and is written at its end.\<close>

definition dump_at :: "('s \<Rightarrow> string \<Rightarrow> bytes option) \<Rightarrow> ('s \<Rightarrow> nat \<Rightarrow> string option) \<Rightarrow> ('s \<Rightarrow> nat \<Rightarrow> nat) \<Rightarrow> 's \<Rightarrow> string \<Rightarrow> bytes \<Rightarrow> bool" where
  "dump_at view hfile hpos v p b \<longleftrightarrow> hfile v FIL_dump = Some p \<and> view v p = Some b \<and> hpos v FIL_dump = length b"

context fat_volume
begin

abbreviation at where "at \<equiv> dump_at view hfile hpos"

lemma wp_WriteLmDump:
  assumes "cs_LmDumpOpen s" "at (cs_vol s) p b"
  shows "wp (WriteLmDump ops d sync) (\<lambda>okay s'. \<exists>v. (\<forall>q. q \<noteq> p \<longrightarrow> view v q = view (cs_vol s) q) \<and>
    (if okay then s' = s\<lparr>cs_vol := v\<rparr> \<and> at v p (b @ d)
     else s' = s\<lparr>cs_vol := v, cs_LmDumpOpen := False, cs_LmDumpEnabled := False\<rparr>)) s"
proof -
  let ?Q = "\<lambda>okay s'. \<exists>v. (\<forall>q. q \<noteq> p \<longrightarrow> view v q = view (cs_vol s) q) \<and>
    (if okay then s' = s\<lparr>cs_vol := v\<rparr> \<and> at v p (b @ d)
     else s' = s\<lparr>cs_vol := v, cs_LmDumpOpen := False, cs_LmDumpEnabled := False\<rparr>)"
  have failed: "wp (DisableLmDump ops) (\<lambda>_. ?Q False) (s\<lparr>cs_vol := v\<rparr>)" if "\<forall>q. q \<noteq> p \<longrightarrow> view v q = view (cs_vol s) q" for v
  proof (simp add: DisableLmDump_def CloseLmDump_def assms(1), rule wpI)
    fix x w
    assume "run_state (vf_close ops FIL_dump) v = (x, w)"
    then show "\<exists>u. (\<forall>q. q \<noteq> p \<longrightarrow> view u q = view (cs_vol s) q) \<and>
        s\<lparr>cs_vol := w, cs_LmDumpOpen := False, cs_LmDumpEnabled := False\<rparr> = s\<lparr>cs_vol := u, cs_LmDumpOpen := False, cs_LmDumpEnabled := False\<rparr>"
      using that by (intro exI [of _ w]) (auto dest: close_view)
  qed
  have written: "wp (vf_sync ops FIL_dump) (\<lambda>x w. wp (if x \<noteq> FR_OK then do { u \<leftarrow> DisableLmDump ops; ret False } else ret True) ?Q (s\<lparr>cs_vol := w\<rparr>)) v"
    if v: "\<forall>q. q \<noteq> p \<longrightarrow> view v q = view (cs_vol s) q" "at v p (b @ d)" for v
  proof (rule wpI)
    fix x w
    assume "run_state (vf_sync ops FIL_dump) v = (x, w)"
    from sync_view [OF this] v have w: "\<forall>q. q \<noteq> p \<longrightarrow> view w q = view (cs_vol s) q" "at w p (b @ d)" by (auto simp: dump_at_def)
    then show "wp (if x \<noteq> FR_OK then do { u \<leftarrow> DisableLmDump ops; ret False } else ret True) ?Q (s\<lparr>cs_vol := w\<rparr>)"
      using failed [OF w(1)] by auto
  qed
  have rest: "wp (do {
       result \<leftarrow> (if result = FR_OK \<and> sync then on_card (vf_sync ops FIL_dump) else ret result);
       if result \<noteq> FR_OK then do { u \<leftarrow> DisableLmDump ops; ret False } else ret True }) ?Q (s\<lparr>cs_vol := v\<rparr>)"
    if v: "\<forall>q. q \<noteq> p \<longrightarrow> view v q = view (cs_vol s) q" "result = FR_OK \<Longrightarrow> at v p (b @ d)" for result v
    using written [OF v(1)] failed [OF v(1)] v by (auto simp: wp_return)
  have "wp (vf_write ops FIL_dump d) (\<lambda>x v. wp (case x of (result, wrote) \<Rightarrow> do {
       result \<leftarrow> (if (if result = FR_OK \<and> wrote \<noteq> length d then FR_DISK_ERR else result) = FR_OK \<and> sync
         then on_card (vf_sync ops FIL_dump) else ret (if result = FR_OK \<and> wrote \<noteq> length d then FR_DISK_ERR else result));
       if result \<noteq> FR_OK then do { u \<leftarrow> DisableLmDump ops; ret False } else ret True }) ?Q (s\<lparr>cs_vol := v\<rparr>)) (cs_vol s)"
  proof (rule wpI)
    fix x v
    assume run: "run_state (vf_write ops FIL_dump d) (cs_vol s) = (x, v)"
    obtain result wrote where x: "x = (result, wrote)" by fastforce
    have frame: "\<forall>q. q \<noteq> p \<longrightarrow> view v q = view (cs_vol s) q" "hfile v = hfile (cs_vol s)"
      using write_frame [OF run] assms(2) by (auto simp: dump_at_def)
    have "at v p (b @ d)" if "(if result = FR_OK \<and> wrote \<noteq> length d then FR_DISK_ERR else result) = FR_OK"
      using write_data [of FIL_dump d "cs_vol s" wrote v p b] run that assms(2) frame
      by (auto simp: dump_at_def x split: if_splits)
    from rest [OF frame(1) this] show "wp (case x of (result, wrote) \<Rightarrow> do {
       result \<leftarrow> (if (if result = FR_OK \<and> wrote \<noteq> length d then FR_DISK_ERR else result) = FR_OK \<and> sync
         then on_card (vf_sync ops FIL_dump) else ret (if result = FR_OK \<and> wrote \<noteq> length d then FR_DISK_ERR else result));
       if result \<noteq> FR_OK then do { u \<leftarrow> DisableLmDump ops; ret False } else ret True }) ?Q (s\<lparr>cs_vol := v\<rparr>)"
      unfolding x prod.case .
  qed
  then show ?thesis by (simp only: WriteLmDump_def wp_bind wp_gets wp_on_card assms(1) not_True_eq_False if_False Let_def)
qed

text \<open>A new attempt, if the dump is still enabled afterwards: header and first record, over the slot that was chosen.\<close>

lemma wp_BeginLmDump:
  "wp (BeginLmDump ops t) (\<lambda>_ s'. cs_LmDumpEnabled s' \<longrightarrow> (\<exists>v. let i = LmDumpTarget (cs_LmDumpGenerations s);
      g = next_dump_generation (cs_LmDumpGeneration s); p = cs_LmDumpPaths s ! i in
    s' = s\<lparr>cs_LmDumpOpen := True, cs_vol := v, cs_LmDumpGeneration := g, cs_LmDumpGenerations := (cs_LmDumpGenerations s)[i := g]\<rparr> \<and>
    (\<forall>q. q \<noteq> p \<longrightarrow> view v q = view (cs_vol s) q) \<and>
    at v p (dump_header_bytes (dump_header g (cs_LmDumpModCrc s) t) @ trace_bytes t))) s"
proof -
  define i g p where "i = LmDumpTarget (cs_LmDumpGenerations s)" and "g = next_dump_generation (cs_LmDumpGeneration s)"
    and "p = cs_LmDumpPaths s ! i"
  define h where "h = dump_header_bytes (dump_header g (cs_LmDumpModCrc s) t)"
  let ?Q = "\<lambda>_ s'. cs_LmDumpEnabled s' \<longrightarrow> (\<exists>v.
    s' = s\<lparr>cs_LmDumpOpen := True, cs_vol := v, cs_LmDumpGeneration := g, cs_LmDumpGenerations := (cs_LmDumpGenerations s)[i := g]\<rparr> \<and>
    (\<forall>q. q \<noteq> p \<longrightarrow> view v q = view (cs_vol s) q) \<and> at v p (h @ trace_bytes t))"
  let ?go = "do {
       okay \<leftarrow> WriteLmDump ops h False;
       okay \<leftarrow> (if okay then WriteLmDump ops (trace_bytes t) True else ret False);
       if \<not> okay then ret ()
       else modify (\<lambda>s. s\<lparr>cs_LmDumpGeneration := g, cs_LmDumpGenerations := (cs_LmDumpGenerations s)[i := g]\<rparr>)
     }"
  have go: "wp ?go ?Q (s\<lparr>cs_vol := v, cs_LmDumpOpen := True\<rparr>)" if v: "\<forall>q. q \<noteq> p \<longrightarrow> view v q = view (cs_vol s) q" "at v p []" for v
    unfolding wp_bind
  proof (rule wp_mono [OF wp_WriteLmDump [of _ p "[]"]])
    fix okay s1
    assume "\<exists>w. (\<forall>q. q \<noteq> p \<longrightarrow> view w q = view (cs_vol (s\<lparr>cs_vol := v, cs_LmDumpOpen := True\<rparr>)) q) \<and>
      (if okay then s1 = s\<lparr>cs_vol := v, cs_LmDumpOpen := True\<rparr>\<lparr>cs_vol := w\<rparr> \<and> at w p ([] @ h)
       else s1 = s\<lparr>cs_vol := v, cs_LmDumpOpen := True\<rparr>\<lparr>cs_vol := w, cs_LmDumpOpen := False, cs_LmDumpEnabled := False\<rparr>)"
    then obtain w where w: "\<forall>q. q \<noteq> p \<longrightarrow> view w q = view (cs_vol s) q"
      "if okay then s1 = s\<lparr>cs_LmDumpOpen := True, cs_vol := w\<rparr> \<and> at w p h else \<not> cs_LmDumpEnabled s1"
    proof (elim exE conjE)
      fix w
      assume "\<forall>q. q \<noteq> p \<longrightarrow> view w q = view (cs_vol (s\<lparr>cs_vol := v, cs_LmDumpOpen := True\<rparr>)) q"
        and e: "if okay then s1 = s\<lparr>cs_vol := v, cs_LmDumpOpen := True\<rparr>\<lparr>cs_vol := w\<rparr> \<and> at w p ([] @ h)
         else s1 = s\<lparr>cs_vol := v, cs_LmDumpOpen := True\<rparr>\<lparr>cs_vol := w, cs_LmDumpOpen := False, cs_LmDumpEnabled := False\<rparr>"
      then have "\<forall>q. q \<noteq> p \<longrightarrow> view w q = view (cs_vol s) q" using v(1) by simp
      moreover have "if okay then s1 = s\<lparr>cs_LmDumpOpen := True, cs_vol := w\<rparr> \<and> at w p h else \<not> cs_LmDumpEnabled s1"
        using e by (cases okay) simp_all
      ultimately show thesis by (rule that)
    qed
    show "wp (if okay then WriteLmDump ops (trace_bytes t) True else ret False) (\<lambda>okay. wp (if \<not> okay then ret ()
       else modify (\<lambda>s. s\<lparr>cs_LmDumpGeneration := g, cs_LmDumpGenerations := (cs_LmDumpGenerations s)[i := g]\<rparr>)) ?Q) s1"
    proof (cases okay)
      case True
      with w have s1: "cs_LmDumpOpen s1" "at (cs_vol s1) p h" by auto
      from w(2) True have here: "s1 = s\<lparr>cs_LmDumpOpen := True, cs_vol := w\<rparr>" by simp
      have "wp (WriteLmDump ops (trace_bytes t) True) (\<lambda>okay. wp (if \<not> okay then ret ()
         else modify (\<lambda>s. s\<lparr>cs_LmDumpGeneration := g, cs_LmDumpGenerations := (cs_LmDumpGenerations s)[i := g]\<rparr>)) ?Q) s1"
      proof (rule wp_mono [OF wp_WriteLmDump [OF s1]], elim exE conjE)
        fix okay s2 u
        assume u: "\<forall>q. q \<noteq> p \<longrightarrow> view u q = view (cs_vol s1) q"
          and s2: "if okay then s2 = s1\<lparr>cs_vol := u\<rparr> \<and> at u p (h @ trace_bytes t)
            else s2 = s1\<lparr>cs_vol := u, cs_LmDumpOpen := False, cs_LmDumpEnabled := False\<rparr>"
        show "wp (if \<not> okay then ret ()
         else modify (\<lambda>s. s\<lparr>cs_LmDumpGeneration := g, cs_LmDumpGenerations := (cs_LmDumpGenerations s)[i := g]\<rparr>)) ?Q s2"
        proof (cases okay)
          case True
          with s2 here have "s2 = s\<lparr>cs_LmDumpOpen := True, cs_vol := u\<rparr>" "at u p (h @ trace_bytes t)" by auto
          with True u w here show ?thesis by (auto intro!: exI [of _ u])
        next
          case False
          with s2 show ?thesis by simp
        qed
      qed
      with True show ?thesis by simp
    qed (use w in simp)
  qed (use v in auto)
  have opened: "wp (do {
      result \<leftarrow> on_card (vf_open ops FIL_dump p OpenCreateAlways);
      if result \<noteq> FR_OK then modify (\<lambda>s. s\<lparr>cs_LmDumpEnabled := False\<rparr>)
      else do { modify (\<lambda>s. s\<lparr>cs_LmDumpOpen := True\<rparr>); ?go } }) ?Q (s\<lparr>cs_LmDumpOpen := False, cs_vol := v\<rparr>)"
    if v: "view v = view (cs_vol s)" for v
    unfolding wp_bind wp_on_card
  proof (rule wpI)
    fix x w
    assume "run_state (vf_open ops FIL_dump p OpenCreateAlways) (cs_vol (s\<lparr>cs_LmDumpOpen := False, cs_vol := v\<rparr>)) = (x, w)"
    then have run: "run_state (vf_open ops FIL_dump p OpenCreateAlways) v = (x, w)" by simp
    have "\<forall>q. q \<noteq> p \<longrightarrow> view w q = view (cs_vol s) q" using open_frame [OF run] v by simp
    moreover have "at w p []" if "x = FR_OK"
      using open_handle [of FIL_dump p OpenCreateAlways v w] open_create [of FIL_dump p OpenCreateAlways v w] run that
      by (simp add: dump_at_def)
    ultimately show "wp (if x \<noteq> FR_OK then modify (\<lambda>s. s\<lparr>cs_LmDumpEnabled := False\<rparr>)
      else do { modify (\<lambda>s. s\<lparr>cs_LmDumpOpen := True\<rparr>); ?go }) ?Q (s\<lparr>cs_LmDumpOpen := False, cs_vol := v\<rparr>\<lparr>cs_vol := w\<rparr>)"
      using go [of w] by (cases "x = FR_OK") simp_all
  qed
  have "wp (CloseLmDump ops) (\<lambda>closed s'. \<exists>v. view v = view (cs_vol s) \<and> s' = s\<lparr>cs_LmDumpOpen := False, cs_vol := v\<rparr>) s"
  proof (cases "cs_LmDumpOpen s")
    case True
    then show ?thesis by (simp add: CloseLmDump_def) (rule wpI, auto dest: close_view)
  next
    case False
    then show ?thesis by (auto simp: CloseLmDump_def intro!: exI [of _ "cs_vol s"])
  qed
  then have "wp (BeginLmDump ops t) ?Q s"
    unfolding BeginLmDump_def wp_bind
  proof (rule wp_mono, elim exE conjE)
    fix closed s' v
    assume v: "view v = view (cs_vol s)" and s': "s' = s\<lparr>cs_LmDumpOpen := False, cs_vol := v\<rparr>"
    show "wp (if \<not> closed then modify (\<lambda>s. s\<lparr>cs_LmDumpEnabled := False\<rparr>) else do {
       generation \<leftarrow> gets (\<lambda>s. next_dump_generation (cs_LmDumpGeneration s));
       target \<leftarrow> gets (\<lambda>s. LmDumpTarget (cs_LmDumpGenerations s));
       header \<leftarrow> gets (\<lambda>s. dump_header generation (cs_LmDumpModCrc s) t);
       path \<leftarrow> gets (\<lambda>s. cs_LmDumpPaths s ! target);
       result \<leftarrow> on_card (vf_open ops FIL_dump path OpenCreateAlways);
       if result \<noteq> FR_OK then modify (\<lambda>s. s\<lparr>cs_LmDumpEnabled := False\<rparr>)
       else do {
         modify (\<lambda>s. s\<lparr>cs_LmDumpOpen := True\<rparr>);
         okay \<leftarrow> WriteLmDump ops (dump_header_bytes header) False;
         okay \<leftarrow> (if okay then WriteLmDump ops (trace_bytes t) True else ret False);
         if \<not> okay then ret ()
         else modify (\<lambda>s. s\<lparr>cs_LmDumpGeneration := generation,
           cs_LmDumpGenerations := (cs_LmDumpGenerations s)[target := generation]\<rparr>)
       }
     }) ?Q s'"
      using opened [OF v] unfolding s' i_def g_def p_def h_def by (cases closed) (simp_all cong: if_cong)
  qed
  then show ?thesis by (simp only: Let_def i_def g_def p_def h_def)
qed

text \<open>A record, if the dump is still enabled afterwards.\<close>

lemma wp_RecordLmDump:
  assumes "cs_LmDumpOpen s \<longrightarrow> at (cs_vol s) p b"
  shows "wp (RecordLmDump ops t) (\<lambda>_ s'. cs_LmDumpEnabled s' \<longrightarrow> cs_LmDumpEnabled s \<and>
    (if save_complete t \<or> \<not> cs_LmDumpOpen s \<and> load_start t
     then \<exists>v. let i = LmDumpTarget (cs_LmDumpGenerations s); g = next_dump_generation (cs_LmDumpGeneration s); q = cs_LmDumpPaths s ! i in
       s' = s\<lparr>cs_LmDumpOpen := True, cs_vol := v, cs_LmDumpGeneration := g, cs_LmDumpGenerations := (cs_LmDumpGenerations s)[i := g]\<rparr> \<and>
       (\<forall>r. r \<noteq> q \<longrightarrow> view v r = view (cs_vol s) r) \<and>
       at v q (dump_header_bytes (dump_header g (cs_LmDumpModCrc s) t) @ trace_bytes t)
     else if cs_LmDumpOpen s
     then \<exists>v. s' = s\<lparr>cs_vol := v\<rparr> \<and> (\<forall>r. r \<noteq> p \<longrightarrow> view v r = view (cs_vol s) r) \<and> at v p (b @ trace_bytes t)
     else s' = s)) s"
proof (cases "cs_LmDumpEnabled s")
  case enabled: True
  show ?thesis
  proof (cases "save_complete t \<or> \<not> cs_LmDumpOpen s \<and> load_start t")
    case True
    then have "wp (RecordLmDump ops t) Q s = wp (BeginLmDump ops t) Q s" for Q
      using enabled by (auto simp: RecordLmDump_def)
    then show ?thesis using wp_BeginLmDump [of t s] by (simp add: True enabled)
  next
    case other: False
    show ?thesis
    proof (cases "cs_LmDumpOpen s")
      case True
      then have "wp (RecordLmDump ops t) Q s = wp (WriteLmDump ops (trace_bytes t) True) (\<lambda>_. Q ()) s" for Q :: "unit \<Rightarrow> _"
        using enabled other by (auto simp: RecordLmDump_def)
      moreover have "wp (WriteLmDump ops (trace_bytes t) True) (\<lambda>_ s'. cs_LmDumpEnabled s' \<longrightarrow>
          (\<exists>v. s' = s\<lparr>cs_vol := v\<rparr> \<and> (\<forall>r. r \<noteq> p \<longrightarrow> view v r = view (cs_vol s) r) \<and> at v p (b @ trace_bytes t))) s"
      proof (rule wp_mono [OF wp_WriteLmDump [OF True assms [rule_format, OF True]]], elim exE conjE)
        fix okay s' v
        assume v: "\<forall>q. q \<noteq> p \<longrightarrow> view v q = view (cs_vol s) q"
          and e: "if okay then s' = s\<lparr>cs_vol := v\<rparr> \<and> at v p (b @ trace_bytes t)
            else s' = s\<lparr>cs_vol := v, cs_LmDumpOpen := False, cs_LmDumpEnabled := False\<rparr>"
        show "cs_LmDumpEnabled s' \<longrightarrow>
          (\<exists>v. s' = s\<lparr>cs_vol := v\<rparr> \<and> (\<forall>r. r \<noteq> p \<longrightarrow> view v r = view (cs_vol s) r) \<and> at v p (b @ trace_bytes t))"
        proof (cases okay)
          case True
          with e v show ?thesis by simp (metis)
        next
          case False
          with e show ?thesis by simp
        qed
      qed
      ultimately show ?thesis using other True enabled by simp
    next
      case False
      then show ?thesis using other enabled by (auto simp: RecordLmDump_def)
    qed
  qed
next
  case False
  then show ?thesis by (auto simp: RecordLmDump_def)
qed

end

section \<open>Runs\<close>

text \<open>What the attempts of a session are, newest first: a complete save starts one, and so does the first load when there
  is none yet; every other phase belongs to the current one.\<close>

fun dump_history :: "phase_trace list list \<Rightarrow> phase_trace \<Rightarrow> phase_trace list list" where
  "dump_history [] t = (if save_complete t \<or> load_start t then [[t]] else [])"
| "dump_history (ts # older) t = (if save_complete t then [t] # ts # older else (ts @ [t]) # older)"

definition attempts :: "phase_trace list \<Rightarrow> phase_trace list list" where
  "attempts ts = foldl dump_history [] ts"

definition dump_content :: "u32 \<Rightarrow> u32 \<Rightarrow> phase_trace list \<Rightarrow> bytes" where
  "dump_content g crc ts = dump_header_bytes (dump_header g crc (hd ts)) @ concat (map trace_bytes ts)"

text \<open>Between two records anything may happen in the rest of the kernel that leaves the dump's statics, its files and its
  open file object alone.\<close>

definition dump_others :: "('s \<Rightarrow> string \<Rightarrow> bytes option) \<Rightarrow> ('s \<Rightarrow> nat \<Rightarrow> string option) \<Rightarrow> ('s \<Rightarrow> nat \<Rightarrow> nat) \<Rightarrow>
    's crash \<Rightarrow> 's crash \<Rightarrow> bool" where
  "dump_others view hfile hpos s s' \<longleftrightarrow>
     cs_LmDumpPaths s' = cs_LmDumpPaths s \<and> cs_LmDumpGenerations s' = cs_LmDumpGenerations s \<and>
     cs_LmDumpGeneration s' = cs_LmDumpGeneration s \<and> cs_LmDumpModCrc s' = cs_LmDumpModCrc s \<and>
     cs_LmDumpEnabled s' = cs_LmDumpEnabled s \<and> cs_LmDumpOpen s' = cs_LmDumpOpen s \<and>
     (\<forall>p \<in> set (cs_LmDumpPaths s). view (cs_vol s') p = view (cs_vol s) p) \<and>
     hfile (cs_vol s') FIL_dump = hfile (cs_vol s) FIL_dump \<and> hpos (cs_vol s') FIL_dump = hpos (cs_vol s) FIL_dump"

inductive dump_run :: "'s volume \<Rightarrow> ('s \<Rightarrow> string \<Rightarrow> bytes option) \<Rightarrow> ('s \<Rightarrow> nat \<Rightarrow> string option) \<Rightarrow> ('s \<Rightarrow> nat \<Rightarrow> nat) \<Rightarrow>
    's crash \<Rightarrow> phase_trace list \<Rightarrow> 's crash \<Rightarrow> bool" for ops view hfile hpos s where
  start: "dump_run ops view hfile hpos s [] s"
| recorded: "dump_run ops view hfile hpos s ts s' \<Longrightarrow> run_state (RecordLmDump ops t) s' = (u, s'') \<Longrightarrow>
    dump_run ops view hfile hpos s (ts @ [t]) s''"
| others: "dump_run ops view hfile hpos s ts s' \<Longrightarrow> dump_others view hfile hpos s' s'' \<Longrightarrow>
    dump_run ops view hfile hpos s ts s''"

definition dump_inv :: "('s \<Rightarrow> string \<Rightarrow> bytes option) \<Rightarrow> ('s \<Rightarrow> nat \<Rightarrow> string option) \<Rightarrow> ('s \<Rightarrow> nat \<Rightarrow> nat) \<Rightarrow>
    phase_trace list list \<Rightarrow> nat \<Rightarrow> nat list \<Rightarrow> (nat \<Rightarrow> nat) \<Rightarrow> 's crash \<Rightarrow> bool" where
  "dump_inv view hfile hpos hist bound slots age s \<longleftrightarrow>
     length (cs_LmDumpPaths s) = 8 \<and> distinct (cs_LmDumpPaths s) \<and> length (cs_LmDumpGenerations s) = 8 \<and>
     newest_first (cs_LmDumpGenerations s) (cs_LmDumpGeneration s) slots age \<and>
     (\<forall>i < 8. cs_LmDumpGenerations s ! i \<noteq> 0 \<longrightarrow> age i < bound) \<and>
     length slots = min 8 (length hist) \<and> [] \<notin> set hist \<and>
     (\<forall>k < length slots. view (cs_vol s) (cs_LmDumpPaths s ! (slots ! k)) =
        Some (dump_content (cs_LmDumpGenerations s ! (slots ! k)) (cs_LmDumpModCrc s) (hist ! k))) \<and>
     (cs_LmDumpOpen s \<longleftrightarrow> hist \<noteq> []) \<and>
     (hist \<noteq> [] \<longrightarrow> cs_LmDumpGenerations s ! hd slots = cs_LmDumpGeneration s \<and>
        dump_at view hfile hpos (cs_vol s) (cs_LmDumpPaths s ! hd slots)
          (dump_content (cs_LmDumpGeneration s) (cs_LmDumpModCrc s) (hd hist)))"


lemma nth_below: "set xs \<subseteq> {..<n} \<Longrightarrow> k < length xs \<Longrightarrow> xs ! k < (n :: nat)"
  by (meson lessThan_iff nth_mem subsetD)

lemma dump_history_append: "attempts (ts @ [t]) = dump_history (attempts ts) t"
  by (simp add: attempts_def)

lemma dump_content_one: "dump_content g crc [t] = dump_header_bytes (dump_header g crc t) @ trace_bytes t"
  by (simp add: dump_content_def)

lemma dump_content_snoc: "ts \<noteq> [] \<Longrightarrow> dump_content g crc (ts @ [t]) = dump_content g crc ts @ trace_bytes t"
  by (simp add: dump_content_def)

text \<open>A new attempt takes its slot, and the seven before it keep theirs.\<close>

lemma dump_inv_begin:
  assumes inv: "dump_inv view hfile hpos hist bound slots age s" and "bound < 2 ^ 31"
    and i: "i = LmDumpTarget (cs_LmDumpGenerations s)" and g: "g = next_dump_generation (cs_LmDumpGeneration s)"
    and s': "s' = s\<lparr>cs_LmDumpOpen := True, cs_vol := v, cs_LmDumpGeneration := g, cs_LmDumpGenerations := (cs_LmDumpGenerations s)[i := g]\<rparr>"
    and frame: "\<forall>r. r \<noteq> cs_LmDumpPaths s ! i \<longrightarrow> view v r = view (cs_vol s) r"
    and at: "dump_at view hfile hpos v (cs_LmDumpPaths s ! i) (dump_content g (cs_LmDumpModCrc s) [t])"
  shows "\<exists>slots age. dump_inv view hfile hpos ([t] # hist) (bound + 2) slots age s'"
proof -
  let ?gens = "cs_LmDumpGenerations s" and ?paths = "cs_LmDumpPaths s"
  define slots' age' where "slots' = slots_after i slots"
    and "age' j = (if j = i then 0 else age j + (if cs_LmDumpGeneration s + 1 = 0 then 2 else 1))" for j
  have nf: "newest_first ?gens (cs_LmDumpGeneration s) slots age" and len: "length ?gens = 8" "length ?paths = 8" "distinct ?paths"
    and old: "\<And>j. j < 8 \<Longrightarrow> ?gens ! j \<noteq> 0 \<Longrightarrow> age j < bound" and slots: "length slots = min 8 (length hist)"
    using inv by (auto simp: dump_inv_def)
  have less: "\<forall>j < 8. ?gens ! j \<noteq> 0 \<longrightarrow> age j < 2 ^ 31" using old assms(2) by fastforce
  note begin_facts = newest_first_begin [OF nf less len(1) i g, folded slots'_def]
  have i8: "i < 8" by (rule begin_facts(1))
  have hd: "slots' = i # tl slots'" by (simp add: slots'_def slots_after_def)
  have hd_i: "hd slots' = i" by (subst hd) simp
  have nth_tl: "slots' ! Suc k = slots ! k" "k < length slots" "slots ! k < 8" "slots ! k \<noteq> i" if "Suc k < length slots'" for k
  proof -
    show k: "slots' ! Suc k = slots ! k" "k < length slots" using begin_facts(4) [OF that] by auto
    then show "slots ! k < 8" using nf by (auto simp: newest_first_def intro: nth_below)
    have "slots' ! Suc k \<in> set (tl slots')" using hd that by (metis length_Cons Suc_less_eq nth_Cons_Suc nth_mem)
    then show "slots ! k \<noteq> i" using begin_facts(3) k by auto
  qed
  have "view v (?paths ! (slots' ! k)) = Some (dump_content (?gens[i := g] ! (slots' ! k)) (cs_LmDumpModCrc s) (([t] # hist) ! k))"
    if "k < length slots'" for k
  proof (cases k)
    case 0
    then show ?thesis using at hd i8 len(1) by (metis dump_at_def nth_Cons_0 nth_list_update_eq)
  next
    case (Suc j)
    note n = nth_tl [OF that [unfolded Suc]]
    have "?paths ! (slots ! j) \<noteq> ?paths ! i" using n len(2,3) i8 by (simp add: nth_eq_iff_index_eq)
    then have "view v (?paths ! (slots ! j)) = view (cs_vol s) (?paths ! (slots ! j))" using frame by blast
    also have "\<dots> = Some (dump_content (?gens ! (slots ! j)) (cs_LmDumpModCrc s) (hist ! j))"
      using inv n(2) by (auto simp: dump_inv_def)
    finally show ?thesis using n Suc by (simp add: nth_list_update)
  qed
  moreover have "age' j < bound + 2" if "j < 8" "?gens[i := g] ! j \<noteq> 0" for j
    using old [of j] that len(1) by (auto simp: age'_def nth_list_update split: if_splits)
  moreover have "newest_first (?gens[i := g]) g slots' age'"
    using begin_facts(5) unfolding age'_def .
  moreover have "length slots' = min 8 (length ([t] # hist))" using begin_facts(2) slots by simp
  moreover have "[] \<notin> set hist" using inv by (simp add: dump_inv_def)
  ultimately have "dump_inv view hfile hpos ([t] # hist) (bound + 2) slots' age' s'"
    using at hd_i i8 len unfolding dump_inv_def s' by (auto simp: nth_list_update)
  then show ?thesis by blast
qed

text \<open>A further record goes behind the current attempt's.\<close>

lemma dump_inv_append:
  assumes inv: "dump_inv view hfile hpos (ts # older) bound slots age s" and i: "p = cs_LmDumpPaths s ! hd slots"
    and s': "s' = s\<lparr>cs_vol := v\<rparr>" and frame: "\<forall>r. r \<noteq> p \<longrightarrow> view v r = view (cs_vol s) r"
    and at: "dump_at view hfile hpos v p (dump_content (cs_LmDumpGeneration s) (cs_LmDumpModCrc s) (ts @ [t]))"
  shows "dump_inv view hfile hpos ((ts @ [t]) # older) bound slots age s'"
proof -
  let ?paths = "cs_LmDumpPaths s"
  have nf: "distinct slots" "set slots \<subseteq> {..<8}" and paths: "length ?paths = 8" "distinct ?paths" and ne: "slots \<noteq> []"
    using inv by (auto simp: dump_inv_def newest_first_def)
  have "view v (?paths ! (slots ! k)) = Some (dump_content (cs_LmDumpGenerations s ! (slots ! k)) (cs_LmDumpModCrc s) (((ts @ [t]) # older) ! k))"
    if "k < length slots" for k
  proof (cases k)
    case 0
    then show ?thesis using at ne inv by (simp add: dump_at_def i hd_conv_nth dump_inv_def)
  next
    case (Suc j)
    have "slots ! k < 8" "hd slots < 8" using nth_below [OF nf(2) that] nth_below [OF nf(2), of 0] ne by (auto simp: hd_conv_nth)
    moreover have "slots ! k \<noteq> hd slots" using that Suc nf(1) ne by (simp add: hd_conv_nth nth_eq_iff_index_eq)
    ultimately have "?paths ! (slots ! k) \<noteq> p" using paths by (simp add: i nth_eq_iff_index_eq)
    with frame inv that Suc show ?thesis by (auto simp: dump_inv_def)
  qed
  then show ?thesis using inv at unfolding dump_inv_def s' i by auto
qed


lemma dump_inv_others:
  assumes "dump_others view hfile hpos s s'" "dump_inv view hfile hpos hist bound slots age s"
  shows "dump_inv view hfile hpos hist bound slots age s'"
proof -
  have "cs_LmDumpPaths s ! i \<in> set (cs_LmDumpPaths s)" if "i < 8" for i
    using assms(2) that by (simp add: dump_inv_def)
  then have same: "view (cs_vol s') (cs_LmDumpPaths s ! i) = view (cs_vol s) (cs_LmDumpPaths s ! i)" if "i < 8" for i
    using assms(1) that by (simp add: dump_others_def)
  have slots: "set slots \<subseteq> {..<8}" "length slots = min 8 (length hist)"
    using assms(2) by (simp_all add: dump_inv_def newest_first_def)
  then have ne: "hist \<noteq> [] \<Longrightarrow> slots \<noteq> []" by (cases slots; cases hist) auto
  have "view (cs_vol s') (cs_LmDumpPaths s ! (slots ! k)) = view (cs_vol s) (cs_LmDumpPaths s ! (slots ! k))" if "k < length slots" for k
    using same nth_below [OF slots(1) that] by blast
  moreover have "view (cs_vol s') (cs_LmDumpPaths s ! hd slots) = view (cs_vol s) (cs_LmDumpPaths s ! hd slots)" if "hist \<noteq> []"
    using same nth_below [OF slots(1), of 0] ne [OF that] by (simp add: hd_conv_nth)
  ultimately show ?thesis using assms unfolding dump_inv_def dump_others_def dump_at_def by auto
qed

lemma record_enabled: "run_state (RecordLmDump ops t) s = (u, s') \<Longrightarrow> cs_LmDumpEnabled s' \<Longrightarrow> cs_LmDumpEnabled s"
proof (rule ccontr)
  assume run: "run_state (RecordLmDump ops t) s = (u, s')" and on: "cs_LmDumpEnabled s'" and off: "\<not> cs_LmDumpEnabled s"
  then have "wp (RecordLmDump ops t) (\<lambda>_ x. x = s) s" by (simp add: RecordLmDump_def)
  from wpD [OF this run] on off show False by simp
qed

lemma run_enabled: "dump_run ops view hfile hpos s ts s' \<Longrightarrow> cs_LmDumpEnabled s' \<Longrightarrow> cs_LmDumpEnabled s"
  by (induction rule: dump_run.induct) (auto simp: dump_others_def dest: record_enabled)

context fat_volume
begin

lemma dump_record_inv:
  assumes inv: "dump_inv view hfile hpos hist bound slots age s" and "bound < 2 ^ 31"
    and run: "run_state (RecordLmDump ops t) s = (u, s')" and enabled: "cs_LmDumpEnabled s'"
  shows "cs_LmDumpEnabled s \<and> cs_LmDumpPaths s' = cs_LmDumpPaths s \<and> cs_LmDumpModCrc s' = cs_LmDumpModCrc s \<and>
    (\<exists>slots age. dump_inv view hfile hpos (dump_history hist t) (bound + 2) slots age s')"
proof -
  let ?p = "cs_LmDumpPaths s ! hd slots"
  let ?b = "dump_content (cs_LmDumpGeneration s) (cs_LmDumpModCrc s) (hd hist)"
  define i g where "i = LmDumpTarget (cs_LmDumpGenerations s)" and "g = next_dump_generation (cs_LmDumpGeneration s)"
  have opened: "cs_LmDumpOpen s \<longleftrightarrow> hist \<noteq> []" using inv by (simp add: dump_inv_def)
  have "cs_LmDumpOpen s \<longrightarrow> at (cs_vol s) ?p ?b" using inv by (auto simp: dump_inv_def)
  note rec = mp [OF wpD [OF wp_RecordLmDump [OF this] run] enabled]
  note was = conjunct1 [OF rec]
  from conjunct2 [OF rec] have eff: "if save_complete t \<or> \<not> cs_LmDumpOpen s \<and> load_start t
     then \<exists>v. s' = s\<lparr>cs_LmDumpOpen := True, cs_vol := v, cs_LmDumpGeneration := g, cs_LmDumpGenerations := (cs_LmDumpGenerations s)[i := g]\<rparr> \<and>
       (\<forall>r. r \<noteq> cs_LmDumpPaths s ! i \<longrightarrow> view v r = view (cs_vol s) r) \<and>
       at v (cs_LmDumpPaths s ! i) (dump_content g (cs_LmDumpModCrc s) [t])
     else if cs_LmDumpOpen s
     then \<exists>v. s' = s\<lparr>cs_vol := v\<rparr> \<and> (\<forall>r. r \<noteq> ?p \<longrightarrow> view v r = view (cs_vol s) r) \<and> at v ?p (?b @ trace_bytes t)
     else s' = s"
    by (simp only: Let_def i_def g_def dump_content_one)
  have wider: "dump_inv view hfile hpos hist' (bound + 2) slots age s''" if "dump_inv view hfile hpos hist' bound slots age s''" for hist' s''
    using that by (auto simp: dump_inv_def)
  show ?thesis
  proof (cases "save_complete t \<or> hist = [] \<and> load_start t")
    case True
    with eff opened obtain v where v: "s' = s\<lparr>cs_LmDumpOpen := True, cs_vol := v, cs_LmDumpGeneration := g, cs_LmDumpGenerations := (cs_LmDumpGenerations s)[i := g]\<rparr>"
       "\<forall>r. r \<noteq> cs_LmDumpPaths s ! i \<longrightarrow> view v r = view (cs_vol s) r" "at v (cs_LmDumpPaths s ! i) (dump_content g (cs_LmDumpModCrc s) [t])"
      by (simp only: if_True simp_thms split: if_splits) auto
    have "dump_history hist t = [t] # hist" using True by (cases hist) auto
    with dump_inv_begin [OF inv assms(2) i_def g_def v] v(1) was show ?thesis by simp
  next
    case other: False
    show ?thesis
    proof (cases hist)
      case Nil
      with eff opened other have "s' = s" by simp
      with inv wider other Nil was show ?thesis by auto
    next
      case (Cons ts older)
      with eff opened other obtain v where v: "s' = s\<lparr>cs_vol := v\<rparr>" "\<forall>r. r \<noteq> ?p \<longrightarrow> view v r = view (cs_vol s) r" "at v ?p (?b @ trace_bytes t)"
        by auto
      have "?b @ trace_bytes t = dump_content (cs_LmDumpGeneration s) (cs_LmDumpModCrc s) (ts @ [t])"
        using inv Cons by (auto simp: dump_inv_def dump_content_snoc)
      with wider [OF dump_inv_append [OF inv [unfolded Cons] refl v(1,2)]] v other Cons was show ?thesis by auto
    qed
  qed
qed

lemma dump_run_inv:
  assumes "dump_run ops view hfile hpos s ts s'" "dump_inv view hfile hpos [] (2 ^ 30) [] age s"
  shows "cs_LmDumpEnabled s' \<Longrightarrow> length ts < 2 ^ 29 \<Longrightarrow> cs_LmDumpPaths s' = cs_LmDumpPaths s \<and> cs_LmDumpModCrc s' = cs_LmDumpModCrc s \<and>
    (\<exists>slots age. dump_inv view hfile hpos (attempts ts) (2 ^ 30 + 2 * length ts) slots age s')"
  using assms(1)
proof (induction rule: dump_run.induct)
  case start
  then show ?case using assms(2) by (auto simp: attempts_def)
next
  case (recorded ts s' t u s'')
  have "cs_LmDumpEnabled s'" by (rule record_enabled [OF recorded.hyps(2) recorded.prems(1)])
  with recorded.IH recorded.prems(2) obtain slots age where "cs_LmDumpPaths s' = cs_LmDumpPaths s" "cs_LmDumpModCrc s' = cs_LmDumpModCrc s"
    "dump_inv view hfile hpos (attempts ts) (2 ^ 30 + 2 * length ts) slots age s'" by auto
  with dump_record_inv [OF this(3) _ recorded.hyps(2) recorded.prems(1)] recorded.prems(2)
  show ?case by (simp add: dump_history_append)
next
  case (others ts s' s'')
  then show ?case using dump_inv_others [OF others.hyps(2)] by (fastforce simp: dump_others_def)
qed

end


section \<open>From boot\<close>

lemma spec_c: "fmt_spec (CHR ''c'' # s) (AInt v # args) = Some ([char_of (unat v mod 256)], s, args)"
  by (simp add: fmt_spec_def fmt_width_def fmt_precision_def fmt_qualifier_def fmt_convert_def
    isdigit_def no_flags_def pad_loop_def Let_def)

lemma dump_path_eq: "i < 8 \<Longrightarrow> dump_path dir i = dir @ ''/lm_attempt_'' @ [char_of (97 + i)] @ ''.bin''"
  by (simp add: dump_path_def sprintf_def vsprintf_spec [OF spec_c] unat_of_nat unat_word_ariths take_bit_nat_eq_self)

lemma distinct_dump_paths: "distinct (map (dump_path dir) [0..<8])"
proof -
  have "i = j" if "i < 8" "j < 8" "char_of (97 + i) = (char_of (97 + j) :: char)" for i j :: nat
  proof -
    have "of_char (char_of (97 + i) :: char) = 97 + i" "of_char (char_of (97 + j) :: char) = 97 + j"
      using that(1,2) by (simp_all add: take_bit_nat_eq_self)
    with that(3) show ?thesis by simp
  qed
  then show ?thesis by (auto simp: distinct_map inj_on_def dump_path_eq)
qed

text \<open>What the start leaves: nothing open, eight paths, eight generations.\<close>

definition dump_kept :: "'s crash \<Rightarrow> 's crash \<Rightarrow> bool" where
  "dump_kept s s' \<longleftrightarrow> cs_LmDumpPaths s' = cs_LmDumpPaths s \<and> cs_LmDumpOpen s' = cs_LmDumpOpen s \<and>
     cs_LmDumpEnabled s' = cs_LmDumpEnabled s \<and> cs_LmDumpModCrc s' = cs_LmDumpModCrc s \<and>
     length (cs_LmDumpGenerations s') = length (cs_LmDumpGenerations s)"

interpretation dump_kept: frame dump_kept
  by unfold_locales (auto simp: dump_kept_def)

lemma kept_on_card: "keeps dump_kept (on_card c)"
  by (auto simp: keeps_def dump_kept_def intro: wpI)

lemma kept_slots: "keeps dump_kept (InitLmDumpSlots ops is)"
proof (induction "is")
  case Nil
  show ?case by (simp add: dump_kept.return)
next
  case (Cons i "is")
  show ?case
    unfolding InitLmDumpSlots.simps
  proof (rule dump_kept.bind [OF dump_kept.gets], rule dump_kept.bind [OF kept_on_card], rule dump_kept.bind [OF _ Cons])
    fix found :: "lm_dump_header option"
    show "keeps dump_kept (case found of None \<Rightarrow> ret ()
      | Some header \<Rightarrow> modify (\<lambda>s. s\<lparr>cs_LmDumpGenerations := (cs_LmDumpGenerations s)[i := dh_generation header],
          cs_LmDumpGeneration :=
            (if cs_LmDumpGeneration s = 0 \<or> GenerationNewer (dh_generation header) (cs_LmDumpGeneration s)
             then dh_generation header else cs_LmDumpGeneration s)\<rparr>))"
      by (cases found) (simp_all add: dump_kept.return dump_kept.modify dump_kept_def)
  qed
qed

lemma wp_InitLmDump:
  "wp (InitLmDump ops env crc staged) (\<lambda>_ s'. \<not> cs_LmDumpOpen s' \<and> cs_LmDumpModCrc s' = crc \<and> length (cs_LmDumpGenerations s') = 8 \<and>
    (cs_LmDumpEnabled s' \<longrightarrow> cs_LmDumpPaths s' = map (dump_path (dump_directory (ce_prefix env))) [0..<8])) s"
proof -
  let ?paths = "map (dump_path (dump_directory (ce_prefix env))) [0..<8]"
  let ?Q = "\<lambda>_ s'. \<not> cs_LmDumpOpen s' \<and> cs_LmDumpModCrc s' = crc \<and> length (cs_LmDumpGenerations s') = 8 \<and>
    (cs_LmDumpEnabled s' \<longrightarrow> cs_LmDumpPaths s' = ?paths)"
  have slots: "wp (InitLmDumpSlots ops is) ?Q s'" if "?Q () s'" "cs_LmDumpPaths s' = ?paths" for s' "is"
    by (rule keeps_wp [OF kept_slots]) (use that in \<open>simp add: dump_kept_def\<close>)
  have "wp (vf_mkdir ops dir) (\<lambda>result v. wp (if result \<noteq> FR_OK \<and> result \<noteq> FR_EXIST then ret ()
       else do { modify (\<lambda>s. s\<lparr>cs_LmDumpEnabled := True\<rparr>); InitLmDumpSlots ops [0..<8] }) ?Q (s'\<lparr>cs_vol := v\<rparr>)) w"
    if "?Q () s'" "cs_LmDumpPaths s' = ?paths" for s' w dir
    by (rule wpI) (use that slots in \<open>simp del: upt_rec_numeral\<close>)
  then show ?thesis by (simp add: InitLmDump_def Let_def del: upt_rec_numeral)
qed

text \<open>C24: The last attempts are on the card.  Whatever phases the game reports after the start, and whatever else the
  kernel does in between, as long as the dump is enabled (that is, no call of the file system has failed) the last eight
  attempts, or all when there are fewer, are in eight different files, each with its header and every one of its records in order.
  The generations left by earlier sessions must lie within \<open>2 ^ 30\<close> of the newest.\<close>

theorem last_attempts_on_card:
  assumes "fat_volume ops view hfile hpos" and "run_state (InitLmDump ops env crc staged) s0 = (u :: unit, s)"
    and "\<forall>i < 8. cs_LmDumpGenerations s ! i = 0 \<or> (\<exists>d < 2 ^ 30. cs_LmDumpGenerations s ! i = cs_LmDumpGeneration s - of_nat d)"
    and "dump_run ops view hfile hpos s ts s'" and "cs_LmDumpEnabled s'" and "length ts < 2 ^ 29"
  shows "\<exists>slots gens. distinct slots \<and> set slots \<subseteq> {..<8} \<and> length slots = min 8 (length (attempts ts)) \<and>
    list_all (\<lambda>k. view (cs_vol s') (dump_path (dump_directory (ce_prefix env)) (slots ! k)) =
      Some (dump_content (gens ! k) crc (attempts ts ! k))) [0..<length slots]"
proof -
  let ?gens = "cs_LmDumpGenerations s" and ?paths = "map (dump_path (dump_directory (ce_prefix env))) [0..<8]"
  from wpD [OF wp_InitLmDump assms(2)] run_enabled [OF assms(4,5)]
  have start: "\<not> cs_LmDumpOpen s" "cs_LmDumpModCrc s = crc" "length ?gens = 8" "cs_LmDumpPaths s = ?paths" by auto
  from assms(3) have "\<forall>i. \<exists>d. i < 8 \<longrightarrow> ?gens ! i \<noteq> 0 \<longrightarrow> d < 2 ^ 30 \<and> ?gens ! i = cs_LmDumpGeneration s - of_nat d" by blast
  then obtain age where age: "\<And>i. i < 8 \<Longrightarrow> ?gens ! i \<noteq> 0 \<Longrightarrow> age i < 2 ^ 30 \<and> ?gens ! i = cs_LmDumpGeneration s - of_nat (age i)"
    by metis
  have "dump_inv view hfile hpos [] (2 ^ 30) [] age s"
    using start age distinct_dump_paths by (auto simp: dump_inv_def newest_first_def simp del: upt_rec_numeral)
  from fat_volume.dump_run_inv [OF assms(1) assms(4) this assms(5,6)] start(2,4)
  obtain slots age' where paths: "cs_LmDumpPaths s' = ?paths" and crc: "cs_LmDumpModCrc s' = crc"
    and inv: "dump_inv view hfile hpos (attempts ts) (2 ^ 30 + 2 * length ts) slots age' s'" by auto
  have slots: "distinct slots" "set slots \<subseteq> {..<8}" "length slots = min 8 (length (attempts ts))"
    using inv by (auto simp: dump_inv_def newest_first_def)
  have nth: "?paths ! j = dump_path (dump_directory (ce_prefix env)) j" if "j < 8" for j
    using nth_map_upt [of j 8 0] that by simp
  have "view (cs_vol s') (dump_path (dump_directory (ce_prefix env)) (slots ! k)) =
      Some (dump_content (map ((!) (cs_LmDumpGenerations s')) slots ! k) crc (attempts ts ! k))" if "k < length slots" for k
  proof -
    have "view (cs_vol s') (cs_LmDumpPaths s' ! (slots ! k)) =
        Some (dump_content (cs_LmDumpGenerations s' ! (slots ! k)) (cs_LmDumpModCrc s') (attempts ts ! k))"
      using inv that by (simp only: dump_inv_def)
    then show ?thesis using that by (simp only: paths crc nth [OF nth_below [OF slots(2) that]] nth_map)
  qed
  with slots show ?thesis by (auto simp: list_all_iff intro!: exI [of _ slots] exI [of _ "map ((!) (cs_LmDumpGenerations s')) slots"])
qed


definition crash_demo_env :: crash_env where
  "crash_demo_env = \<lparr>ce_game_id = SUSAMUNE_MOD_GAME_ID_LMJ, ce_prefix = ''1:'', ce_available = True\<rparr>"

definition crash_demo_start :: "map_volume crash" where
  "crash_demo_start = \<lparr>cs_Snapshot = [], cs_BinPaths = [], cs_TextPaths = [], cs_LmDumpPaths = [], cs_LmDumpGenerations = [],
     cs_LmDumpDirectory = [], cs_AttemptedSeq = 0, cs_LastPoll = 0, cs_LastPhaseSequence = 0, cs_LastCriticalPhaseSequence = 0,
     cs_LastCriticalDropped = 0, cs_LmDumpGeneration = 0, cs_LmDumpModCrc = 0, cs_CrashEnabled = True, cs_LmDumpEnabled = False,
     cs_LmDumpOpen = False, cs_mailbox = [], cs_trace = warp_trace, cs_ring = blank_ring, cs_view = blank_ring, cs_mod = [], cs_log = [],
     cs_vol = \<lparr>mv_files = (\<lambda>p. None), mv_objects = (\<lambda>h. None), mv_sizes = (\<lambda>h. 0), mv_listing = (\<lambda>p. []), mv_dirs = (\<lambda>h. []), mv_faults = []\<rparr>\<rparr>"

definition crash_demo_save :: phase_trace where
  "crash_demo_save = warp_trace\<lparr>pt_action := SUSAMUNE_PHASE_ACTION_SAVE, pt_phase := 0x7F, pt_phaseInverse := NOT 0x7F\<rparr>"

definition crash_demo_init :: "map_volume crash" where
  "crash_demo_init = snd (run_state (InitLmDump map_ops crash_demo_env 7 True) crash_demo_start)"

definition crash_demo_end :: "map_volume crash" where
  "crash_demo_end = snd (run_state (RecordLmDump map_ops crash_demo_save) crash_demo_init)"

lemma crash_demo_runs: "cs_LmDumpGenerations crash_demo_init = replicate 8 0" "cs_LmDumpEnabled crash_demo_end"
  by code_simp+

lemma last_attempts_on_card_witness:
  "\<exists>slots gens. distinct slots \<and> set slots \<subseteq> {..<8} \<and> length slots = 1 \<and>
    list_all (\<lambda>k. mv_files (cs_vol crash_demo_end) (dump_path (dump_directory ''1:'') (slots ! k)) =
      Some (dump_content (gens ! k) 7 ([[crash_demo_save]] ! k))) [0..<length slots]"
proof -
  have "attempts [crash_demo_save] = [[crash_demo_save]]"
    by (simp add: attempts_def save_complete_def crash_demo_save_def)
  moreover have "dump_run map_ops mv_files mv_hfile mv_hpos crash_demo_init [crash_demo_save] crash_demo_end"
    using dump_run.recorded [OF dump_run.start, of map_ops crash_demo_save crash_demo_init "()" crash_demo_end mv_files mv_hfile mv_hpos]
    by (simp add: crash_demo_end_def prod_eq_iff)
  moreover have "run_state (InitLmDump map_ops crash_demo_env 7 True) crash_demo_start = ((), crash_demo_init)"
    by (simp add: crash_demo_init_def prod_eq_iff)
  ultimately show ?thesis
    using last_attempts_on_card [OF map_fs.fat_volume_axioms, of crash_demo_env 7 True crash_demo_start "()" crash_demo_init
      "[crash_demo_save]" crash_demo_end] crash_demo_runs
    by (simp add: crash_demo_env_def del: upt_rec_numeral)
qed

end
