(* ===== verification/CrashService.thy ===== *)
theory CrashService
  imports CrashHistory
begin

text \<open>
  The rest of \<open>launcher/kernel/SusamuneCrash.c\<close>: the poll that takes phase records out of the ring and the trace and
  gives them to the dump and the log, the set-up at boot, and the service that writes a crash report to the card.
\<close>

section \<open>Phase records\<close>

definition PhaseActionName :: "u32 \<Rightarrow> string" where
  "PhaseActionName act =
     (if act = SUSAMUNE_PHASE_ACTION_SAVE then ''save''
      else if act = SUSAMUNE_PHASE_ACTION_LOAD then ''load''
      else if act = SUSAMUNE_PHASE_ACTION_POST_LOAD then ''post-load''
      else if act = SUSAMUNE_PHASE_ACTION_WARP then ''warp''
      else ''unknown'')"

definition LMEpochFieldName :: "u32 \<Rightarrow> string" where
  "LMEpochFieldName m =
     (if m AND push_bit 0 1 \<noteq> 0 then ''MAPV''
      else if m AND push_bit 1 1 \<noteq> 0 then ''SCNV''
      else if m AND push_bit 2 1 \<noteq> 0 then ''SCNP''
      else if m AND push_bit 3 1 \<noteq> 0 then ''PEND''
      else if m AND push_bit 4 1 \<noteq> 0 then ''LOOP''
      else if m AND push_bit 5 1 \<noteq> 0 then ''AUDS''
      else if m AND push_bit 6 1 \<noteq> 0 then ''MARC''
      else if m AND push_bit 7 1 \<noteq> 0 then ''VOLN''
      else if m AND push_bit 8 1 \<noteq> 0 then ''VOLH''
      else if m AND push_bit 9 1 \<noteq> 0 then ''VOLT''
      else if m AND push_bit 10 1 \<noteq> 0 then ''MISS''
      else if m AND push_bit 11 1 \<noteq> 0 then ''GMOD''
      else if m AND push_bit 12 1 \<noteq> 0 then ''SIMP''
      else if m AND push_bit 13 1 \<noteq> 0 then ''MCOL''
      else if m AND push_bit 14 1 \<noteq> 0 then ''ENTY''
      else if m AND push_bit 15 1 \<noteq> 0 then ''HEAP''
      else if m AND push_bit 16 1 \<noteq> 0 then ''HBEG''
      else if m AND push_bit 17 1 \<noteq> 0 then ''HEND''
      else if m AND push_bit 18 1 \<noteq> 0 then ''ROOT''
      else if m AND push_bit 19 1 \<noteq> 0 then ''SYSP''
      else if m AND push_bit 20 1 \<noteq> 0 then ''AUDO''
      else if m AND push_bit 21 1 \<noteq> 0 then ''DRAW''
      else ''NONE'')"

text \<open>Critical records come from the ring and, while the ring is not in use, from the trace as well; each is taken once.\<close>

definition EmitPhaseTrace :: "'s volume \<Rightarrow> phase_trace \<Rightarrow> ('s crash, unit) state" where
  "EmitPhaseTrace ops snapshot = do {
     latest \<leftarrow> gets cs_LastCriticalPhaseSequence;
     if LmPhaseCritical snapshot \<and> latest \<noteq> 0 \<and> \<not> GenerationNewer (pt_sequenceBegin snapshot) latest then ret ()
     else do {
       modify (\<lambda>s. if LmPhaseCritical snapshot then s\<lparr>cs_LastCriticalPhaseSequence := pt_sequenceBegin snapshot\<rparr> else s);
       modify (\<lambda>s. s\<lparr>cs_LastPhaseSequence := pt_sequenceBegin snapshot\<rparr>);
       RecordLmDump ops snapshot;
       if pt_action snapshot = SUSAMUNE_PHASE_ACTION_LOAD \<and> pt_phase snapshot AND 0x80000000 \<noteq> 0 then do {
         let m = pt_phase snapshot AND 0x003FFFFF;
         let guard = drop_bit 22 (pt_phase snapshot AND 0x3FC00000);
         dbgprintf (''Susamune: epoch guard=X%02X mask=%08X first=%s '' @ ''saved=%08X live=%08X'' @ eol)
           [AInt guard, AInt m, AStr (LMEpochFieldName m), AInt (pt_arg0 snapshot), AInt (pt_arg1 snapshot)]
       }
       else dbgprintf (''Susamune: phase seq=%u action=%s(%u) phase=%02X '' @ ''arg0=%08X arg1=%08X'' @ eol)
         [AInt (pt_sequenceBegin snapshot), AStr (PhaseActionName (pt_action snapshot)), AInt (pt_action snapshot),
          AInt (pt_phase snapshot), AInt (pt_arg0 snapshot), AInt (pt_arg1 snapshot)]
     }
   }"

text \<open>An operation of the ring, on the kernel's view of it.\<close>

definition on_ring :: "(critical_ring \<Rightarrow> 'a proc) \<Rightarrow> ('s crash, 'a) state" where
  "on_ring p = State (\<lambda>s. case run_alone (p (cs_view s)) (cs_ring s) of
     (ram, view, x) \<Rightarrow> (x, s\<lparr>cs_ring := ram, cs_view := view\<rparr>))"

definition CriticalEnrolled :: "critical_ring \<Rightarrow> bool proc" where
  "CriticalEnrolled ring = Invalidate Producer ring (\<lambda>ring.
     Ret ring (LmCriticalControlValid (cr_consumer ring) \<and> LmCriticalControlValid (cr_producer ring)))"

text \<open>At most \<open>n\<close> records of the ring.  What a peek leaves in \<open>snapshot\<close> when it finds none is not read.\<close>

fun PollCritical :: "'s volume \<Rightarrow> nat \<Rightarrow> ('s crash, unit) state" where
  "PollCritical ops 0 = ret ()"
| "PollCritical ops (Suc n) = do {
     old \<leftarrow> gets cs_trace;
     (found, snapshot) \<leftarrow> on_ring (\<lambda>ring. LmCriticalPeek ring old);
     if \<not> found then ret ()
     else do {
       EmitPhaseTrace ops snapshot;
       on_ring LmCriticalAcknowledge;
       PollCritical ops n
     }
   }"

definition PollPhaseTrace :: "'s volume \<Rightarrow> crash_env \<Rightarrow> ('s crash, unit) state" where
  "PollPhaseTrace ops env = do {
     enrolled \<leftarrow> (if ce_game_id env = SUSAMUNE_MOD_GAME_ID_LMJ then on_ring CriticalEnrolled else ret False);
     (if enrolled then do {
        dropped \<leftarrow> gets (\<lambda>s. cc_dropped (cr_producer (cs_view s)));
        known \<leftarrow> gets cs_LastCriticalDropped;
        (if dropped \<noteq> known then do {
           modify (\<lambda>s. s\<lparr>cs_LastCriticalDropped := dropped\<rparr>);
           dbgprintf (''Susamune: critical phase queue overflow dropped=%u'' @ eol) [AInt dropped]
         } else ret ());
        PollCritical ops 4
      } else ret ());
     snapshot \<leftarrow> gets cs_trace;
     enrolled \<leftarrow> (if ce_game_id env = SUSAMUNE_MOD_GAME_ID_LMJ then on_ring CriticalEnrolled else ret False);
     view \<leftarrow> gets cs_view;
     latest \<leftarrow> gets cs_LastPhaseSequence;
     if enrolled \<and> (cc_cursor (cr_producer view) \<noteq> cc_cursor (cr_consumer view) \<or> LmPhaseCritical snapshot) then ret ()
     else if \<not> ValidPhaseTrace snapshot \<or> latest \<noteq> 0 \<and> \<not> GenerationNewer (pt_sequenceBegin snapshot) latest then ret ()
     else EmitPhaseTrace ops snapshot
   }"

section \<open>Boot\<close>

text \<open>The file staged by the loader: a header of eight words (\<open>include/susamune/mod_bin.h\<close>), the code, the hook writes
  and, for the game of this file, a checksum of all of it.\<close>

abbreviation SUSAMUNE_MOD_STAGED_FILE_MAX_SIZE :: u32 where "SUSAMUNE_MOD_STAGED_FILE_MAX_SIZE \<equiv> 0x5F000"
abbreviation SUSAMUNE_MOD_HEADER_SIZE :: u32 where "SUSAMUNE_MOD_HEADER_SIZE \<equiv> 32"

definition mod_word :: "bytes \<Rightarrow> string \<Rightarrow> u32" where
  "mod_word m f = word_at m (field_offset [(''magic'', 4), (''version'', 4), (''gameId'', 4), (''baseAddr'', 4), (''codeSize'', 4),
     (''writeCount'', 4), (''arenaReserve'', 4), (''fileSize'', 4)] f)"

definition SUSAMUNE_MOD_BASE_FOR_GAME_ID :: "u32 \<Rightarrow> u32" where
  "SUSAMUNE_MOD_BASE_FOR_GAME_ID gameId =
     (if gameId = 0x474D534A then 0x80426020
      else if gameId = 0x474D5345 then 0x80429800
      else if gameId = 0x474D5350 then 0x80420D60
      else if gameId = SUSAMUNE_MOD_GAME_ID_LMJ then 0x804B8400
      else 0)"

definition SUSAMUNE_MOD_VERSION_FOR_GAME_ID :: "u32 \<Rightarrow> u32" where
  "SUSAMUNE_MOD_VERSION_FOR_GAME_ID gameId = (if gameId = SUSAMUNE_MOD_GAME_ID_LMJ then 2 else 1)"

definition ModFileCrc :: "bytes \<Rightarrow> u32" where
  "ModFileCrc m = BytesCrc (take (unat (mod_word m ''fileSize'')) m)"

definition ValidStagedMod :: "crash_env \<Rightarrow> bytes \<Rightarrow> bool" where
  "ValidStagedMod env m =
     (let h = mod_word m; id = ce_game_id env in
      if h ''magic'' \<noteq> 0x534D4F44 \<or> h ''version'' \<noteq> SUSAMUNE_MOD_VERSION_FOR_GAME_ID id \<or> h ''gameId'' \<noteq> id \<or>
         h ''baseAddr'' \<noteq> SUSAMUNE_MOD_BASE_FOR_GAME_ID id \<or> h ''arenaReserve'' \<noteq> 0x82000 \<or> h ''codeSize'' > 0x50000 \<or>
         h ''codeSize'' > SUSAMUNE_MOD_STAGED_FILE_MAX_SIZE - SUSAMUNE_MOD_HEADER_SIZE \<or> h ''codeSize'' AND 3 \<noteq> 0
      then False
      else let codeEnd = SUSAMUNE_MOD_HEADER_SIZE + h ''codeSize'';
               recordSize = (if h ''version'' = 2 then 12 else 8);
               footerSize = (if h ''version'' = 2 then 4 else 0) in
      if codeEnd > SUSAMUNE_MOD_STAGED_FILE_MAX_SIZE - footerSize then False
      else if h ''writeCount'' > (SUSAMUNE_MOD_STAGED_FILE_MAX_SIZE - codeEnd - footerSize) div recordSize then False
      else let recordsEnd = codeEnd + h ''writeCount'' * recordSize in
      if h ''fileSize'' \<noteq> recordsEnd + footerSize \<or> h ''fileSize'' > SUSAMUNE_MOD_STAGED_FILE_MAX_SIZE then False
      else if h ''version'' \<noteq> 2 then True
      else BytesCrc (take (unat recordsEnd) m) = word_at m (unat recordsEnd))"

text \<open>The report of the file at \<open>path\<close>, if the C function returns true.\<close>

definition ReadReport :: "'s volume \<Rightarrow> string \<Rightarrow> ('s, bytes option) state" where
  "ReadReport ops path = do {
     result \<leftarrow> vf_open ops FIL_report path OpenRead;
     if result \<noteq> FR_OK then ret None
     else do {
       (result, bytes) \<leftarrow> vf_read ops FIL_report SUSAMUNE_CRASH_REPORT_SIZE;
       closeRet \<leftarrow> vf_close ops FIL_report;
       ret (if result = FR_OK \<and> closeRet = FR_OK \<and> length bytes = SUSAMUNE_CRASH_REPORT_SIZE \<and> ValidReport bytes
            then Some bytes else None)
     }
   }"

definition crash_paths :: "crash_env \<Rightarrow> string \<Rightarrow> string list" where
  "crash_paths env ext =
     (let name = (if ce_game_id env = SUSAMUNE_MOD_GAME_ID_LMJ then ''luigis_mansion_crash'' else ''susamune_crash'')
      in [sprintf (''%s/'' @ name @ ''_a.'' @ ext) [AStr (ce_prefix env)],
          sprintf (''%s/'' @ name @ ''_b.'' @ ext) [AStr (ce_prefix env)]])"

definition rep_put :: "string \<Rightarrow> bytes \<Rightarrow> bytes \<Rightarrow> bytes" where
  "rep_put f b r = (let i = field_offset crash_fields f in take i r @ b @ drop (i + length b) r)"

definition zero_control :: critical_control where
  "zero_control = \<lparr>cc_magic = 0, cc_version = 0, cc_cursor = 0, cc_cursorInverse = 0, cc_dropped = 0, cc_droppedInverse = 0,
     cc_reserved0 = 0, cc_reserved1 = 0\<rparr>"

definition zero_trace :: phase_trace where
  "zero_trace = \<lparr>pt_magic = 0, pt_sequenceBegin = 0, pt_action = 0, pt_phase = 0, pt_phaseInverse = 0, pt_arg0 = 0, pt_arg1 = 0,
     pt_sequenceEnd = 0\<rparr>"

definition zero_ring :: critical_ring where
  "zero_ring = \<lparr>cr_producer = zero_control, cr_consumer = zero_control, cr_entries = replicate 32 zero_trace\<rparr>"

definition latest_generation :: "'s volume \<Rightarrow> string \<Rightarrow> u32 \<Rightarrow> ('s, u32) state" where
  "latest_generation ops path generation = do {
     report \<leftarrow> ReadReport ops path;
     ret (case report of None \<Rightarrow> generation
        | Some r \<Rightarrow> if GenerationNewer (rep_word r ''captureSeq'') generation then rep_word r ''captureSeq'' else generation)
   }"

text \<open>The game does not run yet, so the window of the mailbox, the trace and the ring is the kernel's alone until the
  \<open>sync_after_write\<close> at the end.\<close>

definition SusamuneCrashInit :: "'s volume \<Rightarrow> crash_env \<Rightarrow> u32 \<Rightarrow> ('s crash, unit) state" where
  "SusamuneCrashInit ops env now = do {
     modify (\<lambda>s. s\<lparr>cs_mailbox := replicate SUSAMUNE_CRASH_REPORT_SIZE 0, cs_trace := zero_trace, cs_view := zero_ring\<rparr>);
     modify (\<lambda>s. s\<lparr>cs_CrashEnabled := ce_available env, cs_AttemptedSeq := 0, cs_LastPhaseSequence := 0,
       cs_LastCriticalPhaseSequence := 0, cs_LastCriticalDropped := 0, cs_LastPoll := now,
       cs_BinPaths := crash_paths env ''bin'', cs_TextPaths := crash_paths env ''txt''\<rparr>);
     generation \<leftarrow> (if ce_available env then do {
         g \<leftarrow> on_card (latest_generation ops (crash_paths env ''bin'' ! 0) 0);
         on_card (latest_generation ops (crash_paths env ''bin'' ! 1) g)
       } else ret 0);
     let seq = (if generation + 1 = 0 then 1 else generation + 1);
     modify (\<lambda>s. s\<lparr>cs_mailbox :=
       (rep_put ''gameId'' (be32 (ce_game_id env)) \<circ> rep_put ''captureSeq'' (be32 seq) \<circ>
        rep_put ''state'' (be32 (if ce_available env then 1 else 0)) \<circ>
        rep_put ''reportSize'' (be16 (of_nat SUSAMUNE_CRASH_REPORT_SIZE)) \<circ> rep_put ''version'' (be16 1) \<circ>
        rep_put ''magic'' (be32 SUSAMUNE_CRASH_MAGIC)) (cs_mailbox s)\<rparr>);
     m \<leftarrow> gets cs_mod;
     let stagedModValid = ValidStagedMod env m;
     modify (\<lambda>s. if stagedModValid then s\<lparr>cs_mailbox :=
       (rep_put ''arenaReserve'' (be32 (mod_word m ''arenaReserve'')) \<circ> rep_put ''modWriteCount'' (be32 (mod_word m ''writeCount'')) \<circ>
        rep_put ''modCodeSize'' (be32 (mod_word m ''codeSize'')) \<circ> rep_put ''modFileSize'' (be32 (mod_word m ''fileSize'')) \<circ>
        rep_put ''modFileCrc32'' (be32 (ModFileCrc m))) (cs_mailbox s)\<rparr> else s);
     InitLmDump ops env (if stagedModValid then ModFileCrc m else 0) stagedModValid;
     (if ce_game_id env = SUSAMUNE_MOD_GAME_ID_LMJ then on_ring LmCriticalInit else ret ());
     modify (\<lambda>s. s\<lparr>cs_ring := cs_view s\<rparr>)
   }"

section \<open>Reports\<close>

definition TimerDiffTicks :: "u32 \<Rightarrow> u32 \<Rightarrow> u32" where
  "TimerDiffTicks curtime time = (if time > curtime then 0xFFFFFFFF else curtime - time)"

text \<open>Whether there is a report to be written; \<open>now\<close> and \<open>then\<close> are the two reads of the timer.\<close>

definition SusamuneCrashPending :: "'s volume \<Rightarrow> crash_env \<Rightarrow> u32 \<Rightarrow> u32 \<Rightarrow> ('s crash, bool) state" where
  "SusamuneCrashPending ops env now later = do {
     enabled \<leftarrow> gets cs_CrashEnabled;
     polled \<leftarrow> gets cs_LastPoll;
     if \<not> enabled then ret False
     else if TimerDiffTicks now polled < 15820 then ret False
     else do {
       modify (\<lambda>s. s\<lparr>cs_LastPoll := later\<rparr>);
       PollPhaseTrace ops env;
       mailbox \<leftarrow> gets cs_mailbox;
       attempted \<leftarrow> gets cs_AttemptedSeq;
       ret (rep_word mailbox ''magic'' = SUSAMUNE_CRASH_MAGIC \<and> rep_half mailbox ''version'' = 1 \<and>
         rep_half mailbox ''reportSize'' = of_nat SUSAMUNE_CRASH_REPORT_SIZE \<and>
         rep_word mailbox ''state'' = SUSAMUNE_CRASH_STATE_READY \<and> rep_word mailbox ''captureSeq'' \<noteq> attempted)
     }
   }"

text \<open>The number of a result, for the log.\<close>

definition fresult_code :: "fresult \<Rightarrow> u32" where
  "fresult_code r = (case r of FR_OK \<Rightarrow> 0 | FR_DISK_ERR \<Rightarrow> 1 | FR_INT_ERR \<Rightarrow> 2 | FR_NOT_READY \<Rightarrow> 3 | FR_NO_FILE \<Rightarrow> 4
     | FR_NO_PATH \<Rightarrow> 5 | FR_INVALID_NAME \<Rightarrow> 6 | FR_DENIED \<Rightarrow> 7 | FR_EXIST \<Rightarrow> 8 | FR_INVALID_OBJECT \<Rightarrow> 9
     | FR_WRITE_PROTECTED \<Rightarrow> 10 | FR_INVALID_DRIVE \<Rightarrow> 11 | FR_NOT_ENABLED \<Rightarrow> 12 | FR_NO_FILESYSTEM \<Rightarrow> 13
     | FR_MKFS_ABORTED \<Rightarrow> 14 | FR_TIMEOUT \<Rightarrow> 15 | FR_LOCKED \<Rightarrow> 16 | FR_NOT_ENOUGH_CORE \<Rightarrow> 17
     | FR_TOO_MANY_OPEN_FILES \<Rightarrow> 18 | FR_INVALID_PARAMETER \<Rightarrow> 19)"

text \<open>A write whose status is carried: after a failure nothing more is written.\<close>

definition Emit_text :: "'s volume \<Rightarrow> string \<Rightarrow> fresult \<Rightarrow> ('s, fresult) state" where
  "Emit_text ops line status =
     (if status \<noteq> FR_OK then ret status
      else do {
        (status, wrote) \<leftarrow> vf_write ops FIL_text (octets line);
        ret (if status = FR_OK \<and> wrote \<noteq> length line then FR_DISK_ERR else status)
      })"

fun emit_all :: "'s volume \<Rightarrow> string list \<Rightarrow> fresult \<Rightarrow> ('s, fresult) state" where
  "emit_all ops [] status = ret status"
| "emit_all ops (line # lines) status = do { status \<leftarrow> Emit_text ops line status; emit_all ops lines status }"

definition finish_file :: "'s volume \<Rightarrow> nat \<Rightarrow> fresult \<Rightarrow> ('s, fresult) state" where
  "finish_file ops h status = do {
     status \<leftarrow> (if status = FR_OK then vf_sync ops h else ret status);
     closeRet \<leftarrow> vf_close ops h;
     ret (if status = FR_OK \<and> closeRet \<noteq> FR_OK then closeRet else status)
   }"

definition WriteText :: "'s volume \<Rightarrow> string \<Rightarrow> bytes \<Rightarrow> ('s, fresult) state" where
  "WriteText ops path snapshot = do {
     status \<leftarrow> vf_open ops FIL_text path OpenCreateAlways;
     if status \<noteq> FR_OK then ret status
     else do {
       status \<leftarrow> emit_all ops (report_text snapshot) FR_OK;
       finish_file ops FIL_text status
     }
   }"

definition write_report :: "'s volume \<Rightarrow> string \<Rightarrow> bytes \<Rightarrow> ('s, fresult) state" where
  "write_report ops path snapshot = do {
     status \<leftarrow> vf_open ops FIL_report path OpenCreateAlways;
     if status \<noteq> FR_OK then ret status
     else do {
       (status, wrote) \<leftarrow> vf_write ops FIL_report snapshot;
       finish_file ops FIL_report (if status = FR_OK \<and> wrote \<noteq> length snapshot then FR_DISK_ERR else status)
     }
   }"

definition SusamuneCrashService :: "'s volume \<Rightarrow> ('s crash, unit) state" where
  "SusamuneCrashService ops = do {
     modify (\<lambda>s. s\<lparr>cs_Snapshot := cs_mailbox s, cs_AttemptedSeq := rep_word (cs_mailbox s) ''captureSeq''\<rparr>);
     snapshot \<leftarrow> gets cs_Snapshot;
     if \<not> ValidReport snapshot then dbgprintf (''Susamune: rejected invalid crash capture'' @ eol) []
     else do {
       let target = unat (rep_word snapshot ''captureSeq'' AND 1);
       bin \<leftarrow> gets (\<lambda>s. cs_BinPaths s ! target);
       text_path \<leftarrow> gets (\<lambda>s. cs_TextPaths s ! target);
       result \<leftarrow> on_card (write_report ops bin snapshot);
       if result \<noteq> FR_OK then dbgprintf (''Susamune: crash binary write failed (%d)'' @ eol) [AInt (fresult_code result)]
       else do {
         result \<leftarrow> on_card (WriteText ops text_path snapshot);
         if result \<noteq> FR_OK then dbgprintf (''Susamune: crash text write failed (%d)'' @ eol) [AInt (fresult_code result)]
         else dbgprintf (''Susamune: crash report saved (%u, %s)'' @ eol)
           [AInt (rep_word snapshot ''captureSeq''), AStr text_path]
       }
     }
   }"

end
