(* ===== verification/CrashSaved.thy ===== *)
theory CrashSaved
  imports CrashService
begin

text \<open>
  What a crash report leaves on the card, and how the poll and the service belong to a session of the dump: a poll is a
  run of records, and the service is one of the things that may happen between two records.
\<close>

section \<open>One file\<close>

text \<open>From \<open>v\<close> to \<open>w\<close> only the file \<open>p\<close> and the file object \<open>h\<close> have changed.\<close>

definition touches :: "('s \<Rightarrow> string \<Rightarrow> bytes option) \<Rightarrow> ('s \<Rightarrow> nat \<Rightarrow> string option) \<Rightarrow> ('s \<Rightarrow> nat \<Rightarrow> nat) \<Rightarrow>
    string \<Rightarrow> nat \<Rightarrow> 's \<Rightarrow> 's \<Rightarrow> bool" where
  "touches view hfile hpos p h v w \<longleftrightarrow> (\<forall>q. q \<noteq> p \<longrightarrow> view w q = view v q) \<and>
     (\<forall>k. k \<noteq> h \<longrightarrow> hfile w k = hfile v k \<and> hpos w k = hpos v k)"

lemma touches_trans: "touches view hfile hpos p h u v \<Longrightarrow> touches view hfile hpos p h v w \<Longrightarrow> touches view hfile hpos p h u w"
  by (simp add: touches_def)

definition written_at :: "('s \<Rightarrow> string \<Rightarrow> bytes option) \<Rightarrow> ('s \<Rightarrow> nat \<Rightarrow> string option) \<Rightarrow> ('s \<Rightarrow> nat \<Rightarrow> nat) \<Rightarrow>
    nat \<Rightarrow> 's \<Rightarrow> string \<Rightarrow> bytes \<Rightarrow> bool" where
  "written_at view hfile hpos h v p b \<longleftrightarrow> hfile v h = Some p \<and> view v p = Some b \<and> hpos v h = length b"

context fat_volume
begin

lemma wp_create:
  "wp (vf_open ops h p OpenCreateAlways) (\<lambda>r w. touches view hfile hpos p h v w \<and> (r = FR_OK \<longrightarrow> written_at view hfile hpos h w p [])) v"
proof (rule wpI)
  fix r w
  assume run: "run_state (vf_open ops h p OpenCreateAlways) v = (r, w)"
  show "touches view hfile hpos p h v w \<and> (r = FR_OK \<longrightarrow> written_at view hfile hpos h w p [])"
    using open_frame [OF run] open_others [OF run] open_handle open_create run by (fastforce simp: touches_def written_at_def)
qed

lemma wp_append:
  assumes "written_at view hfile hpos h v p b"
  shows "wp (vf_write ops h d) (\<lambda>(r, n) w. touches view hfile hpos p h v w \<and>
    (r = FR_OK \<and> n = length d \<longrightarrow> written_at view hfile hpos h w p (b @ d))) v"
proof (rule wpI)
  fix x w
  assume run: "run_state (vf_write ops h d) v = (x, w)"
  obtain r n where x: "x = (r, n)" by fastforce
  have "written_at view hfile hpos h w p (b @ d)" if "r = FR_OK" "n = length d"
    using write_data [OF run [unfolded x that]] write_frame [OF run] assms by (auto simp: written_at_def)
  then show "(\<lambda>(r, n) w. touches view hfile hpos p h v w \<and>
    (r = FR_OK \<and> n = length d \<longrightarrow> written_at view hfile hpos h w p (b @ d))) x w"
    using write_frame [OF run] write_pos [OF run] assms by (auto simp: x touches_def written_at_def)
qed

lemma wp_finish:
  "wp (finish_file ops h st) (\<lambda>r w. touches view hfile hpos p h v w \<and> view w p = view v p \<and> (r = FR_OK \<longrightarrow> st = FR_OK)) v"
proof -
  let ?Q = "\<lambda>r w. touches view hfile hpos p h v w \<and> view w p = view v p \<and> (r = FR_OK \<longrightarrow> st = FR_OK)"
  have closed: "wp (do { c \<leftarrow> vf_close ops h; ret (if r = FR_OK \<and> c \<noteq> FR_OK then c else r) }) ?Q u"
    if "touches view hfile hpos p h v u" "view u p = view v p" "r = FR_OK \<Longrightarrow> st = FR_OK" for u r
    unfolding wp_bind
  proof (rule wpI)
    fix c w
    assume run: "run_state (vf_close ops h) u = (c, w)"
    show "wp (ret (if r = FR_OK \<and> c \<noteq> FR_OK then c else r)) ?Q w"
      unfolding wp_return using close_view [OF run] that by (auto simp: touches_def split: if_splits)
  qed
  have refl: "touches view hfile hpos p h v v" by (simp add: touches_def)
  have "wp (if st = FR_OK then vf_sync ops h else ret st)
    (\<lambda>r u. touches view hfile hpos p h v u \<and> view u p = view v p \<and> (r = FR_OK \<longrightarrow> st = FR_OK)) v"
    using refl by (auto intro!: wpI dest!: sync_view simp: touches_def)
  then show ?thesis unfolding finish_file_def wp_bind [of "if st = FR_OK then vf_sync ops h else ret st"]
    by (rule wp_mono) (use closed in blast)
qed

lemma wp_emit:
  assumes "st = FR_OK \<Longrightarrow> written_at view hfile hpos FIL_text v p b"
  shows "wp (emit_all ops lines st) (\<lambda>r w. touches view hfile hpos p FIL_text v w \<and>
    (r = FR_OK \<longrightarrow> st = FR_OK \<and> written_at view hfile hpos FIL_text w p (b @ octets (concat lines)))) v"
  using assms
proof (induction lines arbitrary: st v b)
  case Nil
  then show ?case by (simp add: touches_def)
next
  case (Cons line lines)
  show ?case
  proof (cases "st = FR_OK")
    case True
    have "wp (vf_write ops FIL_text (octets line)) (\<lambda>(r, n) u. wp (emit_all ops lines (if r = FR_OK \<and> n \<noteq> length line then FR_DISK_ERR else r))
      (\<lambda>r w. touches view hfile hpos p FIL_text v w \<and>
        (r = FR_OK \<longrightarrow> st = FR_OK \<and> written_at view hfile hpos FIL_text w p (b @ octets (concat (line # lines))))) u) v"
    proof (rule wp_mono [OF wp_append [OF Cons.prems [OF True]]], clarify)
      fix r n u
      assume u: "touches view hfile hpos p FIL_text v u"
        "r = FR_OK \<and> n = length (octets line) \<longrightarrow> written_at view hfile hpos FIL_text u p (b @ octets line)"
      show "wp (emit_all ops lines (if r = FR_OK \<and> n \<noteq> length line then FR_DISK_ERR else r))
        (\<lambda>r w. touches view hfile hpos p FIL_text v w \<and>
          (r = FR_OK \<longrightarrow> st = FR_OK \<and> written_at view hfile hpos FIL_text w p (b @ octets (concat (line # lines))))) u"
        by (rule wp_mono [OF Cons.IH [of _ _ "b @ octets line"]])
          (use u True in \<open>auto split: if_splits intro: touches_trans\<close>)
    qed
    then show ?thesis using True by (simp add: Emit_text_def case_prod_unfold)
  next
    case False
    have "wp (emit_all ops lines st) (\<lambda>r w. touches view hfile hpos p FIL_text v w \<and>
      (r = FR_OK \<longrightarrow> st = FR_OK \<and> written_at view hfile hpos FIL_text w p (b @ octets (concat lines)))) v"
      by (rule Cons.IH) (rule Cons.prems)
    with False show ?thesis by (simp add: Emit_text_def)
  qed
qed

lemma wp_WriteText:
  "wp (WriteText ops p r) (\<lambda>st w. touches view hfile hpos p FIL_text v w \<and>
    (st = FR_OK \<longrightarrow> view w p = Some (octets (concat (report_text r))))) v"
  unfolding WriteText_def wp_bind
proof (rule wp_mono [OF wp_create], elim conjE)
  fix st u
  assume u: "touches view hfile hpos p FIL_text v u" "st = FR_OK \<longrightarrow> written_at view hfile hpos FIL_text u p []"
  show "wp (if st \<noteq> FR_OK then ret st else do { st \<leftarrow> emit_all ops (report_text r) FR_OK; finish_file ops FIL_text st })
    (\<lambda>st w. touches view hfile hpos p FIL_text v w \<and> (st = FR_OK \<longrightarrow> view w p = Some (octets (concat (report_text r))))) u"
  proof (cases "st = FR_OK")
    case True
    have "wp (do { st \<leftarrow> emit_all ops (report_text r) FR_OK; finish_file ops FIL_text st })
      (\<lambda>st w. touches view hfile hpos p FIL_text v w \<and> (st = FR_OK \<longrightarrow> view w p = Some (octets (concat (report_text r))))) u"
      unfolding wp_bind
    proof (rule wp_mono [OF wp_emit], use u True in blast, elim conjE)
      fix st' x
      assume x: "touches view hfile hpos p FIL_text u x"
        "st' = FR_OK \<longrightarrow> FR_OK = FR_OK \<and> written_at view hfile hpos FIL_text x p ([] @ octets (concat (report_text r)))"
      show "wp (finish_file ops FIL_text st')
        (\<lambda>st w. touches view hfile hpos p FIL_text v w \<and> (st = FR_OK \<longrightarrow> view w p = Some (octets (concat (report_text r))))) x"
        by (rule wp_mono [OF wp_finish [where p = p]]) (use u x in \<open>auto simp: written_at_def intro: touches_trans\<close>)
    qed
    with True show ?thesis by simp
  qed (use u in simp)
qed

lemma wp_write_report:
  "wp (write_report ops p r) (\<lambda>st w. touches view hfile hpos p FIL_report v w \<and> (st = FR_OK \<longrightarrow> view w p = Some r)) v"
  unfolding write_report_def wp_bind
proof (rule wp_mono [OF wp_create], elim conjE)
  fix st u
  assume u: "touches view hfile hpos p FIL_report v u" "st = FR_OK \<longrightarrow> written_at view hfile hpos FIL_report u p []"
  show "wp (if st \<noteq> FR_OK then ret st else do { (st, n) \<leftarrow> vf_write ops FIL_report r;
      finish_file ops FIL_report (if st = FR_OK \<and> n \<noteq> length r then FR_DISK_ERR else st) })
    (\<lambda>st w. touches view hfile hpos p FIL_report v w \<and> (st = FR_OK \<longrightarrow> view w p = Some r)) u"
  proof (cases "st = FR_OK")
    case True
    have "wp (vf_write ops FIL_report r) (\<lambda>(st, n). wp (finish_file ops FIL_report (if st = FR_OK \<and> n \<noteq> length r then FR_DISK_ERR else st))
      (\<lambda>st w. touches view hfile hpos p FIL_report v w \<and> (st = FR_OK \<longrightarrow> view w p = Some r))) u"
    proof (rule wp_mono [OF wp_append [of _ _ p "[]"]], use u True in blast, clarify)
      fix st n x
      assume x: "touches view hfile hpos p FIL_report u x"
        "st = FR_OK \<and> n = length r \<longrightarrow> written_at view hfile hpos FIL_report x p ([] @ r)"
      show "wp (finish_file ops FIL_report (if st = FR_OK \<and> n \<noteq> length r then FR_DISK_ERR else st))
        (\<lambda>st w. touches view hfile hpos p FIL_report v w \<and> (st = FR_OK \<longrightarrow> view w p = Some r)) x"
        by (rule wp_mono [OF wp_finish [where p = p]]) (use u x in \<open>auto simp: written_at_def intro: touches_trans split: if_splits\<close>)
    qed
    with True show ?thesis by (simp add: case_prod_unfold)
  qed (use u in simp)
qed

end

text \<open>The service: the two files of its slot, and with them nothing else.\<close>

definition crash_files :: "'s crash \<Rightarrow> string \<times> string" where
  "crash_files s = (let i = unat (rep_word (cs_mailbox s) ''captureSeq'' AND 1) in (cs_BinPaths s ! i, cs_TextPaths s ! i))"

definition crash_saved :: "'s crash \<Rightarrow> string" where
  "crash_saved s = sprintf (''Susamune: crash report saved (%u, %s)'' @ eol)
     [AInt (rep_word (cs_mailbox s) ''captureSeq''), AStr (snd (crash_files s))]"

context fat_volume
begin

lemma crash_service_files:
  "wp (SusamuneCrashService ops) (\<lambda>_ s'. \<exists>u w m. s' = s\<lparr>cs_Snapshot := cs_mailbox s,
      cs_AttemptedSeq := rep_word (cs_mailbox s) ''captureSeq'', cs_vol := w, cs_log := cs_log s @ [m]\<rparr> \<and>
    touches view hfile hpos (fst (crash_files s)) FIL_report (cs_vol s) u \<and>
    touches view hfile hpos (snd (crash_files s)) FIL_text u w \<and>
    (\<not> ValidReport (cs_mailbox s) \<longrightarrow> w = cs_vol s) \<and>
    (m = crash_saved s \<longrightarrow> ValidReport (cs_mailbox s) \<and> view u (fst (crash_files s)) = Some (cs_mailbox s) \<and>
       view w (snd (crash_files s)) = Some (octets (concat (report_text (cs_mailbox s)))))) s"
proof -
  define r where "r = cs_mailbox s"
  define rejected nobin notext saved where "rejected = ''Susamune: rejected invalid crash capture'' @ eol"
    and "nobin = ''Susamune: crash binary write failed (%d)'' @ eol" and "notext = ''Susamune: crash text write failed (%d)'' @ eol"
    and "saved = ''Susamune: crash report saved (%u, %s)'' @ eol"
  note formats = rejected_def nobin_def notext_def saved_def
  define bp tp where "bp = fst (crash_files s)" and "tp = snd (crash_files s)"
  let ?s = "s\<lparr>cs_Snapshot := r, cs_AttemptedSeq := rep_word r ''captureSeq''\<rparr>"
  let ?Q = "\<lambda>_ s'. \<exists>u w m. s' = ?s\<lparr>cs_vol := w, cs_log := cs_log s @ [m]\<rparr> \<and>
    touches view hfile hpos bp FIL_report (cs_vol s) u \<and> touches view hfile hpos tp FIL_text u w \<and>
    (\<not> ValidReport r \<longrightarrow> w = cs_vol s) \<and>
    (m = crash_saved s \<longrightarrow> ValidReport r \<and> view u bp = Some r \<and> view w tp = Some (octets (concat (report_text r))))"
  have same: "touches view hfile hpos p h v v" for p h v by (simp add: touches_def)
  have noted: "wp (dbgprintf f args) ?Q (?s\<lparr>cs_vol := w\<rparr>)"
    if "touches view hfile hpos bp FIL_report (cs_vol s) u" "touches view hfile hpos tp FIL_text u w"
      "\<not> ValidReport r \<Longrightarrow> w = cs_vol s"
      "sprintf f args = crash_saved s \<Longrightarrow> ValidReport r \<and> view u bp = Some r \<and> view w tp = Some (octets (concat (report_text r)))"
    for f args u w
    using that by (auto simp: dbgprintf_def)
  have texts: "sprintf rejected [] \<noteq> crash_saved s"
    "sprintf nobin args \<noteq> crash_saved s"
    "sprintf notext args \<noteq> crash_saved s" for args
    by (auto simp: crash_saved_def sprintf_def eol_def formats split: option.splits)
  have wtext: "wp (do {
      result \<leftarrow> on_card (WriteText ops tp r);
      if result \<noteq> FR_OK then dbgprintf notext [AInt (fresult_code result)]
      else dbgprintf saved [AInt (rep_word r ''captureSeq''), AStr tp] }) ?Q (?s\<lparr>cs_vol := u\<rparr>)"
    if u: "touches view hfile hpos bp FIL_report (cs_vol s) u" "view u bp = Some r" and valid: "ValidReport r" for u
    unfolding wp_bind wp_on_card
  proof (rule wp_mono, simp, rule wp_WriteText, elim conjE)
    fix st w
    assume w: "touches view hfile hpos tp FIL_text u w" "st = FR_OK \<longrightarrow> view w tp = Some (octets (concat (report_text r)))"
    show "wp (if st \<noteq> FR_OK then dbgprintf notext [AInt (fresult_code st)]
      else dbgprintf saved [AInt (rep_word r ''captureSeq''), AStr tp]) ?Q
      (?s\<lparr>cs_vol := u\<rparr>\<lparr>cs_vol := w\<rparr>)"
    proof (cases "st = FR_OK")
      case True
      with noted [OF u(1) w(1), of saved "[AInt (rep_word r ''captureSeq''), AStr tp]"] u(2) w(2) valid show ?thesis by simp
    next
      case False
      with noted [OF u(1) w(1), of notext "[AInt (fresult_code st)]"] texts(3) valid show ?thesis by simp
    qed
  qed
  show ?thesis
  proof (cases "ValidReport r")
    case True
    have "wp (do {
      result \<leftarrow> on_card (write_report ops bp r);
      if result \<noteq> FR_OK then dbgprintf nobin [AInt (fresult_code result)]
      else do {
        result \<leftarrow> on_card (WriteText ops tp r);
        if result \<noteq> FR_OK then dbgprintf notext [AInt (fresult_code result)]
        else dbgprintf saved [AInt (rep_word r ''captureSeq''), AStr tp] } }) ?Q ?s"
      unfolding wp_bind [of "on_card (write_report ops bp r)"] wp_on_card
    proof (rule wp_mono, simp, rule wp_write_report, elim conjE)
      fix st u
      assume u: "touches view hfile hpos bp FIL_report (cs_vol s) u" "st = FR_OK \<longrightarrow> view u bp = Some r"
      show "wp (if st \<noteq> FR_OK then dbgprintf nobin [AInt (fresult_code st)]
        else do {
          result \<leftarrow> on_card (WriteText ops tp r);
          if result \<noteq> FR_OK then dbgprintf notext [AInt (fresult_code result)]
          else dbgprintf saved [AInt (rep_word r ''captureSeq''), AStr tp] }) ?Q
        (?s\<lparr>cs_vol := u\<rparr>)"
      proof (cases "st = FR_OK")
        case True
        with wtext [OF u(1)] u(2) \<open>ValidReport r\<close> show ?thesis by simp
      next
        case False
        with noted [OF u(1) same, of nobin "[AInt (fresult_code st)]"] texts(2) \<open>ValidReport r\<close> show ?thesis by simp
      qed
    qed
    with True show ?thesis by (simp add: SusamuneCrashService_def formats r_def bp_def tp_def crash_files_def Let_def cong: if_cong)
  next
    case False
    with noted [OF same same, of rejected "[]"] texts(1) show ?thesis
      by (simp add: SusamuneCrashService_def formats r_def bp_def tp_def Let_def)
  qed
qed

end

section \<open>The report on the card\<close>

text \<open>C25: A crash report is saved whole or reported as lost, and nothing else is disturbed.  When the service writes that
  the report is saved, the mailbox held a valid report, the binary file of its slot is the mailbox byte for byte, and the text
  file beside it is the whole text of that report; a capture that is not valid is rejected with no call of the file system;
  and in every case, failures of the file system included, every file but those two is as before, so the report in the
  other slot and the dumps stay.\<close>

theorem report_saved:
  assumes "fat_volume ops view hfile hpos" and "run_state (SusamuneCrashService ops) s = (u :: unit, s')"
    and "fst (crash_files s) \<noteq> snd (crash_files s)"
  shows "(\<forall>p. p = fst (crash_files s) \<or> p = snd (crash_files s) \<or> view (cs_vol s') p = view (cs_vol s) p) \<and>
    (\<not> ValidReport (cs_mailbox s) \<longrightarrow> cs_vol s' = cs_vol s) \<and>
    (last (cs_log s') = crash_saved s \<longrightarrow> ValidReport (cs_mailbox s) \<and>
       view (cs_vol s') (fst (crash_files s)) = Some (cs_mailbox s) \<and>
       view (cs_vol s') (snd (crash_files s)) = Some (octets (concat (report_text (cs_mailbox s)))))"
proof -
  from wpD [OF fat_volume.crash_service_files [OF assms(1)] assms(2)] obtain v w m where
    s': "cs_vol s' = w" "last (cs_log s') = m" and
    t: "touches view hfile hpos (fst (crash_files s)) FIL_report (cs_vol s) v" "touches view hfile hpos (snd (crash_files s)) FIL_text v w" and
    "\<not> ValidReport (cs_mailbox s) \<longrightarrow> w = cs_vol s"
    "m = crash_saved s \<longrightarrow> ValidReport (cs_mailbox s) \<and> view v (fst (crash_files s)) = Some (cs_mailbox s) \<and>
       view w (snd (crash_files s)) = Some (octets (concat (report_text (cs_mailbox s))))"
    by (elim exE conjE) (rule that, simp_all)
  with assms(3) show ?thesis unfolding s' by (auto simp: touches_def)
qed

text \<open>A volume on which no call fails: the report of this mailbox is saved.\<close>

definition plain_report :: "u32 \<Rightarrow> bytes" where
  "plain_report crc = be32 SUSAMUNE_CRASH_MAGIC @ be16 1 @ be16 2048 @ be32 3 @ be32 1 @ be32 crc @
     be32 SUSAMUNE_MOD_GAME_ID_LMJ @ replicate 2024 0"

definition crash_demo_report :: bytes where
  "crash_demo_report = plain_report (CrashChecksum (plain_report 0))"

definition crash_demo_crashed :: "map_volume crash" where
  "crash_demo_crashed = crash_demo_start\<lparr>cs_BinPaths := crash_paths crash_demo_env ''bin'',
     cs_TextPaths := crash_paths crash_demo_env ''txt'', cs_mailbox := crash_demo_report\<rparr>"

definition crash_demo_saved :: "map_volume crash" where
  "crash_demo_saved = snd (run_state (SusamuneCrashService map_ops) crash_demo_crashed)"

lemma plain_checksum: "CrashChecksum (plain_report crc) = CrashChecksum (plain_report 0)"
proof -
  have "crc_masked (\<lambda>i. 16 \<le> i \<and> i < 20) 0 c (plain_report crc) = crc_masked (\<lambda>i. 16 \<le> i \<and> i < 20) 0 c (plain_report 0)" for c
    by (rule crc_masked_skip) (auto simp: plain_report_def be32_def be16_def nth_Cons split: nat.splits)
  then show ?thesis by (simp add: CrashChecksum_def)
qed

lemma word_at_be32: "length xs = n \<Longrightarrow> word_at (xs @ be32 w @ ys) n = w"
  by (auto simp: word_at_def nth_append be32_def de32_be32 [unfolded be32_def] nth_Cons split: nat.splits)

lemma half_at_be16: "length xs = n \<Longrightarrow> half_at (xs @ be16 w @ ys) n = w"
proof -
  have "push_bit 8 (ucast (ucast (drop_bit 8 w :: u16) :: u8)) OR ucast (ucast w :: u8) = w"
    by (rule bit_word_eqI) (auto simp: bit_simps)
  then show "length xs = n \<Longrightarrow> half_at (xs @ be16 w @ ys) n = w"
    by (auto simp: half_at_def nth_append be16_def nth_Cons split: nat.splits)
qed

lemma length_be16: "length (be16 w) = 2"
  by (simp add: be16_def)

lemma plain_zero:
  assumes "28 \<le> n" "n \<le> 2044"
  shows "word_at (plain_report c) n = 0" "half_at (plain_report c) n = 0"
proof -
  have rest: "(xs @ replicate k 0) ! i = (0 :: u8)" if "length xs \<le> i" "i < length xs + k" for xs k i
    using that by (simp add: nth_append)
  have "plain_report c ! i = 0" if "28 \<le> i" "i < 2048" for i
    unfolding plain_report_def append_assoc [symmetric] by (rule rest) (use that in \<open>simp_all add: be32_def be16_def\<close>)
  then show "word_at (plain_report c) n = 0" "half_at (plain_report c) n = 0"
    using assms de32_be32 [of 0] by (simp_all add: word_at_def half_at_def)
qed

lemma plain_fields: "rep_word (plain_report c) ''magic'' = SUSAMUNE_CRASH_MAGIC" "rep_half (plain_report c) ''version'' = 1"
  "rep_half (plain_report c) ''reportSize'' = 2048" "rep_word (plain_report c) ''state'' = 3"
  "rep_word (plain_report c) ''captureSeq'' = 1" "rep_word (plain_report c) ''checksum'' = c"
  unfolding rep_word_def rep_half_def crash_offsets plain_report_def
  using word_at_be32 [of "[]" 0] half_at_be16 [of "be32 SUSAMUNE_CRASH_MAGIC" 4] half_at_be16 [of "be32 SUSAMUNE_CRASH_MAGIC @ be16 1" 6]
    word_at_be32 [of "be32 SUSAMUNE_CRASH_MAGIC @ be16 1 @ be16 2048" 8]
    word_at_be32 [of "be32 SUSAMUNE_CRASH_MAGIC @ be16 1 @ be16 2048 @ be32 3" 12]
    word_at_be32 [of "be32 SUSAMUNE_CRASH_MAGIC @ be16 1 @ be16 2048 @ be32 3 @ be32 1" 16]
  by (simp_all only: append_assoc append_Nil length_append length_be32 length_be16 list.size)

lemma crash_demo_valid: "ValidReport crash_demo_report"
proof -
  have "rep_word crash_demo_report ''breadcrumbCount'' = 0" "rep_word crash_demo_report ''stackSize'' = 0"
    "rep_word crash_demo_report ''pcWindowSize'' = 0" "rep_word crash_demo_report ''lrWindowSize'' = 0"
    "rep_half crash_demo_report ''directorWindowSize'' = 0" "rep_half crash_demo_report ''marioWindowSize'' = 0"
    by (simp_all add: rep_word_def rep_half_def crash_demo_report_def crash_fields_def plain_zero)
  then show ?thesis by (simp add: ValidReport_def crash_demo_report_def plain_fields plain_checksum [of "CrashChecksum (plain_report 0)"])
qed

lemma emit_all_fine:
  assumes "mv_faults v = []" "mv_objects v FIL_text = Some (p, length b)" "mv_files v p = Some b"
  shows "wp (emit_all map_ops lines FR_OK) (\<lambda>r w. r = FR_OK \<and> mv_faults w = []) v"
  using assms
proof (induction lines arbitrary: v b)
  case (Cons line lines)
  then show ?case
    by (simp add: Emit_text_def map_ops_def mv_write_def mv_append_def wp_mv_call Cons.IH [where b = "b @ octets line", unfolded map_ops_def])
qed simp

lemma write_report_fine: "mv_faults v = [] \<Longrightarrow> wp (write_report map_ops p r) (\<lambda>st w. st = FR_OK \<and> mv_faults w = []) v"
  by (simp add: write_report_def finish_file_def map_ops_def mv_open_def mv_write_def mv_append_def mv_sync_def mv_close_def wp_mv_call)

lemma finish_fine: "mv_faults v = [] \<Longrightarrow> wp (finish_file map_ops h FR_OK) (\<lambda>st w. st = FR_OK) v"
  by (simp add: finish_file_def map_ops_def mv_sync_def mv_close_def wp_mv_call)

lemma WriteText_fine:
  assumes "mv_faults v = []"
  shows "wp (WriteText map_ops p r) (\<lambda>st w. st = FR_OK) v"
proof -
  define w where "w = v\<lparr>mv_files := (mv_files v)(p \<mapsto> []), mv_objects := (mv_objects v)(FIL_text \<mapsto> (p, 0)),
    mv_sizes := (mv_sizes v)(FIL_text := 0)\<rparr>"
  have "wp (emit_all map_ops (report_text r) FR_OK) (\<lambda>st. wp (finish_file map_ops FIL_text st) (\<lambda>st w. st = FR_OK)) w"
    by (rule wp_mono [OF emit_all_fine [where b = "[]" and p = p]]) (use assms finish_fine in \<open>auto simp: w_def\<close>)
  moreover have "wp (vf_open map_ops FIL_text p OpenCreateAlways) Q v = Q FR_OK w" for Q
    using assms by (simp add: map_ops_def mv_open_def wp_mv_call w_def)
  ultimately show ?thesis by (simp add: WriteText_def)
qed

lemma service_fine:
  assumes "ValidReport (cs_mailbox s)" "mv_faults (cs_vol s) = []"
  shows "wp (SusamuneCrashService map_ops) (\<lambda>_ s'. last (cs_log s') = crash_saved s) s"
proof -
  define bp tp where "bp = fst (crash_files s)" and "tp = snd (crash_files s)"
  define saved where "saved = ''Susamune: crash report saved (%u, %s)'' @ eol"
  note r = assms(1)
  have log: "wp (dbgprintf saved [AInt (rep_word (cs_mailbox s) ''captureSeq''), AStr tp]) (\<lambda>_ s'. last (cs_log s') = crash_saved s) t" for t
    by (simp add: dbgprintf_def crash_saved_def saved_def tp_def)
  have "wp (write_report map_ops bp (cs_mailbox s)) (\<lambda>st u. wp (if st \<noteq> FR_OK then Y st
      else do { st \<leftarrow> on_card (WriteText map_ops tp (cs_mailbox s)); if st \<noteq> FR_OK then X st
        else dbgprintf saved [AInt (rep_word (cs_mailbox s) ''captureSeq''), AStr tp] })
    (\<lambda>_ s'. last (cs_log s') = crash_saved s)
    (s\<lparr>cs_Snapshot := cs_mailbox s, cs_AttemptedSeq := rep_word (cs_mailbox s) ''captureSeq'', cs_vol := u\<rparr>)) (cs_vol s)" for X Y
    by (rule wp_mono [OF write_report_fine [OF assms(2)]], clarsimp, rule wp_mono [OF WriteText_fine], assumption, simp add: log)
  then show ?thesis
    using r by (simp add: SusamuneCrashService_def saved_def bp_def tp_def crash_files_def Let_def cong: if_cong)
qed

lemma crash_demo_log: "last (cs_log crash_demo_saved) = crash_saved crash_demo_crashed"
  using service_fine [of crash_demo_crashed] crash_demo_valid
  by (simp add: crash_demo_crashed_def crash_demo_saved_def wp_state crash_demo_start_def)

lemma report_saved_witness:
  "mv_files (cs_vol crash_demo_saved) (fst (crash_files crash_demo_crashed)) = Some crash_demo_report \<and>
   mv_files (cs_vol crash_demo_saved) (snd (crash_files crash_demo_crashed)) = Some (octets (concat (report_text crash_demo_report)))"
proof -
  have "run_state (SusamuneCrashService map_ops) crash_demo_crashed = ((), crash_demo_saved)"
    by (simp add: crash_demo_saved_def prod_eq_iff)
  moreover have "fst (crash_files crash_demo_crashed) \<noteq> snd (crash_files crash_demo_crashed)"
    by (simp add: crash_files_def crash_demo_crashed_def crash_demo_report_def plain_fields crash_paths_def crash_demo_env_def sprintf_def)
  ultimately show ?thesis
    using report_saved [OF map_fs.fat_volume_axioms, of crash_demo_crashed "()" crash_demo_saved] crash_demo_log
    by (simp add: crash_demo_crashed_def)
qed

section \<open>The session\<close>

text \<open>Of the report's files none is a dump, so the service is one of the other things a session of the dump allows.\<close>

context fat_volume
begin

lemma service_dump_others:
  assumes "run_state (SusamuneCrashService ops) s = (u, s')"
    and "fst (crash_files s) \<notin> set (cs_LmDumpPaths s)" "snd (crash_files s) \<notin> set (cs_LmDumpPaths s)"
  shows "dump_others view hfile hpos s s'"
proof -
  from wpD [OF crash_service_files assms(1)] obtain v w m where
    s': "s' = s\<lparr>cs_Snapshot := cs_mailbox s, cs_AttemptedSeq := rep_word (cs_mailbox s) ''captureSeq'', cs_vol := w,
      cs_log := cs_log s @ [m]\<rparr>" and
    t: "touches view hfile hpos (fst (crash_files s)) FIL_report (cs_vol s) v" "touches view hfile hpos (snd (crash_files s)) FIL_text v w"
    by (elim exE conjE) (rule that, simp_all)
  have "view w p = view (cs_vol s) p" if "p \<in> set (cs_LmDumpPaths s)" for p
  proof -
    have "p \<noteq> fst (crash_files s)" "p \<noteq> snd (crash_files s)" using assms(2,3) that by metis+
    then show ?thesis using t by (simp add: touches_def)
  qed
  then show ?thesis using t by (simp add: s' dump_others_def touches_def)
qed

end

lemma dump_run_trans:
  assumes "dump_run ops view hfile hpos t us u" "dump_run ops view hfile hpos s ts t"
  shows "dump_run ops view hfile hpos s (ts @ us) u"
  using assms(1)
proof (induction rule: dump_run.induct)
  case (recorded us u t x v)
  then show ?case by (metis append.assoc dump_run.recorded)
qed (use assms(2) in \<open>auto intro: dump_run.others\<close>)

text \<open>At most \<open>n\<close> records lead from \<open>s\<close> to \<open>t\<close>.\<close>

definition records :: "'s volume \<Rightarrow> ('s \<Rightarrow> string \<Rightarrow> bytes option) \<Rightarrow> ('s \<Rightarrow> nat \<Rightarrow> string option) \<Rightarrow> ('s \<Rightarrow> nat \<Rightarrow> nat) \<Rightarrow>
    nat \<Rightarrow> 's crash \<Rightarrow> 's crash \<Rightarrow> bool" where
  "records ops view hfile hpos n s t \<longleftrightarrow> (\<exists>ts. length ts \<le> n \<and> dump_run ops view hfile hpos s ts t)"

lemma records_trans: "records ops view hfile hpos m s t \<Longrightarrow> records ops view hfile hpos n t u \<Longrightarrow> records ops view hfile hpos (m + n) s u"
proof -
  assume "records ops view hfile hpos m s t" "records ops view hfile hpos n t u"
  then obtain ts us where "length ts \<le> m" "length us \<le> n" "dump_run ops view hfile hpos s ts t" "dump_run ops view hfile hpos t us u"
    unfolding records_def by blast
  then have "length (ts @ us) \<le> m + n" "dump_run ops view hfile hpos s (ts @ us) u" by (simp_all add: dump_run_trans)
  then show "records ops view hfile hpos (m + n) s u" unfolding records_def by blast
qed

lemma records_others: "dump_others view hfile hpos s t \<Longrightarrow> records ops view hfile hpos n s t"
  unfolding records_def by (auto intro!: exI [of _ "[]"] dump_run.others [OF dump_run.start])

text \<open>A routine that records at most \<open>n\<close> phases, whatever it starts from.\<close>

definition recording :: "'s volume \<Rightarrow> ('s \<Rightarrow> string \<Rightarrow> bytes option) \<Rightarrow> ('s \<Rightarrow> nat \<Rightarrow> string option) \<Rightarrow> ('s \<Rightarrow> nat \<Rightarrow> nat) \<Rightarrow>
    nat \<Rightarrow> ('s crash, 'a) state \<Rightarrow> bool" where
  "recording ops view hfile hpos n c \<longleftrightarrow> (\<forall>s. wp c (\<lambda>_ s'. records ops view hfile hpos n s s') s)"

lemma recording_bind:
  assumes "recording ops view hfile hpos m c" "\<And>x. recording ops view hfile hpos n (f x)"
  shows "recording ops view hfile hpos (m + n) (State_Monad.bind c f)"
  unfolding recording_def wp_bind
proof
  fix s
  show "wp c (\<lambda>x. wp (f x) (\<lambda>_ s'. records ops view hfile hpos (m + n) s s')) s"
  proof (rule wp_mono)
    show "wp c (\<lambda>_ s'. records ops view hfile hpos m s s') s" using assms(1) by (simp add: recording_def)
    fix x t
    assume t: "records ops view hfile hpos m s t"
    have "wp (f x) (\<lambda>_ s'. records ops view hfile hpos n t s') t" using assms(2) by (simp add: recording_def)
    then show "wp (f x) (\<lambda>_ s'. records ops view hfile hpos (m + n) s s') t"
      by (rule wp_mono) (rule records_trans [OF t])
  qed
qed

lemma recording_first: "recording ops view hfile hpos 0 c \<Longrightarrow> (\<And>x. recording ops view hfile hpos n (f x)) \<Longrightarrow>
    recording ops view hfile hpos n (State_Monad.bind c f)"
  using recording_bind [of ops view hfile hpos 0 c n f] by simp

lemma recording_last: "recording ops view hfile hpos n c \<Longrightarrow> (\<And>x. recording ops view hfile hpos 0 (f x)) \<Longrightarrow>
    recording ops view hfile hpos n (State_Monad.bind c f)"
  using recording_bind [of ops view hfile hpos n c 0 f] by simp

lemma recording_more: "recording ops view hfile hpos m c \<Longrightarrow> m \<le> n \<Longrightarrow> recording ops view hfile hpos n c"
  unfolding recording_def records_def by (blast intro: wp_mono order_trans)

lemma recording_if: "recording ops view hfile hpos n c \<Longrightarrow> recording ops view hfile hpos n d \<Longrightarrow>
    recording ops view hfile hpos n (if b then c else d)"
  by simp

lemma recording_case: "(\<And>x y. recording ops view hfile hpos n (f x y)) \<Longrightarrow> recording ops view hfile hpos n (case p of (x, y) \<Rightarrow> f x y)"
  by (simp split: prod.split)

lemma recording_others: "(\<And>s x s'. run_state c s = (x, s') \<Longrightarrow> dump_others view hfile hpos s s') \<Longrightarrow> recording ops view hfile hpos 0 c"
  unfolding recording_def by (blast intro: wpI records_others)

lemma dump_others_refl: "dump_others view hfile hpos s s"
  by (simp add: dump_others_def)

lemma recording_ret: "recording ops view hfile hpos 0 (ret x)"
  by (rule recording_others) (simp add: State_Monad.return_def dump_others_refl)

lemma recording_skip: "recording ops view hfile hpos n (ret x)"
  by (rule recording_more [OF recording_ret]) simp

lemma recording_gets: "recording ops view hfile hpos 0 (gets f)"
  by (rule recording_others) (simp add: dump_others_refl)

lemma recording_modify: "(\<And>s. dump_others view hfile hpos s (f s)) \<Longrightarrow> recording ops view hfile hpos 0 (modify f)"
  by (rule recording_others) auto

lemma recording_log: "recording ops view hfile hpos 0 (dbgprintf f args)"
  unfolding dbgprintf_def by (rule recording_modify) (simp add: dump_others_def)

lemma recording_ring: "recording ops view hfile hpos 0 (on_ring p)"
  by (rule recording_others) (auto simp: on_ring_def dump_others_def split: prod.splits)

lemma recording_record: "recording ops view hfile hpos 1 (RecordLmDump ops t)"
  unfolding recording_def records_def
proof (intro allI wpI)
  fix s x s'
  assume "run_state (RecordLmDump ops t) s = (x, s')"
  from dump_run.recorded [OF dump_run.start this] show "\<exists>ts. length ts \<le> 1 \<and> dump_run ops view hfile hpos s ts s'"
    by (intro exI [of _ "[t]"]) simp
qed

lemma recording_Emit: "recording ops view hfile hpos 1 (EmitPhaseTrace ops t)"
proof -
  have log: "recording ops view hfile hpos 0 (if b then dbgprintf f x else dbgprintf g y)" for b f x g y
    by (intro recording_if recording_log)
  have seen: "dump_others view hfile hpos s (if b then s\<lparr>cs_LastCriticalPhaseSequence := q\<rparr> else s)"
    "dump_others view hfile hpos s (s\<lparr>cs_LastPhaseSequence := q\<rparr>)" for s b q
    by (simp_all add: dump_others_def)
  show ?thesis
    unfolding EmitPhaseTrace_def Let_def
    by (rule recording_first [OF recording_gets], rule recording_if [OF recording_skip],
        (rule recording_first [OF recording_modify], rule seen)+, rule recording_last [OF recording_record log])
qed

lemma recording_Poll: "recording ops view hfile hpos n (PollCritical ops n)"
proof (induction n)
  case (Suc n)
  have "recording ops view hfile hpos (Suc n) (do { EmitPhaseTrace ops t; on_ring LmCriticalAcknowledge; PollCritical ops n })" for t
    using recording_bind [OF recording_Emit recording_first [OF recording_ring Suc]] by simp
  then show ?case
    unfolding PollCritical.simps
    by (intro recording_first [OF recording_gets] recording_first [OF recording_ring] recording_case recording_if recording_skip)
qed (simp add: recording_ret)

text \<open>One poll: at most four records of the ring and one of the trace.\<close>

lemma recording_PollPhaseTrace: "recording ops view hfile hpos 5 (PollPhaseTrace ops env)"
proof -
  have dropped: "dump_others view hfile hpos s (s\<lparr>cs_LastCriticalDropped := d\<rparr>)" for s d by (simp add: dump_others_def)
  have overflow: "recording ops view hfile hpos 0 (if b then do { modify (\<lambda>s. s\<lparr>cs_LastCriticalDropped := d\<rparr>); dbgprintf f x } else ret ())"
    for b d f x
    by (intro recording_if recording_ret recording_first [OF recording_modify [OF dropped]] recording_log)
  have enrolled: "recording ops view hfile hpos 0 (if b then on_ring CriticalEnrolled else ret False)" for b
    by (intro recording_if recording_ring recording_ret)
  have trace: "recording ops view hfile hpos 1 (if b then ret () else if c then ret () else EmitPhaseTrace ops t)" for b c t
    by (intro recording_if recording_skip recording_Emit)
  have "recording ops view hfile hpos (4 + 1) (PollPhaseTrace ops env)"
    unfolding PollPhaseTrace_def
    by (rule recording_first [OF enrolled], rule recording_bind,
        rule recording_if [OF _ recording_skip], rule recording_first [OF recording_gets], rule recording_first [OF recording_gets],
        rule recording_first [OF overflow recording_Poll], rule recording_first [OF recording_gets], rule recording_first [OF enrolled],
        rule recording_first [OF recording_gets], rule recording_first [OF recording_gets trace])
  then show ?thesis by simp
qed

lemma recording_Pending: "recording ops view hfile hpos 5 (SusamuneCrashPending ops env now later)"
proof -
  have polled: "dump_others view hfile hpos s (s\<lparr>cs_LastPoll := t\<rparr>)" for s t by (simp add: dump_others_def)
  show ?thesis
    unfolding SusamuneCrashPending_def
    by (intro recording_first [OF recording_gets] recording_if recording_skip recording_first [OF recording_modify [OF polled]]
        recording_last [OF recording_PollPhaseTrace] recording_ret recording_gets)
qed

text \<open>A session after boot: polls, reports, and in between whatever leaves the statics and the dump's files alone, such as
  the game writing to the shared window.\<close>

definition crash_others :: "('s \<Rightarrow> string \<Rightarrow> bytes option) \<Rightarrow> ('s \<Rightarrow> nat \<Rightarrow> string option) \<Rightarrow> ('s \<Rightarrow> nat \<Rightarrow> nat) \<Rightarrow>
    's crash \<Rightarrow> 's crash \<Rightarrow> bool" where
  "crash_others view hfile hpos s s' \<longleftrightarrow> dump_others view hfile hpos s s' \<and>
     cs_BinPaths s' = cs_BinPaths s \<and> cs_TextPaths s' = cs_TextPaths s"

inductive crash_session :: "'s volume \<Rightarrow> crash_env \<Rightarrow> ('s \<Rightarrow> string \<Rightarrow> bytes option) \<Rightarrow> ('s \<Rightarrow> nat \<Rightarrow> string option) \<Rightarrow> ('s \<Rightarrow> nat \<Rightarrow> nat) \<Rightarrow>
    's crash \<Rightarrow> 's crash \<Rightarrow> bool" for ops env view hfile hpos s where
  start: "crash_session ops env view hfile hpos s s"
| poll: "crash_session ops env view hfile hpos s t \<Longrightarrow> run_state (SusamuneCrashPending ops env now later) t = (x, u) \<Longrightarrow>
    crash_session ops env view hfile hpos s u"
| report: "crash_session ops env view hfile hpos s t \<Longrightarrow> run_state (SusamuneCrashService ops) t = (y, u) \<Longrightarrow>
    crash_session ops env view hfile hpos s u"
| others: "crash_session ops env view hfile hpos s t \<Longrightarrow> crash_others view hfile hpos t u \<Longrightarrow>
    crash_session ops env view hfile hpos s u"

text \<open>The paths stay what boot made them.\<close>

definition paths_kept :: "'s crash \<Rightarrow> 's crash \<Rightarrow> bool" where
  "paths_kept s s' \<longleftrightarrow> cs_BinPaths s' = cs_BinPaths s \<and> cs_TextPaths s' = cs_TextPaths s \<and> cs_LmDumpPaths s' = cs_LmDumpPaths s"

interpretation paths_kept: frame paths_kept
  by unfold_locales (auto simp: paths_kept_def)

lemma paths_card: "keeps paths_kept (on_card c)"
  by (auto simp: keeps_def paths_kept_def intro: wpI)

lemma paths_ring: "keeps paths_kept (on_ring p)"
  by (rule keepsI) (auto simp: on_ring_def paths_kept_def split: prod.splits)

lemma paths_log: "keeps paths_kept (dbgprintf f x)"
  unfolding dbgprintf_def by (rule paths_kept.modify) (simp add: paths_kept_def)

lemmas paths_rules = paths_kept.bind paths_kept.gets paths_kept.return paths_kept.cond paths_kept.prod paths_kept.modify
  paths_card paths_ring paths_log

lemma paths_Close: "keeps paths_kept (CloseLmDump ops)"
  unfolding CloseLmDump_def by (intro paths_rules) (simp add: paths_kept_def)

lemma paths_Write: "keeps paths_kept (WriteLmDump ops d sync)"
  unfolding WriteLmDump_def DisableLmDump_def Let_def by (intro paths_rules paths_Close) (simp_all add: paths_kept_def)

lemma paths_Begin: "keeps paths_kept (BeginLmDump ops t)"
  unfolding BeginLmDump_def by (intro paths_rules paths_Close paths_Write) (simp_all add: paths_kept_def)

lemma paths_Record: "keeps paths_kept (RecordLmDump ops t)"
  unfolding RecordLmDump_def by (intro paths_rules paths_Begin paths_Write)

lemma paths_Emit: "keeps paths_kept (EmitPhaseTrace ops t)"
  unfolding EmitPhaseTrace_def Let_def by (intro paths_rules paths_Record) (simp_all add: paths_kept_def)

lemma paths_Poll: "keeps paths_kept (PollCritical ops n)"
  by (induction n) (auto intro!: paths_rules paths_Emit simp del: wp_bind)

lemma paths_Pending: "keeps paths_kept (SusamuneCrashPending ops env now later)"
  unfolding SusamuneCrashPending_def PollPhaseTrace_def
  by (intro paths_rules paths_Emit paths_Poll) (simp_all add: paths_kept_def)

text \<open>So a session is a run of the dump: what \<open>last_attempts_on_card\<close> says of the records given to it holds while reports
  are written in between.\<close>

lemma crash_session_run:
  assumes "fat_volume ops view hfile hpos" "crash_session ops env view hfile hpos s t"
    and "length (cs_BinPaths s) = 2" "length (cs_TextPaths s) = 2"
    and "set (cs_LmDumpPaths s) \<inter> (set (cs_BinPaths s) \<union> set (cs_TextPaths s)) = {}"
  shows "(\<exists>ts. dump_run ops view hfile hpos s ts t) \<and> paths_kept s t"
  using assms(2)
proof (induction rule: crash_session.induct)
  case start
  then show ?case by (auto intro: dump_run.start paths_kept.refl)
next
  case (poll t now later x u)
  then obtain ts where ts: "dump_run ops view hfile hpos s ts t" "paths_kept s t" by blast
  have "wp (SusamuneCrashPending ops env now later) (\<lambda>_ s'. records ops view hfile hpos 5 t s') t"
    using recording_Pending unfolding recording_def by blast
  from wpD [OF this poll.hyps(2)] have "records ops view hfile hpos 5 t u" .
  then obtain us where "dump_run ops view hfile hpos t us u" by (auto simp: records_def)
  with ts dump_run_trans show ?case
    using paths_kept.trans [OF ts(2) keepsD [OF paths_Pending poll.hyps(2)]] by blast
next
  case (report t y u)
  then obtain ts where ts: "dump_run ops view hfile hpos s ts t" "paths_kept s t" by blast
  have "unat (w AND 1 :: u32) < 2" for w using word_and_le1 [of w 1] by (simp add: word_le_nat_alt)
  then have "fst (crash_files t) \<in> set (cs_BinPaths s)" "snd (crash_files t) \<in> set (cs_TextPaths s)"
    using ts(2) assms(3,4) by (auto simp: crash_files_def paths_kept_def Let_def)
  then have "fst (crash_files t) \<notin> set (cs_LmDumpPaths t)" "snd (crash_files t) \<notin> set (cs_LmDumpPaths t)"
    using assms(5) ts(2) by (auto simp: paths_kept_def)
  from fat_volume.service_dump_others [OF assms(1) report.hyps(2) this] ts
  have "dump_run ops view hfile hpos s ts u" by (blast intro: dump_run.others)
  moreover have "paths_kept t u"
    using wpD [OF fat_volume.crash_service_files [OF assms(1)] report.hyps(2)] by (auto simp: paths_kept_def)
  ultimately show ?case using ts(2) paths_kept.trans by blast
next
  case (others t u)
  then obtain ts where ts: "dump_run ops view hfile hpos s ts t" "paths_kept s t" by blast
  have "dump_others view hfile hpos t u" "paths_kept t u"
    using others.hyps(2) by (auto simp: crash_others_def dump_others_def paths_kept_def)
  with ts show ?case using paths_kept.trans by (blast intro: dump_run.others)
qed

section \<open>Boot\<close>

text \<open>The paths boot makes are those a session needs: two of each kind of report, and none of them a dump.\<close>

definition reports_kept :: "'s crash \<Rightarrow> 's crash \<Rightarrow> bool" where
  "reports_kept s s' \<longleftrightarrow> cs_BinPaths s' = cs_BinPaths s \<and> cs_TextPaths s' = cs_TextPaths s"

interpretation reports_kept: frame reports_kept
  by unfold_locales (auto simp: reports_kept_def)

lemma reports_card: "keeps reports_kept (on_card c)"
  by (auto simp: keeps_def reports_kept_def intro: wpI)

lemmas reports_rules = reports_kept.bind reports_kept.gets reports_kept.return reports_kept.cond reports_kept.modify reports_card

lemma reports_slots: "keeps reports_kept (InitLmDumpSlots ops is)"
proof (induction "is")
  case (Cons i "is")
  have "keeps reports_kept (case found of None \<Rightarrow> ret ()
      | Some header \<Rightarrow> modify (\<lambda>s. s\<lparr>cs_LmDumpGenerations := (cs_LmDumpGenerations s)[i := dh_generation header],
          cs_LmDumpGeneration :=
            (if cs_LmDumpGeneration s = 0 \<or> GenerationNewer (dh_generation header) (cs_LmDumpGeneration s)
             then dh_generation header else cs_LmDumpGeneration s)\<rparr>))" for found
    by (cases found) (auto intro!: reports_rules simp: reports_kept_def)
  then show ?case unfolding InitLmDumpSlots.simps by (intro reports_rules Cons)
qed (auto intro: reports_rules)

lemma reports_InitLmDump: "keeps reports_kept (InitLmDump ops env crc staged)"
  unfolding InitLmDump_def Let_def by (intro reports_rules reports_slots) (simp_all add: reports_kept_def)

lemma report_path_differs: "i < 8 \<Longrightarrow> p \<in> set (crash_paths env ''bin'') \<union> set (crash_paths env ''txt'') \<Longrightarrow>
    p \<noteq> dump_path (dump_directory (ce_prefix env)) i"
  by (auto simp: dump_path_eq dump_directory_def crash_paths_def sprintf_def split: if_splits)

lemma wp_reports: "keeps reports_kept c \<Longrightarrow> cs_BinPaths s = b \<Longrightarrow> cs_TextPaths s = t \<Longrightarrow>
    (\<And>x s'. cs_BinPaths s' = b \<Longrightarrow> cs_TextPaths s' = t \<Longrightarrow> Q x s') \<Longrightarrow> wp c Q s"
  by (erule keeps_wp) (auto simp: reports_kept_def)

lemma wp_SusamuneCrashInit:
  "wp (SusamuneCrashInit ops env now) (\<lambda>_ s'. cs_BinPaths s' = crash_paths env ''bin'' \<and> cs_TextPaths s' = crash_paths env ''txt'' \<and>
    (cs_LmDumpEnabled s' \<longrightarrow> cs_LmDumpPaths s' = map (dump_path (dump_directory (ce_prefix env))) [0..<8])) s"
proof -
  let ?b = "crash_paths env ''bin''" and ?t = "crash_paths env ''txt''"
  let ?paths = "map (dump_path (dump_directory (ce_prefix env))) [0..<8]"
  let ?Q = "\<lambda>_ s'. cs_BinPaths s' = ?b \<and> cs_TextPaths s' = ?t \<and> (cs_LmDumpEnabled s' \<longrightarrow> cs_LmDumpPaths s' = ?paths)"
  have ring: "wp (do { (if b then on_ring LmCriticalInit else ret ()); modify (\<lambda>s. s\<lparr>cs_ring := cs_view s\<rparr>) }) ?Q s"
    if "?Q () s" for b and s :: "'a crash"
    using that by (auto simp: on_ring_def wp_def split: prod.splits)
  have dump: "wp (do { InitLmDump ops env crc v; (if b then on_ring LmCriticalInit else ret ());
      modify (\<lambda>s. s\<lparr>cs_ring := cs_view s\<rparr>) }) ?Q s" if "cs_BinPaths s = ?b" "cs_TextPaths s = ?t" for b crc v and s :: "'a crash"
    unfolding wp_bind [of "InitLmDump ops env crc v"]
    by (rule wp_mono [OF keeps_wp_conj [OF reports_InitLmDump wp_InitLmDump]], rule ring) (use that in \<open>simp add: reports_kept_def\<close>)
  have found: "keeps reports_kept (if b then do { g \<leftarrow> on_card c; on_card (d g) } else ret 0)" for b and c :: "('a, u32) state" and d
    by (intro reports_rules)
  show ?thesis
    unfolding SusamuneCrashInit_def Let_def
    by (simp only: wp_bind [of "modify _"] wp_modify, subst wp_bind, rule wp_reports [OF found], simp, simp,
        simp only: wp_bind [of "modify _"] wp_bind [of "gets _"] wp_modify wp_gets, rule dump, simp_all)
qed

text \<open>A generation above half the range is never newer than 0, the value the search for the latest report starts from:
  the reports of such a card are not found, and the next one is numbered 1.\<close>

lemma high_generation_ignored: "c > 2 ^ 31 \<Longrightarrow> \<not> GenerationNewer c 0"
proof -
  assume c: "c > 2 ^ 31"
  have "(2 ^ 31 :: u32) \<noteq> 0" by simp
  with c have "c \<noteq> 0" by auto
  then have "unat (- c) = 2 ^ 32 - unat c" using unat_sub_if' [of 0 c] by (auto simp: unat_eq_zero)
  then have "unat (- c) < 2 ^ 31" using c by (simp add: word_less_nat_alt)
  with GenerationNewer_age [of "unat (- c)" 0 0] show ?thesis by simp
qed

end
