(* ===== verification/Controls.thy ===== *)
theory Controls
  imports StorageFormat
begin

text \<open>
  The small state machines behind the controller: the room-reset chord and its recorder
  (\<open>lm_reset_bind.h\<close>), the naming keyboard (\<open>lm_name_keyboard.h\<close>), the deletion prompt
  (\<open>lm_archive_delete.h\<close>), the save-state hotkeys (\<open>lm_state_hotkeys.h\<close>), the status popup
  (\<open>lm_status_popup.h\<close>) and the timer clock (\<open>lm_timer_clock.h\<close>), all under \<open>include/susamune/\<close>.
\<close>

section \<open>The reset chord\<close>

abbreviation Allowed :: u32 where "Allowed \<equiv> 0x0F78"

lemma clear_lowest_less: "(m :: u32) \<noteq> 0 \<Longrightarrow> unat (m AND (m - 1)) < unat m"
proof -
  assume "m \<noteq> 0"
  then have "unat (m - 1) < unat m" by (simp add: unat_minus_one unat_gt_0)
  moreover have "unat (m AND (m - 1)) \<le> unat (m - 1)"
    using word_and_le1 [of m "m - 1"] by (simp add: word_le_nat_alt and.commute)
  ultimately show ?thesis by linarith
qed

function bind_count :: "u32 \<Rightarrow> nat" where
  "bind_count m = (if m \<noteq> 0 then Suc (bind_count (m AND (m - 1))) else 0)"
  by pat_completeness auto
termination by (relation "measure unat") (auto intro: clear_lowest_less)

declare bind_count.simps [simp del]

definition bind_valid :: "u32 \<Rightarrow> bool" where
  "bind_valid m \<longleftrightarrow> m AND NOT Allowed = 0 \<and> bind_count m \<ge> 2 \<and> bind_count m \<le> 4"

text \<open>The state is \<open>armed\<close>; the result is the returned value and the state afterwards.\<close>

definition trigger_sample :: "bool \<Rightarrow> u32 \<Rightarrow> u32 \<Rightarrow> bool \<Rightarrow> bool \<Rightarrow> bool \<times> bool" where
  "trigger_sample armed bind held enabled connected =
     (if \<not> enabled \<or> \<not> connected then (False, False)
      else if held = 0 then (False, True)
      else if \<not> bind_valid bind \<or> \<not> armed then (False, armed)
      else if held AND NOT bind \<noteq> 0 then (False, False)
      else if held \<noteq> bind then (False, armed)
      else (True, False))"

datatype bind_result = Waiting | Accepted | Cancelled | Invalid

record recorder =
  rc_releaseFirst :: bool
  rc_invalid :: bool
  rc_chord :: u32

definition recorder_begin :: recorder where
  "recorder_begin = \<lparr>rc_releaseFirst = True, rc_invalid = False, rc_chord = 0\<rparr>"

definition recorder_sample :: "recorder \<Rightarrow> u32 \<Rightarrow> bool \<Rightarrow> bind_result \<times> recorder" where
  "recorder_sample r held connected =
     (if \<not> connected then (Cancelled, r)
      else if rc_releaseFirst r then (Waiting, if held = 0 then r\<lparr>rc_releaseFirst := False\<rparr> else r)
      else if held \<noteq> 0 then
        let r = (if held AND NOT Allowed \<noteq> 0 \<or> bind_count held > 4 then r\<lparr>rc_invalid := True\<rparr> else r) in
        (Waiting,
         if held AND rc_chord r = rc_chord r then r\<lparr>rc_chord := held\<rparr>
         else if held AND rc_chord r \<noteq> held then r\<lparr>rc_invalid := True\<rparr> else r)
      else if rc_chord r = 0 then (Waiting, r)
      else if \<not> rc_invalid r \<and> rc_chord r = 0x0200 then (Cancelled, r)
      else (if \<not> rc_invalid r \<and> bind_valid (rc_chord r) then Accepted else Invalid, r))"

definition bind_names :: "(u32 \<times> string) list" where
  "bind_names = [(0x40, ''L''), (0x20, ''R''), (0x10, ''Z''), (0x100, ''A''), (0x200, ''B''), (0x400, ''X''),
     (0x800, ''Y''), (8, ''D-Up'')]"

fun text_loop :: "u32 \<Rightarrow> (u32 \<times> string) list \<Rightarrow> string \<Rightarrow> string" where
  "text_loop m [] out = out"
| "text_loop m ((b, name) # bs) out =
     (if m AND b = 0 then text_loop m bs out
      else text_loop m bs ((if out \<noteq> [] then out @ ''+'' else out) @ name))"

text \<open>The string before its 0.\<close>

definition bind_text :: "u32 \<Rightarrow> string" where
  "bind_text m = (if \<not> bind_valid m then ''OFF'' else text_loop m bind_names [])"

section \<open>The naming keyboard\<close>

definition kLower :: string where "kLower = ''abcdefghijklmnopqrstuvwxyz.,!?-_''"
definition kUpper :: string where "kUpper = ''ABCDEFGHIJKLMNOPQRSTUVWXYZ.,!?-_''"
definition kSymbols :: string where "kSymbols = ''0123456789+-*/=()[]<>!?:;'' @ [CHR 0x27, CHR 0x22] @ ''_#.&@''"

datatype prompt = NoPrompt | KeepPrompt | DiscardPrompt | ClearPrompt
datatype keyboard_result = KeyNone | Commit | Discard

record keyboard =
  kb_text :: string
  kb_length :: nat
  kb_cursor :: nat
  kb_page :: u8
  kb_uppercase :: bool
  kb_confirmation :: prompt

definition keyboard_zero :: keyboard where
  "keyboard_zero = \<lparr>kb_text = replicate 32 (CHR 0x00), kb_length = 0, kb_cursor = 0, kb_page = 0,
     kb_uppercase = False, kb_confirmation = NoPrompt\<rparr>"

definition key_char :: "char \<Rightarrow> char" where
  "key_char ch = (if 32 \<le> (of_char ch :: nat) \<and> (of_char ch :: nat) \<le> 126 then ch else CHR 0x3F)"

text \<open>The loop over \<open>name\<close>, whose end is its 0 character or the end of the list.\<close>

fun keyboard_copy :: "keyboard \<Rightarrow> string \<Rightarrow> keyboard" where
  "keyboard_copy k [] = k"
| "keyboard_copy k (c # cs) =
     (if kb_length k < 31 \<and> c \<noteq> CHR 0x00
      then keyboard_copy (k\<lparr>kb_text := (kb_text k)[kb_length k := key_char c], kb_length := kb_length k + 1\<rparr>) cs
      else k)"

definition keyboard_begin :: "string option \<Rightarrow> keyboard" where
  "keyboard_begin name =
     (let k = (case name of None \<Rightarrow> keyboard_zero | Some s \<Rightarrow> keyboard_copy keyboard_zero s)
      in k\<lparr>kb_text := (kb_text k)[kb_length k := CHR 0x00]\<rparr>)"

definition characters :: "keyboard \<Rightarrow> string" where
  "characters k = (if kb_page k \<noteq> 0 then kSymbols else if kb_uppercase k then kUpper else kLower)"

definition append_char :: "keyboard \<Rightarrow> char \<Rightarrow> keyboard" where
  "append_char k ch =
     (if kb_length k < 31
      then k\<lparr>kb_text := (kb_text k)[kb_length k := ch, kb_length k + 1 := CHR 0x00], kb_length := kb_length k + 1\<rparr>
      else k)"

definition pressed_any :: "u16 \<Rightarrow> u16 \<Rightarrow> bool" where
  "pressed_any pressed m \<longleftrightarrow> pressed AND m \<noteq> 0"

definition confirm_update :: "keyboard \<Rightarrow> u16 \<Rightarrow> keyboard_result \<times> keyboard" where
  "confirm_update k pressed =
     (if pressed_any pressed 0x0100 then
        let p = kb_confirmation k; k = k\<lparr>kb_confirmation := NoPrompt\<rparr> in
        if p = KeepPrompt then (Commit, k)
        else if p = DiscardPrompt then (Discard, k)
        else (KeyNone, k\<lparr>kb_length := 0, kb_text := (kb_text k)[0 := CHR 0x00]\<rparr>)
      else if pressed_any pressed 0x0200 then (KeyNone, k\<lparr>kb_confirmation := NoPrompt\<rparr>)
      else (KeyNone, k))"

definition move_cursor :: "keyboard \<Rightarrow> u16 \<Rightarrow> keyboard" where
  "move_cursor k pressed =
     (if pressed_any pressed 1 then k\<lparr>kb_cursor := (kb_cursor k + 31) mod 32\<rparr>
      else if pressed_any pressed 2 then k\<lparr>kb_cursor := (kb_cursor k + 1) mod 32\<rparr>
      else if pressed_any pressed 8 then k\<lparr>kb_cursor := (kb_cursor k + 24) mod 32\<rparr>
      else if pressed_any pressed 4 then k\<lparr>kb_cursor := (kb_cursor k + 8) mod 32\<rparr>
      else k)"

definition keyboard_update :: "keyboard \<Rightarrow> u16 \<Rightarrow> u16 \<Rightarrow> keyboard_result \<times> keyboard" where
  "keyboard_update k pressed held =
     (if kb_confirmation k \<noteq> NoPrompt then confirm_update k pressed
      else if pressed_any pressed 0x1000 then
        (KeyNone, k\<lparr>kb_confirmation := (if pressed_any held 0x0400 then DiscardPrompt else KeepPrompt)\<rparr>)
      else if pressed_any pressed 0x0010 then (KeyNone, k\<lparr>kb_confirmation := ClearPrompt\<rparr>)
      else
        let k = move_cursor k pressed;
            k = (if pressed_any pressed 0x0060 then k\<lparr>kb_page := kb_page k XOR 1, kb_cursor := 0\<rparr> else k);
            k = (if pressed_any pressed 0x0800 then k\<lparr>kb_uppercase := \<not> kb_uppercase k\<rparr> else k);
            k = (if pressed_any pressed 0x0200 \<and> kb_length k \<noteq> 0
                 then k\<lparr>kb_text := (kb_text k)[kb_length k - 1 := CHR 0x00], kb_length := kb_length k - 1\<rparr> else k);
            k = (if pressed_any pressed 0x0400 then append_char k (CHR 0x20) else k);
            k = (if pressed_any pressed 0x0100 then append_char k (characters k ! kb_cursor k) else k)
        in (KeyNone, k))"

section \<open>The deletion prompt\<close>

record delete_prompt =
  dp_id :: u32
  dp_token :: u32
  dp_name :: string
  dp_active :: bool

text \<open>The loop over the name and the zeros behind it.\<close>

fun prompt_name :: "nat \<Rightarrow> string \<Rightarrow> string" where
  "prompt_name left [] = replicate left (CHR 0x00)"
| "prompt_name left (c # cs) =
     (if left > 1 \<and> c \<noteq> CHR 0x00 then key_char c # prompt_name (left - 1) cs else replicate left (CHR 0x00))"

definition delete_begin :: "delete_prompt \<Rightarrow> u32 \<Rightarrow> u32 \<Rightarrow> string option \<Rightarrow> bool \<times> delete_prompt" where
  "delete_begin p i token name =
     (if i = 0 \<or> i > 99999999 \<or> token = 0 then (False, p\<lparr>dp_active := False\<rparr>)
      else (True, \<lparr>dp_id = i, dp_token = token,
        dp_name = (case name of None \<Rightarrow> replicate 32 (CHR 0x00) | Some s \<Rightarrow> prompt_name 32 s), dp_active = True\<rparr>))"

datatype delete_result = DeleteWaiting | DeleteCancelled | DeleteConfirmed

definition delete_update :: "delete_prompt \<Rightarrow> u32 \<Rightarrow> bool \<Rightarrow> delete_result \<times> delete_prompt" where
  "delete_update p pressed connected =
     (if \<not> dp_active p then (DeleteWaiting, p)
      else if \<not> connected \<or> pressed AND 0x200 \<noteq> 0 then (DeleteCancelled, p\<lparr>dp_active := False\<rparr>)
      else if pressed AND 0x100 \<noteq> 0 then (DeleteConfirmed, p\<lparr>dp_active := False\<rparr>)
      else (DeleteWaiting, p))"

section \<open>The save-state hotkeys\<close>

definition LmStateDirectionEdge :: "u32 \<Rightarrow> u32 \<Rightarrow> u32 \<Rightarrow> bool \<Rightarrow> bool" where
  "LmStateDirectionEdge buttons previous direction connected \<longleftrightarrow>
     connected \<and> buttons AND 15 = direction \<and> previous AND direction = 0"

record hotkey_latch =
  hk_previous :: u32
  hk_pending :: u32
  hk_lastButtons :: u32
  hk_lastConnected :: u32
  hk_lastLatched :: u32
  hk_lastDisposition :: u32

definition LmStateSampleHotkeys :: "hotkey_latch \<Rightarrow> u32 \<Rightarrow> bool \<Rightarrow> bool \<Rightarrow> hotkey_latch" where
  "LmStateSampleHotkeys h buttons connected available =
     (let newDirection = (available \<and> buttons AND 3 \<noteq> 0 \<and> (buttons XOR hk_previous h) AND 15 \<noteq> 0);
          h = (if newDirection then h\<lparr>hk_lastButtons := buttons, hk_lastConnected := (if connected then 1 else 0),
                 hk_lastDisposition := 0\<rparr> else h);
          h = (if (\<not> connected \<or> \<not> available) \<and> hk_pending h \<noteq> 0 then h\<lparr>hk_lastDisposition := 3\<rparr> else h);
          h = (if \<not> connected \<or> \<not> available then h\<lparr>hk_pending := 0\<rparr>
               else if LmStateDirectionEdge buttons (hk_previous h) 1 connected then h\<lparr>hk_pending := 1\<rparr>
               else if LmStateDirectionEdge buttons (hk_previous h) 2 connected then h\<lparr>hk_pending := 2\<rparr>
               else h);
          h = (if newDirection then h\<lparr>hk_lastLatched := hk_pending h\<rparr> else h)
      in h\<lparr>hk_previous := (if connected then buttons else 0)\<rparr>)"

definition LmStateConsumeHotkey :: "hotkey_latch \<Rightarrow> bool \<Rightarrow> u32 \<times> hotkey_latch" where
  "LmStateConsumeHotkey h available =
     (let result = (if available then hk_pending h else 0);
          h = (if hk_pending h \<noteq> 0 then h\<lparr>hk_lastDisposition := (if available then 1 else 2)\<rparr> else h)
      in (result, h\<lparr>hk_pending := 0\<rparr>))"

section \<open>The status popup\<close>

datatype popup_kind = PopupNone | PopupSaving | PopupSaved | PopupLoading | PopupLoaded | PopupBusy | PopupRejected

record status_popup =
  po_kind :: popup_kind
  po_remaining :: nat

definition LmStatusPopupGameplayEvent :: "bool \<Rightarrow> bool \<Rightarrow> bool" where
  "LmStatusPopupGameplayEvent menuOpen event \<longleftrightarrow> event \<and> \<not> menuOpen"

text \<open>\<open>kind\<close> is a word; the enumeration has the values 0 to 6.\<close>

definition popup_of :: "u32 \<Rightarrow> popup_kind" where
  "popup_of kind = (if kind \<le> 6 then [PopupNone, PopupSaving, PopupSaved, PopupLoading, PopupLoaded, PopupBusy,
     PopupRejected] ! unat kind else PopupNone)"

definition LmStatusPopupShow :: "u32 \<Rightarrow> status_popup" where
  "LmStatusPopupShow kind = (let k = popup_of kind in \<lparr>po_kind = k, po_remaining = (if k \<noteq> PopupNone then 60 else 0)\<rparr>)"

definition LmStatusPopupTick :: "status_popup \<Rightarrow> status_popup" where
  "LmStatusPopupTick p = (if po_remaining p \<noteq> 0 then p\<lparr>po_remaining := po_remaining p - 1\<rparr> else p)"

definition LmStatusPopupText :: "status_popup \<Rightarrow> string" where
  "LmStatusPopupText p =
     (if po_remaining p = 0 then ''''
      else case po_kind p of
        PopupSaving \<Rightarrow> ''Saving'' | PopupSaved \<Rightarrow> ''Saved'' | PopupLoading \<Rightarrow> ''Loading''
      | PopupLoaded \<Rightarrow> ''Loaded'' | PopupBusy \<Rightarrow> ''Busy'' | PopupRejected \<Rightarrow> ''Rejected'' | PopupNone \<Rightarrow> '''')"

section \<open>The timer clock\<close>

definition LmTimerClockCentiseconds :: "u32 \<Rightarrow> u32 \<Rightarrow> u32" where
  "LmTimerClockCentiseconds high low = (if high \<noteq> 0 \<or> low \<ge> 180000 then 599999 else (low * 10 + 1) div 3)"

definition LmTimerClockReadable :: "u32 \<Rightarrow> u32 \<Rightarrow> u32 \<Rightarrow> u32 \<Rightarrow> u32 \<Rightarrow> bool" where
  "LmTimerClockReadable scene loopScene ownerScene transition active \<longleftrightarrow>
     scene = 2 \<and> loopScene = 2 \<and> ownerScene = 2 \<and> transition = 0 \<and> active \<le> 1"

definition LmTimerClockAdvances :: "u32 \<Rightarrow> bool" where
  "LmTimerClockAdvances active \<longleftrightarrow> active = 1"

definition LmTimerClockNativeMenu :: "u32 \<Rightarrow> bool" where
  "LmTimerClockNativeMenu owner \<longleftrightarrow> owner \<ge> 1 \<and> owner \<le> 3"

definition LmTimerClockMenuRuns :: "u32 \<Rightarrow> bool \<Rightarrow> bool \<Rightarrow> bool" where
  "LmTimerClockMenuRuns owner runInNativeMenus modMenuOpen \<longleftrightarrow>
     \<not> LmTimerClockNativeMenu owner \<or> runInNativeMenus \<or> modMenuOpen"

definition LmTimerClockSupplement :: "bool \<Rightarrow> u32 \<Rightarrow> u32 \<Rightarrow> bool \<Rightarrow> bool \<Rightarrow> u32 \<Rightarrow> u32 \<Rightarrow> u32 \<Rightarrow> u32 \<Rightarrow> bool" where
  "LmTimerClockSupplement readable active owner runInNativeMenus modMenuOpen beforeHigh beforeLow afterHigh afterLow \<longleftrightarrow>
     readable \<and> LmTimerClockAdvances active \<and> LmTimerClockNativeMenu owner \<and>
     LmTimerClockMenuRuns owner runInNativeMenus modMenuOpen \<and> beforeHigh = afterHigh \<and> beforeLow = afterLow"

definition LmTimerClockEventAction :: "u32 \<Rightarrow> bool \<Rightarrow> u32" where
  "LmTimerClockEventAction eventId scriptReady =
     (if \<not> scriptReady then 0 else if eventId = 29 then 1 else if eventId = 53 then 2 else 0)"

section \<open>The trigger fires on exactly the chord\<close>

fun trigger_run :: "bool \<Rightarrow> u32 \<Rightarrow> u32 list \<Rightarrow> bool list" where
  "trigger_run armed bind [] = []"
| "trigger_run armed bind (h # hs) =
     (case trigger_sample armed bind h True True of (fired, armed') \<Rightarrow> fired # trigger_run armed' bind hs)"

definition armed_after :: "bool \<Rightarrow> u32 \<Rightarrow> u32 list \<Rightarrow> bool" where
  "armed_after armed bind hs = foldl (\<lambda>a h. snd (trigger_sample a bind h True True)) armed hs"

lemma trigger_run_nth:
  "i < length hs \<Longrightarrow> trigger_run armed bind hs ! i = fst (trigger_sample (armed_after armed bind (take i hs)) bind (hs ! i) True True)"
proof (induction hs arbitrary: armed i)
  case (Cons h hs)
  then show ?case
    by (cases i) (auto simp: armed_after_def split: prod.split)
qed simp

lemma armed_after_iff:
  assumes "bind_valid bind"
  shows "armed_after False bind hs \<longleftrightarrow>
    (\<exists>j < length hs. hs ! j = 0 \<and> (\<forall>k. j < k \<and> k < length hs \<longrightarrow> hs ! k AND NOT bind = 0 \<and> hs ! k \<noteq> bind))"
proof (induction hs rule: rev_induct)
  case (snoc h hs)
  have bind: "bind \<noteq> 0" using assms by (auto simp: bind_valid_def bind_count.simps)
  have "armed_after False bind (hs @ [h]) \<longleftrightarrow> h = 0 \<or> armed_after False bind hs \<and> h AND NOT bind = 0 \<and> h \<noteq> bind"
    using assms bind by (auto simp: armed_after_def trigger_sample_def)
  also have "\<dots> \<longleftrightarrow> (\<exists>j < length (hs @ [h]). (hs @ [h]) ! j = 0 \<and>
      (\<forall>k. j < k \<and> k < length (hs @ [h]) \<longrightarrow> (hs @ [h]) ! k AND NOT bind = 0 \<and> (hs @ [h]) ! k \<noteq> bind))"
    (is "_ \<longleftrightarrow> ?r")
  proof
    assume "h = 0 \<or> armed_after False bind hs \<and> h AND NOT bind = 0 \<and> h \<noteq> bind"
    then show ?r
    proof
      assume "h = 0" then show ?r by (intro exI [of _ "length hs"]) auto
    next
      assume "armed_after False bind hs \<and> h AND NOT bind = 0 \<and> h \<noteq> bind"
      then obtain j where "j < length hs" "hs ! j = 0" "\<forall>k. j < k \<and> k < length hs \<longrightarrow> hs ! k AND NOT bind = 0 \<and> hs ! k \<noteq> bind"
        "h AND NOT bind = 0" "h \<noteq> bind" unfolding snoc by blast
      then show ?r by (intro exI [of _ j]) (auto simp: nth_append less_Suc_eq)
    qed
  next
    assume ?r
    then obtain j where j: "j < Suc (length hs)" "(hs @ [h]) ! j = 0"
        "\<forall>k. j < k \<and> k < Suc (length hs) \<longrightarrow> (hs @ [h]) ! k AND NOT bind = 0 \<and> (hs @ [h]) ! k \<noteq> bind"
      by auto
    show "h = 0 \<or> armed_after False bind hs \<and> h AND NOT bind = 0 \<and> h \<noteq> bind"
    proof (cases "j = length hs")
      case False
      then have l: "j < length hs" using j(1) by simp
      moreover have "hs ! k AND NOT bind = 0 \<and> hs ! k \<noteq> bind" if "j < k" "k < length hs" for k
        using j(3) that by (metis less_SucI nth_append)
      moreover have "h AND NOT bind = 0 \<and> h \<noteq> bind"
        using j(3) l by (metis lessI nth_append_length)
      ultimately show ?thesis using j(2) unfolding snoc by (auto simp: nth_append)
    qed (use j in simp)
  qed
  finally show ?case .
qed (simp add: armed_after_def)

text \<open>C26: The room reset fires at a sample if and only if the configured chord is valid, exactly its buttons are held,
  and since some sample with all buttons released only proper parts of the chord were held: it neither fires
  twice for one press nor on the way through a larger chord.\<close>

theorem trigger_fires:
  assumes "i < length hs"
  shows "trigger_run False bind hs ! i \<longleftrightarrow> bind_valid bind \<and> hs ! i = bind \<and>
    (\<exists>j < i. hs ! j = 0 \<and> (\<forall>k. j < k \<and> k < i \<longrightarrow> hs ! k AND NOT bind = 0 \<and> hs ! k \<noteq> bind))"
proof -
  have len: "length (take i hs) = i" using assms by simp
  have nz: "bind \<noteq> 0" if "bind_valid bind" using that by (auto simp: bind_valid_def bind_count.simps)
  let ?since = "\<lambda>xs. \<exists>j < i. xs ! j = 0 \<and> (\<forall>k. j < k \<and> k < i \<longrightarrow> xs ! k AND NOT bind = 0 \<and> xs ! k \<noteq> bind)"
  have "?since (take i hs) \<longleftrightarrow> ?since hs"
    by (intro ex_cong1 conj_cong refl) auto
  then have armed: "armed_after False bind (take i hs) \<longleftrightarrow> ?since hs" if "bind_valid bind"
    using armed_after_iff [OF that, of "take i hs"] unfolding len by blast
  have "trigger_run False bind hs ! i \<longleftrightarrow> hs ! i \<noteq> 0 \<and> bind_valid bind \<and> armed_after False bind (take i hs) \<and>
      hs ! i AND NOT bind = 0 \<and> hs ! i = bind"
    unfolding trigger_run_nth [OF assms] trigger_sample_def by auto
  also have "\<dots> \<longleftrightarrow> bind_valid bind \<and> hs ! i = bind \<and> ?since hs"
    using armed nz by (metis bit.conj_cancel_right)
  finally show ?thesis .
qed

lemma trigger_fires_witness: "trigger_run False 0x60 [0x60, 0, 0x20, 0x60, 0x60] ! 3"
proof -
  have v: "bind_valid 0x60" by code_simp
  have "\<forall>k. 1 < k \<and> k < 3 \<longrightarrow> [0x60, 0, 0x20, 0x60, 0x60] ! k AND NOT (0x60 :: u32) = 0 \<and> [0x60, 0, 0x20, 0x60, 0x60] ! k \<noteq> (0x60 :: u32)"
  proof (intro allI impI)
    fix k :: nat assume "1 < k \<and> k < 3"
    then have "k = 2" by simp
    then show "[0x60, 0, 0x20, 0x60, 0x60] ! k AND NOT (0x60 :: u32) = 0 \<and> [0x60, 0, 0x20, 0x60, 0x60] ! k \<noteq> (0x60 :: u32)"
      by simp
  qed
  then have "\<exists>j < 3. [0x60, 0, 0x20, 0x60, 0x60] ! j = (0 :: u32) \<and>
      (\<forall>k. j < k \<and> k < 3 \<longrightarrow> [0x60, 0, 0x20, 0x60, 0x60] ! k AND NOT (0x60 :: u32) = 0 \<and> [0x60, 0, 0x20, 0x60, 0x60] ! k \<noteq> (0x60 :: u32))"
    by (intro exI [of _ 1]) simp
  with v show ?thesis
    using trigger_fires [where i = 3 and hs = "[0x60, 0, 0x20, 0x60, 0x60]" and bind = "0x60"] by simp
qed

section \<open>The recorder\<close>

definition recorder_run :: "u32 list \<Rightarrow> recorder" where
  "recorder_run hs = foldl (\<lambda>r h. snd (recorder_sample r h True)) recorder_begin hs"

text \<open>The samples behind the first one with nothing held.\<close>

definition after_release :: "u32 list \<Rightarrow> u32 list" where
  "after_release hs = tl (dropWhile (\<lambda>h. h \<noteq> 0) hs)"

lemma bind_valid_zero [simp]: "\<not> bind_valid 0"
  by (simp add: bind_valid_def bind_count.simps)

lemma after_release_snoc:
  "after_release (hs @ [h]) = (if 0 \<in> set hs then after_release hs @ [h] else [])"
proof (induction hs)
  case (Cons x xs)
  then show ?case by (auto simp: after_release_def)
qed (simp add: after_release_def)

lemma recorder_inv:
  "let r = recorder_run hs in (rc_releaseFirst r \<longleftrightarrow> 0 \<notin> set hs) \<and>
    (0 \<notin> set hs \<longrightarrow> rc_chord r = 0 \<and> \<not> rc_invalid r) \<and>
    (\<not> rc_invalid r \<longrightarrow> (\<forall>h \<in> set (after_release hs). h AND rc_chord r = h) \<and>
      (rc_chord r = 0 \<or> rc_chord r \<in> set (after_release hs)))"
proof (induction hs rule: rev_induct)
  case (snoc h hs)
  define r where "r = recorder_run hs"
  have step: "recorder_run (hs @ [h]) = snd (recorder_sample r h True)" by (simp add: recorder_run_def r_def)
  note ih = snoc [folded r_def, unfolded Let_def]
  show ?case
  proof (cases "0 \<in> set hs \<and> h \<noteq> 0 \<and> h AND rc_chord r = rc_chord r")
    case True
    have "x AND h = x" if "x AND rc_chord r = x" for x
    proof -
      have "x AND h = x AND (h AND rc_chord r)" using that by (metis and.assoc and.commute)
      with True that show ?thesis by simp
    qed
    with True ih show ?thesis
      by (auto simp: step Let_def recorder_sample_def after_release_snoc)
  next
    case False
    with ih show ?thesis
      by (auto simp: step Let_def recorder_sample_def after_release_snoc recorder_begin_def split: if_splits)
  qed
qed (simp add: recorder_run_def recorder_begin_def after_release_def Let_def)

text \<open>When the recorder accepts, the chord it recorded is valid, was held exactly at some sample, and contains
  everything that was held since the release the recording starts with.\<close>

theorem recorder_accepts:
  assumes "fst (recorder_sample (recorder_run hs) 0 True) = Accepted"
  shows "bind_valid (rc_chord (recorder_run hs)) \<and> rc_chord (recorder_run hs) \<in> set (after_release hs) \<and>
    (\<forall>h \<in> set (after_release hs). h AND rc_chord (recorder_run hs) = h)"
proof -
  from assms have "bind_valid (rc_chord (recorder_run hs))" "\<not> rc_invalid (recorder_run hs)"
    by (auto simp: recorder_sample_def split: if_splits)
  with recorder_inv [of hs] show ?thesis by (auto simp: Let_def)
qed

lemma recorder_accepts_witness:
  "rc_chord (recorder_run [0x20, 0, 0x40, 0x60]) \<in> set (after_release [0x20, 0, 0x40, 0x60])"
  using recorder_accepts [of "[0x20, 0, 0x40, 0x60]"]
  by (simp add: recorder_run_def recorder_begin_def recorder_sample_def bind_valid_def bind_count.simps)

section \<open>The name being typed\<close>

definition printable_char :: "char \<Rightarrow> bool" where
  "printable_char c \<longleftrightarrow> 32 \<le> (of_char c :: nat) \<and> (of_char c :: nat) \<le> 126"

definition keyboard_ok :: "keyboard \<Rightarrow> bool" where
  "keyboard_ok k \<longleftrightarrow> length (kb_text k) = 32 \<and> kb_length k \<le> 31 \<and> kb_text k ! kb_length k = CHR 0x00 \<and>
     (\<forall>i < kb_length k. printable_char (kb_text k ! i)) \<and> kb_cursor k < 32 \<and> kb_page k \<in> {0, 1}"

text \<open>The name as the archive request sends it: up to the 0, padded with zeros.\<close>

definition drafted_name :: "keyboard \<Rightarrow> bytes" where
  "drafted_name k = (let s = takeWhile (\<lambda>c. c \<noteq> CHR 0x00) (kb_text k) in map of_char s @ replicate (32 - length s) 0)"

lemma printable_key_char: "printable_char (key_char c)"
  by (simp add: printable_char_def key_char_def)

lemma printable_nonzero: "printable_char c \<Longrightarrow> c \<noteq> CHR 0x00"
  by (auto simp: printable_char_def)

lemma characters_printable:
  "kb_cursor k < 32 \<Longrightarrow> printable_char (characters k ! kb_cursor k)"
proof -
  have "\<forall>c \<in> set s. printable_char c" "length s = 32" if "s \<in> {kLower, kUpper, kSymbols}" for s
    using that by (auto simp: kLower_def kUpper_def kSymbols_def printable_char_def)
  moreover have "characters k \<in> {kLower, kUpper, kSymbols}" by (simp add: characters_def)
  ultimately show "kb_cursor k < 32 \<Longrightarrow> ?thesis" by (metis nth_mem)
qed

lemma append_ok: "keyboard_ok k \<Longrightarrow> printable_char c \<Longrightarrow> keyboard_ok (append_char k c)"
  by (auto simp: keyboard_ok_def append_char_def nth_list_update less_Suc_eq)

lemma append_cursor [simp]: "kb_cursor (append_char k c) = kb_cursor k"
  by (simp add: append_char_def)

lemma move_ok: "keyboard_ok k \<Longrightarrow> keyboard_ok (move_cursor k pressed)"
  by (simp add: keyboard_ok_def move_cursor_def)

lemma erase_ok:
  "keyboard_ok k \<Longrightarrow> kb_length k \<noteq> 0 \<Longrightarrow>
    keyboard_ok (k\<lparr>kb_text := (kb_text k)[kb_length k - 1 := CHR 0x00], kb_length := kb_length k - 1\<rparr>)"
  by (auto simp: keyboard_ok_def nth_list_update)

lemma page_ok: "keyboard_ok k \<Longrightarrow> keyboard_ok (k\<lparr>kb_page := kb_page k XOR 1, kb_cursor := 0\<rparr>)"
  "keyboard_ok k \<Longrightarrow> keyboard_ok (k\<lparr>kb_uppercase := b\<rparr>)" "keyboard_ok k \<Longrightarrow> keyboard_ok (k\<lparr>kb_confirmation := c\<rparr>)"
  by (auto simp: keyboard_ok_def)

lemma update_ok: "keyboard_ok k \<Longrightarrow> keyboard_ok (snd (keyboard_update k pressed held))"
proof -
  assume k: "keyboard_ok k"
  have ascii: "printable_char (CHR 0x20)" by (simp add: printable_char_def)
  show ?thesis
  proof (cases "kb_confirmation k = NoPrompt \<and> \<not> pressed_any pressed 0x1000 \<and> \<not> pressed_any pressed 0x0010")
    case True
    define k1 where "k1 = move_cursor k pressed"
    define k2 where "k2 = (if pressed_any pressed 0x0060 then k1\<lparr>kb_page := kb_page k1 XOR 1, kb_cursor := 0\<rparr> else k1)"
    define k3 where "k3 = (if pressed_any pressed 0x0800 then k2\<lparr>kb_uppercase := \<not> kb_uppercase k2\<rparr> else k2)"
    define k4 where "k4 = (if pressed_any pressed 0x0200 \<and> kb_length k3 \<noteq> 0
      then k3\<lparr>kb_text := (kb_text k3)[kb_length k3 - 1 := CHR 0x00], kb_length := kb_length k3 - 1\<rparr> else k3)"
    define k5 where "k5 = (if pressed_any pressed 0x0400 then append_char k4 (CHR 0x20) else k4)"
    have "keyboard_ok k4" using k move_ok page_ok erase_ok by (simp add: k1_def k2_def k3_def k4_def)
    then have k5: "keyboard_ok k5" using ascii append_ok by (simp add: k5_def)
    then have "printable_char (characters k5 ! kb_cursor k5)" by (intro characters_printable) (simp add: keyboard_ok_def)
    with k5 append_ok have "keyboard_ok (if pressed_any pressed 0x0100 then append_char k5 (characters k5 ! kb_cursor k5) else k5)"
      by simp
    moreover have "keyboard_update k pressed held =
        (KeyNone, if pressed_any pressed 0x0100 then append_char k5 (characters k5 ! kb_cursor k5) else k5)"
      unfolding keyboard_update_def Let_def k5_def k4_def k3_def k2_def k1_def using True by (simp only: if_False simp_thms)
    ultimately show ?thesis by (simp only: snd_conv)
  next
    case False
    with k show ?thesis
      by (auto simp: keyboard_update_def confirm_update_def Let_def page_ok) (auto simp: keyboard_ok_def)
  qed
qed

lemma copy_ok:
  assumes "length (kb_text k) = 32" "kb_length k \<le> 31" "\<forall>i < kb_length k. printable_char (kb_text k ! i)"
    "kb_cursor k < 32" "kb_page k \<in> {0, 1}"
  shows "length (kb_text (keyboard_copy k s)) = 32 \<and> kb_length (keyboard_copy k s) \<le> 31 \<and>
    (\<forall>i < kb_length (keyboard_copy k s). printable_char (kb_text (keyboard_copy k s) ! i)) \<and>
    kb_cursor (keyboard_copy k s) < 32 \<and> kb_page (keyboard_copy k s) \<in> {0, 1}"
  using assms
proof (induction k s rule: keyboard_copy.induct)
  case (2 k c cs)
  then show ?case by (auto simp: nth_list_update less_Suc_eq printable_key_char)
qed simp

lemma begin_ok: "keyboard_ok (keyboard_begin name)"
proof -
  have "keyboard_ok (k\<lparr>kb_text := (kb_text k)[kb_length k := CHR 0x00]\<rparr>)"
    if "length (kb_text k) = 32" "kb_length k \<le> 31" "\<forall>i < kb_length k. printable_char (kb_text k ! i)"
      "kb_cursor k < 32" "kb_page k \<in> {0, 1}" for k
    using that by (auto simp: keyboard_ok_def nth_list_update)
  with copy_ok [of keyboard_zero] show ?thesis
    by (auto simp: keyboard_begin_def Let_def keyboard_zero_def split: option.split)
qed

lemma name_valid_append:
  "\<forall>c \<in> set cs. c \<noteq> 0 \<and> 0x20 \<le> c \<and> c \<le> 0x7E \<Longrightarrow>
    name_valid_from False (cs @ replicate n 0) \<longleftrightarrow> 0 < n"
proof (induction cs)
  case Nil
  have "name_valid_from True (replicate n 0)" for n by (induction n) auto
  then show ?case by (cases n) auto
qed (auto simp: not_less)

lemma drafted_ok:
  assumes "keyboard_ok k"
  shows "LmStateNameValid (drafted_name k)"
proof -
  let ?s = "takeWhile (\<lambda>c. c \<noteq> CHR 0x00) (kb_text k)"
  have s: "?s = take (kb_length k) (kb_text k)"
    using assms printable_nonzero by (intro takeWhile_eq_take_P_nth) (auto simp: keyboard_ok_def)
  have "printable_char c" if "c \<in> set ?s" for c
    using that assms unfolding s by (auto simp: in_set_conv_nth keyboard_ok_def)
  moreover have "(of_char c :: u8) \<noteq> 0 \<and> 0x20 \<le> (of_char c :: u8) \<and> (of_char c :: u8) \<le> 0x7E" if "printable_char c" for c
  proof -
    have "unat (of_char c :: u8) = (of_char c :: nat)"
      using nat_of_char_less_256 [of c] by (subst of_nat_of_char [symmetric])
        (simp add: unsigned_of_nat take_bit_nat_eq_self del: of_nat_of_char)
    with that show ?thesis by (auto simp: printable_char_def word_le_nat_alt)
  qed
  moreover have "length ?s = kb_length k" "kb_length k \<le> 31" using assms unfolding s by (auto simp: keyboard_ok_def)
  ultimately show ?thesis
    by (auto simp: LmStateNameValid_def drafted_name_def Let_def name_valid_append)
qed

text \<open>C28: The naming keyboard keeps a well-formed draft, from whatever name it starts and through whatever buttons: at
  most 31 printable characters ended by a 0 inside its 32 bytes, the cursor on one of the 32 keys; so the name it
  hands to an archive request is always one the storage service accepts.\<close>

theorem keyboard_invariant:
  "keyboard_ok (keyboard_begin name) \<and>
   (\<forall>k. keyboard_ok k \<longrightarrow> keyboard_ok (snd (keyboard_update k pressed held)) \<and> LmStateNameValid (drafted_name k))"
  using begin_ok update_ok drafted_ok by blast

lemma keyboard_invariant_witness:
  "keyboard_ok (snd (keyboard_update (keyboard_begin (Some ''Hi'')) 0x0100 0))"
  using keyboard_invariant [of "Some ''Hi''" "0x0100" 0] by blast

end
