(* ===== verification/RoomTools.thy ===== *)
theory RoomTools
  imports Prelude
begin

text \<open>
  The practice tools that change rooms: room records, reset recipes and the foyer pair
  (\<open>lm_room_tools.h\<close>, \<open>lm_room_id.h\<close>), doors (\<open>lm_door_state.h\<close>), the element preset
  (\<open>lm_element_plan.h\<close>) and the warp with its undo (\<open>lm_warp_transition.h\<close>), all under
  \<open>include/susamune/\<close>.
\<close>

section \<open>Rooms\<close>

abbreviation LM_ROOM_TABLE_LIMIT :: u32 where "LM_ROOM_TABLE_LIMIT \<equiv> 74"
abbreviation LM_ROOM_NO_PARTNER :: u32 where "LM_ROOM_NO_PARTNER \<equiv> 0xFFFFFFFF"

text \<open>\<open>int\<close> for the C \<open>int\<close> that is -1 when unset.\<close>

definition LmPlayerRoomId :: "u32 \<Rightarrow> int" where
  "LmPlayerRoomId packedRoom = (if packedRoom = 0xFFFFFFFF then -1 else uint (packedRoom AND 0xFF))"

definition LmRoomRecordMatches :: "u32 \<Rightarrow> u32 \<Rightarrow> u32 \<Rightarrow> u32 \<Rightarrow> bool" where
  "LmRoomRecordMatches player manager rec count \<longleftrightarrow>
     count > 0 \<and> count \<le> LM_ROOM_TABLE_LIMIT \<and> player \<noteq> 0xFFFFFFFF \<and> manager \<noteq> 0xFFFFFFFF \<and>
     rec \<noteq> 0xFFFFFFFF \<and> drop_bit 24 manager < count \<and> drop_bit 24 player = drop_bit 24 manager \<and>
     drop_bit 24 rec = drop_bit 24 manager \<and> player AND 255 = rec AND 255 \<and> manager AND 255 = rec AND 255 \<and>
     rec AND 255 < LM_ROOM_TABLE_LIMIT"

definition LmRoomFoyerCompanion :: "u32 \<Rightarrow> u32 \<Rightarrow> u32 \<Rightarrow> u32 \<Rightarrow> u32" where
  "LmRoomFoyerCompanion room partnerIndex count partnerRecord =
     (let partner = partnerRecord AND 255 in
      if room \<ge> LM_ROOM_TABLE_LIMIT \<or> count = 0 \<or> count > LM_ROOM_TABLE_LIMIT \<or> partnerIndex \<ge> count \<or>
         partnerRecord = 0xFFFFFFFF \<or> drop_bit 24 partnerRecord \<noteq> partnerIndex \<or>
         partner \<ge> LM_ROOM_TABLE_LIMIT \<or> partner = 2 then LM_ROOM_NO_PARTNER
      else if room = 2 then partner
      else if room = partner then 2 else LM_ROOM_NO_PARTNER)"

text \<open>The arrays \<open>edits\<close> (11 entries) and \<open>events\<close> (2 entries) of the recipe up to \<open>count\<close> and \<open>eventCount\<close>;
  that the code never writes past them is a property below.\<close>

record reset_recipe =
  rr_darken :: bool
  rr_edits :: "(u8 \<times> u8) list"
  rr_events :: "u8 list"

definition room_resets :: "(u8 \<times> u8) list" where
  "room_resets =
    [(3, 13), (14, 41), (14, 19),
     (16, 74), (16, 59), (16, 67),
     (24, 46), (24, 47), (24, 89), (25, 51), (25, 37), (25, 65),
     (28, 25), (28, 18), (28, 38), (28, 36),
     (35, 14), (35, 8), (40, 83), (40, 6), (40, 198),
     (41, 49), (41, 50), (41, 52), (55, 40),
     (57, 31), (57, 177), (57, 178), (57, 179),
     (57, 180), (57, 181), (57, 182), (57, 183), (57, 55),
     (59, 81), (61, 28), (66, 63), (66, 64), (70, 66)]"

definition shown_edits :: "u32 \<Rightarrow> (u8 \<times> u8) list" where
  "shown_edits shownMarioItems =
     concat (map (\<lambda>i. if shownMarioItems AND push_bit i 1 = 0 then []
       else [(of_nat (21 + i * 3), 1), (of_nat (20 + i * 3), 0)]) [0..<5])"

definition LmRoomResetRecipeFor :: "u32 \<Rightarrow> u32 \<Rightarrow> reset_recipe option" where
  "LmRoomResetRecipeFor room shownMarioItems =
     (if room \<ge> LM_ROOM_TABLE_LIMIT then None
      else Some \<lparr>rr_darken = (room \<noteq> 70),
        rr_edits = map (\<lambda>(r, i). (i, 0)) (filter (\<lambda>(r, i). ucast r = room) room_resets) @
          (if room = 3 then shown_edits shownMarioItems else []),
        rr_events = (if room = 24 then [22, 64] else []) @ (if room = 35 then [61] else []) @
          (if room = 40 then [76] else [])\<rparr>)"

definition LmRoomDarkPersistence :: "u16 \<Rightarrow> u16" where
  "LmRoomDarkPersistence before = before AND NOT 2"

section \<open>Doors and elements\<close>

definition LmDoorStateBusy :: "u32 \<Rightarrow> u32 \<Rightarrow> bool" where
  "LmDoorStateBusy mode state \<longleftrightarrow> mode = 2 \<and> state = 0x20"

definition LmDoorRangeInside :: "u32 \<Rightarrow> u32 \<Rightarrow> u32 \<Rightarrow> u32 \<Rightarrow> bool" where
  "LmDoorRangeInside address sz gameStart gameEnd \<longleftrightarrow>
     gameStart \<ge> 0x80003100 \<and> gameEnd \<le> 0x81800000 \<and> gameStart < gameEnd \<and>
     (gameStart OR gameEnd OR address) AND 3 = 0 \<and> sz \<noteq> 0 \<and> address \<ge> gameStart \<and> address \<le> gameEnd \<and>
     sz \<le> gameEnd - address"

text \<open>The returned code, and \<open>(type, fuel)\<close> when they are written.\<close>

definition LmPlanElement :: "u32 \<Rightarrow> u32 \<Rightarrow> u32 \<Rightarrow> u32 \<times> (u32 \<times> u32) option" where
  "LmPlanElement choice capacity action =
     (if choice > 3 \<or> capacity = 0 \<or> capacity > 10000 then (3, None)
      else if action \<noteq> 0 then (1, None)
      else (0, Some (choice + 1, if choice \<noteq> 0 then capacity else 0)))"

section \<open>Warps\<close>

abbreviation LM_WARP_NO_REPLAY_EVENT :: u32 where "LM_WARP_NO_REPLAY_EVENT \<equiv> 0xFFFFFFFF"
abbreviation LM_RETAIL_EVENT_COUNT :: nat where "LM_RETAIL_EVENT_COUNT \<equiv> 109"

record warp_plan =
  wp_count :: nat
  wp_ids :: "u32 list"
  wp_values :: "u32 list"
  wp_replayEvent :: u32

definition LmWarpFlagsForDestination :: "u32 \<Rightarrow> u32 \<Rightarrow> warp_plan" where
  "LmWarpFlagsForDestination map_id point =
     (let plan = \<lparr>wp_count = 0, wp_ids = [0, 0, 0], wp_values = [0, 0, 0], wp_replayEvent = LM_WARP_NO_REPLAY_EVENT\<rparr>;
          finish = (\<lambda>plan. plan\<lparr>wp_replayEvent := (if map_id = 9 then 75 else if map_id = 10 then 64
            else if map_id = 11 then 72 else 66), wp_ids := (wp_ids plan)[wp_count plan := 222],
            wp_count := wp_count plan + 1\<rparr>) in
      if map_id = 10 then finish (plan\<lparr>wp_ids := [39, 46, 0], wp_count := 2\<rparr>)
      else if map_id = 13 then finish (plan\<lparr>wp_ids := [67, 68, 0], wp_count := 2\<rparr>)
      else if map_id = 11 then finish (plan\<lparr>wp_ids := [81, 82, 0], wp_count := 2\<rparr>)
      else if map_id = 9 then finish (plan\<lparr>wp_ids := [66, 0, 0], wp_count := 1\<rparr>)
      else if point = 55 \<or> point = 56
      then plan\<lparr>wp_ids := [if point = 55 then 34 else 46, 0, 0], wp_values := [1, 0, 0], wp_count := 1\<rparr>
      else plan)"

text \<open>The words the warp publishes through its pointers, and the rest of the game, which the native functions
  change.\<close>

record 'g warp_world =
  ww_requestedMap :: u32
  ww_appearance :: u32
  ww_pauseRequest :: u32
  ww_playCounts :: "u8 list"
  ww_game :: 'g

text \<open>\<open>(v ? setFlag : clearFlag)(id)\<close> for the planned or the old values.\<close>

definition put_flags :: "(u32 \<Rightarrow> 'g \<Rightarrow> 'g) \<Rightarrow> (u32 \<Rightarrow> 'g \<Rightarrow> 'g) \<Rightarrow> (u32 \<times> u32) list \<Rightarrow> 'g \<Rightarrow> 'g" where
  "put_flags setFlag clearFlag ivs g = foldl (\<lambda>g (i, v). (if v \<noteq> 0 then setFlag else clearFlag) i g) g ivs"

definition LmWarpPublishAndQueue ::
  "(u32 \<Rightarrow> 'g \<Rightarrow> u32) \<Rightarrow> (u32 \<Rightarrow> 'g \<Rightarrow> 'g) \<Rightarrow> (u32 \<Rightarrow> 'g \<Rightarrow> 'g) \<Rightarrow>
   (u32 \<Rightarrow> 'g warp_world \<Rightarrow> u32 \<times> 'g warp_world) \<Rightarrow>
   u32 \<Rightarrow> u32 \<Rightarrow> warp_plan \<Rightarrow> bool \<Rightarrow> 'g warp_world \<Rightarrow> bool \<times> 'g warp_world" where
  "LmWarpPublishAndQueue getFlag setFlag clearFlag queueScene map_id point plan countsGiven w =
     (let replay = (wp_replayEvent plan \<noteq> LM_WARP_NO_REPLAY_EVENT); e = unat (wp_replayEvent plan) in
      if wp_count plan > 3 \<or> replay \<and> (e \<ge> LM_RETAIL_EVENT_COUNT \<or> \<not> countsGiven) then (False, w)
      else
        let ids = take (wp_count plan) (wp_ids plan);
            oldFlags = map (\<lambda>i. getFlag i (ww_game w)) ids;
            w1 = w\<lparr>ww_requestedMap := map_id, ww_appearance := point,
              ww_game := put_flags setFlag clearFlag (zip ids (wp_values plan)) (ww_game w),
              ww_playCounts := (if replay then (ww_playCounts w)[e := 0] else ww_playCounts w)\<rparr>;
            (r, w2) = queueScene 2 w1 in
        if r \<noteq> 0 then (True, w2)
        else (False, w2\<lparr>
          ww_playCounts := (if replay then (ww_playCounts w2)[e := ww_playCounts w ! e] else ww_playCounts w2),
          ww_game := put_flags setFlag clearFlag (zip ids oldFlags) (ww_game w2),
          ww_requestedMap := ww_requestedMap w, ww_appearance := ww_appearance w,
          ww_pauseRequest := ww_pauseRequest w\<rparr>))"

section \<open>The native functions\<close>

text \<open>What the code relies on: a flag is set or cleared by itself, and a scene request that fails has changed
  nothing but possibly the pause request.\<close>

locale warp_natives =
  fixes getFlag :: "u32 \<Rightarrow> 'g \<Rightarrow> u32" and setFlag clearFlag :: "u32 \<Rightarrow> 'g \<Rightarrow> 'g"
    and queueScene :: "u32 \<Rightarrow> 'g warp_world \<Rightarrow> u32 \<times> 'g warp_world"
  assumes get_set: "getFlag j (setFlag i g) \<noteq> 0 \<longleftrightarrow> j = i \<or> getFlag j g \<noteq> 0"
    and get_clear: "getFlag j (clearFlag i g) \<noteq> 0 \<longleftrightarrow> j \<noteq> i \<and> getFlag j g \<noteq> 0"
    and queue_fails: "queueScene k w = (0, w') \<Longrightarrow> \<exists>p. w' = w\<lparr>ww_pauseRequest := p\<rparr>"
begin

lemma get_zero:
  "getFlag j (setFlag i g) = 0 \<longleftrightarrow> j \<noteq> i \<and> getFlag j g = 0" "getFlag j (clearFlag i g) = 0 \<longleftrightarrow> j = i \<or> getFlag j g = 0"
  using get_set [of j i g] get_clear [of j i g] by blast+

lemma get_put:
  "getFlag j (put_flags setFlag clearFlag ivs g) \<noteq> 0 \<longleftrightarrow>
    (case map_of (rev ivs) j of None \<Rightarrow> getFlag j g \<noteq> 0 | Some v \<Rightarrow> v \<noteq> 0)"
proof (induction ivs rule: rev_induct)
  case (snoc x ivs)
  then show ?case
    by (cases x) (auto simp: put_flags_def get_zero)
qed (simp add: put_flags_def)

lemma put_back:
  assumes "length vs \<ge> length ids"
  shows "getFlag j (put_flags setFlag clearFlag (zip ids (map (\<lambda>i. getFlag i g) ids))
      (put_flags setFlag clearFlag (zip ids vs) g)) \<noteq> 0 \<longleftrightarrow> getFlag j g \<noteq> 0"
proof -
  have old: "map_of (rev (zip ids (map (\<lambda>i. getFlag i g) ids))) j = (if j \<in> set ids then Some (getFlag j g) else None)"
    by (induction ids) (auto simp: map_add_def split: option.splits)
  have "map_of (rev (zip ids vs)) j = None" if "j \<notin> set ids"
    using that set_zip_leftD by (fastforce simp: map_of_eq_None_iff)
  with old show ?thesis by (simp only: get_put) (auto split: option.splits)
qed

lemma refused:
  assumes "LmWarpPublishAndQueue getFlag setFlag clearFlag queueScene map_id point plan countsGiven w = (False, w')"
    and "length (wp_ids plan) = 3" "length (wp_values plan) = 3"
  shows "ww_requestedMap w' = ww_requestedMap w \<and> ww_appearance w' = ww_appearance w \<and>
    ww_pauseRequest w' = ww_pauseRequest w \<and> ww_playCounts w' = ww_playCounts w \<and>
    (\<forall>j. getFlag j (ww_game w') \<noteq> 0 \<longleftrightarrow> getFlag j (ww_game w) \<noteq> 0)"
proof -
  let ?ids = "take (wp_count plan) (wp_ids plan)"
  have ids: "length (wp_values plan) \<ge> length ?ids" using assms(2,3) by simp
  show ?thesis
    using assms(1) put_back [OF ids]
    by (auto simp: LmWarpPublishAndQueue_def Let_def split: if_splits prod.splits dest!: queue_fails)
qed

end

section \<open>A model of the native functions\<close>

text \<open>Flags as a map of words, and a scene queue that refuses after asking for the pause.\<close>

definition flags_get :: "u32 \<Rightarrow> (u32 \<Rightarrow> u32) \<Rightarrow> u32" where "flags_get i g = g i"
definition flags_set :: "u32 \<Rightarrow> (u32 \<Rightarrow> u32) \<Rightarrow> (u32 \<Rightarrow> u32)" where "flags_set i g = g(i := 1)"
definition flags_clear :: "u32 \<Rightarrow> (u32 \<Rightarrow> u32) \<Rightarrow> (u32 \<Rightarrow> u32)" where "flags_clear i g = g(i := 0)"
definition queue_full :: "u32 \<Rightarrow> (u32 \<Rightarrow> u32) warp_world \<Rightarrow> u32 \<times> (u32 \<Rightarrow> u32) warp_world" where
  "queue_full k w = (0, w\<lparr>ww_pauseRequest := k\<rparr>)"

interpretation flag_map: warp_natives flags_get flags_set flags_clear queue_full
  by unfold_locales (auto simp: flags_get_def flags_set_def flags_clear_def queue_full_def)

section \<open>The properties\<close>

text \<open>C29: A warp the game refuses leaves no trace: the requested map, the appearance point, the pause request, the
  events' play counts and every story flag are as before the attempt.\<close>

theorem refused_warp_undone:
  assumes "warp_natives getFlag setFlag clearFlag queueScene"
    and "LmWarpPublishAndQueue getFlag setFlag clearFlag queueScene map_id point plan countsGiven w = (False, w')"
    and "length (wp_ids plan) = 3" "length (wp_values plan) = 3"
  shows "ww_requestedMap w' = ww_requestedMap w \<and> ww_appearance w' = ww_appearance w \<and>
    ww_pauseRequest w' = ww_pauseRequest w \<and> ww_playCounts w' = ww_playCounts w \<and>
    (\<forall>j. getFlag j (ww_game w') \<noteq> 0 \<longleftrightarrow> getFlag j (ww_game w) \<noteq> 0)"
  using assms by (rule warp_natives.refused)

definition demo_world :: "(u32 \<Rightarrow> u32) warp_world" where
  "demo_world = \<lparr>ww_requestedMap = 2, ww_appearance = 7, ww_pauseRequest = 0, ww_playCounts = replicate 109 1,
     ww_game = (\<lambda>i. if i = 39 then 1 else 0)\<rparr>"

lemma refused_warp_undone_witness:
  "\<exists>w'. LmWarpPublishAndQueue flags_get flags_set flags_clear queue_full 10 0 (LmWarpFlagsForDestination 10 0) True
      demo_world = (False, w') \<and> ww_pauseRequest w' = 0 \<and> ww_playCounts w' = replicate 109 1"
proof -
  let ?r = "LmWarpPublishAndQueue flags_get flags_set flags_clear queue_full 10 0 (LmWarpFlagsForDestination 10 0) True demo_world"
  have "fst ?r = False"
    by (simp add: LmWarpPublishAndQueue_def queue_full_def Let_def LmWarpFlagsForDestination_def)
  then obtain w' where w': "?r = (False, w')" by (metis surjective_pairing)
  with refused_warp_undone [OF flag_map.warp_natives_axioms w'] show ?thesis
    by (auto simp: demo_world_def LmWarpFlagsForDestination_def Let_def)
qed

text \<open>C30: A reset recipe fits its arrays for every room and every set of shown items, and every destination's flag
  plan passes the guards of the warp when the play counts are given.\<close>

theorem recipes_and_plans_fit:
  "(case LmRoomResetRecipeFor room shown of None \<Rightarrow> room \<ge> LM_ROOM_TABLE_LIMIT
    | Some r \<Rightarrow> length (rr_edits r) \<le> 11 \<and> length (rr_events r) \<le> 2) \<and>
   (let plan = LmWarpFlagsForDestination map_id point in
    wp_count plan \<le> 3 \<and> length (wp_ids plan) = 3 \<and> length (wp_values plan) = 3 \<and>
    (wp_replayEvent plan = LM_WARP_NO_REPLAY_EVENT \<or> unat (wp_replayEvent plan) < LM_RETAIL_EVENT_COUNT))"
proof -
  have shown: "length (shown_edits s) \<le> 10" for s
    by (simp add: shown_edits_def upt_rec)
  have "length (filter (\<lambda>(r, i). ucast r = room) room_resets) \<le> (if room = 3 then 1 else 11)"
  proof (cases "room \<in> {3, 14, 16, 24, 25, 28, 35, 40, 41, 55, 57, 59, 61, 66, 70}")
    case True
    then show ?thesis by (auto simp: room_resets_def)
  next
    case False
    then have "filter (\<lambda>(r, i). ucast r = room) room_resets = []" by (auto simp: room_resets_def)
    then show ?thesis by simp
  qed
  with shown have "case LmRoomResetRecipeFor room shown of None \<Rightarrow> room \<ge> LM_ROOM_TABLE_LIMIT
    | Some r \<Rightarrow> length (rr_edits r) \<le> 11 \<and> length (rr_events r) \<le> 2"
    using add_mono [of "length (filter (\<lambda>(r, i). ucast r = room) room_resets)" 1 "length (shown_edits shown)" 10]
    by (auto simp: LmRoomResetRecipeFor_def)
  moreover have "let plan = LmWarpFlagsForDestination map_id point in
    wp_count plan \<le> 3 \<and> length (wp_ids plan) = 3 \<and> length (wp_values plan) = 3 \<and>
    (wp_replayEvent plan = LM_WARP_NO_REPLAY_EVENT \<or> unat (wp_replayEvent plan) < LM_RETAIL_EVENT_COUNT)"
    by (auto simp: LmWarpFlagsForDestination_def Let_def)
  ultimately show ?thesis by blast
qed

text \<open>The foyer pair is symmetric: if a room has a companion, the companion's companion is the room, for the same
  partner record, and the two differ.\<close>

lemma companion_symmetric:
  assumes "LmRoomFoyerCompanion room i n r = p" and "p \<noteq> LM_ROOM_NO_PARTNER"
  shows "LmRoomFoyerCompanion p i n r = room \<and> p \<noteq> room"
  using assms by (auto simp: LmRoomFoyerCompanion_def Let_def split: if_splits)

lemma companion_of_foyer: "LmRoomFoyerCompanion 35 36 72 0x24000023 = 2"
  using companion_symmetric [of 2 36 72 "0x24000023" 35] by (simp add: LmRoomFoyerCompanion_def)

end
