(* ===== verification/Colour.thy ===== *)
theory Colour
  imports Prelude "HOL-Library.Multiset"
begin

text \<open>
  Recolouring Luigi: the CMPR texture blocks (\<open>include/susamune/lm_colour_codec.h\<close>) and the search for the
  two textures in the model archive (\<open>include/susamune/lm_colour_model.h\<close>).
\<close>

section \<open>Blocks\<close>





section \<open>What a block shows\<close>




section \<open>Recolouring a block recolours its texels\<close>













section \<open>The textures of the model\<close>

abbreviation LM_COLOUR_TEXTURE_BYTES :: u32 where "LM_COLOUR_TEXTURE_BYTES \<equiv> 0x2000"
abbreviation LM_COLOUR_TEXTURE_HEADER_BYTES :: u32 where "LM_COLOUR_TEXTURE_HEADER_BYTES \<equiv> 32"
abbreviation texture_bytes :: u32 where "texture_bytes \<equiv> LM_COLOUR_TEXTURE_HEADER_BYTES + LM_COLOUR_TEXTURE_BYTES"

definition LmColourMem1Range :: "u32 \<Rightarrow> u32 \<Rightarrow> bool" where
  "LmColourMem1Range address sz \<longleftrightarrow> address \<ge> 0x80000000 \<and> sz \<le> 0x01800000 \<and> address \<le> 0x81800000 - sz"

definition LmColourInside :: "u32 \<Rightarrow> u32 \<Rightarrow> u32 \<Rightarrow> u32 \<Rightarrow> bool" where
  "LmColourInside address sz start stop \<longleftrightarrow> start < stop \<and> sz \<le> stop - start \<and> address \<ge> start \<and> address \<le> stop - sz"

definition LmColourOverlaps :: "u32 \<Rightarrow> u32 \<Rightarrow> u32 \<Rightarrow> u32 \<Rightarrow> bool" where
  "LmColourOverlaps a sizeA b sizeB \<longleftrightarrow> a < b + sizeB \<and> b < a + sizeA"

text \<open>One turn of the loop over the two textures.\<close>

definition texture_ok :: "(u32 \<Rightarrow> u32) \<Rightarrow> u32 \<Rightarrow> u32 \<Rightarrow> u32 \<Rightarrow> u32 \<Rightarrow> u32 \<Rightarrow> u32 \<Rightarrow> bool" where
  "texture_ok read start stop model table tableBytes t \<longleftrightarrow>
     \<not> (t AND 31 \<noteq> 0 \<or> \<not> LmColourInside t texture_bytes start stop \<or>
        LmColourOverlaps t texture_bytes model 0x80 \<or> LmColourOverlaps t texture_bytes table tableBytes) \<and>
     \<not> (read t \<noteq> 0x0A000080 \<or> read (t + 4) \<noteq> 0x00800000)"

text \<open>The checks of the heap object and of the model's header, in the order of the code.\<close>

definition colour_heap :: "(u32 \<Rightarrow> u32) \<Rightarrow> u32 \<Rightarrow> (u32 \<times> u32) option" where
  "colour_heap read heap =
     (if heap AND 3 \<noteq> 0 \<or> \<not> LmColourMem1Range heap 0x3C then None
      else if read heap \<noteq> 0x8038886C then None
      else
        let start = read (heap + 0x30); stop = read (heap + 0x34) in
        if start \<ge> stop \<or> (start OR stop) AND 15 \<noteq> 0 \<or> \<not> LmColourMem1Range start (stop - start) \<or>
           read (heap + 0x38) \<noteq> stop - start then None
        else Some (start, stop))"

definition colour_header :: "(u32 \<Rightarrow> u32) \<Rightarrow> u32 \<Rightarrow> u32 \<Rightarrow> u32 \<Rightarrow> bool" where
  "colour_header read model start stop \<longleftrightarrow>
     \<not> (model AND 31 \<noteq> 0 \<or> \<not> LmColourInside model 0x80 start stop) \<and>
     \<not> (read model \<noteq> 0x04B40000 \<or> read (model + 4) \<noteq> 0x0CA60000 \<or> read (model + 8) \<noteq> 0x0041001C \<or>
        read (model + 0x10) \<noteq> 0x06D20C6A \<or> read (model + 0x28) AND 0xFFFF \<noteq> 19)"

text \<open>The result and the two texture addresses; \<open>result\<close> is not null.\<close>

definition LmColourResolveModel :: "(u32 \<Rightarrow> u32) option \<Rightarrow> u32 \<Rightarrow> u32 \<Rightarrow> bool \<times> u32 \<times> u32" where
  "LmColourResolveModel callback heap model =
     (let refuse = (False, 0, 0) in
      case callback of None \<Rightarrow> refuse
      | Some read \<Rightarrow>
        (case colour_heap read heap of None \<Rightarrow> refuse
         | Some (start, stop) \<Rightarrow>
           if \<not> colour_header read model start stop then refuse
           else
             let count = drop_bit 16 (read (model + 0x20)) in
             if count < 7 \<or> count > 64 then refuse
             else
               let tableBytes = count * 4; table = read (model + 0x60) in
               if table AND 3 \<noteq> 0 \<or> \<not> LmColourInside table tableBytes start stop \<or>
                  LmColourOverlaps table tableBytes model 0x80 then refuse
               else
                 let t0 = read (table + 3 * 4); t1 = read (table + 6 * 4) in
                 if \<not> texture_ok read start stop model table tableBytes t0 then refuse
                 else if \<not> texture_ok read start stop model table tableBytes t1 then refuse
                 else if LmColourOverlaps t0 texture_bytes t1 texture_bytes then refuse
                 else (True, t0, t1)))"

lemma mem1_inside:
  "LmColourMem1Range start (stop - start) \<Longrightarrow> start < stop \<Longrightarrow>
    0x80000000 \<le> unat start \<and> unat start < unat stop \<and> unat stop \<le> 0x81800000"
proof -
  assume m: "LmColourMem1Range start (stop - start)" and l: "start < stop"
  have d: "unat (stop - start) = unat stop - unat start" using l by (intro unat_minus_le) simp
  then have "unat (0x81800000 - (stop - start)) = 0x81800000 - (unat stop - unat start)"
    using m by (subst unat_minus_le) (auto simp: LmColourMem1Range_def word_le_nat_alt)
  with m l d show ?thesis by (auto simp: LmColourMem1Range_def word_le_nat_alt word_less_nat_alt)
qed

lemma inside_unat:
  assumes "LmColourInside t sz start stop"
  shows "unat start \<le> unat t \<and> unat t + unat sz \<le> unat stop"
proof -
  have "unat (stop - start) = unat stop - unat start"
    using assms by (intro unat_minus_le) (auto simp: LmColourInside_def intro: less_imp_le)
  moreover from this have "unat (stop - sz) = unat stop - unat sz"
    using assms by (intro unat_minus_le) (auto simp: LmColourInside_def word_le_nat_alt)
  ultimately show ?thesis using assms by (auto simp: LmColourInside_def word_le_nat_alt)
qed

text \<open>A model is resolved only to two textures that lie apart inside the heap's bounds in main memory, 32-byte
  aligned and with the header words of the textures looked for; a refusal returns no address.\<close>

theorem resolved_textures:
  "case LmColourResolveModel callback heap model of (ok, t0, t1) \<Rightarrow>
    \<not> ok \<and> t0 = 0 \<and> t1 = 0 \<or>
    ok \<and> (\<exists>read. callback = Some read \<and>
      (\<forall>t \<in> {t0, t1}. t AND 31 = 0 \<and> read t = 0x0A000080 \<and> read (t + 4) = 0x00800000 \<and> 0x80000000 \<le> unat t \<and>
        unat (read (heap + 0x30)) \<le> unat t \<and> unat t + 0x2020 \<le> unat (read (heap + 0x34)) \<and>
        unat (read (heap + 0x34)) \<le> 0x81800000) \<and>
      {unat t0..<unat t0 + 0x2020} \<inter> {unat t1..<unat t1 + 0x2020} = {})"
proof (cases "LmColourResolveModel callback heap model")
  case assms: (fields ok t0 t1)
  show ?thesis
  proof (cases ok)
  case True
  then obtain read start stop table n where r: "callback = Some read" "colour_heap read heap = Some (start, stop)"
      "texture_ok read start stop model table n t0" "texture_ok read start stop model table n t1"
      "\<not> LmColourOverlaps t0 texture_bytes t1 texture_bytes"
    using assms by (auto simp: LmColourResolveModel_def Let_def split: option.splits if_splits)
  have b: "start = read (heap + 0x30)" "stop = read (heap + 0x34)" "0x80000000 \<le> unat start \<and> unat stop \<le> 0x81800000"
    using r(2) mem1_inside [of start stop] by (auto simp: colour_heap_def Let_def not_le split: if_splits)
  have t: "t AND 31 = 0 \<and> read t = 0x0A000080 \<and> read (t + 4) = 0x00800000 \<and> 0x80000000 \<le> unat t \<and>
      unat start \<le> unat t \<and> unat t + 0x2020 \<le> unat stop"
    if "t \<in> {t0, t1}" for t
    using that r(3,4) inside_unat [of t texture_bytes start stop] b(3) by (auto simp: texture_ok_def)
  then have "unat t0 + 0x2020 \<le> unat stop" "unat t1 + 0x2020 \<le> unat stop" by auto
  with b(3) have "unat (t0 + texture_bytes) = unat t0 + 0x2020" "unat (t1 + texture_bytes) = unat t1 + 0x2020"
    by (subst unat_plus_bound; simp)+
  then have "unat t0 + 0x2020 \<le> unat t1 \<or> unat t1 + 0x2020 \<le> unat t0"
    using r(5) by (auto simp: LmColourOverlaps_def word_less_nat_alt)
  then have "{unat t0..<unat t0 + 0x2020} \<inter> {unat t1..<unat t1 + 0x2020} = {}" by auto
  with True r(1) t b assms show ?thesis by auto
  next
  case False
  then have "t0 = 0 \<and> t1 = 0"
    using assms by (auto simp: LmColourResolveModel_def Let_def split: option.splits if_splits)
  with False assms show ?thesis by simp
  qed
qed

definition demo_read :: "u32 \<Rightarrow> u32" where
  "demo_read a =
     (case map_of [(0x80001000, 0x8038886C), (0x80001030, 0x80010000), (0x80001034, 0x80030000), (0x80001038, 0x20000),
        (0x80010000, 0x04B40000), (0x80010004, 0x0CA60000), (0x80010008, 0x0041001C), (0x80010010, 0x06D20C6A),
        (0x80010020, 0x00070000), (0x80010028, 19), (0x80010060, 0x80010100), (0x8001010C, 0x80012000),
        (0x80010118, 0x80018000), (0x80012000, 0x0A000080), (0x80012004, 0x00800000), (0x80018000, 0x0A000080),
        (0x80018004, 0x00800000)] a of None \<Rightarrow> 0 | Some v \<Rightarrow> v)"

lemma resolved_textures_witness: "{unat (0x80012000 :: u32)..<unat (0x80012000 :: u32) + 0x2020} \<inter>
    {unat (0x80018000 :: u32)..<unat (0x80018000 :: u32) + 0x2020} = {}"
proof -
  have "LmColourResolveModel (Some demo_read) 0x80001000 0x80010000 = (True, 0x80012000, 0x80018000)"
    by (simp add: LmColourResolveModel_def Let_def colour_heap_def colour_header_def texture_ok_def demo_read_def
        LmColourMem1Range_def LmColourInside_def LmColourOverlaps_def)
  with resolved_textures [of "Some demo_read" "0x80001000" "0x80010000"]
  show ?thesis by simp
qed

end
