(* ===== verification/PrefText.thy ===== *)
theory PrefText
  imports Crc Format
begin

text \<open>
  The preferences section of the settings file, \<open>launcher/kernel/LmPreferences.c\<close> and
  \<open>include/susamune/lm_preferences.h\<close>: the block shared with the game, its checksum, and the parser of the
  section.  A pair of pointers is the string between them.
\<close>

section \<open>The block\<close>

abbreviation LM_PREFERENCES_MAGIC :: u32 where "LM_PREFERENCES_MAGIC \<equiv> 0x4C4D5046"
abbreviation LM_PREFERENCES_VERSION :: u32 where "LM_PREFERENCES_VERSION \<equiv> 2"
abbreviation LM_PREFERENCES_LEGACY_VERSION :: u32 where "LM_PREFERENCES_LEGACY_VERSION \<equiv> 1"
abbreviation LM_PREFERENCES_VALUE_COUNT :: nat where "LM_PREFERENCES_VALUE_COUNT \<equiv> 48"
abbreviation LM_PREFERENCES_LEGACY_VALUE_COUNT :: nat where "LM_PREFERENCES_LEGACY_VALUE_COUNT \<equiv> 46"
abbreviation LM_PREFERENCES_PRESENT_HI :: u32 where "LM_PREFERENCES_PRESENT_HI \<equiv> 0x0000FFFF"
abbreviation LM_PREFERENCES_LEGACY_PRESENT_HI :: u32 where "LM_PREFERENCES_LEGACY_PRESENT_HI \<equiv> 0x00003FFF"
abbreviation LM_PREFERENCES_OK :: u32 where "LM_PREFERENCES_OK \<equiv> 0"
abbreviation LM_PREFERENCES_NO_FILE :: u32 where "LM_PREFERENCES_NO_FILE \<equiv> 1"
abbreviation LM_PREFERENCES_INVALID :: u32 where "LM_PREFERENCES_INVALID \<equiv> 2"
abbreviation LM_PREFERENCES_IO_ERROR :: u32 where "LM_PREFERENCES_IO_ERROR \<equiv> 3"
abbreviation LM_PREFERENCES_UNAVAILABLE :: u32 where "LM_PREFERENCES_UNAVAILABLE \<equiv> 4"

record LmPreferencesBlock =
  pb_magic :: u32
  pb_version :: u32
  pb_requestSeq :: u32
  pb_checksum :: u32
  pb_presentLo :: u32
  pb_presentHi :: u32
  pb_reserved0 :: "u32 list"
  pb_ackSeq :: u32
  pb_status :: u32
  pb_ready :: u32
  pb_reserved1 :: "u32 list"
  pb_values :: "u32 list"

definition LmPreferencesCrcWord :: "u32 \<Rightarrow> u32 \<Rightarrow> u32" where
  "LmPreferencesCrcWord crc value =
     foldl (\<lambda>crc byte. crc_byte crc (ucast (drop_bit (24 - byte * 8) value))) crc [0, 1, 2, 3]"

definition LmPreferencesChecksumForVersion :: "u32 list \<Rightarrow> u32 \<Rightarrow> u32 \<Rightarrow> u32 \<Rightarrow> u32" where
  "LmPreferencesChecksumForVersion values presentLo presentHi version =
     (let crc = LmPreferencesCrcWord 0xFFFFFFFF version;
          crc = LmPreferencesCrcWord crc presentLo;
          crc = LmPreferencesCrcWord crc presentHi
      in NOT (foldl LmPreferencesCrcWord crc values))"

definition LmPreferencesChecksum :: "u32 list \<Rightarrow> u32 \<Rightarrow> u32 \<Rightarrow> u32" where
  "LmPreferencesChecksum values presentLo presentHi =
     LmPreferencesChecksumForVersion values presentLo presentHi LM_PREFERENCES_VERSION"

definition LmPreferencesHas :: "u32 \<Rightarrow> u32 \<Rightarrow> nat \<Rightarrow> bool" where
  "LmPreferencesHas low high index =
     (if index \<ge> LM_PREFERENCES_VALUE_COUNT then False
      else if index < 32 then low AND push_bit index 1 \<noteq> 0 else high AND push_bit (index - 32) 1 \<noteq> 0)"

definition LmPreferencesValid :: "LmPreferencesBlock \<Rightarrow> bool" where
  "LmPreferencesValid block \<longleftrightarrow>
     \<not> (pb_magic block \<noteq> LM_PREFERENCES_MAGIC \<or> pb_version block \<noteq> LM_PREFERENCES_VERSION \<or>
       pb_presentHi block AND NOT LM_PREFERENCES_PRESENT_HI \<noteq> 0 \<or> pb_reserved0 block ! 0 \<noteq> 0 \<or> pb_reserved0 block ! 1 \<noteq> 0) \<and>
     list_all (\<lambda>i. pb_reserved1 block ! i = 0) [0..<5] \<and>
     list_all (\<lambda>i. \<not> (\<not> LmPreferencesHas (pb_presentLo block) (pb_presentHi block) i \<and> pb_values block ! i \<noteq> 0xFFFFFFFF))
       [0..<LM_PREFERENCES_VALUE_COUNT] \<and>
     pb_checksum block = LmPreferencesChecksum (pb_values block) (pb_presentLo block) (pb_presentHi block)"

section \<open>Lines\<close>

definition pref_section :: string where "pref_section = ''lm_preferences''"

definition pref_keys :: "string list" where
  "pref_keys = [
    ''metadata'', ''inputs'', ''lag'', ''r_pump'', ''luigi_colour'', ''luigi_rgb'',
    ''timer_visible'', ''timer_label'', ''timer_x'', ''timer_y'', ''timer_scale'',
    ''timer_opacity'', ''timer_brightness'', ''timer_background_rgb'',
    ''timer_background_opacity'', ''timer_padding'', ''timer_char_0_rgb'',
    ''timer_char_1_rgb'', ''timer_char_2_rgb'', ''timer_char_3_rgb'', ''timer_char_4_rgb'',
    ''timer_char_5_rgb'', ''timer_char_6_rgb'', ''timer_char_7_rgb'', ''timer_char_8_rgb'',
    ''streak_x'', ''streak_y'', ''streak_scale'', ''streak_opacity'', ''streak_brightness'',
    ''streak_background_rgb'', ''streak_background_opacity'', ''streak_padding'',
    ''streak_rgb'', ''timing_profile'', ''reference_1_delay'', ''reference_1_hold'',
    ''reference_1_tolerance'', ''reference_1_button'', ''reference_1_valid'',
    ''reference_2_delay'', ''reference_2_hold'', ''reference_2_tolerance'',
    ''reference_2_button'', ''reference_2_valid'', ''boo_safe'',
    ''timer_run_in_menus'', ''reset_room_bind'']"

definition Space :: "char \<Rightarrow> bool" where
  "Space c \<longleftrightarrow> c = CHR '' '' \<or> c = CHR 0x09 \<or> c = CHR 0x0D"

fun Equal :: "string \<Rightarrow> string \<Rightarrow> bool" where
  "Equal (a # as) (b # bs) \<longleftrightarrow> a = b \<and> Equal as bs"
| "Equal [] [] \<longleftrightarrow> True"
| "Equal _ _ \<longleftrightarrow> False"

definition trim_end :: "string \<Rightarrow> string" where
  "trim_end s = rev (dropWhile Space (rev s))"

definition Trim :: "string \<Rightarrow> string" where
  "Trim s = trim_end (dropWhile Space s)"

text \<open>The result -1 is \<open>None\<close>.\<close>

definition Header :: "string \<Rightarrow> bool option" where
  "Header line = (case Trim line of
     [] \<Rightarrow> None
   | c # start \<Rightarrow> if c \<noteq> CHR ''['' then None
       else let close = dropWhile (\<lambda>c. c \<noteq> CHR '']'') start in
         if close = [] then Some False
         else Some (Equal (takeWhile (\<lambda>c. c \<noteq> CHR '']'') start) pref_section))"

text \<open>The index of the first key that is equal, from \<open>i\<close> on.\<close>

fun key_index :: "nat \<Rightarrow> string list \<Rightarrow> string \<Rightarrow> nat option" where
  "key_index i [] s = None"
| "key_index i (k # ks) s = (if Equal s k then Some i else key_index (Suc i) ks s)"

text \<open>The key and where the value starts; the value ends where the untrimmed line does.\<close>

definition Key :: "string \<Rightarrow> (nat \<times> string) option" where
  "Key line = (case Trim line of
     [] \<Rightarrow> None
   | c # s \<Rightarrow> if c = CHR '';'' \<or> c = CHR ''#'' then None
       else if dropWhile (\<lambda>c. c \<noteq> CHR ''='') (c # s) = [] then None
       else let key = trim_end (takeWhile (\<lambda>c. c \<noteq> CHR ''='') (c # s));
                value = tl (dropWhile (\<lambda>c. c \<noteq> CHR ''='') (dropWhile Space line)) in
         case key_index 0 pref_keys key of
           Some i \<Rightarrow> Some (i, value)
         | None \<Rightarrow> if Equal key ''version'' then Some (LM_PREFERENCES_VALUE_COUNT, value)
             else if Equal key ''checksum'' then Some (LM_PREFERENCES_VALUE_COUNT + 1, value)
             else None)"

definition pref_digit :: "char \<Rightarrow> u32 option" where
  "pref_digit c =
     (if c \<ge> CHR ''0'' \<and> c \<le> CHR ''9'' then Some (of_nat (of_char c) - 48)
      else if c \<ge> CHR ''a'' \<and> c \<le> CHR ''f'' then Some (of_nat (of_char c) - 97 + 10)
      else if c \<ge> CHR ''A'' \<and> c \<le> CHR ''F'' then Some (of_nat (of_char c) - 65 + 10)
      else None)"

fun number_loop :: "u32 \<Rightarrow> u32 \<Rightarrow> bool \<Rightarrow> string \<Rightarrow> (u32 \<times> bool) option" where
  "number_loop base result any [] = Some (result, any)"
| "number_loop base result any (c # s) =
     (case pref_digit c of
        None \<Rightarrow> None
      | Some digit \<Rightarrow> if digit \<ge> base \<or> result > (0xFFFFFFFF - digit) div base then None
          else number_loop base (result * base + digit) True s)"

definition Number :: "string \<Rightarrow> u32 option" where
  "Number value =
     (let s = Trim (takeWhile (\<lambda>c. c \<noteq> CHR '';'' \<and> c \<noteq> CHR ''#'') value);
          negative = (s \<noteq> [] \<and> hd s = CHR ''-'');
          s = (if negative then tl s else s);
          hex = (length s \<ge> 2 \<and> s ! 0 = CHR ''0'' \<and> (s ! 1 = CHR ''x'' \<or> s ! 1 = CHR ''X''))
      in case number_loop (if hex then 16 else 10) 0 False (if hex then drop 2 s else s) of
           None \<Rightarrow> None
         | Some (result, any) \<Rightarrow> if \<not> any \<or> negative \<and> result > 0x80000000 then None
             else Some (if negative then 0 - result else result))"

section \<open>The parser\<close>

definition Empty :: LmPreferencesBlock where
  "Empty = (let values = replicate LM_PREFERENCES_VALUE_COUNT 0xFFFFFFFF in
     \<lparr>pb_magic = LM_PREFERENCES_MAGIC, pb_version = LM_PREFERENCES_VERSION, pb_requestSeq = 0,
      pb_checksum = LmPreferencesChecksum values 0 0, pb_presentLo = 0, pb_presentHi = 0, pb_reserved0 = [0, 0],
      pb_ackSeq = 0, pb_status = 0, pb_ready = 0, pb_reserved1 = [0, 0, 0, 0, 0], pb_values = values\<rparr>)"

text \<open>The local variables of the loop over the lines.\<close>

record parse_state =
  ps_out :: LmPreferencesBlock
  ps_ours :: bool
  ps_seen :: bool
  ps_versionSeen :: bool
  ps_checksumSeen :: bool
  ps_expected :: u32
  ps_fileVersion :: u32

definition parse_start :: parse_state where
  "parse_start = \<lparr>ps_out = Empty, ps_ours = False, ps_seen = False, ps_versionSeen = False, ps_checksumSeen = False,
     ps_expected = 0, ps_fileVersion = 0\<rparr>"

text \<open>A preference: refused when it is there already.\<close>

definition parse_value :: "nat \<Rightarrow> u32 \<Rightarrow> LmPreferencesBlock \<Rightarrow> LmPreferencesBlock option" where
  "parse_value key parsed out =
     (if LmPreferencesHas (pb_presentLo out) (pb_presentHi out) key then None
      else let out = out\<lparr>pb_values := (pb_values out)[key := parsed]\<rparr> in
        Some (if key < 32 then out\<lparr>pb_presentLo := pb_presentLo out OR push_bit key 1\<rparr>
          else out\<lparr>pb_presentHi := pb_presentHi out OR push_bit (key - 32) 1\<rparr>))"

text \<open>One line; \<open>None\<close> is the return of \<open>LM_PREFERENCES_INVALID\<close>.\<close>

definition parse_line :: "string \<Rightarrow> parse_state \<Rightarrow> parse_state option" where
  "parse_line line st =
     (case Header line of
        Some header \<Rightarrow> Some (st\<lparr>ps_ours := header, ps_seen := ps_seen st \<or> header\<rparr>)
      | None \<Rightarrow> if \<not> ps_ours st then Some st else
         (case Key line of
            None \<Rightarrow> Some st
          | Some (key, value) \<Rightarrow>
             (case Number value of
                None \<Rightarrow> None
              | Some parsed \<Rightarrow>
                  if key = LM_PREFERENCES_VALUE_COUNT then
                    (if ps_versionSeen st \<or> parsed \<noteq> LM_PREFERENCES_VERSION \<and> parsed \<noteq> LM_PREFERENCES_LEGACY_VERSION then None
                     else Some (st\<lparr>ps_versionSeen := True, ps_fileVersion := parsed\<rparr>))
                  else if key = LM_PREFERENCES_VALUE_COUNT + 1 then
                    (if ps_checksumSeen st then None else Some (st\<lparr>ps_checksumSeen := True, ps_expected := parsed\<rparr>))
                  else map_option (\<lambda>out. st\<lparr>ps_out := out\<rparr>) (parse_value key parsed (ps_out st)))))"

abbreviation newline :: char where "newline \<equiv> CHR 0x0A"

lemma length_rest: "buffer \<noteq> [] \<Longrightarrow> length (tl (dropWhile P buffer)) < length buffer"
  using length_dropWhile_le [of P buffer] by (cases buffer) auto

text \<open>The loop over the lines of the text.\<close>

function parse_loop :: "string \<Rightarrow> parse_state \<Rightarrow> parse_state option" where
  "parse_loop buffer st =
     (if buffer = [] then Some st
      else let line = takeWhile (\<lambda>c. c \<noteq> newline) buffer in
        if CHR 0x00 \<in> set line then None
        else (case parse_line line st of
            None \<Rightarrow> None
          | Some st' \<Rightarrow> parse_loop (tl (dropWhile (\<lambda>c. c \<noteq> newline) buffer)) st'))"
  by pat_completeness auto
termination by (relation "measure (\<lambda>(buffer, st). length buffer)") (auto simp: length_rest simp del: length_tl)

declare parse_loop.simps [simp del]

text \<open>The checks behind the loop.\<close>

definition parse_end :: "parse_state \<Rightarrow> u32 \<times> LmPreferencesBlock" where
  "parse_end st =
     (let out = ps_out st in
      if \<not> ps_seen st then (LM_PREFERENCES_NO_FILE, out)
      else if \<not> ps_versionSeen st \<or> \<not> ps_checksumSeen st then (LM_PREFERENCES_INVALID, out)
      else if ps_fileVersion st = LM_PREFERENCES_LEGACY_VERSION \<and> pb_presentHi out AND NOT LM_PREFERENCES_LEGACY_PRESENT_HI \<noteq> 0
        then (LM_PREFERENCES_INVALID, out)
      else
        let legacy = (ps_fileVersion st = LM_PREFERENCES_LEGACY_VERSION);
            actual = (if legacy
              then LmPreferencesChecksumForVersion (take LM_PREFERENCES_LEGACY_VALUE_COUNT (pb_values out) @ [0, 0])
                (pb_presentLo out) (pb_presentHi out) (ps_fileVersion st)
              else LmPreferencesChecksum (pb_values out) (pb_presentLo out) (pb_presentHi out));
            out = (if legacy
              then out\<lparr>pb_values := take LM_PREFERENCES_LEGACY_VALUE_COUNT (pb_values out) @ [0xFFFFFFFF, 0xFFFFFFFF]\<rparr> else out)
        in if ps_expected st \<noteq> actual then (LM_PREFERENCES_INVALID, out)
           else let out = out\<lparr>pb_checksum := LmPreferencesChecksum (pb_values out) (pb_presentLo out) (pb_presentHi out)\<rparr>
             in (if LmPreferencesValid out then LM_PREFERENCES_OK else LM_PREFERENCES_INVALID, out))"

text \<open>\<open>Parse\<close>: the status, and \<open>*out\<close> when the loop has ended.\<close>

definition Parse :: "string \<Rightarrow> u32 \<times> LmPreferencesBlock option" where
  "Parse buffer = (case parse_loop buffer parse_start of
     None \<Rightarrow> (LM_PREFERENCES_INVALID, None)
   | Some st \<Rightarrow> (case parse_end st of (status, out) \<Rightarrow> (status, Some out)))"

end
