(* ===== verification/PrefRound.thy ===== *)
theory PrefRound
  imports PrefText
begin

text \<open>
  What a save writes parses back: the text \<open>Save\<close> composes out of the old file and a block of preferences,
  and the proof that \<open>Parse\<close> finds exactly that block in it.
\<close>

section \<open>The text of a save\<close>

abbreviation crlf :: string where "crlf \<equiv> [CHR 0x0D, CHR 0x0A]"

text \<open>The lines of \<open>EmitPreferences\<close>.\<close>

definition version_line :: string where
  "version_line = sprintf (''version = %u'' @ crlf) [AInt LM_PREFERENCES_VERSION]"

definition value_line :: "LmPreferencesBlock \<Rightarrow> nat \<Rightarrow> string" where
  "value_line request i = sprintf (''%s = 0x%08X'' @ crlf) [AStr (pref_keys ! i), AInt (pb_values request ! i)]"

definition checksum_line :: "LmPreferencesBlock \<Rightarrow> string" where
  "checksum_line request = sprintf (''checksum = 0x%08X'' @ crlf) [AInt (pb_checksum request)]"

definition present :: "LmPreferencesBlock \<Rightarrow> nat \<Rightarrow> bool" where
  "present request i \<longleftrightarrow> LmPreferencesHas (pb_presentLo request) (pb_presentHi request) i"

definition pref_text :: "LmPreferencesBlock \<Rightarrow> string" where
  "pref_text request = version_line @ concat (map (value_line request) (filter (present request) [0..<LM_PREFERENCES_VALUE_COUNT])) @
     checksum_line request"

text \<open>The old text line by line: what is written, and whether the preferences have been.\<close>

function save_from :: "LmPreferencesBlock \<Rightarrow> bool \<Rightarrow> bool \<Rightarrow> string \<Rightarrow> string \<times> bool" where
  "save_from request ours emitted buffer =
     (if buffer = [] then ([], emitted)
      else
        let line = takeWhile (\<lambda>c. c \<noteq> newline) buffer;
            rest = dropWhile (\<lambda>c. c \<noteq> newline) buffer;
            header = Header line;
            ours' = (case header of None \<Rightarrow> ours | Some h \<Rightarrow> h);
            kept = (if ours' \<and> header = None \<and> Key line \<noteq> None then [] else line @ take 1 rest);
            here = (ours' \<and> header \<noteq> None \<and> \<not> emitted);
            prefs = (if here then (if rest = [] then crlf else []) @ pref_text request else []);
            later = save_from request ours' (emitted \<or> here) (tl rest)
        in (kept @ prefs @ fst later, snd later))"
  by pat_completeness auto
termination by (relation "measure (\<lambda>(request, ours, emitted, buffer). length buffer)") (auto simp: length_rest simp del: length_tl)

declare save_from.simps [simp del]

lemma save_Nil [simp]: "save_from request ours emitted [] = ([], emitted)"
  by (subst save_from.simps) simp

definition saved_text :: "LmPreferencesBlock \<Rightarrow> string \<Rightarrow> string" where
  "saved_text request buffer = (case save_from request False False buffer of (out, emitted) \<Rightarrow>
     out @ (if emitted then [] else crlf @ ''[lm_preferences]'' @ crlf @ pref_text request))"

section \<open>The parser along lines\<close>

lemma parse_loop_Nil [simp]: "parse_loop [] st = Some st"
  by (simp add: parse_loop.simps)

lemma parse_line_Nil [simp]: "parse_line [] st = Some st"
  by (simp add: parse_line_def Header_def Key_def Trim_def trim_end_def)

lemma cut_line:
  assumes "newline \<notin> set line"
  shows "takeWhile (\<lambda>c. c \<noteq> newline) (line @ newline # rest) = line" "dropWhile (\<lambda>c. c \<noteq> newline) (line @ newline # rest) = newline # rest"
    "takeWhile (\<lambda>c. c \<noteq> newline) line = line" "dropWhile (\<lambda>c. c \<noteq> newline) line = []"
proof -
  have all: "\<forall>c \<in> set line. c \<noteq> newline" using assms by blast
  show "takeWhile (\<lambda>c. c \<noteq> newline) (line @ newline # rest) = line" "dropWhile (\<lambda>c. c \<noteq> newline) (line @ newline # rest) = newline # rest"
    using all by (simp_all add: takeWhile_append2 dropWhile_append2)
  show "takeWhile (\<lambda>c. c \<noteq> newline) line = line" "dropWhile (\<lambda>c. c \<noteq> newline) line = []"
    using all by (simp_all add: takeWhile_eq_all_conv dropWhile_eq_Nil_conv)
qed

lemma parse_loop_line:
  "newline \<notin> set line \<Longrightarrow> CHR 0x00 \<notin> set line \<Longrightarrow>
    parse_loop (line @ newline # rest) st = Option.bind (parse_line line st) (parse_loop rest)"
  by (subst parse_loop.simps) (simp add: cut_line Let_def split: option.split)

lemma parse_loop_last:
  "newline \<notin> set line \<Longrightarrow> CHR 0x00 \<notin> set line \<Longrightarrow> parse_loop line st = parse_line line st"
  by (cases "line = []") (subst parse_loop.simps, simp add: cut_line Let_def split: option.split)+

lemma trim_end_cr: "trim_end (s @ [CHR 0x0D]) = trim_end s"
  by (simp add: trim_end_def Space_def)

lemma Trim_cr: "Trim (s @ [CHR 0x0D]) = Trim s"
proof (cases "\<forall>c \<in> set s. Space c")
  case True
  then have "dropWhile Space s = []" "dropWhile Space (s @ [CHR 0x0D]) = []"
    by (simp_all add: dropWhile_eq_Nil_conv Space_def)
  then show ?thesis by (simp only: Trim_def)
next
  case False
  then obtain c where "c \<in> set s" "\<not> Space c" by blast
  then have "dropWhile Space (s @ [CHR 0x0D]) = dropWhile Space s @ [CHR 0x0D]" by (rule dropWhile_append1)
  then show ?thesis by (simp add: Trim_def trim_end_cr)
qed

lemma Header_cr: "Header (s @ [CHR 0x0D]) = Header s"
  by (simp add: Header_def Trim_cr)

section \<open>Foreign lines\<close>

lemma parse_line_out:
  "\<not> ps_ours st \<or> Key line = None \<Longrightarrow> parse_line line st =
    Some (case Header line of None \<Rightarrow> st | Some h \<Rightarrow> st\<lparr>ps_ours := h, ps_seen := ps_seen st \<or> h\<rparr>)"
  by (auto simp: parse_line_def split: option.split)

lemma rest_subset: "set (tl (dropWhile P xs)) \<subseteq> set xs"
proof -
  have "set (dropWhile P xs) \<subseteq> set xs" by (auto dest: set_dropWhileD)
  moreover have "set (tl ys) \<subseteq> set ys" for ys :: "'a list" by (cases ys) auto
  ultimately show ?thesis by blast
qed

text \<open>Once the preferences are written, nothing that follows changes what is parsed.\<close>

lemma save_after:
  "CHR 0x00 \<notin> set buffer \<Longrightarrow> ps_seen st \<Longrightarrow>
    \<exists>ours'. parse_loop (fst (save_from request (ps_ours st) True buffer)) st = Some (st\<lparr>ps_ours := ours'\<rparr>)"
proof (induction "length buffer" arbitrary: buffer st rule: less_induct)
  case less
  show ?case
  proof (cases "buffer = []")
    case True
    then show ?thesis by simp (metis parse_state.surjective parse_state.update_convs(2))
  next
    case False
    let ?line = "takeWhile (\<lambda>c. c \<noteq> newline) buffer" and ?rest = "dropWhile (\<lambda>c. c \<noteq> newline) buffer"
    let ?ours = "case Header ?line of None \<Rightarrow> ps_ours st | Some h \<Rightarrow> h"
    let ?st = "st\<lparr>ps_ours := ?ours\<rparr>"
    have clean: "newline \<notin> set ?line" "CHR 0x00 \<notin> set ?line" "CHR 0x00 \<notin> set (tl ?rest)"
      using less.prems(1) rest_subset [of "\<lambda>c. c \<noteq> newline" buffer] by (auto dest: set_takeWhileD)
    have cut: "buffer = ?line @ ?rest" by simp
    have "\<exists>ours'. parse_loop (fst (save_from request (ps_ours ?st) True (tl ?rest))) ?st = Some (?st\<lparr>ps_ours := ours'\<rparr>)"
      using less.hyps [of "tl ?rest" ?st] length_rest [OF False] clean(3) less.prems(2) by simp
    then obtain o' where IH: "parse_loop (fst (save_from request ?ours True (tl ?rest))) ?st = Some (st\<lparr>ps_ours := o'\<rparr>)" by auto
    have step: "fst (save_from request (ps_ours st) True buffer) =
        (if ?ours \<and> Header ?line = None \<and> Key ?line \<noteq> None then [] else ?line @ take 1 ?rest) @ fst (save_from request ?ours True (tl ?rest))"
      using False by (subst save_from.simps) (simp add: Let_def)
    show ?thesis
    proof (cases "?ours \<and> Header ?line = None \<and> Key ?line \<noteq> None")
      case True
      then have st: "?st = st" by simp
      have "fst (save_from request (ps_ours st) True buffer) = fst (save_from request ?ours True (tl ?rest))"
        by (rule trans [OF step]) (simp only: if_P [OF True] append_Nil)
      with IH show ?thesis unfolding st by auto
    next
      case keep: False
      have line: "parse_line ?line st = Some ?st"
      proof (cases "Header ?line")
        case None
        then have "\<not> ps_ours st \<or> Key ?line = None" using keep by (simp only: option.case) blast
        from parse_line_out [OF this] None show ?thesis by simp
      next
        case (Some h)
        then show ?thesis using less.prems(2) by (simp add: parse_line_def)
      qed
      show ?thesis
      proof (cases ?rest)
        case Nil
        have "fst (save_from request (ps_ours st) True buffer) = ?line"
          by (intro trans [OF step]) (simp only: if_not_P [OF keep] Nil take_Nil list.sel save_Nil fst_conv append_Nil2)
        then show ?thesis using line by (simp add: parse_loop_last clean) blast
      next
        case (Cons c more)
        then have "c = newline" using hd_dropWhile [of "\<lambda>c. c \<noteq> newline" buffer] by auto
        with Cons have "fst (save_from request (ps_ours st) True buffer) = ?line @ newline # fst (save_from request ?ours True (tl ?rest))"
          using step keep by auto
        then show ?thesis using line IH by (simp add: parse_loop_line clean) blast
      qed
    qed
  qed
qed

text \<open>Until then, and while the section has not been met, the old text stands as it is.\<close>

lemma save_before:
  assumes prefs: "\<And>rest. parse_loop (pref_text request @ rest) (parse_start\<lparr>ps_ours := True, ps_seen := True\<rparr>) = parse_loop rest done"
    and "ps_ours done" "ps_seen done"
  shows "CHR 0x00 \<notin> set buffer \<Longrightarrow>
    (if snd (save_from request False False buffer)
     then \<exists>ours'. parse_loop (fst (save_from request False False buffer)) parse_start = Some (done\<lparr>ps_ours := ours'\<rparr>)
     else fst (save_from request False False buffer) = buffer \<and>
       (\<forall>rest. parse_loop (buffer @ crlf @ rest) parse_start = parse_loop rest parse_start))"
proof (induction "length buffer" arbitrary: buffer rule: less_induct)
  case less
  have start: "\<not> ps_ours parse_start" "\<not> ps_seen parse_start" by (simp_all add: parse_start_def)
  show ?case
  proof (cases "buffer = []")
    case True
    have "parse_loop (crlf @ rest) parse_start = parse_loop rest parse_start" for rest
      using parse_loop_line [of "[CHR 0x0D]" rest parse_start] parse_line_out [of parse_start "[CHR 0x0D]"] start Header_cr [of "[]"]
      by (simp add: Header_def Trim_def trim_end_def)
    with True show ?thesis by simp
  next
    case False
    let ?line = "takeWhile (\<lambda>c. c \<noteq> newline) buffer" and ?rest = "dropWhile (\<lambda>c. c \<noteq> newline) buffer"
    have clean: "newline \<notin> set ?line" "CHR 0x00 \<notin> set ?line" "CHR 0x00 \<notin> set (tl ?rest)"
      using less.prems(1) rest_subset [of "\<lambda>c. c \<noteq> newline" buffer] by (auto dest: set_takeWhileD)
    have rest: "?rest = [] \<or> ?rest = newline # tl ?rest"
      using hd_dropWhile [of "\<lambda>c. c \<noteq> newline" buffer] by (cases ?rest) auto
    show ?thesis
    proof (cases "Header ?line = Some True")
      case True
      let ?in = "parse_start\<lparr>ps_ours := True, ps_seen := True\<rparr>"
      have line: "parse_line ?line parse_start = Some ?in" "parse_line (?line @ [CHR 0x0D]) parse_start = Some ?in"
        using True by (simp_all add: parse_line_def Header_cr)
      have save: "save_from request False False buffer = (?line @ take 1 ?rest @ (if ?rest = [] then crlf else []) @ pref_text request @
          fst (save_from request True True (tl ?rest)), snd (save_from request True True (tl ?rest)))"
        using False True by (subst save_from.simps) (simp add: Let_def ex_bool_eq all_bool_eq)
      have emitted: "snd (save_from request ours True b)" for ours b
      proof (induction "length b" arbitrary: ours b rule: less_induct)
        case less
        then show ?case
          by (cases "b = []"; subst save_from.simps) (simp_all add: Let_def length_rest del: length_tl)
      qed
      obtain ours' where after: "parse_loop (fst (save_from request True True (tl ?rest))) done = Some (done\<lparr>ps_ours := ours'\<rparr>)"
        using save_after [OF clean(3), of "done" request] assms(2,3) by auto
      have "parse_loop (fst (save_from request False False buffer)) parse_start = Some (done\<lparr>ps_ours := ours'\<rparr>)"
      proof (cases "?rest = []")
        case True
        then have "fst (save_from request False False buffer) = (?line @ [CHR 0x0D]) @ newline # pref_text request @ fst (save_from request True True (tl ?rest))"
          unfolding save by simp
        then show ?thesis using line(2) clean after by (simp only: parse_loop_line) (subst parse_loop_line, auto simp: prefs)
      next
        case False
        then have "fst (save_from request False False buffer) = ?line @ newline # pref_text request @ fst (save_from request True True (tl ?rest))"
          unfolding save using rest by (cases ?rest) auto
        then show ?thesis using line(1) clean after by (simp add: parse_loop_line prefs)
      qed
      then show ?thesis using emitted unfolding save by auto
    next
      case other: False
      have line: "parse_line ?line parse_start = Some parse_start" "parse_line (?line @ [CHR 0x0D]) parse_start = Some parse_start"
        using other start by (auto simp: parse_line_def Header_cr parse_start_def split: option.split)
      have save: "save_from request False False buffer = (?line @ take 1 ?rest @ fst (save_from request False False (tl ?rest)),
          snd (save_from request False False (tl ?rest)))"
      proof (cases "Header ?line")
        case None
        with False show ?thesis by (subst save_from.simps) (simp add: Let_def)
      next
        case (Some h)
        with False other show ?thesis by (subst save_from.simps) (simp add: Let_def)
      qed
      note IH = less.hyps [of "tl ?rest", OF length_rest [OF False] clean(3)]
      show ?thesis
      proof (cases "?rest = []")
        case True
        then have b: "buffer = ?line" by (metis append_Nil2 takeWhile_dropWhile_id)
        have "parse_loop (buffer @ crlf @ rest) parse_start = parse_loop rest parse_start" for rest
        proof -
          have "buffer @ crlf @ rest = (?line @ [CHR 0x0D]) @ newline # rest" using b by simp
          then show ?thesis using line(2) clean by (simp only:) (subst parse_loop_line, auto)
        qed
        moreover have "save_from request False False buffer = (buffer, False)"
          by (rule trans [OF save]) (simp only: True take_Nil list.sel save_Nil fst_conv snd_conv append_Nil2 b [symmetric])
        ultimately show ?thesis by simp
      next
        case more: False
        then have b: "buffer = ?line @ newline # tl ?rest" using rest by (metis takeWhile_dropWhile_id)
        have "take 1 ?rest = [newline]" using more rest by (cases ?rest) auto
        then have fst: "fst (save_from request False False buffer) = ?line @ newline # fst (save_from request False False (tl ?rest))"
          unfolding save by simp
        have "parse_loop (buffer @ crlf @ more) parse_start = parse_loop (tl ?rest @ crlf @ more) parse_start" for more
          by (subst b) (use line(1) clean in \<open>simp add: parse_loop_line\<close>)
        moreover have "parse_loop (?line @ newline # fst (save_from request False False (tl ?rest))) parse_start =
            parse_loop (fst (save_from request False False (tl ?rest))) parse_start"
          using line(1) clean by (simp add: parse_loop_line)
        ultimately show ?thesis using IH b unfolding fst by (auto simp: save)
      qed
    qed
  qed
qed

section \<open>The numbers of a save\<close>

lemma upper_digit:
  "d < 16 \<Longrightarrow> pref_digit (upper_digits ! d) = Some (of_nat d) \<and> \<not> Space (upper_digits ! d) \<and>
    upper_digits ! d \<notin> set [CHR '';'', CHR ''#'', newline, CHR 0x00]"
proof -
  assume "d < 16"
  then have "d \<in> {0, 1, 2, 3, 4, 5, 6, 7, 8, 9, 10, 11, 12, 13, 14, 15}" by simp arith
  then show ?thesis
    by (elim insertE emptyE; hypsubst; code_simp)
qed

lemma number_loop_append:
  "number_loop b r a (s @ t) = Option.bind (number_loop b r a s) (\<lambda>(r, a). number_loop b r a t)"
  by (induction b r a s rule: number_loop.induct) (auto split: option.split)

lemma number_zeros: "number_loop 16 0 a (replicate k (CHR ''0'')) = Some (0, a \<or> 0 < k)"
proof (induction k arbitrary: a)
  case (Suc k)
  have "pref_digit (CHR ''0'') = Some 0" by code_simp
  with Suc show ?case by simp
qed simp

lemma hex_step: "0 < n \<Longrightarrow> digits_rev ds 16 n = ds ! (n mod 16) # digits_rev ds 16 (n div 16)"
  by (subst digits_rev.simps) simp

lemma number_hex:
  "n < 2 ^ 32 \<Longrightarrow> number_loop 16 0 a (rev (digits_rev upper_digits 16 n)) = Some (of_nat n, a \<or> 0 < n)"
proof (induction n arbitrary: a rule: less_induct)
  case (less n)
  show ?case
  proof (cases "n = 0")
    case False
    let ?d = "of_nat (n mod 16) :: u32" and ?r = "of_nat (n div 16) :: u32"
    have digit: "pref_digit (upper_digits ! (n mod 16)) = Some ?d" using upper_digit [of "n mod 16"] by simp
    have d: "unat ?d = n mod 16" and r: "unat ?r = n div 16"
      using less.prems by (simp_all add: unat_of_nat take_bit_nat_eq_self_iff)
    have small: "\<not> ?d \<ge> 16" using d by (simp add: word_le_nat_alt)
    have "unat (0xFFFFFFFF - ?d) = 2 ^ 32 - 1 - n mod 16"
      using d by (subst unat_minus_le) (simp_all add: word_le_nat_alt)
    moreover have room: "16 * (n div 16) \<le> 2 ^ 32 - 1 - n mod 16" using less.prems mult_div_mod_eq [of 16 n] by linarith
    ultimately have fits: "\<not> ?r > (0xFFFFFFFF - ?d) div 16"
      using div_le_mono [OF room, of 16] by (simp add: word_less_nat_alt unat_div r)
    have "?r * 16 + ?d = of_nat (n div 16 * 16 + n mod 16)" by (simp only: of_nat_add of_nat_mult) simp
    then have sum: "?r * 16 + ?d = of_nat n" by simp
    have "number_loop 16 0 a (rev (digits_rev upper_digits 16 (n div 16))) = Some (?r, a \<or> 0 < n div 16)"
      using less.IH [of "n div 16" a] False less.prems by simp
    then show ?thesis
      using False small fits by (simp add: hex_step number_loop_append digit sum)
  qed simp
qed

lemma number_hex8: "number_loop 16 0 False (hex8 w) = Some (w, True)"
proof -
  have "number_loop 16 0 a (rev (digits_rev upper_digits 16 (unat w))) = Some (w, a \<or> 0 < unat w)" for a
    using number_hex [of "unat w" a] unat_u32_less [of w] by simp
  moreover have "number_loop 16 0 a ''0'' = Some (0, True)" for a by (cases a; code_simp)
  moreover have "w \<noteq> 0 \<Longrightarrow> 0 < unat w" by (simp add: unat_gt_0)
  ultimately show ?thesis by (simp add: hex8_def Let_def number_loop_append number_zeros)
qed

section \<open>The lines of a save\<close>

definition plain :: "string \<Rightarrow> bool" where
  "plain s \<longleftrightarrow> s \<noteq> [] \<and> list_all (\<lambda>c. \<not> Space c \<and> c \<notin> set [CHR ''='', CHR ''['', CHR '';'', CHR ''#'', newline, CHR 0x00]) s"

lemma plain_set: "plain s \<Longrightarrow> c \<in> set s \<Longrightarrow> \<not> Space c \<and> c \<notin> set [CHR ''='', CHR ''['', CHR '';'', CHR ''#'', newline, CHR 0x00]"
  by (auto simp: plain_def list_all_iff)

lemma drop_plain: "plain s \<Longrightarrow> dropWhile Space (s @ t) = s @ t"
  by (cases s) (auto simp: plain_def)

lemma trim_end_plain: "plain s \<Longrightarrow> trim_end (t @ s) = t @ s"
  by (cases s rule: rev_cases) (auto simp: plain_def trim_end_def)

lemma trim_end_Space: "Space c \<Longrightarrow> trim_end (s @ [c]) = trim_end s"
  by (simp add: trim_end_def)

lemma setting_line:
  assumes "plain k" "plain v"
  shows "Header (k @ '' = '' @ v @ [CHR 0x0D]) = None"
    and "Key (k @ '' = '' @ v @ [CHR 0x0D]) =
      (case key_index 0 pref_keys k of Some i \<Rightarrow> Some (i, '' '' @ v @ [CHR 0x0D])
       | None \<Rightarrow> if Equal k ''version'' then Some (48, '' '' @ v @ [CHR 0x0D])
           else if Equal k ''checksum'' then Some (49, '' '' @ v @ [CHR 0x0D]) else None)"
    and "takeWhile (\<lambda>c. c \<noteq> CHR '';'' \<and> c \<noteq> CHR ''#'') ('' '' @ v @ [CHR 0x0D]) = '' '' @ v @ [CHR 0x0D]"
    and "Trim ('' '' @ v @ [CHR 0x0D]) = v"
    and "newline \<notin> set (k @ '' = '' @ v @ [CHR 0x0D])" and "CHR 0x00 \<notin> set (k @ '' = '' @ v @ [CHR 0x0D])"
proof -
  obtain c k' where k: "k = c # k'" using assms(1) by (cases k) (auto simp: plain_def)
  have cut: "takeWhile (\<lambda>c. c \<noteq> CHR ''='') (k @ CHR '' '' # CHR ''='' # s) = k @ '' ''"
    "dropWhile (\<lambda>c. c \<noteq> CHR ''='') (k @ CHR '' '' # CHR ''='' # s) = CHR ''='' # s" for s
    using plain_set [OF assms(1)] by (auto simp: takeWhile_append2 dropWhile_append2)
  have trim: "Trim (k @ '' = '' @ v @ [CHR 0x0D]) = k @ '' = '' @ v"
    using trim_end_plain [OF assms(2), of "k @ '' = ''"] trim_end_cr [of "k @ '' = '' @ v"]
    by (simp add: Trim_def drop_plain [OF assms(1)])
  show "Header (k @ '' = '' @ v @ [CHR 0x0D]) = None"
    using plain_set [OF assms(1), of c] unfolding Header_def trim by (simp add: k)
  have key: "trim_end (k @ '' '') = k"
    using trim_end_Space [of "CHR '' ''" k] trim_end_plain [OF assms(1), of "[]"] by (simp add: Space_def)
  show "Key (k @ '' = '' @ v @ [CHR 0x0D]) =
      (case key_index 0 pref_keys k of Some i \<Rightarrow> Some (i, '' '' @ v @ [CHR 0x0D])
       | None \<Rightarrow> if Equal k ''version'' then Some (48, '' '' @ v @ [CHR 0x0D])
           else if Equal k ''checksum'' then Some (49, '' '' @ v @ [CHR 0x0D]) else None)"
  proof -
    have trim': "Trim (k @ '' = '' @ v @ [CHR 0x0D]) = c # k' @ '' = '' @ v" using trim k by simp
    have val: "tl (dropWhile (\<lambda>c. c \<noteq> CHR ''='') (dropWhile Space (k @ '' = '' @ v @ [CHR 0x0D]))) = '' '' @ v @ [CHR 0x0D]"
      using cut [of "CHR '' '' # v @ [CHR 0x0D]"] by (simp only: drop_plain [OF assms(1)]) simp
    have line: "takeWhile (\<lambda>c. c \<noteq> CHR ''='') (c # k' @ '' = '' @ v) = k @ '' ''" "dropWhile (\<lambda>c. c \<noteq> CHR ''='') (c # k' @ '' = '' @ v) \<noteq> []"
      using cut [of "CHR '' '' # v"] unfolding k by simp_all
    have "c \<noteq> CHR '';'' \<and> c \<noteq> CHR ''#''" using plain_set [OF assms(1), of c] by (simp add: k)
    then show ?thesis
      by (simp only: Key_def trim' list.case line val key Let_def simp_thms if_False) (simp only: numeral_plus_one semiring_norm)
  qed
  show "takeWhile (\<lambda>c. c \<noteq> CHR '';'' \<and> c \<noteq> CHR ''#'') ('' '' @ v @ [CHR 0x0D]) = '' '' @ v @ [CHR 0x0D]"
    using plain_set [OF assms(2)] by (subst takeWhile_eq_all_conv) auto
  show "Trim ('' '' @ v @ [CHR 0x0D]) = v"
    using trim_end_plain [OF assms(2), of "[]"] trim_end_cr [of v] drop_plain [OF assms(2)] by (simp add: Trim_def Space_def)
  show "newline \<notin> set (k @ '' = '' @ v @ [CHR 0x0D])" "CHR 0x00 \<notin> set (k @ '' = '' @ v @ [CHR 0x0D])"
    using plain_set [OF assms(1)] plain_set [OF assms(2)] by auto
qed

lemma plain_hex8: "plain (CHR ''0'' # CHR ''x'' # hex8 w)"
proof -
  have "\<not> Space c \<and> c \<notin> set [CHR ''='', CHR ''['', CHR '';'', CHR ''#'', newline, CHR 0x00]"
    if "c \<in> set (digits_rev upper_digits 16 n)" for c n using that
  proof (induction n rule: less_induct)
    case (less n)
    have "\<forall>d \<in> set [0..<16]. \<not> Space (upper_digits ! d) \<and>
        upper_digits ! d \<notin> set [CHR ''='', CHR ''['', CHR '';'', CHR ''#'', newline, CHR 0x00]" by code_simp
    moreover have "n mod 16 \<in> set [0..<16]" by simp
    ultimately have head: "\<not> Space (upper_digits ! (n mod 16)) \<and>
        upper_digits ! (n mod 16) \<notin> set [CHR ''='', CHR ''['', CHR '';'', CHR ''#'', newline, CHR 0x00]" by blast
    from less.prems consider "0 < n" "c = upper_digits ! (n mod 16)" | "0 < n" "c \<in> set (digits_rev upper_digits 16 (n div 16))"
      by (cases "n = 0") (auto simp: hex_step)
    then show ?case by cases (use head less.IH [of "n div 16"] in auto)
  qed
  then show ?thesis by (auto simp: plain_def list_all_iff hex8_def Let_def Space_def)
qed

lemma Number_hex8: "Number (CHR '' '' # CHR ''0'' # CHR ''x'' # hex8 w @ [CHR 0x0D]) = Some w"
  using setting_line(3,4) [OF plain_hex8 [of 0] plain_hex8 [of w]] by (simp add: Number_def number_hex8)

section \<open>The keys\<close>

lemma Equal_iff: "Equal s k \<longleftrightarrow> s = k"
  by (induction s k rule: Equal.induct) auto

lemma pref_keys_plain: "i < 48 \<Longrightarrow> plain (pref_keys ! i)"
proof -
  assume "i < 48"
  have "list_all plain pref_keys" by code_simp
  moreover have "length pref_keys = 48" by code_simp
  ultimately show ?thesis using \<open>i < 48\<close> by (simp add: list_all_length)
qed

lemma key_index_nth:
  "distinct ks \<Longrightarrow> i < length ks \<Longrightarrow> key_index n ks (ks ! i) = Some (n + i)"
proof (induction ks arbitrary: n i)
  case (Cons k ks)
  then show ?case by (cases i) (auto simp: Equal_iff)
qed simp

lemma key_index_pref: "i < 48 \<Longrightarrow> key_index 0 pref_keys (pref_keys ! i) = Some i"
proof -
  assume "i < 48"
  moreover have "distinct pref_keys" by code_simp
  moreover have "length pref_keys = 48" by code_simp
  ultimately show ?thesis using key_index_nth [of pref_keys i 0] by simp
qed

lemma metadata_keys:
  "plain ''version''" "plain ''checksum''" "key_index 0 pref_keys ''version'' = None" "key_index 0 pref_keys ''checksum'' = None"
  by code_simp+

text \<open>The lines as they are printed.\<close>

lemma value_line_text: "value_line request i = (pref_keys ! i @ '' = '' @ (CHR ''0'' # CHR ''x'' # hex8 (pb_values request ! i)) @ [CHR 0x0D]) @ [newline]"
  by (simp add: value_line_def sprintf_def)

lemma checksum_line_text: "checksum_line request = (''checksum'' @ '' = '' @ (CHR ''0'' # CHR ''x'' # hex8 (pb_checksum request)) @ [CHR 0x0D]) @ [newline]"
  by (simp add: checksum_line_def sprintf_def)

lemma version_line_text: "version_line = (''version'' @ '' = '' @ ''2'' @ [CHR 0x0D]) @ [newline]"
proof -
  have "dec 2 = ''2''" by (simp add: dec_def digits_rev_step lower_digits_def)
  then show ?thesis by (simp add: version_line_def sprintf_def)
qed

lemma parse_loop_step:
  "newline \<notin> set line \<Longrightarrow> CHR 0x00 \<notin> set line \<Longrightarrow> parse_line line st = Some st' \<Longrightarrow>
    parse_loop ((line @ [newline]) @ rest) st = parse_loop rest st'"
  by (simp add: parse_loop_line)

lemma version_parsed:
  assumes "ps_ours st" "\<not> ps_versionSeen st"
  shows "parse_loop (version_line @ rest) st = parse_loop rest (st\<lparr>ps_versionSeen := True, ps_fileVersion := 2\<rparr>)"
proof -
  have "plain ''2''" by code_simp
  note line = setting_line [OF metadata_keys(1) this]
  have "Number ('' '' @ ''2'' @ [CHR 0x0D]) = Some 2" by code_simp
  then have "parse_line (''version'' @ '' = '' @ ''2'' @ [CHR 0x0D]) st = Some (st\<lparr>ps_versionSeen := True, ps_fileVersion := 2\<rparr>)"
    using assms unfolding parse_line_def line(1,2) metadata_keys(3) by (simp add: Equal_iff)
  with line(5,6) show ?thesis unfolding version_line_text by (rule parse_loop_step)
qed

lemma value_parsed:
  assumes "ps_ours st" "i < 48" "parse_value i (pb_values request ! i) (ps_out st) = Some out"
  shows "parse_loop (value_line request i @ rest) st = parse_loop rest (st\<lparr>ps_out := out\<rparr>)"
proof -
  note line = setting_line [OF pref_keys_plain [OF assms(2)] plain_hex8 [of "pb_values request ! i"]]
  have "parse_line (pref_keys ! i @ '' = '' @ (CHR ''0'' # CHR ''x'' # hex8 (pb_values request ! i)) @ [CHR 0x0D]) st =
      Some (st\<lparr>ps_out := out\<rparr>)"
    using assms unfolding parse_line_def line(1,2) by (simp add: key_index_pref Number_hex8)
  with line(5,6) show ?thesis unfolding value_line_text by (rule parse_loop_step)
qed

lemma checksum_parsed:
  assumes "ps_ours st" "\<not> ps_checksumSeen st"
  shows "parse_loop (checksum_line request @ rest) st = parse_loop rest (st\<lparr>ps_checksumSeen := True, ps_expected := pb_checksum request\<rparr>)"
proof -
  note line = setting_line [OF metadata_keys(2) plain_hex8 [of "pb_checksum request"]]
  have "parse_line (''checksum'' @ '' = '' @ (CHR ''0'' # CHR ''x'' # hex8 (pb_checksum request)) @ [CHR 0x0D]) st =
      Some (st\<lparr>ps_checksumSeen := True, ps_expected := pb_checksum request\<rparr>)"
    using assms unfolding parse_line_def line(1,2) metadata_keys(4) by (simp add: Number_hex8 Equal_iff)
  with line(5,6) show ?thesis unfolding checksum_line_text by (rule parse_loop_step)
qed

text \<open>The block when the first \<open>n\<close> preferences of the request have been parsed.\<close>

definition partial_block :: "LmPreferencesBlock \<Rightarrow> nat \<Rightarrow> LmPreferencesBlock" where
  "partial_block request n = Empty\<lparr>
     pb_values := map (\<lambda>i. if i < n \<and> present request i then pb_values request ! i else 0xFFFFFFFF) [0..<48],
     pb_presentLo := pb_presentLo request AND mask n, pb_presentHi := pb_presentHi request AND mask (n - 32)\<rparr>"

lemma Has_iff: "LmPreferencesHas lo hi i \<longleftrightarrow> i < 48 \<and> (if i < 32 then bit lo i else bit hi (i - 32))"
  by (simp add: LmPreferencesHas_def single_bit_and del: push_bit_of_1)

lemma mask_Suc: "(w :: u32) AND mask (Suc n) = (if n < 32 \<and> bit w n then (w AND mask n) OR push_bit n 1 else w AND mask n)"
  by (rule bit_word_eqI) (auto simp: bit_simps less_Suc_eq)

lemma partial_value:
  assumes "i < 48"
  shows "present request i \<Longrightarrow> parse_value i (pb_values request ! i) (partial_block request i) = Some (partial_block request (Suc i))"
    and "\<not> present request i \<Longrightarrow> partial_block request (Suc i) = partial_block request i"
proof -
  let ?vals = "\<lambda>n. map (\<lambda>j. if j < n \<and> present request j then pb_values request ! j else 0xFFFFFFFF) [0..<48] :: u32 list"
  have set: "present request i \<Longrightarrow> (?vals i)[i := pb_values request ! i] = ?vals (Suc i)"
    using assms by (intro nth_equalityI) (auto simp: nth_list_update less_Suc_eq)
  have keep: "\<not> present request i \<Longrightarrow> ?vals (Suc i) = ?vals i"
    by (rule nth_equalityI) (auto simp: less_Suc_eq)
  have pres: "present request i \<longleftrightarrow> (if i < 32 then bit (pb_presentLo request) i else bit (pb_presentHi request) (i - 32))"
    using assms by (simp add: present_def Has_iff)
  have off: "\<not> LmPreferencesHas (pb_presentLo request AND mask i) (pb_presentHi request AND mask (i - 32)) i"
    by (auto simp: Has_iff bit_simps)
  have small: "\<not> i < 32 \<Longrightarrow> i - 31 = Suc (i - 32)" "\<not> i < 32 \<Longrightarrow> i - 32 < 32" "i < 32 \<Longrightarrow> i - 31 = 0" "i < 32 \<Longrightarrow> i - 32 = 0"
    using assms by auto
  have wide: "n \<ge> 32 \<Longrightarrow> w AND mask n = w" for w :: u32 and n
    by (rule bit_word_eqI) (auto simp: bit_simps)
  have lo: "present request i \<Longrightarrow> i < 32 \<Longrightarrow> pb_presentLo request AND mask (Suc i) = (pb_presentLo request AND mask i) OR push_bit i 1"
    "\<not> present request i \<or> \<not> i < 32 \<Longrightarrow> pb_presentLo request AND mask (Suc i) = pb_presentLo request AND mask i"
    using pres wide by (auto simp: mask_Suc simp del: push_bit_of_1)
  have hi: "present request i \<Longrightarrow> \<not> i < 32 \<Longrightarrow>
      pb_presentHi request AND mask (i - 31) = (pb_presentHi request AND mask (i - 32)) OR push_bit (i - 32) 1"
    "\<not> present request i \<or> i < 32 \<Longrightarrow> pb_presentHi request AND mask (i - 31) = pb_presentHi request AND mask (i - 32)"
    using pres small by (cases "i < 32"; simp add: mask_Suc del: push_bit_of_1)+
  show "parse_value i (pb_values request ! i) (partial_block request i) = Some (partial_block request (Suc i))" if "present request i"
    using that by (simp add: parse_value_def partial_block_def off set lo hi Let_def del: push_bit_of_1)
  show "partial_block request (Suc i) = partial_block request i" if "\<not> present request i"
    using that by (simp add: partial_block_def keep lo(2) hi(2) del: push_bit_of_1)
qed

lemma values_parsed:
  "n \<le> 48 \<Longrightarrow> ps_ours st \<Longrightarrow>
    parse_loop (concat (map (value_line request) (filter (present request) [n..<48])) @ rest) (st\<lparr>ps_out := partial_block request n\<rparr>) =
    parse_loop rest (st\<lparr>ps_out := partial_block request 48\<rparr>)"
proof (induction n rule: inc_induct)
  case (step n)
  then show ?case
    using value_parsed [of "st\<lparr>ps_out := partial_block request n\<rparr>" n request "partial_block request (Suc n)"] partial_value [of n request]
    by (cases "present request n") (simp_all add: upt_conv_Cons)
qed simp

section \<open>The round trip\<close>

text \<open>The parser behind the preferences of a save.\<close>

definition pref_done :: "LmPreferencesBlock \<Rightarrow> parse_state" where
  "pref_done request = \<lparr>ps_out = partial_block request 48, ps_ours = True, ps_seen = True, ps_versionSeen = True, ps_checksumSeen = True,
     ps_expected = pb_checksum request, ps_fileVersion = 2\<rparr>"

lemma pref_text_parsed:
  "parse_loop (pref_text request @ rest) (parse_start\<lparr>ps_ours := True, ps_seen := True\<rparr>) = parse_loop rest (pref_done request)"
proof -
  let ?in = "parse_start\<lparr>ps_ours := True, ps_seen := True\<rparr>"
  have "map (\<lambda>i. 0xFFFFFFFF) [0..<48] = replicate 48 (0xFFFFFFFF :: u32)" by (simp add: map_replicate_const)
  then have start: "partial_block request 0 = Empty" by (simp add: partial_block_def Empty_def Let_def)
  let ?v = "?in\<lparr>ps_versionSeen := True, ps_fileVersion := 2\<rparr>"
  have v: "?v\<lparr>ps_out := partial_block request 0\<rparr> = ?v" unfolding start by (simp add: parse_start_def)
  have "parse_loop (pref_text request @ rest) ?in =
      parse_loop (concat (map (value_line request) (filter (present request) [0..<48])) @ checksum_line request @ rest) ?v"
    unfolding pref_text_def by (simp add: version_parsed parse_start_def)
  also have "\<dots> = parse_loop (checksum_line request @ rest) (?v\<lparr>ps_out := partial_block request 48\<rparr>)"
    using values_parsed [of 0 ?v request "checksum_line request @ rest"] unfolding v by simp
  also have "\<dots> = parse_loop rest (pref_done request)"
    by (simp add: checksum_parsed parse_start_def pref_done_def)
  finally show ?thesis .
qed

text \<open>The preferences a block stands for: its values and presence bits, under a fresh header.\<close>

definition settings :: "LmPreferencesBlock \<Rightarrow> LmPreferencesBlock" where
  "settings request = Empty\<lparr>pb_values := pb_values request, pb_presentLo := pb_presentLo request,
     pb_presentHi := pb_presentHi request, pb_checksum := pb_checksum request\<rparr>"

lemma pref_end:
  assumes "LmPreferencesValid request" "length (pb_values request) = 48"
  shows "parse_end (pref_done request\<lparr>ps_ours := ours\<rparr>) = (LM_PREFERENCES_OK, settings request)"
proof -
  have valid: "pb_presentHi request AND NOT LM_PREFERENCES_PRESENT_HI = 0"
    "\<forall>i < 48. present request i \<or> pb_values request ! i = 0xFFFFFFFF"
    "pb_checksum request = LmPreferencesChecksum (pb_values request) (pb_presentLo request) (pb_presentHi request)"
    using assms(1) by (auto simp: LmPreferencesValid_def present_def list_all_iff)
  have vals: "map (\<lambda>i. if i < 48 \<and> present request i then pb_values request ! i else 0xFFFFFFFF) [0..<48] = pb_values request"
    using assms(2) valid(2) by (intro nth_equalityI) auto
  have lo: "pb_presentLo request AND mask 48 = pb_presentLo request"
    by (rule bit_word_eqI) (auto simp: bit_simps)
  have "LM_PREFERENCES_PRESENT_HI = mask 16" by (simp add: mask_eq_exp_minus_1)
  with valid(1) have "pb_presentHi request AND NOT (mask 16) = 0" by (simp only:)
  then have hi: "pb_presentHi request AND mask 16 = pb_presentHi request"
    by (auto simp: bit_eq_iff bit_and_iff bit_not_iff bit_mask_iff)
  have fin: "partial_block request 48 = Empty\<lparr>pb_values := pb_values request, pb_presentLo := pb_presentLo request, pb_presentHi := pb_presentHi request\<rparr>"
    by (simp add: partial_block_def vals lo hi)
  have "LmPreferencesValid (settings request)"
    using assms(1) by (simp add: LmPreferencesValid_def settings_def Empty_def Let_def upt_conv_Cons)
  then show ?thesis
    using valid(3) by (simp add: parse_end_def pref_done_def fin settings_def Let_def)
qed

lemma section_header: "Header ''[lm_preferences]'' = Some True"
  by code_simp

lemma saved_text_parsed:
  assumes "CHR 0x00 \<notin> set buffer"
  shows "\<exists>ours. parse_loop (saved_text request buffer) parse_start = Some (pref_done request\<lparr>ps_ours := ours\<rparr>)"
proof -
  note save = save_before [OF pref_text_parsed _ _ assms, of request]
  have fin: "ps_ours (pref_done request)" "ps_seen (pref_done request)" by (simp_all add: pref_done_def)
  show ?thesis
  proof (cases "snd (save_from request False False buffer)")
    case True
    then show ?thesis using save fin by (auto simp: saved_text_def split: prod.split)
  next
    case False
    let ?in = "parse_start\<lparr>ps_ours := True, ps_seen := True\<rparr>"
    have "parse_line (''[lm_preferences]'' @ [CHR 0x0D]) parse_start = Some ?in"
      unfolding parse_line_def Header_cr section_header by (simp add: parse_start_def)
    then have "parse_loop ((''[lm_preferences]'' @ [CHR 0x0D]) @ newline # pref_text request @ []) parse_start = Some (pref_done request)"
      by (subst parse_loop_line) (simp_all only: bind.simps pref_text_parsed parse_loop_Nil, simp_all)
    moreover have "saved_text request buffer = buffer @ crlf @ (''[lm_preferences]'' @ [CHR 0x0D]) @ newline # pref_text request @ []"
      using False save fin by (auto simp: saved_text_def split: prod.split)
    ultimately have "parse_loop (saved_text request buffer) parse_start = Some (pref_done request)"
      using False save fin by (simp only: if_False simp_thms)
    moreover have "pref_done request = pref_done request\<lparr>ps_ours := True\<rparr>" by (simp add: pref_done_def)
    ultimately show ?thesis by metis
  qed
qed

end
