(* ===== verification/PrefStore.thy ===== *)
theory PrefStore
  imports PrefRound Effects
begin

text \<open>
  The rest of \<open>launcher/kernel/LmPreferences.c\<close>: how the settings file is read at boot and replaced when the game
  asks for it.  The FatFs calls are the parameter \<open>ops\<close>, as for the state archive service.
\<close>

section \<open>State\<close>

text \<open>
  The statics of the module, the block at its fixed address and the volume.  What the module asks of other parts of
  the kernel is an argument: the path of the settings file, whether the storage is there, and whether
  \<open>heap_alloc_aligned\<close> returns a buffer.
\<close>

record 's preferences =
  lp_Enabled :: bool
  lp_Acknowledged :: u32
  lp_Block :: LmPreferencesBlock
  lp_vol :: 's

record pref_env =
  pe_game_id :: u32
  pe_path :: string
  pe_available :: bool
  pe_heap :: bool

abbreviation INI_LIMIT :: nat where "INI_LIMIT \<equiv> 32768"
abbreviation FIL_settings :: nat where "FIL_settings \<equiv> 0"

definition on_disk :: "('s, 'a) state \<Rightarrow> ('s preferences, 'a) state" where
  "on_disk = zoom lp_vol (\<lambda>v s. s\<lparr>lp_vol := v\<rparr>)"

section \<open>Reading\<close>

text \<open>The status and the bytes read; \<open>*size\<close> is their number.\<close>

definition Read :: "'s volume \<Rightarrow> string \<Rightarrow> ('s, u32 \<times> string) state" where
  "Read ops path = do {
     result \<leftarrow> vf_open ops FIL_settings path OpenRead;
     if result = FR_NO_FILE then ret (LM_PREFERENCES_NO_FILE, [])
     else if result \<noteq> FR_OK then ret (LM_PREFERENCES_IO_ERROR, [])
     else do {
       objsize \<leftarrow> gets (vf_size ops FIL_settings);
       let expected = (ucast objsize :: u32);
       if expected > of_nat INI_LIMIT then do {
         closed \<leftarrow> vf_close ops FIL_settings;
         ret (LM_PREFERENCES_INVALID, [])
       } else do {
         (result, data) \<leftarrow> vf_read ops FIL_settings INI_LIMIT;
         closed \<leftarrow> vf_close ops FIL_settings;
         if result \<noteq> FR_OK \<or> closed \<noteq> FR_OK \<or> of_nat (length data) \<noteq> expected then ret (LM_PREFERENCES_IO_ERROR, [])
         else ret (LM_PREFERENCES_OK, chars data)
       }
     }
   }"

section \<open>Writing\<close>

definition Rename :: "'s volume \<Rightarrow> string \<Rightarrow> string \<Rightarrow> ('s, fresult) state" where
  "Rename ops source destination =
     (if length source > 127 then ret FR_INVALID_NAME
      else if length destination > 127 then ret FR_INVALID_NAME
      else vf_rename ops source destination)"

text \<open>The routines that emit return whether it went well and \<open>*total\<close>.\<close>

definition Emit :: "'s volume \<Rightarrow> string \<Rightarrow> nat \<Rightarrow> ('s, bool \<times> nat) state" where
  "Emit ops data used =
     (if length data > INI_LIMIT - used then ret (False, used)
      else do {
        (result, written) \<leftarrow> vf_write ops FIL_settings (octets data);
        if result \<noteq> FR_OK \<or> written \<noteq> length data then ret (False, used) else ret (True, used + length data)
      })"

fun EmitValues :: "'s volume \<Rightarrow> LmPreferencesBlock \<Rightarrow> nat list \<Rightarrow> nat \<Rightarrow> ('s, bool \<times> nat) state" where
  "EmitValues ops request [] used = ret (True, used)"
| "EmitValues ops request (i # is) used =
     (if \<not> LmPreferencesHas (pb_presentLo request) (pb_presentHi request) i then EmitValues ops request is used
      else do {
        (okay, used) \<leftarrow> Emit ops (value_line request i) used;
        if \<not> okay then ret (False, used) else EmitValues ops request is used
      })"

definition EmitPreferences :: "'s volume \<Rightarrow> LmPreferencesBlock \<Rightarrow> nat \<Rightarrow> ('s, bool \<times> nat) state" where
  "EmitPreferences ops request used = do {
     (okay, used) \<leftarrow> Emit ops version_line used;
     if \<not> okay then ret (False, used)
     else do {
       (okay, used) \<leftarrow> EmitValues ops request [0..<LM_PREFERENCES_VALUE_COUNT] used;
       if \<not> okay then ret (False, used) else Emit ops (checksum_line request) used
     }
   }"

text \<open>One line of the old text: its copy, unless a preference of ours, and the new preferences behind the first header
  of ours.\<close>

definition SaveLine :: "'s volume \<Rightarrow> LmPreferencesBlock \<Rightarrow> string \<Rightarrow> bool \<Rightarrow> bool \<Rightarrow> nat \<Rightarrow> ('s, bool \<times> nat) state" where
  "SaveLine ops request buffer ours emitted used = do {
     let line = takeWhile (\<lambda>c. c \<noteq> newline) buffer;
     let rest = dropWhile (\<lambda>c. c \<noteq> newline) buffer;
     let header = Header line;
     (okay, used) \<leftarrow> (if \<not> (ours \<and> header = None \<and> Key line \<noteq> None) then Emit ops (line @ take 1 rest) used else ret (True, used));
     if okay \<and> ours \<and> header \<noteq> None \<and> \<not> emitted then do {
       (okay, used) \<leftarrow> (if rest = [] then Emit ops crlf used else ret (True, used));
       if \<not> okay then ret (False, used) else EmitPreferences ops request used
     } else ret (okay, used)
   }"

definition line_ours :: "string \<Rightarrow> bool \<Rightarrow> bool" where
  "line_ours line ours = (case Header line of None \<Rightarrow> ours | Some h \<Rightarrow> h)"

function SaveLines :: "'s volume \<Rightarrow> LmPreferencesBlock \<Rightarrow> string \<Rightarrow> bool \<Rightarrow> bool \<Rightarrow> nat \<Rightarrow> ('s, bool \<times> nat \<times> bool) state" where
  "SaveLines ops request buffer ours emitted used =
     (if buffer = [] then ret (True, used, emitted)
      else do {
        let line = takeWhile (\<lambda>c. c \<noteq> newline) buffer;
        let ours = line_ours line ours;
        (okay, used) \<leftarrow> SaveLine ops request buffer ours emitted used;
        let emitted = (emitted \<or> okay \<and> ours \<and> Header line \<noteq> None);
        if \<not> okay then ret (False, used, emitted)
        else SaveLines ops request (tl (dropWhile (\<lambda>c. c \<noteq> newline) buffer)) ours emitted used
      })"
  by pat_completeness auto
termination
  by (relation "measure (\<lambda>(ops, request, buffer, ours, emitted, used). length buffer)") (auto simp: length_rest simp del: length_tl)

declare SaveLines.simps [simp del]

text \<open>The new text, into the open temporary file.\<close>

definition SaveText :: "'s volume \<Rightarrow> LmPreferencesBlock \<Rightarrow> string \<Rightarrow> ('s, bool) state" where
  "SaveText ops request buffer = do {
     (okay, used, emitted) \<leftarrow> SaveLines ops request buffer False False 0;
     (okay, used) \<leftarrow> (if okay \<and> \<not> emitted then do {
         (okay, used) \<leftarrow> Emit ops (crlf @ ''[lm_preferences]'' @ crlf) used;
         if \<not> okay then ret (False, used) else EmitPreferences ops request used
       } else ret (okay, used));
     ret okay
   }"

text \<open>The old file steps aside for the new one, and comes back when that fails.\<close>

definition SaveReplace :: "'s volume \<Rightarrow> string \<Rightarrow> string \<Rightarrow> string \<Rightarrow> bool \<Rightarrow> ('s, u32) state" where
  "SaveReplace ops path temporary backup original = do {
     aside \<leftarrow> (if \<not> original then ret True else do {
       result \<leftarrow> vf_unlink ops backup;
       if result \<noteq> FR_OK \<and> result \<noteq> FR_NO_FILE then ret False
       else do { result \<leftarrow> Rename ops path backup; ret (result = FR_OK) }
     });
     if \<not> aside then ret LM_PREFERENCES_IO_ERROR
     else do {
       result \<leftarrow> Rename ops temporary path;
       if result \<noteq> FR_OK then do {
         undone \<leftarrow> (if original then Rename ops backup path else ret FR_OK);
         ret LM_PREFERENCES_IO_ERROR
       } else ret LM_PREFERENCES_OK
     }
   }"

definition temporary_path :: "string \<Rightarrow> string" where
  "temporary_path path = sprintf ''%s.lm.tmp'' [AStr path]"

definition backup_path :: "string \<Rightarrow> string" where
  "backup_path path = sprintf ''%s.lm.bak'' [AStr path]"

text \<open>The temporary file is written, synced and closed, then takes its place.\<close>

definition SaveFile :: "'s volume \<Rightarrow> string \<Rightarrow> LmPreferencesBlock \<Rightarrow> string \<Rightarrow> bool \<Rightarrow> ('s, u32) state" where
  "SaveFile ops path request buffer original = do {
    result \<leftarrow> vf_open ops FIL_settings (temporary_path path) OpenCreateAlways;
    if result \<noteq> FR_OK then ret LM_PREFERENCES_IO_ERROR
    else do {
      okay \<leftarrow> SaveText ops request buffer;
      okay \<leftarrow> (if okay then do { result \<leftarrow> vf_sync ops FIL_settings; ret (result = FR_OK) } else ret False);
      result \<leftarrow> vf_close ops FIL_settings;
      if \<not> okay \<or> result \<noteq> FR_OK then ret LM_PREFERENCES_IO_ERROR
      else SaveReplace ops path (temporary_path path) (backup_path path) original
    }
  }"

text \<open>The old text: of the file, else of the backup, else none; and whether it is the file's.\<close>

definition SaveRead :: "'s volume \<Rightarrow> string \<Rightarrow> ('s, u32 \<times> string \<times> bool) state" where
  "SaveRead ops path = do {
     (readStatus, buffer) \<leftarrow> Read ops path;
     let original = (readStatus = LM_PREFERENCES_OK);
     (readStatus, buffer) \<leftarrow> (if readStatus = LM_PREFERENCES_NO_FILE then do {
         (readStatus, buffer) \<leftarrow> Read ops (backup_path path);
         ret (if readStatus = LM_PREFERENCES_NO_FILE then LM_PREFERENCES_OK else readStatus, buffer)
       } else ret (readStatus, buffer));
     ret (readStatus, buffer, original)
   }"

definition Save :: "'s volume \<Rightarrow> string \<Rightarrow> bool \<Rightarrow> LmPreferencesBlock \<Rightarrow> ('s, u32) state" where
  "Save ops path heap request =
     (if length path > 112 then ret LM_PREFERENCES_IO_ERROR
      else if \<not> heap then ret LM_PREFERENCES_IO_ERROR
      else do {
        (readStatus, buffer, original) \<leftarrow> SaveRead ops path;
        if readStatus \<noteq> LM_PREFERENCES_OK then ret readStatus
        else SaveFile ops path request buffer original
      })"

section \<open>The service\<close>

text \<open>What is read at boot: the status and the block, the empty one when there is none.\<close>

definition LoadFile :: "'s volume \<Rightarrow> string \<Rightarrow> ('s, u32 \<times> LmPreferencesBlock) state" where
  "LoadFile ops path = do {
     (status, buffer) \<leftarrow> Read ops path;
     ret (if status = LM_PREFERENCES_OK
       then (fst (Parse buffer), case snd (Parse buffer) of None \<Rightarrow> Empty | Some loaded \<Rightarrow> loaded)
       else (status, Empty))
   }"

definition LoadPreferences :: "'s volume \<Rightarrow> pref_env \<Rightarrow> ('s, u32 \<times> LmPreferencesBlock) state" where
  "LoadPreferences ops env =
     (if \<not> pe_heap env then ret (LM_PREFERENCES_IO_ERROR, Empty)
      else do {
        (status, loaded) \<leftarrow> LoadFile ops (pe_path env);
        (status, loaded) \<leftarrow> (if status = LM_PREFERENCES_NO_FILE \<and> length (pe_path env) \<le> 112
          then LoadFile ops (backup_path (pe_path env)) else ret (status, loaded));
        ret (status, if status \<noteq> LM_PREFERENCES_OK then Empty else loaded)
      })"

definition LmPreferencesInit :: "'s volume \<Rightarrow> pref_env \<Rightarrow> ('s preferences, unit) state" where
  "LmPreferencesInit ops env = do {
     modify (\<lambda>s. s\<lparr>lp_Enabled := (pe_game_id env = 0x474C4D4A), lp_Acknowledged := 0\<rparr>);
     if pe_game_id env \<noteq> 0x474C4D4A then ret ()
     else do {
       modify (\<lambda>s. s\<lparr>lp_Enabled := pe_available env\<rparr>);
       (status, loaded) \<leftarrow> (if pe_available env then on_disk (LoadPreferences ops env) else ret (LM_PREFERENCES_UNAVAILABLE, Empty));
       modify (\<lambda>s. s\<lparr>lp_Block := loaded\<lparr>pb_status := status, pb_ready := (if pe_available env then 1 else 0)\<rparr>\<rparr>)
     }
   }"

definition LmPreferencesPending :: "'s preferences \<Rightarrow> bool" where
  "LmPreferencesPending s = (if \<not> lp_Enabled s then False else pb_requestSeq (lp_Block s) \<noteq> lp_Acknowledged s)"

definition LmPreferencesService :: "'s volume \<Rightarrow> pref_env \<Rightarrow> ('s preferences, unit) state" where
  "LmPreferencesService ops env = do {
     enabled \<leftarrow> gets lp_Enabled;
     if \<not> enabled then ret ()
     else do {
       request \<leftarrow> gets lp_Block;
       status \<leftarrow> (if LmPreferencesValid request then on_disk (Save ops (pe_path env) (pe_heap env) request)
         else ret LM_PREFERENCES_INVALID);
       modify (\<lambda>s. s\<lparr>lp_Acknowledged := pb_requestSeq request,
         lp_Block := (lp_Block s)\<lparr>pb_ackSeq := pb_requestSeq request, pb_status := status\<rparr>\<rparr>)
     }
   }"

end
