(* ===== verification/PrefSafety.thy ===== *)
theory PrefSafety
  imports PrefStore
begin

text \<open>
  The replacement of the settings file is safe against failing calls, and what was saved is loaded again: what the
  temporary file holds, what the renames leave behind, and the two properties of the preferences service.
\<close>

section \<open>What the temporary file holds\<close>

text \<open>
  A computation that appends to the file at the path \<open>p\<close>, open for writing: other files stay as they are, and when it
  returns \<open>True\<close> the text \<open>d\<close> has been appended and the rest of its result satisfies \<open>P\<close>.
\<close>

definition emits :: "('s \<Rightarrow> string \<Rightarrow> bytes option) \<Rightarrow> ('s \<Rightarrow> nat \<Rightarrow> string option) \<Rightarrow> ('s \<Rightarrow> nat \<Rightarrow> nat) \<Rightarrow>
    string \<Rightarrow> ('s, bool \<times> 'r) state \<Rightarrow> string \<Rightarrow> ('r \<Rightarrow> bool) \<Rightarrow> bool" where
  "emits view hfile hpos p c d P \<longleftrightarrow> (\<forall>v b.
     hfile v FIL_settings = Some p \<longrightarrow> view v p = Some b \<longrightarrow> hpos v FIL_settings = length b \<longrightarrow>
     wp c (\<lambda>x v'. hfile v' FIL_settings = Some p \<and> (\<forall>q. q \<noteq> p \<longrightarrow> view v' q = view v q) \<and>
       (fst x \<longrightarrow> P (snd x) \<and> view v' p = Some (b @ octets d) \<and> hpos v' FIL_settings = length (b @ octets d))) v)"

definition room :: "nat \<Rightarrow> string \<Rightarrow> nat \<Rightarrow> bool" where
  "room used d used' \<longleftrightarrow> used' = used + length d \<and> used' \<le> INI_LIMIT"

lemma emits_ret: "P r \<Longrightarrow> emits view hfile hpos p (ret (True, r)) [] P"
  by (simp add: emits_def)

lemma emits_room: "used \<le> INI_LIMIT \<Longrightarrow> emits view hfile hpos p (ret (True, used)) [] (room used [])"
  by (simp add: emits_def room_def)

lemma emits_bind:
  assumes c: "emits view hfile hpos p c d P"
    and f: "\<And>r. P r \<Longrightarrow> emits view hfile hpos p (f (True, r)) e Q"
    and failed: "\<And>r v. wp (f (False, r)) (\<lambda>x v'. \<not> fst x \<and> v' = v) v"
  shows "emits view hfile hpos p (State_Monad.bind c f) (d @ e) Q"
  unfolding emits_def
proof (intro allI impI)
  fix v b
  assume v: "hfile v FIL_settings = Some p" "view v p = Some b" "hpos v FIL_settings = length b"
  show "wp (State_Monad.bind c f) (\<lambda>x v'. hfile v' FIL_settings = Some p \<and> (\<forall>q. q \<noteq> p \<longrightarrow> view v' q = view v q) \<and>
     (fst x \<longrightarrow> Q (snd x) \<and> view v' p = Some (b @ octets (d @ e)) \<and> hpos v' FIL_settings = length (b @ octets (d @ e)))) v"
    unfolding wp_bind
  proof (rule wp_mono)
    show "wp c (\<lambda>x v'. hfile v' FIL_settings = Some p \<and> (\<forall>q. q \<noteq> p \<longrightarrow> view v' q = view v q) \<and>
      (fst x \<longrightarrow> P (snd x) \<and> view v' p = Some (b @ octets d) \<and> hpos v' FIL_settings = length (b @ octets d))) v"
      using c v unfolding emits_def by blast
    fix x v'
    assume x: "hfile v' FIL_settings = Some p \<and> (\<forall>q. q \<noteq> p \<longrightarrow> view v' q = view v q) \<and>
      (fst x \<longrightarrow> P (snd x) \<and> view v' p = Some (b @ octets d) \<and> hpos v' FIL_settings = length (b @ octets d))"
    show "wp (f x) (\<lambda>x v'. hfile v' FIL_settings = Some p \<and> (\<forall>q. q \<noteq> p \<longrightarrow> view v' q = view v q) \<and>
      (fst x \<longrightarrow> Q (snd x) \<and> view v' p = Some (b @ octets (d @ e)) \<and> hpos v' FIL_settings = length (b @ octets (d @ e)))) v'"
    proof (cases x)
      case (Pair okay r)
      show ?thesis
      proof (cases okay)
        case True
        with x Pair have at: "P r" "hfile v' FIL_settings = Some p" "view v' p = Some (b @ octets d)" "hpos v' FIL_settings = length (b @ octets d)"
          by auto
        then have "wp (f (True, r)) (\<lambda>x w. hfile w FIL_settings = Some p \<and> (\<forall>q. q \<noteq> p \<longrightarrow> view w q = view v' q) \<and>
          (fst x \<longrightarrow> Q (snd x) \<and> view w p = Some ((b @ octets d) @ octets e) \<and> hpos w FIL_settings = length ((b @ octets d) @ octets e))) v'"
          using f [of r] unfolding emits_def by blast
        then have "wp (f (True, r)) (\<lambda>x w. hfile w FIL_settings = Some p \<and> (\<forall>q. q \<noteq> p \<longrightarrow> view w q = view v q) \<and>
          (fst x \<longrightarrow> Q (snd x) \<and> view w p = Some (b @ octets (d @ e)) \<and> hpos w FIL_settings = length (b @ octets (d @ e)))) v'"
          by (rule wp_mono) (use x in auto)
        with Pair True show ?thesis by simp
      next
        case False
        with x Pair show ?thesis by (simp only:) (rule wp_mono [OF failed [of r v']], auto)
      qed
    qed
  qed
qed

lemma emits_mono: "emits view hfile hpos p c d P \<Longrightarrow> (\<And>r. P r \<Longrightarrow> Q r) \<Longrightarrow> emits view hfile hpos p c d Q"
  unfolding emits_def by (intro allI impI) (rule wp_mono, blast+)

lemma emits_append:
  "emits view hfile hpos p c d (room used d) \<Longrightarrow> (\<And>u. u \<le> INI_LIMIT \<Longrightarrow> emits view hfile hpos p (f (True, u)) e (room u e)) \<Longrightarrow>
    (\<And>u v. wp (f (False, u)) (\<lambda>x v'. \<not> fst x \<and> v' = v) v) \<Longrightarrow> emits view hfile hpos p (State_Monad.bind c f) (d @ e) (room used (d @ e))"
proof (rule emits_bind [where P = "room used d"])
  fix u
  assume "\<And>u. u \<le> INI_LIMIT \<Longrightarrow> emits view hfile hpos p (f (True, u)) e (room u e)" "room used d u"
  then have "emits view hfile hpos p (f (True, u)) e (room u e)" by (auto simp: room_def)
  moreover have "room u e r \<Longrightarrow> room used (d @ e) r" for r using \<open>room used d u\<close> by (simp add: room_def)
  ultimately show "emits view hfile hpos p (f (True, u)) e (room used (d @ e))" by (rule emits_mono)
qed assumption+

text \<open>What a line of the old text becomes.\<close>

definition line_text :: "LmPreferencesBlock \<Rightarrow> bool \<Rightarrow> bool \<Rightarrow> string \<Rightarrow> string" where
  "line_text request ours emitted b =
     (let line = takeWhile (\<lambda>c. c \<noteq> newline) b; rest = dropWhile (\<lambda>c. c \<noteq> newline) b in
      (if ours \<and> Header line = None \<and> Key line \<noteq> None then [] else line @ take 1 rest) @
      (if ours \<and> Header line \<noteq> None \<and> \<not> emitted then (if rest = [] then crlf else []) @ pref_text request else []))"

context fat_volume
begin

abbreviation appends :: "string \<Rightarrow> ('s, bool \<times> 'r) state \<Rightarrow> string \<Rightarrow> ('r \<Rightarrow> bool) \<Rightarrow> bool" where
  "appends \<equiv> emits view hfile hpos"

lemma emits_Emit: "used \<le> INI_LIMIT \<Longrightarrow> appends p (Emit ops d used) d (room used d)"
  unfolding emits_def
proof (intro allI impI)
  fix v b
  assume used: "used \<le> INI_LIMIT" and v: "hfile v FIL_settings = Some p" "view v p = Some b" "hpos v FIL_settings = length b"
  show "wp (Emit ops d used) (\<lambda>x v'. hfile v' FIL_settings = Some p \<and> (\<forall>q. q \<noteq> p \<longrightarrow> view v' q = view v q) \<and>
      (fst x \<longrightarrow> room used d (snd x) \<and> view v' p = Some (b @ octets d) \<and> hpos v' FIL_settings = length (b @ octets d))) v"
  proof (cases "length d > INI_LIMIT - used")
    case True
    with v show ?thesis by (simp add: Emit_def)
  next
    case False
    with used have fits: "used + length d \<le> INI_LIMIT" by simp
    have "wp (vf_write ops FIL_settings (octets d)) (\<lambda>(result, written) v'. hfile v' FIL_settings = Some p \<and> (\<forall>q. q \<noteq> p \<longrightarrow> view v' q = view v q) \<and>
      (result = FR_OK \<and> written = length d \<longrightarrow> view v' p = Some (b @ octets d) \<and> hpos v' FIL_settings = length (b @ octets d))) v"
    proof (rule wpI, clarify)
      fix result written v'
      assume run: "run_state (vf_write ops FIL_settings (octets d)) v = ((result, written), v')"
      show "hfile v' FIL_settings = Some p \<and> (\<forall>q. q \<noteq> p \<longrightarrow> view v' q = view v q) \<and>
        (result = FR_OK \<and> written = length d \<longrightarrow> view v' p = Some (b @ octets d) \<and> hpos v' FIL_settings = length (b @ octets d))"
        using write_frame [OF run] write_data [of _ _ v written v', OF _ v] run v by auto
    qed
    then show ?thesis
      unfolding Emit_def using False fits by (simp only: if_False wp_bind) (erule wp_mono, auto simp: room_def split: prod.splits if_splits)
  qed
qed

lemma emits_values:
  "used \<le> INI_LIMIT \<Longrightarrow> appends p (EmitValues ops request is used) (concat (map (value_line request) (filter (present request) is)))
     (room used (concat (map (value_line request) (filter (present request) is))))"
proof (induction "is" arbitrary: used)
  case Nil
  then show ?case by (simp add: emits_room)
next
  case (Cons i rest)
  show ?case
  proof (cases "present request i")
    case True
    then have "EmitValues ops request (i # rest) used = do {
        (okay, used) \<leftarrow> Emit ops (value_line request i) used;
        if \<not> okay then ret (False, used) else EmitValues ops request rest used}" by (simp add: present_def)
    moreover have "appends p \<dots> (value_line request i @ concat (map (value_line request) (filter (present request) rest)))
        (room used (value_line request i @ concat (map (value_line request) (filter (present request) rest))))"
      by (rule emits_append [OF emits_Emit]) (simp_all add: Cons)
    ultimately show ?thesis using True by (simp only: filter.simps if_True list.map concat.simps)
  next
    case False
    with Cons show ?thesis by (simp add: present_def)
  qed
qed

lemma emits_preferences: "used \<le> INI_LIMIT \<Longrightarrow> appends p (EmitPreferences ops request used) (pref_text request) (room used (pref_text request))"
  unfolding EmitPreferences_def pref_text_def
  by (rule emits_append [OF emits_Emit], assumption, simp, rule emits_append [OF emits_values]) (simp_all add: emits_Emit)

lemma emits_line:
  assumes "used \<le> INI_LIMIT"
  shows "appends p (SaveLine ops request b ours emitted used) (line_text request ours emitted b) (room used (line_text request ours emitted b))"
proof -
  define line rest where "line = takeWhile (\<lambda>c. c \<noteq> newline) b" and "rest = dropWhile (\<lambda>c. c \<noteq> newline) b"
  define kept where "kept = (if ours \<and> Header (line) = None \<and> Key (line) \<noteq> None then [] else line @ take 1 (rest))"
  define prefs where "prefs = (if ours \<and> Header (line) \<noteq> None \<and> \<not> emitted then (if rest = [] then crlf else []) @ pref_text request else [])"
  have new: "line_text request ours emitted b = kept @ prefs"
    by (simp only: line_text_def kept_def prefs_def line_def rest_def Let_def)
  have kept: "u \<le> INI_LIMIT \<Longrightarrow> appends p (if \<not> (ours \<and> Header (line) = None \<and> Key (line) \<noteq> None)
      then Emit ops (line @ take 1 (rest)) u else ret (True, u)) kept (room u kept)" for u
    unfolding kept_def by (cases "ours \<and> Header (line) = None \<and> Key (line) \<noteq> None") (auto simp: emits_Emit emits_room)
  have crlf: "u \<le> INI_LIMIT \<Longrightarrow> appends p (if rest = [] then Emit ops crlf u else ret (True, u))
      (if rest = [] then crlf else []) (room u (if rest = [] then crlf else []))" for u
    by (simp add: emits_Emit emits_room)
  have prefs: "u \<le> INI_LIMIT \<Longrightarrow> appends p (if True \<and> ours \<and> Header (line) \<noteq> None \<and> \<not> emitted then do {
       (okay, used) \<leftarrow> (if rest = [] then Emit ops crlf u else ret (True, u));
       if \<not> okay then ret (False, used) else EmitPreferences ops request used
     } else ret (True, u)) prefs (room u prefs)" for u
  proof (cases "ours \<and> Header (line) \<noteq> None \<and> \<not> emitted")
    case True
    assume "u \<le> INI_LIMIT"
    then show ?thesis
      unfolding prefs_def simp_thms if_P [OF True]
      by (intro emits_append [OF crlf]) (simp_all add: emits_preferences)
  next
    case False
    assume "u \<le> INI_LIMIT"
    with False show ?thesis unfolding prefs_def simp_thms if_not_P [OF False] by (simp add: emits_room)
  qed
  show ?thesis
    unfolding new unfolding SaveLine_def Let_def line_def [symmetric] rest_def [symmetric]
    by (rule emits_append [OF kept]) (use assms(1) prefs in simp_all)
qed

lemma emits_lines:
  "used \<le> INI_LIMIT \<Longrightarrow> appends p (SaveLines ops request b ours emitted used) (fst (save_from request ours emitted b))
     (\<lambda>r. room used (fst (save_from request ours emitted b)) (fst r) \<and> snd r = snd (save_from request ours emitted b))"
proof (induction "length b" arbitrary: b ours emitted used rule: less_induct)
  case less
  show ?case
  proof (cases "b = []")
    case True
    then show ?thesis using less.prems by (subst SaveLines.simps) (simp add: emits_def room_def)
  next
    case False
    let ?line = "takeWhile (\<lambda>c. c \<noteq> newline) b" and ?rest = "dropWhile (\<lambda>c. c \<noteq> newline) b"
    let ?ours = "line_ours ?line ours"
    let ?em = "emitted \<or> ?ours \<and> Header ?line \<noteq> None"
    let ?text = "line_text request ?ours emitted b" and ?later = "save_from request ?ours ?em (tl ?rest)"
    have em: "(emitted \<or> ?ours \<and> Header ?line \<noteq> None \<and> \<not> emitted) = ?em" by blast
    have new: "save_from request ours emitted b = (?text @ fst ?later, snd ?later)"
      using False by (subst save_from.simps) (simp only: Let_def line_ours_def [symmetric] line_text_def em if_False append_assoc)
    have "appends p (SaveLines ops request b ours emitted used) (?text @ fst ?later)
        (\<lambda>r. room used (?text @ fst ?later) (fst r) \<and> snd r = snd ?later)"
      unfolding SaveLines.simps [of ops request b] if_not_P [OF False] Let_def
    proof (rule emits_bind [OF emits_line [OF less.prems]])
      fix u
      assume room: "room used ?text u"
      then have "u \<le> INI_LIMIT" by (simp add: room_def)
      from less.hyps [OF length_rest [OF False] this]
      have "appends p (SaveLines ops request (tl ?rest) ?ours ?em u) (fst ?later) (\<lambda>r. room u (fst ?later) (fst r) \<and> snd r = snd ?later)" .
      then have "appends p (SaveLines ops request (tl ?rest) ?ours ?em u) (fst ?later)
          (\<lambda>r. room used (?text @ fst ?later) (fst r) \<and> snd r = snd ?later)"
        by (rule emits_mono) (use room in \<open>auto simp: room_def\<close>)
      then show "appends p (case (True, u) of (okay, used) \<Rightarrow>
           if \<not> okay then ret (False, used, emitted \<or> okay \<and> ?ours \<and> Header ?line \<noteq> None)
           else SaveLines ops request (tl ?rest) ?ours (emitted \<or> okay \<and> ?ours \<and> Header ?line \<noteq> None) used) (fst ?later)
          (\<lambda>r. room used (?text @ fst ?later) (fst r) \<and> snd r = snd ?later)"
        by (simp only: prod.case simp_thms if_False)
    qed simp
    then show ?thesis unfolding new by simp
  qed
qed

lemma emits_text:
  "appends p (State_Monad.bind (SaveText ops request b) (\<lambda>okay. ret (okay, ()))) (saved_text request b) (\<lambda>_. length (saved_text request b) \<le> INI_LIMIT)"
proof -
  let ?from = "save_from request False False b"
  let ?tail = "if snd ?from then [] else crlf @ ''[lm_preferences]'' @ crlf @ pref_text request"
  have tail: "u \<le> INI_LIMIT \<Longrightarrow> appends p (do {
         (okay, used) \<leftarrow> Emit ops (crlf @ ''[lm_preferences]'' @ crlf) u;
         if \<not> okay then ret (False, used) else EmitPreferences ops request used
       }) ((crlf @ ''[lm_preferences]'' @ crlf) @ pref_text request) (room u ((crlf @ ''[lm_preferences]'' @ crlf) @ pref_text request))" for u
    by (rule emits_append [OF emits_Emit]) (simp_all add: emits_preferences)
  have "appends p (do {
     (okay, used, emitted) \<leftarrow> SaveLines ops request b False False 0;
     (if okay \<and> \<not> emitted then do {
         (okay, used) \<leftarrow> Emit ops (crlf @ ''[lm_preferences]'' @ crlf) used;
         if \<not> okay then ret (False, used) else EmitPreferences ops request used
       } else ret (okay, used))}) (fst ?from @ ?tail) (room 0 (fst ?from @ ?tail))"
  proof (rule emits_bind [OF emits_lines])
    fix r :: "nat \<times> bool"
    assume r: "room 0 (fst ?from) (fst r) \<and> snd r = snd ?from"
    obtain u e where ue: "r = (u, e)" by fastforce
    have "appends p (if \<not> e then do {
         (okay, used) \<leftarrow> Emit ops (crlf @ ''[lm_preferences]'' @ crlf) u;
         if \<not> okay then ret (False, used) else EmitPreferences ops request used
       } else ret (True, u)) ?tail (room u ?tail)"
    proof -
      have u: "u \<le> INI_LIMIT" "snd ?from = e" using r by (auto simp: ue room_def)
      show ?thesis unfolding u(2) by (cases e) (use tail [OF u(1)] emits_room [OF u(1)] in simp_all)
    qed
    then show "appends p (case (True, r) of (okay, used, emitted) \<Rightarrow>
        if okay \<and> \<not> emitted then do {
         (okay, used) \<leftarrow> Emit ops (crlf @ ''[lm_preferences]'' @ crlf) used;
         if \<not> okay then ret (False, used) else EmitPreferences ops request used
       } else ret (okay, used)) ?tail (room 0 (fst ?from @ ?tail))"
      unfolding ue prod.case simp_thms by (rule emits_mono) (use r ue in \<open>auto simp: room_def\<close>)
  qed (simp_all split: prod.split)
  moreover have "saved_text request b = fst ?from @ ?tail"
    by (simp add: saved_text_def split: prod.split)
  ultimately have "appends p (State_Monad.bind (do {
     (okay, used, emitted) \<leftarrow> SaveLines ops request b False False 0;
     (if okay \<and> \<not> emitted then do {
         (okay, used) \<leftarrow> Emit ops (crlf @ ''[lm_preferences]'' @ crlf) used;
         if \<not> okay then ret (False, used) else EmitPreferences ops request used
       } else ret (okay, used))}) (\<lambda>x. ret (fst x, ()))) (saved_text request b @ []) (\<lambda>_. length (saved_text request b) \<le> INI_LIMIT)"
    by (intro emits_bind [where P = "room 0 (saved_text request b)"]) (simp_all add: emits_ret room_def)
  then show ?thesis by (simp add: SaveText_def split_beta del: append.simps)
qed

lemma wp_SaveText:
  assumes "hfile v FIL_settings = Some p" "view v p = Some []" "hpos v FIL_settings = 0"
  shows "wp (SaveText ops request b) (\<lambda>okay v'. (\<forall>q. q \<noteq> p \<longrightarrow> view v' q = view v q) \<and>
    (okay \<longrightarrow> length (saved_text request b) \<le> INI_LIMIT \<and> view v' p = Some (octets (saved_text request b)))) v"
proof -
  have "hpos v FIL_settings = length ([] :: bytes)" using assms(3) by simp
  from emits_text [of p request b, unfolded emits_def wp_bind, rule_format, OF assms(1,2) this]
  show ?thesis by (rule wp_mono) simp
qed

end

section \<open>Reading a file\<close>

text \<open>What reading a file of these contents comes to when no call fails; the size is kept in 32 bits.\<close>

definition read_outcome :: "bytes option \<Rightarrow> u32 \<times> string" where
  "read_outcome content = (case content of
     None \<Rightarrow> (LM_PREFERENCES_NO_FILE, [])
   | Some b \<Rightarrow>
       (if (of_nat (length b) :: u32) > of_nat INI_LIMIT then (LM_PREFERENCES_INVALID, [])
        else if of_nat (length (take INI_LIMIT b)) \<noteq> (of_nat (length b) :: u32) then (LM_PREFERENCES_IO_ERROR, [])
        else (LM_PREFERENCES_OK, chars (take INI_LIMIT b))))"

context fat_volume
begin

lemma wp_Read_exact:
  "wp (Read ops p) (\<lambda>x v'. view v' = view v \<and> (x = read_outcome (view v p) \<or> x = (LM_PREFERENCES_IO_ERROR, []))) v"
  (is "wp _ ?Q v")
  unfolding Read_def wp_bind
proof (rule wpI)
  fix result s
  assume "open": "run_state (vf_open ops FIL_settings p OpenRead) v = (result, s)"
  have same: "view s = view v" by (rule open_read_view [OF "open"])
  show "wp (if result = FR_NO_FILE then ret (LM_PREFERENCES_NO_FILE, [])
     else if result \<noteq> FR_OK then ret (LM_PREFERENCES_IO_ERROR, [])
     else do {
       objsize \<leftarrow> gets (vf_size ops FIL_settings);
       let expected = (ucast objsize :: u32);
       if expected > of_nat INI_LIMIT then do {
         closed \<leftarrow> vf_close ops FIL_settings;
         ret (LM_PREFERENCES_INVALID, [])
       } else do {
         (result, data) \<leftarrow> vf_read ops FIL_settings INI_LIMIT;
         closed \<leftarrow> vf_close ops FIL_settings;
         if result \<noteq> FR_OK \<or> closed \<noteq> FR_OK \<or> of_nat (length data) \<noteq> expected then ret (LM_PREFERENCES_IO_ERROR, [])
         else ret (LM_PREFERENCES_OK, chars data)
       }
     }) ?Q s"
  proof (cases "result = FR_OK")
    case False
    then show ?thesis using same open_read_absent [of FIL_settings p v s] "open" by (auto simp: read_outcome_def)
  next
    case True
    from open_read_found [OF "open" [unfolded True]] obtain b where b: "view v p = Some b" "vf_size ops FIL_settings s = word_of_nat (length b)"
      by blast
    have size32: "(ucast (vf_size ops FIL_settings s) :: u32) = of_nat (length b)"
      by (simp add: b(2) unsigned_of_nat word_of_nat_eq_iff)
    have at: "hfile s FIL_settings = Some p" "hpos s FIL_settings = 0" using open_handle [OF "open" [unfolded True]] by auto
    have close: "wp (vf_close ops FIL_settings) (\<lambda>x v'. view v' = view t) t" for t
      by (rule wpI) (use close_view in blast)
    have read: "wp (vf_read ops FIL_settings INI_LIMIT) (\<lambda>x t. view t = view v \<and> (fst x = FR_OK \<longrightarrow> snd x = take INI_LIMIT b)) s"
      by (rule wpI, clarsimp) (use read_view read_data [of FIL_settings INI_LIMIT s] at b same in fastforce)
    show ?thesis
    proof (cases "(ucast (vf_size ops FIL_settings s) :: u32) > of_nat INI_LIMIT")
      case large: True
      have "wp (vf_close ops FIL_settings) (\<lambda>x v'. ?Q (LM_PREFERENCES_INVALID, []) v') s"
        by (rule wp_mono [OF close]) (use same large b(1) size32 in \<open>auto simp: read_outcome_def\<close>)
      with True large show ?thesis by (simp add: Let_def)
    next
      case fits: False
      have "wp (vf_close ops FIL_settings) (\<lambda>closed v'. ?Q (if result \<noteq> FR_OK \<or> closed \<noteq> FR_OK \<or> of_nat (length data) \<noteq> (ucast (vf_size ops FIL_settings s) :: u32)
          then (LM_PREFERENCES_IO_ERROR, []) else (LM_PREFERENCES_OK, chars data)) v') t"
        if "view t = view v" "result = FR_OK \<Longrightarrow> data = take INI_LIMIT b" for t result data
        by (rule wp_mono [OF close]) (use that b(1) size32 fits in \<open>auto simp: read_outcome_def\<close>)
      with read have "wp (vf_read ops FIL_settings INI_LIMIT) (\<lambda>x t. wp (vf_close ops FIL_settings)
          (\<lambda>closed v'. ?Q (if fst x \<noteq> FR_OK \<or> closed \<noteq> FR_OK \<or> of_nat (length (snd x)) \<noteq> (ucast (vf_size ops FIL_settings s) :: u32)
          then (LM_PREFERENCES_IO_ERROR, []) else (LM_PREFERENCES_OK, chars (snd x))) v') t) s"
        by (elim wp_mono) blast
      with True fits show ?thesis
        by (simp add: Let_def) (elim wp_mono, clarsimp, elim wp_mono, auto split: if_splits)
    qed
  qed
qed

lemma wp_Read:
  "wp (Read ops p) (\<lambda>x v'. view v' = view v \<and>
     (fst x = LM_PREFERENCES_OK \<longrightarrow> (\<exists>b. view v p = Some b \<and> snd x = chars (take INI_LIMIT b))) \<and>
     (fst x = LM_PREFERENCES_NO_FILE \<longrightarrow> view v p = None \<and> snd x = []) \<and>
     (\<forall>b. view v p = Some b \<longrightarrow> length b \<le> INI_LIMIT \<longrightarrow> fst x = LM_PREFERENCES_OK \<or> fst x = LM_PREFERENCES_IO_ERROR)) v"
  by (rule wp_mono [OF wp_Read_exact])
    (auto simp: read_outcome_def word_less_nat_alt unat_of_nat take_bit_nat_eq_self split: option.splits if_splits)

end

section \<open>What a boot finds\<close>

text \<open>
  The settings a boot loads, said of the contents of the two files: what the settings file comes to, or what its backup
  comes to when the file is absent or holds no section of ours.
\<close>

definition boot_file :: "bytes option \<Rightarrow> u32 \<times> LmPreferencesBlock" where
  "boot_file content = (case read_outcome content of (status, buffer) \<Rightarrow>
     (if status = LM_PREFERENCES_OK then (fst (Parse buffer), case snd (Parse buffer) of None \<Rightarrow> Empty | Some loaded \<Rightarrow> loaded)
      else (status, Empty)))"

definition boot_settings :: "(string \<Rightarrow> bytes option) \<Rightarrow> string \<Rightarrow> u32 \<times> LmPreferencesBlock" where
  "boot_settings files path =
     (let found = boot_file (files path);
          found = (if fst found = LM_PREFERENCES_NO_FILE \<and> length path \<le> 112 then boot_file (files (backup_path path)) else found)
      in (fst found, if fst found = LM_PREFERENCES_OK then snd found else Empty))"

lemma boot_file_absent: "boot_file None = (LM_PREFERENCES_NO_FILE, Empty)"
  by (simp add: boot_file_def read_outcome_def)

lemma boot_file_text:
  assumes "length new \<le> INI_LIMIT" "Parse new = (LM_PREFERENCES_OK, Some loaded)"
  shows "boot_file (Some (octets new)) = (LM_PREFERENCES_OK, loaded)"
  using assms by (simp add: boot_file_def read_outcome_def word_less_nat_alt unat_of_nat take_bit_nat_eq_self)

lemma boot_settings_text:
  assumes "files path = Some (octets new)" "length new \<le> INI_LIMIT" "Parse new = (LM_PREFERENCES_OK, Some loaded)"
  shows "boot_settings files path = (LM_PREFERENCES_OK, loaded)"
  using boot_file_text [OF assms(2,3)] assms(1) by (simp add: boot_settings_def)

context fat_volume
begin

lemma wp_LoadFile:
  "wp (LoadFile ops p) (\<lambda>x v'. view v' = view v \<and> (x = boot_file (view v p) \<or> x = (LM_PREFERENCES_IO_ERROR, Empty))) v"
  unfolding LoadFile_def wp_bind by (rule wp_mono [OF wp_Read_exact]) (auto simp: boot_file_def split_beta)

lemma wp_LoadPreferences:
  assumes "pe_heap env"
  shows "wp (LoadPreferences ops env) (\<lambda>x v'. x \<in> {boot_settings (view v) (pe_path env), (LM_PREFERENCES_IO_ERROR, Empty)}) v"
proof -
  let ?fin = "\<lambda>x :: u32 \<times> LmPreferencesBlock. (fst x, if fst x \<noteq> LM_PREFERENCES_OK then Empty else snd x)"
  let ?ok = "\<lambda>x :: u32 \<times> LmPreferencesBlock. ?fin x \<in> {boot_settings (view v) (pe_path env), (LM_PREFERENCES_IO_ERROR, Empty)}"
  have "wp (LoadFile ops (pe_path env)) (\<lambda>x t. wp (if fst x = LM_PREFERENCES_NO_FILE \<and> length (pe_path env) \<le> 112
      then LoadFile ops (backup_path (pe_path env)) else ret x) (\<lambda>y t'. ?ok y) t) v"
  proof (rule wp_mono [OF wp_LoadFile])
    fix x t
    assume x: "view t = view v \<and> (x = boot_file (view v (pe_path env)) \<or> x = (LM_PREFERENCES_IO_ERROR, Empty))"
    show "wp (if fst x = LM_PREFERENCES_NO_FILE \<and> length (pe_path env) \<le> 112
      then LoadFile ops (backup_path (pe_path env)) else ret x) (\<lambda>y t'. ?ok y) t"
    proof (cases "fst x = LM_PREFERENCES_NO_FILE \<and> length (pe_path env) \<le> 112")
      case True
      then have "x = boot_file (view v (pe_path env))" using x by auto
      with True have "wp (LoadFile ops (backup_path (pe_path env))) (\<lambda>y t'. ?ok y) t"
        by (intro wp_mono [OF wp_LoadFile]) (use x in \<open>auto simp: boot_settings_def\<close>)
      then show ?thesis unfolding if_P [OF True] .
    next
      case False
      have "?ok x" using x False by (auto simp: boot_settings_def Let_def)
      then show ?thesis unfolding if_not_P [OF False] by simp
    qed
  qed
  then show ?thesis using assms by (simp add: LoadPreferences_def split_beta) (erule wp_mono, simp split: if_splits)
qed

lemma wp_Init_boot:
  assumes "pe_heap env" "pe_game_id env = 0x474C4D4A" "pe_available env"
  shows "wp (LmPreferencesInit ops env) (\<lambda>x s'. \<exists>status loaded.
    (status, loaded) \<in> {boot_settings (view (lp_vol s)) (pe_path env), (LM_PREFERENCES_IO_ERROR, Empty)} \<and>
    lp_Block s' = loaded\<lparr>pb_status := status, pb_ready := 1\<rparr>) s"
  unfolding LmPreferencesInit_def
  using assms(2,3) by (simp add: on_disk_def) (rule wp_mono [OF wp_LoadPreferences [OF assms(1)]], auto)

end

section \<open>Replacing the settings file\<close>

text \<open>The contents a save starts from, and their text.\<close>

definition save_source :: "(string \<Rightarrow> bytes option) \<Rightarrow> string \<Rightarrow> bytes option" where
  "save_source files path = (case files path of Some b \<Rightarrow> Some b | None \<Rightarrow> files (backup_path path))"

definition old_text :: "(string \<Rightarrow> bytes option) \<Rightarrow> string \<Rightarrow> string" where
  "old_text files path = (case save_source files path of None \<Rightarrow> [] | Some b \<Rightarrow> chars (take INI_LIMIT b))"

lemma settings_paths [simp]:
  "temporary_path path \<noteq> path" "backup_path path \<noteq> path" "temporary_path path \<noteq> backup_path path"
  "path \<noteq> temporary_path path" "path \<noteq> backup_path path" "backup_path path \<noteq> temporary_path path"
  by (simp_all add: temporary_path_def backup_path_def sprintf_def)

text \<open>
  The files of an unfinished save: the settings file is as before (its backup may be gone by then, or hold the same), or it
  has stepped aside and is its own backup.
\<close>

definition settings_kept :: "string \<Rightarrow> (string \<Rightarrow> bytes option) \<Rightarrow> (string \<Rightarrow> bytes option) \<Rightarrow> bool" where
  "settings_kept path files files' \<longleftrightarrow> (case files path of
     None \<Rightarrow> files' path = None \<and> files' (backup_path path) = files (backup_path path)
   | Some b \<Rightarrow> files' path = Some b \<and> files' (backup_path path) \<in> {files (backup_path path), None, Some b} \<or>
       length path \<le> 112 \<and> files' path = None \<and> files' (backup_path path) = Some b)"

lemma settings_kept_same:
  "files' path = files path \<Longrightarrow> files' (backup_path path) = files (backup_path path) \<Longrightarrow> settings_kept path files files'"
  by (simp add: settings_kept_def split: option.split)

lemma settings_kept_source: "settings_kept path files files' \<Longrightarrow> save_source files' path = save_source files path"
  by (auto simp: settings_kept_def save_source_def split: option.splits)

text \<open>
  A backup that a boot would use although the settings file is there, because the file holds no section of ours.
\<close>

definition hidden_backup :: "(string \<Rightarrow> bytes option) \<Rightarrow> string \<Rightarrow> bool" where
  "hidden_backup files path \<longleftrightarrow> files path \<noteq> None \<and> fst (boot_file (files path)) = LM_PREFERENCES_NO_FILE \<and>
     fst (boot_file (files (backup_path path))) \<noteq> LM_PREFERENCES_NO_FILE"

lemma boot_settings_kept:
  assumes "settings_kept path files files'" "\<not> hidden_backup files path"
  shows "boot_settings files' path = boot_settings files path"
  using assms by (auto simp: settings_kept_def hidden_backup_def boot_settings_def boot_file_absent Let_def split: option.splits)

text \<open>A save, whatever fails: the settings are the old ones or the new ones, and no other file is touched.\<close>

definition save_effect :: "string \<Rightarrow> LmPreferencesBlock \<Rightarrow> (string \<Rightarrow> bytes option) \<Rightarrow> u32 \<Rightarrow> (string \<Rightarrow> bytes option) \<Rightarrow> bool" where
  "save_effect path request files status files' \<longleftrightarrow>
     (let new = saved_text request (old_text files path) in
      (settings_kept path files files' \<or> files' path = Some (octets new) \<and> length new \<le> INI_LIMIT) \<and>
      (status = LM_PREFERENCES_OK \<longrightarrow> files' path = Some (octets new) \<and> length new \<le> INI_LIMIT) \<and>
      (\<forall>q. q \<notin> {path, temporary_path path, backup_path path} \<longrightarrow> files' q = files q))"

lemma save_effect_idle: "status \<noteq> LM_PREFERENCES_OK \<Longrightarrow> save_effect path request files status files"
  by (simp add: save_effect_def settings_kept_same)

lemma save_effect_temporary:
  "status \<noteq> LM_PREFERENCES_OK \<Longrightarrow> \<forall>q. q \<noteq> temporary_path path \<longrightarrow> files' q = files q \<Longrightarrow> save_effect path request files status files'"
  by (simp add: save_effect_def settings_kept_same)

text \<open>The tail of \<open>Save\<close>: the temporary is written, synced and closed, then takes its place.\<close>

context safe_volume
begin

lemma wp_Rename:
  "p \<noteq> q \<Longrightarrow> wp (Rename ops p q) (\<lambda>x v'. (\<forall>r. r \<noteq> p \<longrightarrow> r \<noteq> q \<longrightarrow> view v' r = view v r) \<and>
     view v' q \<in> {view v q, view v p} \<and> (view v q \<noteq> None \<longrightarrow> view v' q = view v q) \<and>
     (view v p \<noteq> None \<longrightarrow> view v' p = view v p \<or> view v' p = None \<and> view v' q = view v p) \<and>
     (x = FR_OK \<longrightarrow> view v' q = view v p \<and> view v' p = None)) v"
proof -
  assume pq: "p \<noteq> q"
  have "wp (vf_rename ops p q) (\<lambda>x v'. (\<forall>r. r \<noteq> p \<longrightarrow> r \<noteq> q \<longrightarrow> view v' r = view v r) \<and>
     view v' q \<in> {view v q, view v p} \<and> (view v q \<noteq> None \<longrightarrow> view v' q = view v q) \<and>
     (view v p \<noteq> None \<longrightarrow> view v' p = view v p \<or> view v' p = None \<and> view v' q = view v p) \<and>
     (x = FR_OK \<longrightarrow> view v' q = view v p \<and> view v' p = None)) v"
  proof (rule wpI)
    fix x v'
    assume run: "run_state (vf_rename ops p q) v = (x, v')"
    show "(\<forall>r. r \<noteq> p \<longrightarrow> r \<noteq> q \<longrightarrow> view v' r = view v r) \<and>
     view v' q \<in> {view v q, view v p} \<and> (view v q \<noteq> None \<longrightarrow> view v' q = view v q) \<and>
     (view v p \<noteq> None \<longrightarrow> view v' p = view v p \<or> view v' p = None \<and> view v' q = view v p) \<and>
     (x = FR_OK \<longrightarrow> view v' q = view v p \<and> view v' p = None)"
      using rename_frame [OF run] rename_content [OF run pq] rename_existing [OF run pq] rename_keeps [OF run pq]
        rename_ok [of p q v v'] run pq by auto
  qed
  then show ?thesis using pq by (simp add: Rename_def)
qed

lemma wp_aside:
  assumes "view v path = Some b" "view v (temporary_path path) = Some new" "length path \<le> 112"
  shows "wp (do {
       result \<leftarrow> vf_unlink ops (backup_path path);
       if result \<noteq> FR_OK \<and> result \<noteq> FR_NO_FILE then ret False
       else do { result \<leftarrow> Rename ops path (backup_path path); ret (result = FR_OK) }
     }) (\<lambda>aside v'. settings_kept path (view v) (view v') \<and> (aside \<longrightarrow> view v' path = None) \<and>
       view v' (temporary_path path) = Some new \<and> (\<forall>q. q \<notin> {path, backup_path path} \<longrightarrow> view v' q = view v q)) v"
  unfolding wp_bind
proof (rule wpI)
  fix x s
  assume run: "run_state (vf_unlink ops (backup_path path)) v = (x, s)"
  then have frame: "view s q = view v q" if "q \<noteq> backup_path path" for q using that unlink_frame by blast
  have backup: "view s (backup_path path) \<in> {view v (backup_path path), None}" by (rule unlink_content [OF run])
  have "wp (Rename ops path (backup_path path)) (\<lambda>x v'. settings_kept path (view v) (view v') \<and> (x = FR_OK \<longrightarrow> view v' path = None) \<and>
       view v' (temporary_path path) = Some new \<and> (\<forall>q. q \<notin> {path, backup_path path} \<longrightarrow> view v' q = view v q)) s"
    by (intro wp_mono [OF wp_Rename]) (use assms frame backup in \<open>auto simp: settings_kept_def\<close>)
  then show "wp (if x \<noteq> FR_OK \<and> x \<noteq> FR_NO_FILE then ret False
       else do { result \<leftarrow> Rename ops path (backup_path path); ret (result = FR_OK) })
     (\<lambda>aside v'. settings_kept path (view v) (view v') \<and> (aside \<longrightarrow> view v' path = None) \<and>
       view v' (temporary_path path) = Some new \<and> (\<forall>q. q \<notin> {path, backup_path path} \<longrightarrow> view v' q = view v q)) s"
    using assms frame backup by (auto simp: settings_kept_def)
qed

lemma wp_commit:
  assumes "view v path = None" "view v (temporary_path path) = Some new"
  shows "wp (Rename ops (temporary_path path) path) (\<lambda>x s. view s path \<in> {None, Some new} \<and>
    (x = FR_OK \<longrightarrow> view s path = Some new) \<and> (\<forall>q. q \<notin> {path, temporary_path path} \<longrightarrow> view s q = view v q)) v"
  by (rule wp_mono [OF wp_Rename]) (use assms in auto)

lemma wp_undo:
  assumes "view v (backup_path path) = Some b"
  shows "wp (Rename ops (backup_path path) path) (\<lambda>x s.
    (view v path = None \<longrightarrow> view s path = Some b \<and> view s (backup_path path) \<in> {None, Some b} \<or>
       view s path = None \<and> view s (backup_path path) = Some b) \<and>
    (view v path \<noteq> None \<longrightarrow> view s path = view v path) \<and>
    (\<forall>q. q \<notin> {path, backup_path path} \<longrightarrow> view s q = view v q)) v"
  by (rule wp_mono [OF wp_Rename]) (use assms in auto)

lemma wp_replace:
  assumes "view v (temporary_path path) = Some new" "original \<longleftrightarrow> view v path \<noteq> None" "length path \<le> 112"
  shows "wp (SaveReplace ops path (temporary_path path) (backup_path path) original) (\<lambda>status v'.
    (settings_kept path (view v) (view v') \<or> view v' path = Some new) \<and>
    (status = LM_PREFERENCES_OK \<longrightarrow> view v' path = Some new) \<and>
    (\<forall>q. q \<notin> {path, temporary_path path, backup_path path} \<longrightarrow> view v' q = view v q)) v"
    (is "wp _ ?Q v")
proof -
  let ?commit = "do {
       result \<leftarrow> Rename ops (temporary_path path) path;
       if result \<noteq> FR_OK then do {
         undone \<leftarrow> (if original then Rename ops (backup_path path) path else ret FR_OK);
         ret LM_PREFERENCES_IO_ERROR
       } else ret LM_PREFERENCES_OK
     }"
  have commit: "wp ?commit ?Q s"
    if s: "view s path = None" "view s (temporary_path path) = Some new" "settings_kept path (view v) (view s)"
      "\<forall>q. q \<notin> {path, temporary_path path, backup_path path} \<longrightarrow> view s q = view v q" for s
    unfolding wp_bind
  proof (rule wp_mono [OF wp_commit [OF s(1,2)]])
    fix x t
    assume t: "view t path \<in> {None, Some new} \<and> (x = FR_OK \<longrightarrow> view t path = Some new) \<and>
      (\<forall>q. q \<notin> {path, temporary_path path} \<longrightarrow> view t q = view s q)"
    then have backup: "view t (backup_path path) = view s (backup_path path)" by simp
    have kept: "settings_kept path (view v) (view t)" if "view t path = None"
      using s(1,3) that backup by (simp add: settings_kept_def split: option.splits)
    show "wp (if x \<noteq> FR_OK then do {
         undone \<leftarrow> (if original then Rename ops (backup_path path) path else ret FR_OK);
         ret LM_PREFERENCES_IO_ERROR
       } else ret LM_PREFERENCES_OK) ?Q t"
    proof (cases "x \<noteq> FR_OK \<and> original")
      case True
      then obtain b where b: "view v path = Some b" "view t (backup_path path) = Some b"
        using assms(2) s(1,3) backup by (auto simp: settings_kept_def)
      have "wp (Rename ops (backup_path path) path) (\<lambda>x. ?Q LM_PREFERENCES_IO_ERROR) t"
        by (rule wp_mono [OF wp_undo [OF b(2)]]) (use t s b assms(3) in \<open>auto simp: settings_kept_def\<close>)
      with True show ?thesis by simp
    next
      case False
      with t s kept show ?thesis by auto
    qed
  qed
  show ?thesis
  proof (cases "view v path")
    case None
    with assms(2) have "\<not> original" by simp
    moreover have "wp ?commit ?Q v" by (rule commit) (use None assms in \<open>auto simp: settings_kept_same\<close>)
    ultimately show ?thesis by (simp only: SaveReplace_def wp_bind wp_return simp_thms if_True if_False)
  next
    case (Some b)
    have "wp (do {
       result \<leftarrow> vf_unlink ops (backup_path path);
       if result \<noteq> FR_OK \<and> result \<noteq> FR_NO_FILE then ret False
       else do { result \<leftarrow> Rename ops path (backup_path path); ret (result = FR_OK) }
     }) (\<lambda>aside. wp (if \<not> aside then ret LM_PREFERENCES_IO_ERROR else ?commit) ?Q) v"
    proof (rule wp_mono [OF wp_aside [OF Some assms(1,3)]])
      fix aside s
      assume s: "settings_kept path (view v) (view s) \<and> (aside \<longrightarrow> view s path = None) \<and>
        view s (temporary_path path) = Some new \<and> (\<forall>q. q \<notin> {path, backup_path path} \<longrightarrow> view s q = view v q)"
      show "wp (if \<not> aside then ret LM_PREFERENCES_IO_ERROR else ?commit) ?Q s"
        using s commit [of s] by (cases aside) simp_all
    qed
    with Some assms(2) show ?thesis by (simp only: SaveReplace_def wp_bind simp_thms option.distinct if_True if_False)
  qed
qed

lemma wp_save_close:
  assumes "buffer = old_text (view v) path" "original \<longleftrightarrow> view v path \<noteq> None" "length path \<le> 112"
    and "\<forall>q. q \<noteq> temporary_path path \<longrightarrow> view t q = view v q"
    and "okay \<Longrightarrow> view t (temporary_path path) = Some (octets (saved_text request buffer)) \<and> length (saved_text request buffer) \<le> INI_LIMIT"
  shows "wp (vf_close ops FIL_settings) (\<lambda>result. wp (if \<not> okay \<or> result \<noteq> FR_OK then ret LM_PREFERENCES_IO_ERROR
        else SaveReplace ops path (temporary_path path) (backup_path path) original)
      (\<lambda>status v'. save_effect path request (view v) status (view v'))) t"
proof (rule wpI)
  fix result u
  assume "run_state (vf_close ops FIL_settings) t = (result, u)"
  then have u: "view u = view t" using close_view by blast
  show "wp (if \<not> okay \<or> result \<noteq> FR_OK then ret LM_PREFERENCES_IO_ERROR
        else SaveReplace ops path (temporary_path path) (backup_path path) original)
      (\<lambda>status v'. save_effect path request (view v) status (view v')) u"
  proof (cases "\<not> okay \<or> result \<noteq> FR_OK")
    case True
    with assms(4) u show ?thesis by (simp add: save_effect_temporary)
  next
    case False
    then have new: "view u (temporary_path path) = Some (octets (saved_text request buffer))" "length (saved_text request buffer) \<le> INI_LIMIT"
      using assms(5) u by auto
    have same: "view u path = view v path" "view u (backup_path path) = view v (backup_path path)" using assms(4) u by auto
    have kept: "settings_kept path (view v) f" if "settings_kept path (view u) f" for f
      using that unfolding settings_kept_def same .
    have "wp (SaveReplace ops path (temporary_path path) (backup_path path) original)
        (\<lambda>status v'. save_effect path request (view v) status (view v')) u"
      by (rule wp_mono [OF wp_replace [OF new(1)]])
        (use new(2) assms(1-4) u same kept in \<open>auto simp: save_effect_def Let_def\<close>)
    with False show ?thesis by simp
  qed
qed

lemma wp_save_tail:
  assumes "buffer = old_text (view v) path" "original \<longleftrightarrow> view v path \<noteq> None" "length path \<le> 112"
  shows "wp (SaveFile ops path request buffer original) (\<lambda>status v'. save_effect path request (view v) status (view v')) v"
  unfolding SaveFile_def wp_bind
proof (rule wpI)
  let ?new = "saved_text request buffer"
  fix result s
  assume run: "run_state (vf_open ops FIL_settings (temporary_path path) OpenCreateAlways) v = (result, s)"
  then have keep: "\<forall>q. q \<noteq> temporary_path path \<longrightarrow> view s q = view v q" using open_frame by blast
  show "wp (if result \<noteq> FR_OK then ret LM_PREFERENCES_IO_ERROR
      else do {
        okay \<leftarrow> SaveText ops request buffer;
        okay \<leftarrow> (if okay then do { result \<leftarrow> vf_sync ops FIL_settings; ret (result = FR_OK) } else ret False);
        result \<leftarrow> vf_close ops FIL_settings;
        if \<not> okay \<or> result \<noteq> FR_OK then ret LM_PREFERENCES_IO_ERROR
        else SaveReplace ops path (temporary_path path) (backup_path path) original
      }) (\<lambda>status v'. save_effect path request (view v) status (view v')) s"
  proof (cases "result = FR_OK")
    case True
    then have "hfile s FIL_settings = Some (temporary_path path)" "view s (temporary_path path) = Some []" "hpos s FIL_settings = 0"
      using run open_handle open_create by force+
    note written = wp_SaveText [OF this, of request buffer]
    have close: "wp (if okay then do { result \<leftarrow> vf_sync ops FIL_settings; ret (result = FR_OK) } else ret False)
        (\<lambda>okay. wp (vf_close ops FIL_settings) (\<lambda>result. wp (if \<not> okay \<or> result \<noteq> FR_OK then ret LM_PREFERENCES_IO_ERROR
          else SaveReplace ops path (temporary_path path) (backup_path path) original)
        (\<lambda>status v'. save_effect path request (view v) status (view v')))) t"
      if t: "(\<forall>q. q \<noteq> temporary_path path \<longrightarrow> view t q = view s q) \<and>
        (okay \<longrightarrow> length ?new \<le> INI_LIMIT \<and> view t (temporary_path path) = Some (octets ?new))" for okay t
    proof (cases okay)
      case True
      have "wp (vf_sync ops FIL_settings) (\<lambda>result t'. view t' = view t) t"
        by (rule wpI) (use sync_view in blast)
      then have "wp (vf_sync ops FIL_settings) (\<lambda>result. wp (vf_close ops FIL_settings) (\<lambda>closed. wp (if \<not> (result = FR_OK) \<or> closed \<noteq> FR_OK
            then ret LM_PREFERENCES_IO_ERROR else SaveReplace ops path (temporary_path path) (backup_path path) original)
          (\<lambda>status v'. save_effect path request (view v) status (view v')))) t"
        by (rule wp_mono) (rule wp_save_close [OF assms], use t keep True in auto)
      with True show ?thesis by (simp only: if_True wp_bind wp_return)
    next
      case False
      have "wp (vf_close ops FIL_settings) (\<lambda>result. wp (if \<not> False \<or> result \<noteq> FR_OK then ret LM_PREFERENCES_IO_ERROR
          else SaveReplace ops path (temporary_path path) (backup_path path) original)
        (\<lambda>status v'. save_effect path request (view v) status (view v'))) t"
        by (rule wp_save_close [OF assms]) (use t keep in auto)
      with False show ?thesis by (simp only: if_False wp_return)
    qed
    with True wp_mono [OF written] show ?thesis by (simp only: wp_bind simp_thms if_False)
  next
    case False
    with keep show ?thesis by (simp add: save_effect_temporary)
  qed
qed

lemma wp_SaveRead:
  "wp (SaveRead ops path) (\<lambda>x v'. view v' = view v \<and> (fst x = LM_PREFERENCES_OK \<longrightarrow>
     fst (snd x) = old_text (view v) path \<and> (snd (snd x) \<longleftrightarrow> view v path \<noteq> None))) v" (is "wp _ ?Q v")
proof -
  have backup: "wp (Read ops (backup_path path)) (\<lambda>y. ?Q (if fst y = LM_PREFERENCES_NO_FILE then LM_PREFERENCES_OK else fst y, snd y, False)) s"
    if "view s = view v" "view v path = None" for s
    by (rule wp_mono [OF wp_Read]) (use that in \<open>auto simp: old_text_def save_source_def chars_def\<close>)
  have "wp (Read ops path) (\<lambda>x s.
     (fst x = LM_PREFERENCES_NO_FILE \<longrightarrow> wp (Read ops (backup_path path))
        (\<lambda>y. ?Q (if fst y = LM_PREFERENCES_NO_FILE then LM_PREFERENCES_OK else fst y, snd y, False)) s) \<and>
     (fst x \<noteq> LM_PREFERENCES_NO_FILE \<longrightarrow> ?Q (fst x, snd x, fst x = LM_PREFERENCES_OK) s)) v"
  proof (rule wp_mono [OF wp_Read], intro conjI)
    fix x s
    assume x: "view s = view v \<and> (fst x = LM_PREFERENCES_OK \<longrightarrow> (\<exists>b. view v path = Some b \<and> snd x = chars (take INI_LIMIT b))) \<and>
      (fst x = LM_PREFERENCES_NO_FILE \<longrightarrow> view v path = None \<and> snd x = []) \<and>
      (\<forall>b. view v path = Some b \<longrightarrow> length b \<le> INI_LIMIT \<longrightarrow> fst x = LM_PREFERENCES_OK \<or> fst x = LM_PREFERENCES_IO_ERROR)"
    then show "fst x = LM_PREFERENCES_NO_FILE \<longrightarrow> wp (Read ops (backup_path path))
        (\<lambda>y. ?Q (if fst y = LM_PREFERENCES_NO_FILE then LM_PREFERENCES_OK else fst y, snd y, False)) s"
      using backup [of s] by blast
    show "fst x \<noteq> LM_PREFERENCES_NO_FILE \<longrightarrow> ?Q (fst x, snd x, fst x = LM_PREFERENCES_OK) s"
      using x by (auto simp: old_text_def save_source_def)
  qed
  then show ?thesis
    unfolding SaveRead_def wp_bind by (rule wp_mono) (auto simp: split_beta split: if_splits elim!: wp_mono)
qed

lemma wp_Save: "wp (Save ops path heap request) (\<lambda>status v'. save_effect path request (view v) status (view v')) v"
proof (cases "length path > 112 \<or> \<not> heap")
  case True
  then show ?thesis by (auto simp: Save_def save_effect_idle)
next
  case False
  have "wp (SaveRead ops path) (\<lambda>x. wp (if fst x \<noteq> LM_PREFERENCES_OK then ret (fst x)
      else SaveFile ops path request (fst (snd x)) (snd (snd x))) (\<lambda>status v'. save_effect path request (view v) status (view v'))) v"
  proof (rule wp_mono [OF wp_SaveRead])
    fix x s
    assume x: "view s = view v \<and> (fst x = LM_PREFERENCES_OK \<longrightarrow>
     fst (snd x) = old_text (view v) path \<and> (snd (snd x) \<longleftrightarrow> view v path \<noteq> None))"
    then show "wp (if fst x \<noteq> LM_PREFERENCES_OK then ret (fst x)
      else SaveFile ops path request (fst (snd x)) (snd (snd x))) (\<lambda>status v'. save_effect path request (view v) status (view v')) s"
      using wp_save_tail [of "fst (snd x)" s path "snd (snd x)" request] False by (simp add: save_effect_idle)
  qed
  with False show ?thesis by (simp add: Save_def split_beta)
qed

lemma wp_Service:
  assumes "lp_Enabled s"
  shows "wp (LmPreferencesService ops env) (\<lambda>x s'. \<exists>status.
    save_effect (pe_path env) (lp_Block s) (view (lp_vol s)) status (view (lp_vol s')) \<and>
    (status = LM_PREFERENCES_OK \<longrightarrow> LmPreferencesValid (lp_Block s)) \<and>
    (\<not> LmPreferencesValid (lp_Block s) \<longrightarrow> view (lp_vol s') = view (lp_vol s)) \<and>
    lp_Enabled s' \<and> lp_Acknowledged s' = pb_requestSeq (lp_Block s) \<and>
    lp_Block s' = (lp_Block s)\<lparr>pb_ackSeq := pb_requestSeq (lp_Block s), pb_status := status\<rparr>) s"
proof (cases "LmPreferencesValid (lp_Block s)")
  case True
  then show ?thesis
    using assms by (simp add: LmPreferencesService_def on_disk_def) (rule wp_mono [OF wp_Save], auto)
next
  case False
  then show ?thesis
    using assms by (simp add: LmPreferencesService_def) (intro exI [of _ LM_PREFERENCES_INVALID], simp add: save_effect_idle)
qed

lemma wp_Load:
  assumes "view v (pe_path env) = Some (octets new)" "length new \<le> INI_LIMIT" "Parse new = (LM_PREFERENCES_OK, Some loaded)" "pe_heap env"
  shows "wp (LoadPreferences ops env) (\<lambda>x v'. x = (LM_PREFERENCES_OK, loaded) \<or> x = (LM_PREFERENCES_IO_ERROR, Empty)) v"
proof -
  have "wp (LoadFile ops (pe_path env)) (\<lambda>x v'. x = (LM_PREFERENCES_OK, loaded) \<or> x = (LM_PREFERENCES_IO_ERROR, Empty)) v"
    unfolding LoadFile_def wp_bind
    by (rule wp_mono [OF wp_Read]) (use assms in \<open>auto simp: split_beta\<close>)
  then show ?thesis
    using assms(4) unfolding LoadPreferences_def by (simp add: split_beta) (erule wp_mono, auto)
qed

lemma wp_Init:
  assumes "view (lp_vol s) (pe_path env) = Some (octets new)" "length new \<le> INI_LIMIT" "Parse new = (LM_PREFERENCES_OK, Some loaded)"
    "pe_heap env" "pe_game_id env = 0x474C4D4A" "pe_available env"
  shows "wp (LmPreferencesInit ops env) (\<lambda>x s'. lp_Enabled s' \<and> lp_Acknowledged s' = 0 \<and>
    (lp_Block s' = loaded\<lparr>pb_status := LM_PREFERENCES_OK, pb_ready := 1\<rparr> \<or>
     lp_Block s' = Empty\<lparr>pb_status := LM_PREFERENCES_IO_ERROR, pb_ready := 1\<rparr>)) s"
  unfolding LmPreferencesInit_def
  using assms(5,6) by (simp add: on_disk_def) (rule wp_mono [OF wp_Load [OF assms(1-4)]], auto)

end

section \<open>The properties\<close>

text \<open>C39: Serving a request never loses the settings.  Whatever calls fail on the way, and however many (a volume that
  stops answering for good is a card pulled out or a power cut between two calls): the contents the next save would start
  from, the settings file's or its backup's, are the old ones or the complete new ones; with the status OK the new ones are
  in place, no fourth file is touched, and the request is acknowledged in any case.  The settings that a boot finds are those
  it would have found before or exactly the ones of the request, and with the status OK the latter.  That holds unless the
  old file has a 0 byte, which no boot accepts, or unless a boot took the settings from the backup although the settings
  file is there: such a backup is removed before the new file is in place (\<open>hidden_backup_lost\<close> below).  What a boot
  finds is what \<open>LmPreferencesInit\<close> loads, or it reports an error of the storage and an empty block.\<close>

theorem settings_survive:
  assumes "safe_volume ops view hfile hpos" and "lp_Enabled s"
    and "run_state (LmPreferencesService ops env) s = (u :: unit, s')"
  shows "save_source (view (lp_vol s')) (pe_path env) \<in> {save_source (view (lp_vol s)) (pe_path env),
      Some (octets (saved_text (lp_Block s) (old_text (view (lp_vol s)) (pe_path env))))} \<and>
    (pb_status (lp_Block s') = LM_PREFERENCES_OK \<longrightarrow> view (lp_vol s') (pe_path env) =
      Some (octets (saved_text (lp_Block s) (old_text (view (lp_vol s)) (pe_path env))))) \<and>
    (\<forall>q. q \<notin> {pe_path env, temporary_path (pe_path env), backup_path (pe_path env)} \<longrightarrow> view (lp_vol s') q = view (lp_vol s) q) \<and>
    pb_ackSeq (lp_Block s') = pb_requestSeq (lp_Block s) \<and> \<not> LmPreferencesPending s' \<and>
    (length (pb_values (lp_Block s)) = 48 \<and> CHR 0x00 \<notin> set (old_text (view (lp_vol s)) (pe_path env)) \<and>
       \<not> hidden_backup (view (lp_vol s)) (pe_path env) \<longrightarrow>
     boot_settings (view (lp_vol s')) (pe_path env) \<in>
       {boot_settings (view (lp_vol s)) (pe_path env), (LM_PREFERENCES_OK, settings (lp_Block s))} \<and>
     (pb_status (lp_Block s') = LM_PREFERENCES_OK \<longrightarrow>
       boot_settings (view (lp_vol s')) (pe_path env) = (LM_PREFERENCES_OK, settings (lp_Block s)))) \<and>
    (pe_game_id env = 0x474C4D4A \<and> pe_available env \<and> pe_heap env \<and> view (lp_vol t) = view (lp_vol s') \<and>
       run_state (LmPreferencesInit ops env) t = (w :: unit, t') \<longrightarrow>
     (\<exists>status loaded. (status, loaded) \<in> {boot_settings (view (lp_vol s')) (pe_path env), (LM_PREFERENCES_IO_ERROR, Empty)} \<and>
       lp_Block t' = loaded\<lparr>pb_status := status, pb_ready := 1\<rparr>))"
proof -
  let ?before = "view (lp_vol s)" and ?after = "view (lp_vol s')" and ?path = "pe_path env"
  let ?new = "saved_text (lp_Block s) (old_text ?before ?path)"
  obtain status where effect: "save_effect ?path (lp_Block s) ?before status ?after"
      and valid: "status = LM_PREFERENCES_OK \<longrightarrow> LmPreferencesValid (lp_Block s)" "\<not> LmPreferencesValid (lp_Block s) \<longrightarrow> ?after = ?before"
      and block: "lp_Acknowledged s' = pb_requestSeq (lp_Block s)"
        "lp_Block s' = (lp_Block s)\<lparr>pb_ackSeq := pb_requestSeq (lp_Block s), pb_status := status\<rparr>"
    using wpD [OF safe_volume.wp_Service [OF assms(1,2)] assms(3)] by blast
  have kept: "settings_kept ?path ?before ?after \<or> ?after ?path = Some (octets ?new) \<and> length ?new \<le> INI_LIMIT"
    and ok: "status = LM_PREFERENCES_OK \<Longrightarrow> ?after ?path = Some (octets ?new) \<and> length ?new \<le> INI_LIMIT"
    and frame: "\<forall>q. q \<notin> {?path, temporary_path ?path, backup_path ?path} \<longrightarrow> ?after q = ?before q"
    using effect by (simp_all add: save_effect_def Let_def)
  have source: "save_source ?after ?path \<in> {save_source ?before ?path, Some (octets ?new)}"
    using kept settings_kept_source [of ?path ?before ?after] by (auto simp: save_source_def)
  have booted: "boot_settings ?after ?path = (LM_PREFERENCES_OK, settings (lp_Block s))"
    if "?after ?path = Some (octets ?new)" "length ?new \<le> INI_LIMIT" "LmPreferencesValid (lp_Block s)"
      "length (pb_values (lp_Block s)) = 48" "CHR 0x00 \<notin> set (old_text ?before ?path)"
  proof -
    from saved_text_parsed [OF that(5), of "lp_Block s"] have "Parse ?new = (LM_PREFERENCES_OK, Some (settings (lp_Block s)))"
      using pref_end [OF that(3,4)] by (auto simp: Parse_def)
    with that(1,2) show ?thesis by (rule boot_settings_text)
  qed
  have boot: "boot_settings ?after ?path \<in> {boot_settings ?before ?path, (LM_PREFERENCES_OK, settings (lp_Block s))} \<and>
      (status = LM_PREFERENCES_OK \<longrightarrow> boot_settings ?after ?path = (LM_PREFERENCES_OK, settings (lp_Block s)))"
    if "length (pb_values (lp_Block s)) = 48 \<and> CHR 0x00 \<notin> set (old_text ?before ?path) \<and> \<not> hidden_backup ?before ?path"
  proof (cases "LmPreferencesValid (lp_Block s)")
    case True
    with that kept ok booted boot_settings_kept [of ?path ?before ?after] show ?thesis by auto
  next
    case False
    with valid have "?after = ?before" "status \<noteq> LM_PREFERENCES_OK" by auto
    then show ?thesis by simp
  qed
  have loads: "\<exists>status loaded. (status, loaded) \<in> {boot_settings ?after ?path, (LM_PREFERENCES_IO_ERROR, Empty)} \<and>
      lp_Block t' = loaded\<lparr>pb_status := status, pb_ready := 1\<rparr>"
    if "pe_game_id env = 0x474C4D4A \<and> pe_available env \<and> pe_heap env \<and> view (lp_vol t) = ?after \<and>
       run_state (LmPreferencesInit ops env) t = (w, t')"
    using fat_volume.wp_Init_boot [OF safe_volume.axioms(1) [OF assms(1)], of env t] wpD [of "LmPreferencesInit ops env" _ t w t'] that
    by fastforce
  show ?thesis
    using source ok frame block boot loads by (simp add: LmPreferencesPending_def)
qed

definition pref_demo_env :: pref_env where
  "pref_demo_env = \<lparr>pe_game_id = 0x474C4D4A, pe_path = ''/s.ini'', pe_available = True, pe_heap = True\<rparr>"

definition pref_demo_request :: LmPreferencesBlock where
  "pref_demo_request = Empty\<lparr>pb_requestSeq := 7\<rparr>"

definition pref_demo_preferences :: "map_volume preferences" where
  "pref_demo_preferences = \<lparr>lp_Enabled = True, lp_Acknowledged = 0, lp_Block = pref_demo_request,
     lp_vol = \<lparr>mv_files = (\<lambda>p. if p = ''/s.ini'' then Some [65, 10] else None), mv_objects = (\<lambda>h. None), mv_sizes = (\<lambda>h. 0),
       mv_listing = (\<lambda>p. []), mv_dirs = (\<lambda>h. []), mv_faults = []\<rparr>\<rparr>"

definition pref_demo_saved :: "map_volume preferences" where
  "pref_demo_saved = snd (run_state (LmPreferencesService map_ops pref_demo_env) pref_demo_preferences)"

lemma pref_demo_valid: "LmPreferencesValid pref_demo_request"
  by (simp add: LmPreferencesValid_def pref_demo_request_def Empty_def Let_def upt_conv_Cons Has_iff)

lemma length_hex8: "length (hex8 w) = 8"
proof -
  have "length (digits_rev upper_digits 16 n) \<le> k" if "n < 16 ^ k" for n k
    using that
  proof (induction k arbitrary: n)
    case (Suc k)
    then have "n div 16 < 16 ^ k" by (simp add: less_mult_imp_div_less mult.commute)
    with Suc.IH show ?case by (cases "n = 0") (auto simp: hex_step)
  qed simp
  then have "length (digits_rev upper_digits 16 (unat w)) \<le> 8" using unat_u32_less [of w] by simp
  then show ?thesis by (simp add: hex8_def Let_def)
qed

lemma no_pref_values: "EmitValues ops pref_demo_request is used = ret (True, used)"
  by (induction "is") (simp_all add: pref_demo_request_def Empty_def Let_def Has_iff)

lemma pref_demo_lines: "length version_line = 13" "length (checksum_line pref_demo_request) = 23" "Header ''A'' = None"
  "chars [65, 10] = [CHR ''A'', newline]" "length (temporary_path ''/s.ini'') = 13" "length (backup_path ''/s.ini'') = 13"
  by (simp_all add: version_line_text checksum_line_text length_hex8 temporary_path_def backup_path_def sprintf_def) code_simp+

lemma pref_demo_paths: "temporary_path ''/s.ini'' = ''/s.ini.lm.tmp''" "backup_path ''/s.ini'' = ''/s.ini.lm.bak''"
  by (simp_all add: temporary_path_def backup_path_def sprintf_def)

lemma pref_demo_start:
  "lp_Enabled pref_demo_preferences" "lp_Block pref_demo_preferences = pref_demo_request" "pe_path pref_demo_env = ''/s.ini''"
  "save_source (mv_files (lp_vol pref_demo_preferences)) ''/s.ini'' = Some [65, 10]"
  "old_text (mv_files (lp_vol pref_demo_preferences)) ''/s.ini'' = [CHR ''A'', newline]"
  by (simp_all add: pref_demo_preferences_def pref_demo_env_def save_source_def old_text_def pref_demo_lines)

lemma pref_demo_run: "run_state (LmPreferencesService map_ops pref_demo_env) pref_demo_preferences = ((), pref_demo_saved)"
  by (simp add: pref_demo_saved_def prod_eq_iff)

text \<open>Running a program on a concrete state: step by step, leaving the continuations alone.\<close>

lemma wp_weak_cong: "c = d \<Longrightarrow> s = t \<Longrightarrow> wp c Q s = wp d Q t"
  by simp

lemma bind_weak_cong: "c = d \<Longrightarrow> State_Monad.bind c f = State_Monad.bind d f"
  by simp

lemmas pref_demo_program = LmPreferencesService_def pref_demo_preferences_def on_disk_def Save_def pref_demo_env_def SaveRead_def Read_def
  SaveFile_def SaveText_def SaveLines.simps SaveLine_def line_ours_def Emit_def EmitPreferences_def no_pref_values SaveReplace_def Rename_def
  map_ops_def mv_op_defs

lemma pref_demo_ok: "pb_status (lp_Block pref_demo_saved) = LM_PREFERENCES_OK"
proof -
  have "wp (LmPreferencesService map_ops pref_demo_env) (\<lambda>x s'. pb_status (lp_Block s') = LM_PREFERENCES_OK) pref_demo_preferences"
    using pref_demo_valid
    by (simp add: pref_demo_program wp_mv_call Let_def split_beta pref_demo_lines cong: wp_weak_cong bind_weak_cong)
  then show ?thesis by (simp add: wp_state pref_demo_saved_def)
qed

lemma settings_survive_witness:
  "save_source (mv_files (lp_vol pref_demo_saved)) ''/s.ini'' \<in> {Some [65, 10], Some (octets (saved_text pref_demo_request [CHR ''A'', newline]))} \<and>
   boot_settings (mv_files (lp_vol pref_demo_saved)) ''/s.ini'' = (LM_PREFERENCES_OK, settings pref_demo_request)"
proof -
  have "length (pb_values (lp_Block pref_demo_preferences)) = 48" by (simp add: pref_demo_start(2) pref_demo_request_def Empty_def Let_def)
  moreover have "\<not> hidden_backup (mv_files (lp_vol pref_demo_preferences)) (pe_path pref_demo_env)"
    by (simp add: hidden_backup_def pref_demo_preferences_def pref_demo_env_def pref_demo_paths boot_file_absent)
  moreover have "CHR 0x00 \<notin> set (old_text (mv_files (lp_vol pref_demo_preferences)) (pe_path pref_demo_env))"
    by (simp add: pref_demo_start)
  ultimately show ?thesis
    using settings_survive [OF map_safe.safe_volume_axioms pref_demo_start(1) pref_demo_run] pref_demo_ok
    unfolding pref_demo_start by blast
qed

text \<open>C40: What the game saves is what it gets back: when a request was served with the status OK and the settings file
  held no 0 byte, the next boot loads exactly the values and presence bits of the request, or reports an error of the
  storage and an empty block; it never finds the section missing or damaged.\<close>

theorem saved_preferences_load:
  assumes "safe_volume ops view hfile hpos" and "lp_Enabled s" and "length (pb_values (lp_Block s)) = 48"
    and "CHR 0x00 \<notin> set (old_text (view (lp_vol s)) (pe_path env))"
    and "run_state (LmPreferencesService ops env) s = (u :: unit, s')" and "pb_status (lp_Block s') = LM_PREFERENCES_OK"
    and "view (lp_vol t) = view (lp_vol s')" and "pe_game_id env = 0x474C4D4A" and "pe_available env" and "pe_heap env"
    and "run_state (LmPreferencesInit ops env) t = (w :: unit, t')"
  shows "lp_Enabled t' \<and> (lp_Block t' = settings (lp_Block s)\<lparr>pb_ready := 1\<rparr> \<or>
    lp_Block t' = Empty\<lparr>pb_status := LM_PREFERENCES_IO_ERROR, pb_ready := 1\<rparr>)"
proof -
  let ?new = "saved_text (lp_Block s) (old_text (view (lp_vol s)) (pe_path env))"
  from wpD [OF safe_volume.wp_Service [OF assms(1,2)] assms(5)] assms(6)
  have valid: "LmPreferencesValid (lp_Block s)" and stored: "view (lp_vol s') (pe_path env) = Some (octets ?new)" "length ?new \<le> INI_LIMIT"
    by (auto simp: save_effect_def Let_def)
  from saved_text_parsed [OF assms(4), of "lp_Block s"] have "Parse ?new = (LM_PREFERENCES_OK, Some (settings (lp_Block s)))"
    using pref_end [OF valid assms(3)] by (auto simp: Parse_def)
  from wpD [OF safe_volume.wp_Init [OF assms(1) _ stored(2) this assms(10,8,9)] assms(11)] stored(1) assms(7)
  show ?thesis by (auto simp: settings_def Empty_def Let_def)
qed

lemma saved_preferences_load_witness:
  "lp_Block (snd (run_state (LmPreferencesInit map_ops pref_demo_env) pref_demo_saved)) \<in>
     {settings pref_demo_request\<lparr>pb_ready := 1\<rparr>, Empty\<lparr>pb_status := LM_PREFERENCES_IO_ERROR, pb_ready := 1\<rparr>}"
proof -
  let ?run = "run_state (LmPreferencesInit map_ops pref_demo_env) pref_demo_saved"
  have "length (pb_values (lp_Block pref_demo_preferences)) = 48" by (simp add: pref_demo_start(2) pref_demo_request_def Empty_def Let_def)
  moreover have "CHR 0x00 \<notin> set (old_text (mv_files (lp_vol pref_demo_preferences)) (pe_path pref_demo_env))"
    by (simp add: pref_demo_start)
  moreover have "pe_game_id pref_demo_env = 0x474C4D4A" "pe_available pref_demo_env" "pe_heap pref_demo_env" by (simp_all add: pref_demo_env_def)
  moreover have "?run = ((), snd ?run)" by (simp add: prod_eq_iff)
  ultimately have "lp_Block (snd ?run) = settings (lp_Block pref_demo_preferences)\<lparr>pb_ready := 1\<rparr> \<or>
      lp_Block (snd ?run) = Empty\<lparr>pb_status := LM_PREFERENCES_IO_ERROR, pb_ready := 1\<rparr>"
    using saved_preferences_load [OF map_safe.safe_volume_axioms pref_demo_start(1) _ _ pref_demo_run pref_demo_ok refl] by blast
  then show ?thesis unfolding pref_demo_start by blast
qed

section \<open>A backup that is lost\<close>

text \<open>
  The settings file holds no section of ours, so that a boot takes the settings from the backup.  A save that fails in its
  first rename has removed this backup already: the next boot finds no settings.
\<close>

definition pref_own_file :: bytes where
  "pref_own_file = octets (saved_text pref_demo_request [])"

definition pref_hidden :: "map_volume preferences" where
  "pref_hidden = \<lparr>lp_Enabled = True, lp_Acknowledged = 0, lp_Block = pref_demo_request,
     lp_vol = \<lparr>mv_files = (\<lambda>p. if p = ''/s.ini'' then Some [65, 10] else if p = ''/s.ini.lm.bak''
         then Some pref_own_file else None), mv_objects = (\<lambda>h. None), mv_sizes = (\<lambda>h. 0),
       mv_listing = (\<lambda>p. []), mv_dirs = (\<lambda>h. []),
       mv_faults = [False, False, False, False, False, False, False, False, False, False, False, True]\<rparr>\<rparr>"

lemma pref_plain_file: "fst (boot_file (Some [65, 10])) = LM_PREFERENCES_NO_FILE"
proof -
  have "parse_loop [CHR ''A'', newline] parse_start = Some parse_start"
    by (subst parse_loop.simps) (simp add: parse_line_def pref_demo_lines parse_start_def)
  then have "fst (Parse [CHR ''A'', newline]) = LM_PREFERENCES_NO_FILE"
    by (simp add: Parse_def parse_end_def parse_start_def)
  then show ?thesis by (simp add: boot_file_def read_outcome_def pref_demo_lines)
qed

lemma pref_own_text: "boot_file (Some pref_own_file) = (LM_PREFERENCES_OK, settings pref_demo_request)"
  unfolding pref_own_file_def
proof (rule boot_file_text)
  have "filter (present pref_demo_request) [0..<48] = []"
    by (simp add: present_def pref_demo_request_def Empty_def Let_def Has_iff filter_empty_conv)
  then show "length (saved_text pref_demo_request []) \<le> INI_LIMIT"
    by (simp add: saved_text_def save_from.simps pref_text_def pref_demo_lines)
  show "Parse (saved_text pref_demo_request []) = (LM_PREFERENCES_OK, Some (settings pref_demo_request))"
    using saved_text_parsed [of "[]" pref_demo_request] pref_end [OF pref_demo_valid]
    by (auto simp: Parse_def pref_demo_request_def Empty_def Let_def)
qed

lemma wp_mv_call_scheduled:
  "mv_faults v = False # fs \<Longrightarrow> wp (mv_call bad good) Q v = (case good (v\<lparr>mv_faults := fs\<rparr>) of (x, w) \<Rightarrow> Q x w)"
  "mv_faults v = True # fs \<Longrightarrow> wp (mv_call bad good) Q v = (case bad (v\<lparr>mv_faults := fs\<rparr>) of (x, w) \<Rightarrow> Q x w)"
  by (simp_all add: wp_def mv_call_def)

lemma pref_hidden_files:
  "mv_files (lp_vol (snd (run_state (LmPreferencesService map_ops pref_demo_env) pref_hidden))) ''/s.ini'' = Some [65, 10] \<and>
   mv_files (lp_vol (snd (run_state (LmPreferencesService map_ops pref_demo_env) pref_hidden))) ''/s.ini.lm.bak'' = None"
proof -
  have "wp (LmPreferencesService map_ops pref_demo_env) (\<lambda>x s'. mv_files (lp_vol s') ''/s.ini'' = Some [65, 10] \<and>
      mv_files (lp_vol s') ''/s.ini.lm.bak'' = None) pref_hidden"
    using pref_demo_valid
    by (simp add: pref_demo_program pref_hidden_def wp_mv_call wp_mv_call_scheduled Let_def split_beta pref_demo_lines pref_demo_paths cong: wp_weak_cong bind_weak_cong)
  then show ?thesis by (simp add: wp_state)
qed

lemma hidden_backup_lost:
  "boot_settings (mv_files (lp_vol pref_hidden)) ''/s.ini'' = (LM_PREFERENCES_OK, settings pref_demo_request) \<and>
   boot_settings (mv_files (lp_vol (snd (run_state (LmPreferencesService map_ops pref_demo_env) pref_hidden)))) ''/s.ini'' =
     (LM_PREFERENCES_NO_FILE, Empty)"
  using pref_hidden_files by (simp add: boot_settings_def pref_demo_paths pref_plain_file pref_own_text boot_file_absent)
    (simp add: pref_hidden_def pref_plain_file pref_own_text pref_demo_paths)

end
