(* ===== verification/AudioIdle.thy ===== *)
theory AudioIdle
  imports Reader
begin

text \<open>
  \<open>include/susamune/lm_audio_idle.h\<close>: the check, after the game's audio was drained, that no sound is playing any more:
  the heap of the audio system, its tables of sound effect, sequence and stream owners, and the one sequence that is kept.
\<close>

section \<open>The code\<close>

definition LmAudioIdleRange :: "u32 \<Rightarrow> u32 \<Rightarrow> u32 \<Rightarrow> u32 \<Rightarrow> bool" where
  "LmAudioIdleRange address sz start stop \<longleftrightarrow>
     address AND 3 = 0 \<and> address \<ge> start \<and> address < stop \<and> sz \<noteq> 0 \<and> sz \<le> stop - address"

definition LmAudioIdleWord :: "memory \<Rightarrow> u32 \<Rightarrow> u32 chk" where
  "LmAudioIdleWord m address =
     rd_note address 0 (rd_check (LmAudioIdleRange address 4 0x80000000 0x81800000) (rd_word m address))"

definition LmAudioIdleExpected :: "memory \<Rightarrow> u32 \<Rightarrow> u32 \<Rightarrow> unit chk" where
  "LmAudioIdleExpected m address expected =
     rd_bind (LmAudioIdleWord m address) (\<lambda>w. rd_check (w = expected) (rd_return ()))"

text \<open>The fields \<open>start\<close> and \<open>end\<close> of the reader are arguments.\<close>

definition LmAudioIdlePointer :: "memory \<Rightarrow> u32 \<Rightarrow> u32 \<Rightarrow> u32 \<Rightarrow> u32 \<Rightarrow> u32 chk" where
  "LmAudioIdlePointer m start stop address sz =
     rd_bind (LmAudioIdleWord m address) (\<lambda>w. rd_check (LmAudioIdleRange w sz start stop) (rd_return w))"

fun audio_expect_all :: "memory \<Rightarrow> (u32 \<times> u32) list \<Rightarrow> unit chk" where
  "audio_expect_all m [] = rd_return ()"
| "audio_expect_all m ((address, expected) # xs) =
     rd_bind (LmAudioIdleExpected m address expected) (\<lambda>_. audio_expect_all m xs)"

text \<open>The words the three loops expect, with \<open>bootstrap\<close> the owner of the kept sequence.\<close>

definition audio_owner_words :: "u32 \<Rightarrow> u32 \<Rightarrow> u32 \<Rightarrow> u32 \<Rightarrow> u32 \<Rightarrow> u32 \<Rightarrow> u32 \<Rightarrow> u32 \<Rightarrow> (u32 \<times> u32) list" where
  "audio_owner_words se seCount sq seqCount stream streamCount index bootstrap =
     map (\<lambda>i. (se + word_of_nat i * 0xC + 4, 0)) [0..<unat seCount] @
     map (\<lambda>i. (sq + word_of_nat i * 0x4C + 0x44, if word_of_nat i = index then bootstrap else 0)) [0..<unat seqCount] @
     map (\<lambda>i. (stream + word_of_nat i * 0x14 + 0x10, 0)) [0..<unat streamCount]"

definition audio_count :: "memory \<Rightarrow> u32 \<Rightarrow> u32 chk" where
  "audio_count m address = rd_bind (LmAudioIdleWord m address) (\<lambda>w. rd_check (w \<noteq> 0 \<and> w \<le> 16) (rd_return w))"

definition LmAudioIdleCheck :: "memory \<Rightarrow> unit chk" where
  "LmAudioIdleCheck m =
     (let basic = 0x803E3CF8 in
      rd_bind (LmAudioIdlePointer m 0x80000000 0x81800000 0x804A0B94 0x88) (\<lambda>heap.
      rd_bind (LmAudioIdleExpected m heap 0x8038886C) (\<lambda>_.
      rd_bind (LmAudioIdleWord m (heap + 0x30)) (\<lambda>start.
      rd_bind (LmAudioIdleWord m (heap + 0x34)) (\<lambda>stop.
      rd_check (\<not> (stop > 0x81800000 \<or> stop AND 3 \<noteq> 0 \<or> \<not> LmAudioIdleRange start 4 (heap + 0x88) stop)) (
      rd_bind (audio_expect_all m [(0x804A03A8, basic), (0x804A1DD0, basic), (basic + 8, 0x80383FB0)]) (\<lambda>_.
      rd_bind (LmAudioIdlePointer m start stop basic 0x224) (\<lambda>data.
      rd_bind (LmAudioIdlePointer m start stop (basic + 0x64) 0x34) (\<lambda>bootstrap.
      rd_bind (audio_expect_all m [(bootstrap + 8, 0x80000800), (bootstrap + 0x30, basic + 0x64)]) (\<lambda>_.
      rd_bind (LmAudioIdleWord m bootstrap) (\<lambda>w.
      let index = drop_bit 24 w in
      rd_bind (audio_count m 0x804A042C) (\<lambda>seCount.
      rd_bind (audio_count m 0x804A0444) (\<lambda>seqCount.
      rd_check (\<not> index \<ge> seqCount) (
      rd_bind (audio_count m 0x804A045C) (\<lambda>streamCount.
      rd_bind (LmAudioIdlePointer m start stop (data + 0x1E8) (seCount * 0xC)) (\<lambda>se.
      rd_bind (LmAudioIdlePointer m start stop (data + 0x180) (seqCount * 0x4C)) (\<lambda>sq.
      rd_bind (LmAudioIdlePointer m start stop (data + 0x184) (streamCount * 0x14)) (\<lambda>stream.
      rd_bind (audio_expect_all m (audio_owner_words se seCount sq seqCount stream streamCount index bootstrap)) (\<lambda>_.
      audio_expect_all m [(data + 0x214, bootstrap), (bootstrap + 0x28, 0), (bootstrap + 0x2C, 0), (data + 0x220, 0)]
      )))))))))))))))))))"

definition LmAudioIdleValidate :: "memory option \<Rightarrow> bool \<times> u32 \<times> u32" where
  "LmAudioIdleValidate readWord = (case readWord of
     None \<Rightarrow> (False, 0, 0)
   | Some m \<Rightarrow> rd_report (LmAudioIdleCheck m rd_start))"

section \<open>What is accepted\<close>

lemma audio_word_success [rd_success]:
  "fst (LmAudioIdleWord m a r) = Some v \<longleftrightarrow> LmAudioIdleRange a 4 0x80000000 0x81800000 \<and> m a = (True, v)"
  by (simp add: LmAudioIdleWord_def rd_success)

lemma audio_expected_success [rd_success]:
  "fst (LmAudioIdleExpected m a v r) = Some u \<longleftrightarrow> LmAudioIdleRange a 4 0x80000000 0x81800000 \<and> m a = (True, v)"
  by (auto simp: LmAudioIdleExpected_def rd_success)

lemma audio_expect_all_success [rd_success]:
  "fst (audio_expect_all m xs r) = Some u \<longleftrightarrow>
    (\<forall>(a, v) \<in> set xs. LmAudioIdleRange a 4 0x80000000 0x81800000 \<and> m a = (True, v))"
  by (induction m xs arbitrary: r rule: audio_expect_all.induct) (simp_all add: rd_success)

lemma audio_pointer_success [rd_success]:
  "fst (LmAudioIdlePointer m start stop a sz r) = Some v \<longleftrightarrow>
    LmAudioIdleRange a 4 0x80000000 0x81800000 \<and> m a = (True, v) \<and> LmAudioIdleRange v sz start stop"
  by (auto simp: LmAudioIdlePointer_def rd_success)

lemma audio_count_success [rd_success]:
  "fst (audio_count m a r) = Some v \<longleftrightarrow> LmAudioIdleRange a 4 0x80000000 0x81800000 \<and> m a = (True, v) \<and> v \<noteq> 0 \<and> v \<le> 16"
  by (auto simp: audio_count_def rd_success)

text \<open>When the check passes, every sound effect and stream has no owner, and exactly the kept sequence has one.\<close>

lemma audio_idle_owners:
  assumes "fst (LmAudioIdleValidate (Some m))"
  obtains se sq stream index bootstrap and seCount seqCount streamCount :: u32 where
    "1 \<le> unat seCount" "unat seCount \<le> 16" "unat seqCount \<le> 16" "1 \<le> unat streamCount" "unat streamCount \<le> 16" "index < seqCount"
    "\<And>i. i < unat seCount \<Longrightarrow> m (se + word_of_nat i * 0xC + 4) = (True, 0)"
    "\<And>i. i < unat seqCount \<Longrightarrow> m (sq + word_of_nat i * 0x4C + 0x44) = (True, if word_of_nat i = index then bootstrap else 0)"
    "\<And>i. i < unat streamCount \<Longrightarrow> m (stream + word_of_nat i * 0x14 + 0x10) = (True, 0)"
    "m (0x803E3CF8 + 0x64) = (True, bootstrap)" "m (bootstrap + 0x28) = (True, 0)" "m (bootstrap + 0x2C) = (True, 0)"
proof -
  from assms obtain u where "fst (LmAudioIdleCheck m rd_start) = Some u"
    by (auto simp: LmAudioIdleValidate_def rd_report_True)
  then obtain start stop data w bootstrap seCount seqCount streamCount se sq stream where
    owners: "\<forall>(a, v) \<in> set (audio_owner_words se seCount sq seqCount stream streamCount (drop_bit 24 w) bootstrap).
      LmAudioIdleRange a 4 0x80000000 0x81800000 \<and> m a = (True, v)"
    and count: "seCount \<noteq> 0" "seCount \<le> 16" "seqCount \<le> 16" "streamCount \<noteq> 0" "streamCount \<le> 16" "\<not> drop_bit 24 w \<ge> seqCount"
    and boot: "m (0x803E3CF8 + 0x64) = (True, bootstrap)"
    and tail: "\<forall>(a, v) \<in> set [(data + 0x214, bootstrap), (bootstrap + 0x28, 0), (bootstrap + 0x2C, 0), (data + 0x220, 0)].
      LmAudioIdleRange a 4 0x80000000 0x81800000 \<and> m a = (True, v)"
    unfolding LmAudioIdleCheck_def Let_def rd_success by (elim exE conjE) (rule that; assumption)
  show ?thesis
  proof (rule that [of seCount seqCount streamCount "drop_bit 24 w" se sq bootstrap stream])
    show "1 \<le> unat seCount" "1 \<le> unat streamCount" using count by (simp_all add: Suc_le_eq unat_gt_0)
    show "unat seCount \<le> 16" "unat seqCount \<le> 16" "unat streamCount \<le> 16"
      using count by (simp_all add: word_le_nat_alt)
    show "drop_bit 24 w < seqCount" using count(6) by simp
    let ?words = "audio_owner_words se seCount sq seqCount stream streamCount (drop_bit 24 w) bootstrap"
    have word: "m a = (True, v)" if "(a, v) \<in> set ?words" for a v using that owners by blast
    show "m (se + word_of_nat i * 0xC + 4) = (True, 0)" if "i < unat seCount" for i
      by (rule word, unfold audio_owner_words_def set_append set_map, rule UnI1, rule image_eqI [of _ _ i]) (use that in simp_all)
    show "m (sq + word_of_nat i * 0x4C + 0x44) = (True, if word_of_nat i = drop_bit 24 w then bootstrap else 0)"
      if "i < unat seqCount" for i
      by (rule word, unfold audio_owner_words_def set_append set_map, rule UnI2, rule UnI1, rule image_eqI [of _ _ i]) (use that in simp_all)
    show "m (stream + word_of_nat i * 0x14 + 0x10) = (True, 0)" if "i < unat streamCount" for i
      by (rule word, unfold audio_owner_words_def set_append set_map, rule UnI2, rule UnI2, rule image_eqI [of _ _ i]) (use that in simp_all)
  qed (use boot tail in auto)
qed

end
