(* ===== verification/Rumble.thy ===== *)
theory Rumble
  imports Prelude
begin

text \<open>
  \<open>include/susamune/lm_rumble.h\<close>: what is done to the rumble state after a loaded game state.  The function reads
  first and acts afterwards, so the model is a function from the memory it reads to the calls it makes, in order.
\<close>

section \<open>The code\<close>

abbreviation LM_RUMBLE_MANAGER_GLOBAL :: u32 where "LM_RUMBLE_MANAGER_GLOBAL \<equiv> 0x804A1758"
abbreviation LM_RUMBLE_PAD_GLOBAL :: u32 where "LM_RUMBLE_PAD_GLOBAL \<equiv> 0x804A0BF8"
abbreviation LM_RUMBLE_STATUS_GLOBAL :: u32 where "LM_RUMBLE_STATUS_GLOBAL \<equiv> 0x804A2064"
abbreviation LM_RUMBLE_PAD_VTABLE :: u32 where "LM_RUMBLE_PAD_VTABLE \<equiv> 0x8038925C"

datatype rumble_call = RumbleReset u32 u32 | RumbleWrite u32 u32 | RumbleMotor u32 u32

definition LmRumbleInside :: "u32 \<Rightarrow> u32 \<Rightarrow> u32 \<Rightarrow> u32 \<Rightarrow> bool" where
  "LmRumbleInside address bytes start stop \<longleftrightarrow>
     address AND 3 = 0 \<and> start \<ge> 0x80000000 \<and> stop \<le> 0x81800000 \<and> start < stop \<and> address \<ge> start \<and>
     address < stop \<and> bytes \<le> stop - address"

definition LmRumbleAllocation :: "(u32 \<Rightarrow> u32) \<Rightarrow> u32 \<Rightarrow> u32 \<Rightarrow> u32 \<Rightarrow> u32 \<Rightarrow> bool" where
  "LmRumbleAllocation read address bytes start stop =
     (if \<not> LmRumbleInside address bytes start stop \<or> address - start < 16 \<or> drop_bit 16 (read (address - 16)) \<noteq> 0x484D
      then False
      else let sz = read (address - 12) in sz AND 3 = 0 \<and> sz \<ge> bytes \<and> sz \<le> stop - address)"

definition rumble_apart :: "u32 \<Rightarrow> u32 \<Rightarrow> u32 \<Rightarrow> u32 \<Rightarrow> bool" where
  "rumble_apart a sizeA b sizeB \<longleftrightarrow> \<not> (a < b + sizeB \<and> b < a + sizeA)"

text \<open>The loop over the controllers: \<open>cs\<close> are those already checked.\<close>

fun rumble_controllers :: "(u32 \<Rightarrow> u32) \<Rightarrow> u32 \<Rightarrow> u32 \<Rightarrow> u32 \<Rightarrow> u32 \<Rightarrow> nat list \<Rightarrow> u32 list \<Rightarrow> u32 list option" where
  "rumble_controllers read pad manager gameStart gameEnd [] cs = Some cs"
| "rumble_controllers read pad manager gameStart gameEnd (i # is) cs =
     (let expectedPad = (if i = 0 then pad else 0); c = read (manager + 4 + word_of_nat i * 4) in
      if \<not> LmRumbleAllocation read c 0xD8 gameStart gameEnd \<or> read c \<noteq> expectedPad \<or> \<not> rumble_apart c 0xD8 manager 0x44
      then None
      else if list_all (\<lambda>d. rumble_apart c 0xD8 d 0xD8) cs
        then rumble_controllers read pad manager gameStart gameEnd is (cs @ [c]) else None)"

definition LmRumbleAfterLoad :: "(u32 \<Rightarrow> u32) \<Rightarrow> u32 \<Rightarrow> u32 \<Rightarrow> u32 \<Rightarrow> u32 \<Rightarrow> u32 \<Rightarrow> rumble_call list" where
  "LmRumbleAfterLoad read gameStart gameEnd systemHeap systemStart systemEnd =
     (let pad = read LM_RUMBLE_PAD_GLOBAL;
          manager = read LM_RUMBLE_MANAGER_GLOBAL;
          validPad = (LmRumbleAllocation read pad 0x98 systemStart systemEnd \<and>
            read pad = LM_RUMBLE_PAD_VTABLE \<and> read (pad + 4) = systemHeap);
          validControllers = (validPad \<and> LmRumbleAllocation read manager 0x44 gameStart gameEnd);
          port = drop_bit 16 (read (pad + 0x74));
          validControllers = (validControllers \<and> (port < 4 \<or> port = 0xFFFF));
          validPad = (validPad \<and> (port < 4 \<or> port = 0xFFFF));
          controllers = (if validControllers then rumble_controllers read pad manager gameStart gameEnd [0..<4] [] else None)
      in (case controllers of None \<Rightarrow> [] | Some cs \<Rightarrow> map (\<lambda>i. RumbleReset (cs ! i) (if i = 0 then pad else 0)) [0..<4]) @
         (if validPad then map (\<lambda>i. RumbleWrite (pad + 0x64 + 4 * word_of_nat i) 0) [0..<4] else []) @
         [RumbleWrite LM_RUMBLE_STATUS_GLOBAL 0] @
         map (\<lambda>i. RumbleMotor (word_of_nat i) 2) [0..<4])"

section \<open>What it touches\<close>

text \<open>A block of \<open>bytes\<close> inside the heap.\<close>

definition rumble_block :: "u32 \<Rightarrow> nat \<Rightarrow> u32 \<Rightarrow> u32 \<Rightarrow> bool" where
  "rumble_block a bytes start stop \<longleftrightarrow> unat start + 16 \<le> unat a \<and> unat a + bytes \<le> unat stop \<and> unat stop \<le> 0x81800000"

lemma LmRumbleAllocation_block:
  "LmRumbleAllocation read a bytes start stop \<Longrightarrow> rumble_block a (unat bytes) start stop"
proof -
  assume "LmRumbleAllocation read a bytes start stop"
  then have "start \<le> a" "a < stop" "stop \<le> 0x81800000" "bytes \<le> stop - a" "\<not> a - start < 16"
    by (auto simp: LmRumbleAllocation_def LmRumbleInside_def split: if_splits)
  moreover from this have "unat (stop - a) = unat stop - unat a" "unat (a - start) = unat a - unat start"
    by (simp_all add: unat_minus_le)
  ultimately show ?thesis
    unfolding rumble_block_def by (auto simp: word_le_nat_alt word_less_nat_alt)
qed

lemma rumble_apart_sets:
  assumes "rumble_apart a n b k" "unat a + unat n < 2 ^ 32" "unat b + unat k < 2 ^ 32"
  shows "{unat a ..< unat a + unat n} \<inter> {unat b ..< unat b + unat k} = {}"
  using assms by (auto simp: rumble_apart_def word_less_nat_alt unat_plus_bound)

text \<open>The blocks a list of addresses stands for, of equal length, do not meet.\<close>

definition apart_blocks :: "nat \<Rightarrow> u32 list \<Rightarrow> bool" where
  "apart_blocks n as \<longleftrightarrow> (\<forall>i < length as. \<forall>j < i. {unat (as ! i) ..< unat (as ! i) + n} \<inter> {unat (as ! j) ..< unat (as ! j) + n} = {})"

lemma apart_blocks_snoc:
  "apart_blocks n (as @ [a]) \<longleftrightarrow> apart_blocks n as \<and> (\<forall>b \<in> set as. {unat a ..< unat a + n} \<inter> {unat b ..< unat b + n} = {})"
  by (auto simp: apart_blocks_def nth_append less_Suc_eq all_set_conv_all_nth)

lemma rumble_controllers_ok:
  "rumble_controllers read pad manager gameStart gameEnd is cs = Some ds \<Longrightarrow> apart_blocks 0xD8 cs \<Longrightarrow>
    rumble_block manager 0x44 gameStart gameEnd \<Longrightarrow>
    (\<forall>c \<in> set cs. rumble_block c 0xD8 gameStart gameEnd \<and> {unat c ..< unat c + 0xD8} \<inter> {unat manager ..< unat manager + 0x44} = {}) \<Longrightarrow>
    length ds = length cs + length is \<and> apart_blocks 0xD8 ds \<and>
    (\<forall>c \<in> set ds. rumble_block c 0xD8 gameStart gameEnd \<and> {unat c ..< unat c + 0xD8} \<inter> {unat manager ..< unat manager + 0x44} = {})"
proof (induction "is" arbitrary: cs)
  case (Cons i rest)
  let ?c = "read (manager + 4 + word_of_nat i * 4)"
  have c: "LmRumbleAllocation read ?c 0xD8 gameStart gameEnd" "rumble_apart ?c 0xD8 manager 0x44"
    "list_all (\<lambda>d. rumble_apart ?c 0xD8 d 0xD8) cs"
    and rest: "rumble_controllers read pad manager gameStart gameEnd rest (cs @ [?c]) = Some ds"
    using Cons.prems(1) by (auto simp: Let_def split: if_splits)
  have block: "rumble_block ?c 0xD8 gameStart gameEnd" using LmRumbleAllocation_block [OF c(1)] by simp
  have "{unat ?c ..< unat ?c + 0xD8} \<inter> {unat manager ..< unat manager + 0x44} = {}"
    using rumble_apart_sets [OF c(2)] block Cons.prems(3) by (simp add: rumble_block_def)
  moreover have "{unat ?c ..< unat ?c + 0xD8} \<inter> {unat d ..< unat d + 0xD8} = {}" if "d \<in> set cs" for d
    using rumble_apart_sets [where n = "0xD8" and k = "0xD8", of ?c d] that c(3) block Cons.prems(4) by (auto simp: list_all_iff rumble_block_def)
  ultimately show ?case
    using Cons.IH [OF rest] Cons.prems(2-4) block by (auto simp: apart_blocks_snoc)
qed simp

text \<open>C31: Whatever a loaded state left in the rumble objects, cleaning up after the load ends with all four motors told to
  stop and the status word cleared; every other write clears one of the four wave words inside the pad object, a block of
  the system heap; and the controllers that are reset are four blocks of the game heap, apart from each other and from the
  manager.\<close>

theorem rumble_confined:
  "\<exists>cs waves pad. pad = read LM_RUMBLE_PAD_GLOBAL \<and> LmRumbleAfterLoad read gameStart gameEnd systemHeap systemStart systemEnd =
      map2 RumbleReset cs (take (length cs) [pad, 0, 0, 0]) @ map (\<lambda>a. RumbleWrite a 0) waves @
      [RumbleWrite LM_RUMBLE_STATUS_GLOBAL 0, RumbleMotor 0 2, RumbleMotor 1 2, RumbleMotor 2 2, RumbleMotor 3 2] \<and>
    waves \<in> {[], [pad + 0x64, pad + 0x68, pad + 0x6C, pad + 0x70]} \<and> (waves = [] \<or> rumble_block pad 0x98 systemStart systemEnd) \<and>
    length cs \<in> {0, 4} \<and> apart_blocks 0xD8 cs \<and>
    (cs = [] \<or> waves \<noteq> [] \<and> rumble_block (read LM_RUMBLE_MANAGER_GLOBAL) 0x44 gameStart gameEnd) \<and>
    list_all (\<lambda>c. rumble_block c 0xD8 gameStart gameEnd \<and>
      {unat c ..< unat c + 0xD8} \<inter> {unat (read LM_RUMBLE_MANAGER_GLOBAL) ..< unat (read LM_RUMBLE_MANAGER_GLOBAL) + 0x44} = {}) cs"
proof -
  define pad manager where "pad = read LM_RUMBLE_PAD_GLOBAL" and "manager = read LM_RUMBLE_MANAGER_GLOBAL"
  define port where "port = drop_bit 16 (read (pad + 0x74))"
  define valid where "valid \<longleftrightarrow> (LmRumbleAllocation read pad 0x98 systemStart systemEnd \<and> read pad = LM_RUMBLE_PAD_VTABLE \<and>
    read (pad + 4) = systemHeap) \<and> (port < 4 \<or> port = 0xFFFF)"
  define managed where "managed \<longleftrightarrow> LmRumbleAllocation read manager 0x44 gameStart gameEnd"
  define found where "found = (if valid \<and> managed then rumble_controllers read pad manager gameStart gameEnd [0..<4] [] else None)"
  define cs where "cs = (case found of None \<Rightarrow> [] | Some cs \<Rightarrow> cs)"
  define waves where "waves = (if valid then [pad + 0x64, pad + 0x68, pad + 0x6C, pad + 0x70] else [])"
  let ?resets = "case found of None \<Rightarrow> [] | Some cs \<Rightarrow> map (\<lambda>i. RumbleReset (cs ! i) (if i = 0 then pad else 0)) [0..<4]"
  have turns: "(((LmRumbleAllocation read pad 0x98 systemStart systemEnd \<and> read pad = LM_RUMBLE_PAD_VTABLE \<and> read (pad + 4) = systemHeap) \<and>
      managed) \<and> (port < 4 \<or> port = 0xFFFF)) = (valid \<and> managed)"
    by (auto simp: valid_def)
  have calls: "LmRumbleAfterLoad read gameStart gameEnd systemHeap systemStart systemEnd =
      ?resets @ (if valid then map (\<lambda>i. RumbleWrite (pad + 0x64 + 4 * word_of_nat i) 0) [0..<4] else []) @
      [RumbleWrite LM_RUMBLE_STATUS_GLOBAL 0] @ map (\<lambda>i. RumbleMotor (word_of_nat i) 2) [0..<4]"
    by (simp only: LmRumbleAfterLoad_def Let_def pad_def [symmetric] manager_def [symmetric] port_def [symmetric]
      managed_def [symmetric] turns found_def [symmetric] valid_def [symmetric])
  have block: "rumble_block manager 0x44 gameStart gameEnd" if managed
    using LmRumbleAllocation_block [of read manager "0x44"] that unfolding managed_def by simp
  have some: "length ds = 4 \<and> apart_blocks 0xD8 ds \<and> valid \<and> managed \<and>
      (\<forall>c \<in> set ds. rumble_block c 0xD8 gameStart gameEnd \<and> {unat c ..< unat c + 0xD8} \<inter> {unat manager ..< unat manager + 0x44} = {})"
    if "found = Some ds" for ds
  proof -
    have run: "rumble_controllers read pad manager gameStart gameEnd [0..<4] [] = Some ds" and ok: "valid" "managed"
      using that unfolding found_def by (auto split: if_splits)
    from rumble_controllers_ok [OF run _ block [OF ok(2)]] ok show ?thesis by (simp add: apart_blocks_def)
  qed
  have resets: "?resets = map2 RumbleReset cs (take (length cs) [pad, 0, 0, 0])"
  proof (cases found)
    case (Some ds)
    then obtain a b c d where "ds = [a, b, c, d]" using some [OF Some] by (auto simp: length_Suc_conv numeral_eq_Suc)
    with Some show ?thesis by (simp add: cs_def upt_conv_Cons)
  qed (simp add: cs_def)
  have "LmRumbleAfterLoad read gameStart gameEnd systemHeap systemStart systemEnd =
      map2 RumbleReset cs (take (length cs) [pad, 0, 0, 0]) @ map (\<lambda>a. RumbleWrite a 0) waves @
      [RumbleWrite LM_RUMBLE_STATUS_GLOBAL 0, RumbleMotor 0 2, RumbleMotor 1 2, RumbleMotor 2 2, RumbleMotor 3 2]"
    unfolding calls resets by (simp add: upt_conv_Cons waves_def)
  moreover have "waves = [] \<or> rumble_block pad 0x98 systemStart systemEnd"
    using LmRumbleAllocation_block [of read pad "0x98"] by (auto simp: waves_def valid_def)
  moreover have "length cs \<in> {0, 4} \<and> apart_blocks 0xD8 cs \<and> (cs = [] \<or> waves \<noteq> [] \<and> rumble_block manager 0x44 gameStart gameEnd) \<and>
    (\<forall>c \<in> set cs. rumble_block c 0xD8 gameStart gameEnd \<and> {unat c ..< unat c + 0xD8} \<inter> {unat manager ..< unat manager + 0x44} = {})"
    by (cases found) (use some block in \<open>auto simp: cs_def waves_def apart_blocks_def\<close>)
  moreover have "waves \<in> {[], [pad + 0x64, pad + 0x68, pad + 0x6C, pad + 0x70]}" by (simp add: waves_def)
  ultimately show ?thesis unfolding manager_def pad_def list_all_iff by blast
qed

end
