(* ===== verification/StateChange.thy ===== *)
theory StateChange
  imports Prelude
begin

text \<open>
  Which differences between a saved state and the running game are known and harmless:
  \<open>include/susamune/lm_state_resource.h\<close> (the seven records of loaded rooms), \<open>lm_state_model.h\<close> (the model handle),
  and the staging tail of \<open>lm_state_deflate.h\<close>.  An \<open>unsigned long\<close> has 32 bits; a record is its 64 bytes.
\<close>

section \<open>Room records\<close>

definition LmStateResourceWord :: "bytes \<Rightarrow> nat \<Rightarrow> u32" where
  "LmStateResourceWord record offset = de32 (record ! offset) (record ! (offset + 1)) (record ! (offset + 2)) (record ! (offset + 3))"

text \<open>One turn of the loop over the three arrays.\<close>

definition settled_array :: "u32 \<Rightarrow> u32 \<Rightarrow> bytes \<Rightarrow> nat \<Rightarrow> bool" where
  "settled_array heapStart heapEnd record offset =
     (let pointer = LmStateResourceWord record offset;
          count = ucast (record ! (if offset = 0xC then 0x3C else 0x3D)) :: u32;
          stride = (if offset = 0xC then 0x7C else if offset = 0x10 then 0x24 else 4);
          bytes = (if count \<noteq> 0 then count * stride else 4);
          prefix = (if offset = 0x14 then 0 else 8)
      in if pointer = 0 then \<not> count \<noteq> 0
         else \<not> (pointer AND 3 \<noteq> 0 \<or> bytes > heapEnd - heapStart \<or> pointer < heapStart + prefix \<or> pointer > heapEnd - bytes))"

definition LmStateSettledRoomRecord :: "u32 \<Rightarrow> nat \<Rightarrow> u32 \<Rightarrow> u32 \<Rightarrow> u32 \<Rightarrow> bytes \<Rightarrow> bool" where
  "LmStateSettledRoomRecord room slot backing heapStart heapEnd record \<longleftrightarrow>
     \<not> (room \<ge> 128 \<or> slot \<ge> 7 \<or> record ! 2 \<noteq> 2 \<or>
        LmStateResourceWord record 4 \<noteq> 0x80011B28 \<or>
        LmStateResourceWord record 8 \<noteq> 0 \<or>
        LmStateResourceWord record 0x18 \<noteq> backing \<or>
        LmStateResourceWord record 0x1C \<noteq> word_of_nat slot \<or>
        LmStateResourceWord record 0x20 \<noteq> room \<or>
        heapStart < 0x80000000 \<or> heapEnd > 0x81800000 \<or> heapStart \<ge> heapEnd \<or> heapEnd - heapStart < 4 \<or>
        backing < heapStart \<or> backing \<ge> heapEnd) \<and>
     list_all (settled_array heapStart heapEnd record) [0xC, 0x10, 0x14] \<and>
     list_all (\<lambda>offset. LmStateResourceWord record offset = 0) [0x24, 0x28, 0x2C, 0x30, 0x34, 0x38]"

definition LmStateIdleResourceRecordEquivalent :: "u32 \<Rightarrow> u32 \<Rightarrow> bytes \<Rightarrow> bytes \<Rightarrow> bool" where
  "LmStateIdleResourceRecordEquivalent savedId liveId saved live \<longleftrightarrow>
     \<not> (savedId \<noteq> 0xFFFFFFFF \<or> liveId \<noteq> 0xFFFFFFFF \<or> saved ! 2 \<noteq> 0 \<or> live ! 2 \<noteq> 0) \<and>
     list_all (\<lambda>i. \<not> (saved ! i \<noteq> 0 \<or> live ! i \<noteq> 0)) [8..<0x18] \<and>
     list_all (\<lambda>i. i = 3 \<or> i \<ge> 0x3E \<or> i \<ge> 4 \<and> i < 8 \<or> i \<ge> 0x18 \<and> i < 0x1C \<or> saved ! i = live ! i) [0..<0x40]"

definition record_at :: "bytes \<Rightarrow> nat \<Rightarrow> bytes" where
  "record_at records i = drop (i * 0x40) records"

abbreviation slot_mask :: u32 where "slot_mask \<equiv> push_bit 7 1 - 1"

definition masks_known :: "u32 \<Rightarrow> u32 \<Rightarrow> bool" where
  "masks_known activeMask recordMask \<longleftrightarrow>
     \<not> ((activeMask OR recordMask) AND NOT slot_mask \<noteq> 0 \<or> activeMask AND NOT recordMask \<noteq> 0)"

definition LmStateResourceChangesMatch :: "u32 \<Rightarrow> u32 \<Rightarrow> u32 list \<Rightarrow> u32 list \<Rightarrow> bytes \<Rightarrow> bytes \<Rightarrow> bool" where
  "LmStateResourceChangesMatch activeMask recordMask savedIds liveIds savedRecords liveRecords \<longleftrightarrow>
     masks_known activeMask recordMask \<and>
     list_all (\<lambda>i. \<not> (recordMask AND NOT activeMask AND push_bit i 1 \<noteq> 0 \<and>
         \<not> LmStateIdleResourceRecordEquivalent (savedIds ! i) (liveIds ! i) (record_at savedRecords i) (record_at liveRecords i)))
       [0..<7]"

definition LmStateResourceReloadChangesMatch ::
    "u32 \<Rightarrow> u32 \<Rightarrow> u32 list \<Rightarrow> u32 list \<Rightarrow> bytes \<Rightarrow> bytes \<Rightarrow> u32 \<Rightarrow> u32 \<Rightarrow> u32 \<Rightarrow> u32 \<Rightarrow> u32 \<Rightarrow> bool" where
  "LmStateResourceReloadChangesMatch activeMask recordMask savedIds liveIds savedRecords liveRecords
       savedBulk liveBulk slotSize heapStart heapEnd \<longleftrightarrow>
     masks_known activeMask recordMask \<and>
     \<not> (slotSize \<noteq> 0x70800 \<or> savedBulk < heapStart \<or> liveBulk < heapStart \<or> heapEnd \<le> heapStart \<or>
        heapEnd - heapStart < slotSize * 7 \<or> savedBulk > heapEnd - slotSize * 7 \<or> liveBulk > heapEnd - slotSize * 7) \<and>
     list_all (\<lambda>i. let saved = record_at savedRecords i; live = record_at liveRecords i in
         if recordMask AND NOT activeMask AND push_bit i 1 = 0 then True
         else if LmStateIdleResourceRecordEquivalent (savedIds ! i) (liveIds ! i) saved live then True
         else \<not> (savedIds ! i \<noteq> liveIds ! i \<or>
           \<not> LmStateSettledRoomRecord (savedIds ! i) i (savedBulk + word_of_nat i * slotSize) heapStart heapEnd saved \<or>
           \<not> LmStateSettledRoomRecord (liveIds ! i) i (liveBulk + word_of_nat i * slotSize) heapStart heapEnd live))
       [0..<7]"

section \<open>The model handle\<close>

definition LmStateModelRootInside :: "u32 \<Rightarrow> u32 \<Rightarrow> u32 \<Rightarrow> bool" where
  "LmStateModelRootInside root archive sz \<longleftrightarrow>
     root = 0 \<or> (root AND 3 = 0 \<and> archive \<ge> 0x80000000 \<and> archive < 0x81800000 \<and> sz \<le> 0x81800000 - archive \<and>
       sz \<ge> 4 \<and> root \<ge> archive \<and> root - archive \<le> sz - 4)"

definition LmStateModelEndpointValid :: "u32 \<Rightarrow> u32 \<Rightarrow> u32 \<Rightarrow> u32 \<Rightarrow> u32 \<Rightarrow> u32 \<Rightarrow> u32 \<Rightarrow> bool" where
  "LmStateModelEndpointValid st handle registryHandle root registryRoot archive sz =
     (if st = 0 then handle = 0 \<and> registryHandle = 0 \<and> root = 0 \<and> registryRoot = 0
      else st = 3 \<and> handle \<noteq> 0 \<and> handle = registryHandle \<and>
        LmStateModelRootInside root archive sz \<and> LmStateModelRootInside registryRoot archive sz)"

definition LmStateModelChangesKnown :: "u32 list \<Rightarrow> u32 list \<Rightarrow> u32 list \<Rightarrow> u32 list \<Rightarrow> bool" where
  "LmStateModelChangesKnown saved live savedRegistry liveRegistry \<longleftrightarrow>
     list_all (\<lambda>i. i \<in> set [1, 2, 3, 5, 11, 12] \<or> saved ! i = live ! i) [0..<13] \<and>
     list_all (\<lambda>i. i \<in> set [1, 3] \<or> savedRegistry ! i = liveRegistry ! i) [0..<16]"

section \<open>The staging tail\<close>

definition LmStateStagingTail :: "u32 \<Rightarrow> u32 \<Rightarrow> u32 \<Rightarrow> u32 \<Rightarrow> u32" where
  "LmStateStagingTail oldRaw targetRaw trailer payloadLimit =
     (let raw = (if oldRaw > targetRaw then oldRaw else targetRaw) in
      if trailer > payloadLimit \<or> raw > payloadLimit - trailer then 0xFFFFFFFF
      else let stop = raw + trailer in
        if stop > 0xFFFFFFFF - 31 then 0xFFFFFFFF
        else let stop = (stop + 31) AND NOT 31 in if stop \<le> payloadLimit then stop else 0xFFFFFFFF)"

section \<open>Facts\<close>

text \<open>The pointer and array of a settled record: none and empty, or inside the heap with its prefix.\<close>

definition array_inside :: "nat \<Rightarrow> nat \<Rightarrow> bytes \<Rightarrow> nat \<Rightarrow> nat \<Rightarrow> nat \<Rightarrow> nat \<Rightarrow> bool" where
  "array_inside heapStart heapEnd record offset countAt stride prefix \<longleftrightarrow>
     (let pointer = unat (LmStateResourceWord record offset); n = unat (record ! countAt) in
      pointer = 0 \<and> n = 0 \<or> heapStart + prefix \<le> pointer \<and> pointer + n * stride \<le> heapEnd)"

lemma settled_arrays_inside:
  assumes "LmStateSettledRoomRecord room slot backing heapStart heapEnd record"
  shows "array_inside (unat heapStart) (unat heapEnd) record 0xC 0x3C 0x7C 8"
    and "array_inside (unat heapStart) (unat heapEnd) record 0x10 0x3D 0x24 8"
    and "array_inside (unat heapStart) (unat heapEnd) record 0x14 0x3D 4 0"
proof -
  from assms have heap: "heapStart < heapEnd" "heapEnd \<le> 0x81800000"
    and arrays: "settled_array heapStart heapEnd record 0xC" "settled_array heapStart heapEnd record 0x10" "settled_array heapStart heapEnd record 0x14"
    by (auto simp: LmStateSettledRoomRecord_def not_less)
  have inside: "array_inside (unat heapStart) (unat heapEnd) record offset countAt stride prefix"
    if "settled_array heapStart heapEnd record offset" "countAt = (if offset = 0xC then 0x3C else 0x3D)"
      "stride = (if offset = 0xC then 0x7C else if offset = 0x10 then 0x24 else 4)" "prefix = (if offset = 0x14 then 0 else 8)"
    for offset countAt stride prefix
  proof -
    let ?n = "ucast (record ! countAt) :: u32" and ?p = "LmStateResourceWord record offset"
    have n: "unat ?n = unat (record ! countAt)" "unat (record ! countAt) \<le> 255"
    proof -
      have "(unsigned (record ! countAt) :: nat) < 2 ^ LENGTH(8)" by (rule unsigned_less)
      then have b: "unat (record ! countAt) < 256" by simp
      then show "unat ?n = unat (record ! countAt)" "unat (record ! countAt) \<le> 255"
        by (simp_all add: unsigned_ucast_eq take_bit_nat_eq_self)
    qed
    show ?thesis
  proof (cases "LmStateResourceWord record offset = 0")
    case True
    with that(1,2) have "?n = 0" by (simp add: settled_array_def Let_def split: if_splits)
    with True n(1) show ?thesis by (simp add: array_inside_def)
  next
    case False
    define bytes where "bytes = (if ?n \<noteq> 0 then ?n * word_of_nat stride else 4)"
    have small: "stride \<le> 0x7C" using that(3) by simp
    have bytes: "unat (record ! countAt) * stride \<le> unat bytes"
    proof (cases "?n = 0")
      case False
      have "unat (record ! countAt) * stride \<le> 255 * 0x7C" using n(2) small by (intro mult_le_mono)
      then show ?thesis
        using False n small by (simp add: bytes_def unat_word_ariths unat_of_nat take_bit_nat_eq_self)
    qed (use n in simp)
    have code: "\<not> bytes > heapEnd - heapStart" "\<not> ?p < heapStart + word_of_nat prefix" "\<not> ?p > heapEnd - bytes"
      using that False unfolding settled_array_def Let_def bytes_def by (simp_all split: if_splits)
    have "unat (heapStart + word_of_nat prefix) = unat heapStart + prefix"
      using heap that(4) by (simp add: unat_word_ariths word_less_nat_alt word_le_nat_alt split: if_splits)
    moreover have "unat (heapEnd - bytes) = unat heapEnd - unat bytes" "unat bytes \<le> unat heapEnd - unat heapStart"
      using code(1) heap by (simp_all add: unat_minus_le word_less_nat_alt word_le_nat_alt not_less unat_sub)
    ultimately show ?thesis
      using code(2,3) bytes heap unfolding array_inside_def Let_def by (auto simp: word_less_nat_alt word_le_nat_alt not_less)
  qed
  qed
  show "array_inside (unat heapStart) (unat heapEnd) record 0xC 0x3C 0x7C 8" by (rule inside [OF arrays(1)]) simp_all
  show "array_inside (unat heapStart) (unat heapEnd) record 0x10 0x3D 0x24 8" by (rule inside [OF arrays(2)]) simp_all
  show "array_inside (unat heapStart) (unat heapEnd) record 0x14 0x3D 4 0" by (rule inside [OF arrays(3)]) simp_all
qed

text \<open>A tail that is granted lies behind both snapshots and the trailer, aligned and within the limit.\<close>

lemma staging_tail_behind:
  assumes "LmStateStagingTail oldRaw targetRaw trailer payloadLimit \<noteq> 0xFFFFFFFF"
  shows "unat oldRaw + unat trailer \<le> unat (LmStateStagingTail oldRaw targetRaw trailer payloadLimit)"
    and "unat targetRaw + unat trailer \<le> unat (LmStateStagingTail oldRaw targetRaw trailer payloadLimit)"
    and "LmStateStagingTail oldRaw targetRaw trailer payloadLimit \<le> payloadLimit"
proof -
  define raw where "raw = (if oldRaw > targetRaw then oldRaw else targetRaw)"
  have fits: "\<not> trailer > payloadLimit" "\<not> raw > payloadLimit - trailer" "\<not> raw + trailer > 0xFFFFFFFF - 31"
    and tail: "LmStateStagingTail oldRaw targetRaw trailer payloadLimit = (raw + trailer + 31) AND - 32"
      "(raw + trailer + 31) AND - 32 \<le> payloadLimit"
    using assms by (simp_all add: LmStateStagingTail_def raw_def [symmetric] Let_def split: if_splits)
  have "unat raw + unat trailer \<le> unat payloadLimit"
    using fits(1,2) by (simp add: not_less word_le_nat_alt unat_minus_le)
  then have sum: "unat (raw + trailer) = unat raw + unat trailer"
    using unat_u32_less [of payloadLimit] by (intro unat_plus_bound) simp
  then have "unat (raw + trailer + 31) = unat raw + unat trailer + 31"
    using fits(3) by (simp add: not_less word_le_nat_alt unat_plus_bound)
  then have "unat raw + unat trailer \<le> unat ((raw + trailer + 31) AND - 32)"
    unfolding unat_and_minus_32 by presburger
  moreover have "unat oldRaw \<le> unat raw" "unat targetRaw \<le> unat raw"
    by (simp_all add: raw_def word_le_nat_alt word_less_nat_alt)
  ultimately show "unat oldRaw + unat trailer \<le> unat (LmStateStagingTail oldRaw targetRaw trailer payloadLimit)"
    "unat targetRaw + unat trailer \<le> unat (LmStateStagingTail oldRaw targetRaw trailer payloadLimit)"
    "LmStateStagingTail oldRaw targetRaw trailer payloadLimit \<le> payloadLimit"
    using tail by simp_all
qed

end
