(* ===== verification/StateAuth.thy ===== *)
theory StateAuth
  imports Prelude
begin

text \<open>
  \<open>include/susamune/lm_state_auth.h\<close>: the SipHash-2-4 tag of an archive's bytes.
\<close>

section \<open>The code\<close>

definition LmStateRotate :: "u64 \<Rightarrow> nat \<Rightarrow> u64" where
  "LmStateRotate x n = push_bit n x OR drop_bit (64 - n) x"

type_synonym sip_state = "u64 \<times> u64 \<times> u64 \<times> u64"

definition LmStateSipRound :: "sip_state \<Rightarrow> sip_state" where
  "LmStateSipRound v = (case v of (v0, v1, v2, v3) \<Rightarrow>
     let v0 = v0 + v1; v1 = LmStateRotate v1 13; v1 = v1 XOR v0;
         v0 = LmStateRotate v0 32;
         v2 = v2 + v3; v3 = LmStateRotate v3 16; v3 = v3 XOR v2;
         v0 = v0 + v3; v3 = LmStateRotate v3 21; v3 = v3 XOR v0;
         v2 = v2 + v1; v1 = LmStateRotate v1 17; v1 = v1 XOR v2;
         v2 = LmStateRotate v2 32
     in (v0, v1, v2, v3))"

text \<open>\<open>word |= (unsigned long long)p[pos++] << (8 * i)\<close> for the bytes from \<open>i\<close> on.\<close>

fun sip_word :: "nat \<Rightarrow> bytes \<Rightarrow> u64 \<Rightarrow> u64" where
  "sip_word i [] word = word"
| "sip_word i (b # bs) word = sip_word (i + 1) bs (word OR push_bit (8 * i) (ucast b))"

definition sip_absorb :: "u64 \<Rightarrow> sip_state \<Rightarrow> sip_state" where
  "sip_absorb word v = (case v of (v0, v1, v2, v3) \<Rightarrow>
     case LmStateSipRound (LmStateSipRound (v0, v1, v2, v3 XOR word)) of (v0, v1, v2, v3) \<Rightarrow> (v0 XOR word, v1, v2, v3))"

text \<open>The loop over the whole words, and the bytes it leaves.\<close>

fun sip_words :: "bytes \<Rightarrow> sip_state \<Rightarrow> bytes \<times> sip_state" where
  "sip_words p v = (if length p \<ge> 8 then sip_words (drop 8 p) (sip_absorb (sip_word 0 (take 8 p) 0) v) else (p, v))"

declare sip_words.simps [simp del]

definition LmStateAuthenticate :: "bytes \<Rightarrow> u64 \<Rightarrow> u64 \<Rightarrow> u64" where
  "LmStateAuthenticate p key0 key1 =
     (let v = (0x736f6d6570736575 XOR key0, 0x646f72616e646f6d XOR key1, 0x6c7967656e657261 XOR key0, 0x7465646279746573 XOR key1);
          (rest, v) = sip_words p v;
          word = push_bit 56 (word_of_nat (length p) AND 255);
          word = sip_word 0 rest word;
          (v0, v1, v2, v3) = sip_absorb word v;
          (v0, v1, v2, v3) = (LmStateSipRound ^^ 4) (v0, v1, v2 XOR 255, v3)
      in v0 XOR v1 XOR v2 XOR v3)"

text \<open>The header is the 64 bytes in front of the payload; its two tag words count as 0.\<close>

definition LmStateAuthenticateArchive :: "bytes \<Rightarrow> bytes \<Rightarrow> u64 \<Rightarrow> u64 \<Rightarrow> u64" where
  "LmStateAuthenticateArchive header payload key0 key1 =
     (let prefix = map (\<lambda>i. if i \<ge> 48 \<and> i < 56 then 0 else header ! i) [0..<64];
          derived0 = LmStateAuthenticate prefix (key0 XOR 0x4C4D503248445230) key1;
          derived1 = LmStateAuthenticate prefix key0 (key1 XOR 0x4C4D503248445231)
      in LmStateAuthenticate payload derived0 derived1)"

section \<open>Facts\<close>

text \<open>The tag of an archive does not depend on the words it is stored in.\<close>

lemma tag_ignores_tag:
  assumes "length header = 64" "length tag = 8"
  shows "LmStateAuthenticateArchive (take 48 header @ tag @ drop 56 header) payload key0 key1 =
    LmStateAuthenticateArchive header payload key0 key1"
proof -
  have "map (\<lambda>i. if i \<ge> 48 \<and> i < 56 then 0 else (take 48 header @ tag @ drop 56 header) ! i) [0..<64] =
      map (\<lambda>i. if i \<ge> 48 \<and> i < 56 then 0 else header ! i) [0..<64]"
    using assms by (intro map_cong refl) (auto simp: nth_append)
  then show ?thesis by (simp only: LmStateAuthenticateArchive_def)
qed

text \<open>The published test vector of SipHash-2-4: the key 00..0f and the fifteen bytes 00..0e.\<close>

lemma sip_test_rounds:
  "LmStateSipRound (0x7469686173716475, 0x6B617F6D656E6665, 0x6B7F62616D677361, 0x7C6D6C6A717C6D7B) = (0x64668A929363847F, 0x4ED232083D9AA8DC, 0xF2F74892D8141A2E, 0x9290F9810552F4A8)"
  "LmStateSipRound (0x64668A929363847F, 0x4ED232083D9AA8DC, 0xF2F74892D8141A2E, 0x9290F9810552F4A8) = (0x4D07749CDD0858E0, 0xD52F6F62A4F59A4, 0x634CB3577B01FD3D, 0xA5224D6F55C7D9C8)"
  "LmStateSipRound (0x4A017198DE0A59E0, 0xD52F6F62A4F59A4, 0x634CB3577B01FD3D, 0xAA2C40635ECDD0C0) = (0x557560FB6063D060, 0x4C8E675BD961133E, 0xBD3D002B1703A181, 0xFB9441179A4A7315)"
  "LmStateSipRound (0x557560FB6063D060, 0x4C8E675BD961133E, 0xBD3D002B1703A181, 0xFB9441179A4A7315) = (0x338BBEA7645FB759, 0x414FC3FB98EFE374, 0xCCF13EA527B9F4BD, 0x5293F5DA84008F82)"
  "LmStateSipRound (0x3C85B3AB6F55BE51, 0x414FC3FB98EFE374, 0xCCF13EA527B9F442, 0x5293F5DA84008F82) = (0xF2A55244A20E48FE, 0xAC5AD16CCC3CA6E4, 0x9FE5ADB0A52F393A, 0xFD41D55E88F30308)"
  "LmStateSipRound (0xF2A55244A20E48FE, 0xAC5AD16CCC3CA6E4, 0x9FE5ADB0A52F393A, 0xFD41D55E88F30308) = (0xB6C3FBDECC2AE4B4, 0x1638C86ADC6B3CF0, 0x28B8B6AB62553D46, 0xC9465E86EC43EB95)"
  "LmStateSipRound (0xB6C3FBDECC2AE4B4, 0x1638C86ADC6B3CF0, 0x28B8B6AB62553D46, 0xC9465E86EC43EB95) = (0x58101B167209A5E6, 0xF8792AE75B66E7DD, 0x1DA14C3EC7F0B4F7, 0x7624BA8A41BC4AD9)"
  "LmStateSipRound (0x58101B167209A5E6, 0xF8792AE75B66E7DD, 0x1DA14C3EC7F0B4F7, 0x7624BA8A41BC4AD9) = (0xF6BCD53893FECFF1, 0x54B9964C7EA0D937, 0x1B38329C099BB55A, 0x1814BB89AD7BE679)"
  by (simp_all only: LmStateSipRound_def LmStateRotate_def prod.case Let_def) simp_all

lemma sip_test_absorb:
  "sip_absorb 0x706050403020100 (0x7469686173716475, 0x6B617F6D656E6665, 0x6B7F62616D677361, 0x7B6B696E727E6C7B) = (0x4A017198DE0A59E0, 0xD52F6F62A4F59A4, 0x634CB3577B01FD3D, 0xA5224D6F55C7D9C8)"
  "sip_absorb 0xF0E0D0C0B0A0908 (0x4A017198DE0A59E0, 0xD52F6F62A4F59A4, 0x634CB3577B01FD3D, 0xA5224D6F55C7D9C8) = (0x3C85B3AB6F55BE51, 0x414FC3FB98EFE374, 0xCCF13EA527B9F4BD, 0x5293F5DA84008F82)"
  by (simp_all add: sip_absorb_def sip_test_rounds)

lemma sip_test_vector:
  "LmStateAuthenticate [0, 1, 2, 3, 4, 5, 6, 7, 8, 9, 10, 11, 12, 13, 14] 0x0706050403020100 0x0f0e0d0c0b0a0908 = 0xa129ca6149be45e5"
proof -
  let ?v = "(0x7469686173716475, 0x6B617F6D656E6665, 0x6B7F62616D677361, 0x7B6B696E727E6C7B) :: sip_state"
  have "sip_word 0 (take 8 [0, 1, 2, 3, 4, 5, 6, 7, 8, 9, 10, 11, 12, 13, 14]) 0 = 0x706050403020100"
    by simp
  then have words: "sip_words [0, 1, 2, 3, 4, 5, 6, 7, 8, 9, 10, 11, 12, 13, 14] ?v = ([8, 9, 10, 11, 12, 13, 14], (0x4A017198DE0A59E0, 0xD52F6F62A4F59A4, 0x634CB3577B01FD3D, 0xA5224D6F55C7D9C8))"
    by (subst sip_words.simps, subst sip_words.simps) (simp add: sip_test_absorb)
  have rest: "sip_word 0 [8, 9, 10, 11, 12, 13, 14] (push_bit 56 (15 AND 255)) = 0xF0E0D0C0B0A0908" by simp
  have rounds: "(LmStateSipRound ^^ 4) (0x3C85B3AB6F55BE51, 0x414FC3FB98EFE374, 0xCCF13EA527B9F442, 0x5293F5DA84008F82) = (0xF6BCD53893FECFF1, 0x54B9964C7EA0D937, 0x1B38329C099BB55A, 0x1814BB89AD7BE679)" by (simp add: eval_nat_numeral sip_test_rounds)
  show ?thesis
    using words rest rounds by (simp add: LmStateAuthenticate_def sip_test_absorb)
qed

end
