(* ===== verification/XfbDraw.thy ===== *)
theory XfbDraw
  imports Prelude "HOL-Library.Signed_Division"
begin

text \<open>
  \<open>include/susamune/lm_xfb_draw.h\<close>: drawing boxes and polygons into a finished frame of the console's video
  memory, where two neighbouring pixels share their colour: four bytes hold the brightness of the left one, the blue
  difference of both, the brightness of the right one and the red difference of both.  C's \<open>int\<close> is \<open>int\<close> here (every value
  the code computes fits 32 bits, for the surfaces and coordinates it accepts), \<open>/\<close> on values that may be
  negative is \<open>sdiv\<close>.  The frame is a part of a memory of bytes, so that a write outside it is a write.
\<close>

section \<open>Colours\<close>

record LmXfbSurface =
  xs_pixels :: int
  xs_width :: int
  xs_height :: int
  xs_stride :: int

record LmXfbColour =
  xc_y :: int
  xc_cb :: int
  xc_cr :: int
  xc_alpha :: int

type_synonym frame_bytes = "int \<Rightarrow> u8"

definition LmXfbClamp :: "int \<Rightarrow> int \<Rightarrow> int \<Rightarrow> int" where
  "LmXfbClamp x lo hi = (if x < lo then lo else if x > hi then hi else x)"

definition LmXfbRgb :: "u32 \<Rightarrow> u32 \<Rightarrow> LmXfbColour" where
  "LmXfbRgb rgb alpha =
     (let r = uint (drop_bit 16 rgb AND 255); g = uint (drop_bit 8 rgb AND 255); b = uint (rgb AND 255)
      in \<lparr>xc_y = 16 + drop_bit 8 (66 * r + 129 * g + 25 * b + 128),
          xc_cb = 128 + drop_bit 8 (- 38 * r - 74 * g + 112 * b + 128),
          xc_cr = 128 + drop_bit 8 (112 * r - 94 * g - 18 * b + 128),
          xc_alpha = LmXfbClamp (sint alpha) 0 255\<rparr>)"

definition LmXfbBlend :: "int \<Rightarrow> int \<Rightarrow> int \<Rightarrow> u8" where
  "LmXfbBlend old new alpha = word_of_int ((old * (255 - alpha) + new * alpha + 127) div 255)"

text \<open>A surface is a pointer, and so are its pixels.\<close>

definition LmXfbValid :: "LmXfbSurface option \<Rightarrow> bool" where
  "LmXfbValid surface = (case surface of None \<Rightarrow> False | Some s \<Rightarrow>
     xs_pixels s \<noteq> 0 \<and> xs_width s > 0 \<and> xs_width s \<le> 1024 \<and>
     xs_width s AND 1 = 0 \<and> xs_height s > 0 \<and> xs_height s \<le> 1024 \<and>
     xs_stride s \<ge> xs_width s * 2 \<and> xs_stride s \<le> 4096)"

section \<open>Spans\<close>

text \<open>The values of \<open>for (pair = first; pair < stop; pair += 2)\<close>.\<close>

function pairs_from :: "int \<Rightarrow> int \<Rightarrow> int list" where
  "pairs_from pair stop = (if pair < stop then pair # pairs_from (pair + 2) stop else [])"
  by auto
termination by (relation "measure (\<lambda>(pair, stop). nat (stop - pair))") auto

declare pairs_from.simps [simp del]

text \<open>The edges of an opaque span, its whole pairs, and a pair of a translucent span.\<close>

definition span_left :: "LmXfbColour \<Rightarrow> int \<Rightarrow> frame_bytes \<Rightarrow> frame_bytes" where
  "span_left c p m = m(p + 2 := word_of_int (xc_y c),
     p + 1 := LmXfbBlend (uint (m (p + 1))) (xc_cb c) 128, p + 3 := LmXfbBlend (uint (m (p + 3))) (xc_cr c) 128)"

definition span_right :: "LmXfbColour \<Rightarrow> int \<Rightarrow> frame_bytes \<Rightarrow> frame_bytes" where
  "span_right c p m = m(p := word_of_int (xc_y c),
     p + 1 := LmXfbBlend (uint (m (p + 1))) (xc_cb c) 128, p + 3 := LmXfbBlend (uint (m (p + 3))) (xc_cr c) 128)"

definition span_whole :: "LmXfbColour \<Rightarrow> int \<Rightarrow> frame_bytes \<Rightarrow> frame_bytes" where
  "span_whole c p m = m(p + 2 := word_of_int (xc_y c), p := word_of_int (xc_y c),
     p + 1 := word_of_int (xc_cb c), p + 3 := word_of_int (xc_cr c))"

definition span_blend :: "LmXfbColour \<Rightarrow> int \<Rightarrow> int \<Rightarrow> int \<Rightarrow> int \<Rightarrow> frame_bytes \<Rightarrow> frame_bytes" where
  "span_blend c x0 x1 pair p m =
     (let a = pair \<ge> x0; b = pair + 1 < x1;
          chromaAlpha = (xc_alpha c * (of_bool a + of_bool b) + 1) div 2;
          m = (if a then m(p := LmXfbBlend (uint (m p)) (xc_y c) (xc_alpha c)) else m);
          m = (if b then m(p + 2 := LmXfbBlend (uint (m (p + 2))) (xc_y c) (xc_alpha c)) else m)
      in m(p + 1 := LmXfbBlend (uint (m (p + 1))) (xc_cb c) chromaAlpha,
           p + 3 := LmXfbBlend (uint (m (p + 3))) (xc_cr c) chromaAlpha))"

definition LmXfbSpan :: "LmXfbSurface \<Rightarrow> int \<Rightarrow> int \<Rightarrow> int \<Rightarrow> LmXfbColour \<Rightarrow> frame_bytes \<Rightarrow> frame_bytes" where
  "LmXfbSpan s x0 x1 y c m =
     (if y < 0 \<or> y \<ge> xs_height s \<or> xc_alpha c = 0 then m
      else
        let x0 = LmXfbClamp x0 0 (xs_width s); x1 = LmXfbClamp x1 0 (xs_width s);
            row = xs_pixels s + y * xs_stride s
        in if x0 \<ge> x1 then m
           else if xc_alpha c = 255 then
             let m = (if x0 AND 1 \<noteq> 0 then span_left c (row + (x0 - 1) * 2) m else m);
                 m = fold (\<lambda>pair. span_whole c (row + pair * 2)) (pairs_from ((x0 + 1) AND NOT 1) (x1 AND NOT 1)) m
             in if x1 AND 1 \<noteq> 0 then span_right c (row + (x1 - 1) * 2) m else m
           else fold (\<lambda>pair. span_blend c x0 x1 pair (row + pair * 2)) (pairs_from (x0 AND NOT 1) x1) m)"

section \<open>Boxes\<close>

definition LmXfbBox :: "LmXfbSurface option \<Rightarrow> int \<Rightarrow> int \<Rightarrow> int \<Rightarrow> int \<Rightarrow> u32 \<Rightarrow> u32 \<Rightarrow> frame_bytes \<Rightarrow> frame_bytes" where
  "LmXfbBox surface x y w h rgb alpha m =
     (if \<not> LmXfbValid surface \<or> w \<le> 0 \<or> h \<le> 0 \<or>
         x < - 4096 \<or> x > 4096 \<or> y < - 4096 \<or> y > 4096 \<or> w > 8192 \<or> h > 8192 then m
      else
        let s = the surface; c = LmXfbRgb rgb alpha; bottom = LmXfbClamp (y + h) 0 (xs_height s)
        in fold (\<lambda>row. LmXfbSpan s x (x + w) row c) [LmXfbClamp y 0 (xs_height s) .. bottom - 1] m)"

section \<open>Polygons\<close>










section \<open>What a span does\<close>

text \<open>The byte at offset \<open>i\<close> of a row after a span from \<open>x0\<close> to \<open>x1\<close>, given the one of before: the brightness of
  a covered pixel is blended, the colour of a pair is blended by half for each covered pixel.\<close>

definition span_byte :: "LmXfbColour \<Rightarrow> int \<Rightarrow> int \<Rightarrow> int \<Rightarrow> u8 \<Rightarrow> u8" where
  "span_byte c x0 x1 i b =
     (let k = 2 * (i div 4); p = of_bool (x0 \<le> k \<and> k < x1); q = of_bool (x0 \<le> k + 1 \<and> k + 1 < x1)
      in if i mod 4 = 0 then LmXfbBlend (uint b) (xc_y c) (xc_alpha c * p)
         else if i mod 4 = 2 then LmXfbBlend (uint b) (xc_y c) (xc_alpha c * q)
         else LmXfbBlend (uint b) (if i mod 4 = 1 then xc_cb c else xc_cr c) ((xc_alpha c * (p + q) + 1) div 2))"

lemma even_part: "(x :: int) AND NOT 1 = 2 * (x div 2)"
  by (rule bit_eqI) (auto simp: bit_and_iff bit_not_iff bit_1_iff bit_double_iff bit_Suc gr0_conv_Suc)

lemmas even_parts = even_part even_part [simplified]

lemma set_pairs_from: "set (pairs_from p e) = {k. p \<le> k \<and> k < e \<and> even (k - p)}"
proof (induction p e rule: pairs_from.induct)
  case (1 p e)
  have "k = p \<or> p + 2 \<le> k" if "p \<le> k" "even (k - p)" for k using that by presburger
  with 1 show ?case by (subst pairs_from.simps) (auto, presburger+)
qed

lemma distinct_pairs_from: "distinct (pairs_from p e)"
  by (induction p e rule: pairs_from.induct) (subst pairs_from.simps, auto simp: set_pairs_from)

text \<open>A loop each of whose turns writes addresses of its own.\<close>

lemma fold_own:
  assumes "\<And>x m. x \<in> set xs \<Longrightarrow> f x m a = (if x = k then g (m a) else m a)" and "distinct xs"
  shows "fold f xs m a = (if k \<in> set xs then g (m a) else m a)"
  using assms by (induction xs arbitrary: m) auto

lemma blend_none [simp]: "LmXfbBlend (uint b) n 0 = b"
proof -
  have "(uint b * 255 + 127) div 255 = uint b" by simp
  then show ?thesis by (simp add: LmXfbBlend_def)
qed

lemma blend_all [simp]: "LmXfbBlend old n 255 = word_of_int n"
  by (simp add: LmXfbBlend_def)

lemma span_byte_outside: "x1 \<le> 2 * (i div 4) \<or> 2 * (i div 4) + 1 < x0 \<Longrightarrow> span_byte c x0 x1 i b = b"
  by (auto simp: span_byte_def Let_def)


text \<open>Each kind of pair writes its own four bytes, with the values of \<open>span_byte\<close>.\<close>

lemma pair_address:
  fixes R :: int
  assumes "0 \<le> r" "r < 4"
  shows "R + (4 * q + r) = R + 4 * n \<longleftrightarrow> r = 0 \<and> q = n" "R + (4 * q + r) = R + (4 * n + 1) \<longleftrightarrow> r = 1 \<and> q = n"
    "R + (4 * q + r) = R + (4 * n + 2) \<longleftrightarrow> r = 2 \<and> q = n" "R + (4 * q + r) = R + (4 * n + 3) \<longleftrightarrow> r = 3 \<and> q = n"
  using assms by presburger+

lemma byte_position:
  obtains q r :: int where "i = 4 * q + r" "r = 0 \<or> r = 1 \<or> r = 2 \<or> r = 3" "i div 4 = q" "i mod 4 = r"
proof
  show "i = 4 * (i div 4) + i mod 4" by simp
  show "i mod 4 = 0 \<or> i mod 4 = 1 \<or> i mod 4 = 2 \<or> i mod 4 = 3" by presburger
qed simp_all

lemmas pair_defs = span_left_def span_right_def span_whole_def span_blend_def span_byte_def Let_def

lemma span_left_at:
  assumes "xc_alpha c = 255" "x0 = 2 * n + 1" "x0 < x1"
  shows "span_left c (R + 4 * n) m (R + i) = (if i div 4 = n then span_byte c x0 x1 i (m (R + i)) else m (R + i))"
  by (rule byte_position [of i]) (use assms in \<open>elim disjE; simp add: pair_defs pair_address add.assoc\<close>)

lemma span_right_at:
  assumes "xc_alpha c = 255" "x1 = 2 * n + 1" "x0 < x1"
  shows "span_right c (R + 4 * n) m (R + i) = (if i div 4 = n then span_byte c x0 x1 i (m (R + i)) else m (R + i))"
  by (rule byte_position [of i]) (use assms in \<open>elim disjE; simp add: pair_defs pair_address add.assoc\<close>)

lemma span_whole_at:
  assumes "xc_alpha c = 255" "x0 \<le> 2 * n" "2 * n + 1 < x1"
  shows "span_whole c (R + 4 * n) m (R + i) = (if i div 4 = n then span_byte c x0 x1 i (m (R + i)) else m (R + i))"
  by (rule byte_position [of i]) (use assms in \<open>elim disjE; simp add: pair_defs pair_address add.assoc\<close>)

lemma span_blend_at:
  assumes "x0 \<le> 2 * n + 1" "2 * n < x1" 
  shows "span_blend c x0 x1 (2 * n) (R + 4 * n) m (R + i) = (if i div 4 = n then span_byte c x0 x1 i (m (R + i)) else m (R + i))"
  by (rule byte_position [of i]) (use assms in \<open>elim disjE; simp add: pair_defs pair_address add.assoc\<close>)


lemma span_pairs:
  fixes xs :: "int list"
  assumes "\<And>n m. 2 * n \<in> set xs \<Longrightarrow> f (2 * n) (R + 4 * n) m (R + i) = (if i div 4 = n then g (m (R + i)) else m (R + i))"
    and "\<And>k. k \<in> set xs \<Longrightarrow> even k" and "distinct xs"
  shows "fold (\<lambda>pair. f pair (R + pair * 2)) xs m (R + i) = (if 2 * (i div 4) \<in> set xs then g (m (R + i)) else m (R + i))"
proof (rule fold_own [OF _ assms(3)])
  fix k m
  assume k: "k \<in> set xs"
  then obtain n where "k = 2 * n" using assms(2) by (auto elim: evenE)
  with assms(1) [of n m] k show "f k (R + k * 2) m (R + i) = (if k = 2 * (i div 4) then g (m (R + i)) else m (R + i))"
    by (simp add: mult.commute)
qed

lemma translucent_at:
  "fold (\<lambda>pair. span_blend c x0 x1 pair (R + pair * 2)) (pairs_from (x0 AND NOT 1) x1) m (R + i) =
     span_byte c x0 x1 i (m (R + i))"
proof -
  have "fold (\<lambda>pair. span_blend c x0 x1 pair (R + pair * 2)) (pairs_from (x0 AND NOT 1) x1) m (R + i) =
    (if 2 * (i div 4) \<in> set (pairs_from (x0 AND NOT 1) x1) then span_byte c x0 x1 i (m (R + i)) else m (R + i))"
  proof (rule span_pairs)
    fix n m
    assume "2 * n \<in> set (pairs_from (x0 AND NOT 1) x1)"
    then have "x0 \<le> 2 * n + 1" "2 * n < x1" by (auto simp: set_pairs_from even_parts)
    then show "span_blend c x0 x1 (2 * n) (R + 4 * n) m (R + i) = (if i div 4 = n then span_byte c x0 x1 i (m (R + i)) else m (R + i))"
      by (rule span_blend_at)
  qed (auto simp: set_pairs_from even_parts distinct_pairs_from)
  moreover have "x1 \<le> 2 * (i div 4) \<or> 2 * (i div 4) + 1 < x0" if "2 * (i div 4) \<notin> set (pairs_from (x0 AND NOT 1) x1)"
    using that by (auto simp: set_pairs_from even_parts)
  ultimately show ?thesis using span_byte_outside [of x1 i x0] by auto
qed

lemma opaque_at:
  assumes "xc_alpha c = 255" "x0 < x1"
  shows "(let m = (if x0 AND 1 \<noteq> 0 then span_left c (R + (x0 - 1) * 2) m else m);
            m = fold (\<lambda>pair. span_whole c (R + pair * 2)) (pairs_from ((x0 + 1) AND NOT 1) (x1 AND NOT 1)) m
          in if x1 AND 1 \<noteq> 0 then span_right c (R + (x1 - 1) * 2) m else m) (R + i) = span_byte c x0 x1 i (m (R + i))"
proof -
  let ?k = "i div 4" and ?s = "span_byte c x0 x1 i"
  let ?whole = "pairs_from ((x0 + 1) AND NOT 1) (x1 AND NOT 1)"
  have left: "(if x0 AND 1 \<noteq> 0 then span_left c (R + (x0 - 1) * 2) m else m) (R + i) =
      (if 2 * ?k + 1 = x0 then ?s (m (R + i)) else m (R + i))" for m
  proof (cases "odd x0")
    case True
    then obtain n where "x0 = 2 * n + 1" by (elim oddE)
    with span_left_at [OF assms(1) this assms(2), of R m i] show ?thesis by (auto simp: and_one_eq algebra_simps)
  next
    case False
    then show ?thesis by (auto simp: and_one_eq)
  qed
  have right: "(if x1 AND 1 \<noteq> 0 then span_right c (R + (x1 - 1) * 2) m else m) (R + i) =
      (if 2 * ?k + 1 = x1 then ?s (m (R + i)) else m (R + i))" for m
  proof (cases "odd x1")
    case True
    then obtain n where "x1 = 2 * n + 1" by (elim oddE)
    with span_right_at [OF assms(1) this assms(2), of R m i] show ?thesis by (auto simp: and_one_eq algebra_simps)
  next
    case False
    then show ?thesis by (auto simp: and_one_eq)
  qed
  have mid: "fold (\<lambda>pair. span_whole c (R + pair * 2)) ?whole m (R + i) =
      (if 2 * ?k \<in> set ?whole then ?s (m (R + i)) else m (R + i))" for m
  proof (rule span_pairs)
    fix n m
    assume "2 * n \<in> set ?whole"
    then have "x0 \<le> 2 * n" "2 * n + 1 < x1" by (auto simp: set_pairs_from even_parts)
    with assms(1) show "span_whole c (R + 4 * n) m (R + i) = (if i div 4 = n then ?s (m (R + i)) else m (R + i))"
      by (rule span_whole_at)
  qed (auto simp: set_pairs_from even_parts distinct_pairs_from)
  have whole: "2 * ?k \<in> set ?whole \<longleftrightarrow> x0 \<le> 2 * ?k \<and> 2 * ?k + 1 < x1"
    by (auto simp: set_pairs_from even_parts)
  show ?thesis
    unfolding Let_def right mid left whole using assms(2) span_byte_outside [of x1 i x0]
    by auto
qed

text \<open>A row's bytes: the two paths of the code compute the same.\<close>

lemma clamp_bounds: "0 \<le> w \<Longrightarrow> 0 \<le> LmXfbClamp x 0 w \<and> LmXfbClamp x 0 w \<le> w"
  by (auto simp: LmXfbClamp_def)

lemma span_byte_clamp:
  assumes "even w" "0 \<le> i" "i < 2 * w"
  shows "span_byte c (LmXfbClamp x0 0 w) (LmXfbClamp x1 0 w) i b = span_byte c x0 x1 i b"
proof -
  have covered: "LmXfbClamp x0 0 w \<le> k \<and> k < LmXfbClamp x1 0 w \<longleftrightarrow> x0 \<le> k \<and> k < x1" if "0 \<le> k" "k < w" for k
    using that by (auto simp: LmXfbClamp_def)
  have "0 \<le> 2 * (i div 4)" "2 * (i div 4) < w" "0 \<le> 2 * (i div 4) + 1" "2 * (i div 4) + 1 < w"
    using assms by presburger+
  then show ?thesis by (simp only: span_byte_def Let_def covered)
qed

lemma LmXfbSpan_at:
  assumes "even (xs_width s)" "0 \<le> xs_width s"
  shows "LmXfbSpan s x0 x1 y c m (xs_pixels s + y * xs_stride s + i) =
    (if 0 \<le> y \<and> y < xs_height s \<and> 0 \<le> i \<and> i < 2 * xs_width s
     then span_byte c x0 x1 i (m (xs_pixels s + y * xs_stride s + i)) else m (xs_pixels s + y * xs_stride s + i))"
proof -
  define R where "R = xs_pixels s + y * xs_stride s"
  define a b where "a = LmXfbClamp x0 0 (xs_width s)" and "b = LmXfbClamp x1 0 (xs_width s)"
  have ab: "0 \<le> a" "b \<le> xs_width s" using clamp_bounds [OF assms(2)] by (auto simp: a_def b_def)
  have byte: "span_byte c a b i v = (if 0 \<le> i \<and> i < 2 * xs_width s then span_byte c x0 x1 i v else v)" for v
  proof (cases "0 \<le> i \<and> i < 2 * xs_width s")
    case True
    then show ?thesis using span_byte_clamp [OF assms(1)] by (simp add: a_def b_def)
  next
    case False
    then have "b \<le> 2 * (i div 4) \<or> 2 * (i div 4) + 1 < a" using ab assms(1) by presburger
    with False span_byte_outside show ?thesis by auto
  qed
  have idle: "span_byte c a b i v = v" if "xc_alpha c = 0 \<or> b \<le> a" for v
    using that by (auto simp: span_byte_def Let_def)
  have "LmXfbSpan s x0 x1 y c m (R + i) = span_byte c a b i (m (R + i))" if y: "0 \<le> y" "y < xs_height s"
  proof (cases "xc_alpha c = 0 \<or> b \<le> a")
    case True
    with idle y show ?thesis by (auto simp: LmXfbSpan_def a_def [symmetric] b_def [symmetric] Let_def)
  next
    case False
    show ?thesis
    proof (cases "xc_alpha c = 255")
      case True
      have "LmXfbSpan s x0 x1 y c m = (let m = (if a AND 1 \<noteq> 0 then span_left c (R + (a - 1) * 2) m else m);
            m = fold (\<lambda>pair. span_whole c (R + pair * 2)) (pairs_from ((a + 1) AND NOT 1) (b AND NOT 1)) m
          in if b AND 1 \<noteq> 0 then span_right c (R + (b - 1) * 2) m else m)"
        using True False y unfolding LmXfbSpan_def a_def [symmetric] b_def [symmetric] R_def [symmetric] Let_def by simp
      then show ?thesis using opaque_at [OF True, of a b R m i] False by simp
    next
      case alpha: False
      have "LmXfbSpan s x0 x1 y c m = fold (\<lambda>pair. span_blend c a b pair (R + pair * 2)) (pairs_from (a AND NOT 1) b) m"
        using alpha False y unfolding LmXfbSpan_def a_def [symmetric] b_def [symmetric] R_def [symmetric] Let_def by simp
      then show ?thesis using translucent_at by simp
    qed
  qed
  moreover have "LmXfbSpan s x0 x1 y c m = m" if "\<not> (0 \<le> y \<and> y < xs_height s)"
    using that by (auto simp: LmXfbSpan_def)
  ultimately show ?thesis
    unfolding R_def [symmetric] byte by (cases "0 \<le> y \<and> y < xs_height s") auto
qed


section \<open>Boxes\<close>

lemma LmXfbValid_Some:
  "LmXfbValid (Some s) \<Longrightarrow> even (xs_width s) \<and> 0 < xs_width s \<and> 0 < xs_height s \<and> 2 * xs_width s \<le> xs_stride s"
  by (auto simp: LmXfbValid_def and_one_eq split: if_splits)

text \<open>Seen from an address: only its own row's span can change it.\<close>

lemma LmXfbSpan_row:
  assumes "LmXfbValid (Some s)"
  shows "LmXfbSpan s x0 x1 y c m a =
    (let row = (a - xs_pixels s) div xs_stride s; i = (a - xs_pixels s) mod xs_stride s
     in if y = row \<and> 0 \<le> row \<and> row < xs_height s \<and> i < 2 * xs_width s then span_byte c x0 x1 i (m a) else m a)"
proof -
  from LmXfbValid_Some [OF assms] have s: "even (xs_width s)" "0 \<le> xs_width s" "0 < xs_stride s" "2 * xs_width s \<le> xs_stride s"
    by auto
  define i where "i = a - xs_pixels s - y * xs_stride s"
  have a: "a = xs_pixels s + y * xs_stride s + i" by (simp add: i_def)
  have "(0 \<le> i \<and> i < 2 * xs_width s) \<longleftrightarrow>
      y = (a - xs_pixels s) div xs_stride s \<and> (a - xs_pixels s) mod xs_stride s < 2 * xs_width s"
    and "y = (a - xs_pixels s) div xs_stride s \<Longrightarrow> i = (a - xs_pixels s) mod xs_stride s"
  proof -
    have offset: "a - xs_pixels s = i + y * xs_stride s" by (simp add: i_def)
    show same: "y = (a - xs_pixels s) div xs_stride s \<Longrightarrow> i = (a - xs_pixels s) mod xs_stride s"
      by (simp add: i_def minus_div_mult_eq_mod)
    have "y = (a - xs_pixels s) div xs_stride s" if "0 \<le> i" "i < xs_stride s"
      unfolding offset using that s(3) by simp
    with same s(3,4) show "(0 \<le> i \<and> i < 2 * xs_width s) \<longleftrightarrow>
        y = (a - xs_pixels s) div xs_stride s \<and> (a - xs_pixels s) mod xs_stride s < 2 * xs_width s"
      by (metis order_less_le_trans pos_mod_sign)
  qed
  with LmXfbSpan_at [OF s(1,2), of x0 x1 y c m i, folded a] show ?thesis by (auto simp: Let_def)
qed

lemma LmXfbClamp_range: "0 \<le> h \<Longrightarrow> LmXfbClamp p 0 h \<le> y \<and> y < LmXfbClamp q 0 h \<longleftrightarrow> 0 \<le> y \<and> y < h \<and> p \<le> y \<and> y < q"
  by (auto simp: LmXfbClamp_def)

text \<open>C10: A box changes exactly the pixels it covers inside the surface, each by one blend, and nothing else of the memory: the byte at
  address \<open>a\<close> lies in some row at some offset; it becomes what \<open>span_byte\<close> says if the row is one of the box's, and stays
  otherwise.  So the special code for opaque spans computes the general blend, no pixel is blended twice, and no
  byte outside the surface's rows is written.  A box that is refused changes nothing.\<close>

theorem box_blends:
  "LmXfbBox surface x y w h rgb alpha m a =
    (let s = the surface; row = (a - xs_pixels s) div xs_stride s; i = (a - xs_pixels s) mod xs_stride s
     in if LmXfbValid surface \<and> 0 < w \<and> w \<le> 8192 \<and> 0 < h \<and> h \<le> 8192 \<and> \<bar>x\<bar> \<le> 4096 \<and> \<bar>y\<bar> \<le> 4096 \<and>
          0 \<le> row \<and> row < xs_height s \<and> y \<le> row \<and> row < y + h \<and> i < 2 * xs_width s
        then span_byte (LmXfbRgb rgb alpha) x (x + w) i (m a) else m a)"
proof (cases "LmXfbValid surface \<and> 0 < w \<and> w \<le> 8192 \<and> 0 < h \<and> h \<le> 8192 \<and> \<bar>x\<bar> \<le> 4096 \<and> \<bar>y\<bar> \<le> 4096")
  case True
  then obtain s where s: "surface = Some s" "LmXfbValid (Some s)" by (cases surface) (auto simp: LmXfbValid_def)
  define row i where "row = (a - xs_pixels s) div xs_stride s" and "i = (a - xs_pixels s) mod xs_stride s"
  define g where "g v = (if 0 \<le> row \<and> row < xs_height s \<and> i < 2 * xs_width s then span_byte (LmXfbRgb rgb alpha) x (x + w) i v else v)" for v
  have "fold (\<lambda>r. LmXfbSpan s x (x + w) r (LmXfbRgb rgb alpha)) [LmXfbClamp y 0 (xs_height s) .. LmXfbClamp (y + h) 0 (xs_height s) - 1] m a =
      (if row \<in> set [LmXfbClamp y 0 (xs_height s) .. LmXfbClamp (y + h) 0 (xs_height s) - 1] then g (m a) else m a)"
    by (rule fold_own) (auto simp: LmXfbSpan_row [OF s(2)] row_def [symmetric] i_def [symmetric] g_def Let_def)
  moreover have "0 \<le> xs_height s" using LmXfbValid_Some [OF s(2)] by simp
  ultimately show ?thesis
    using True s LmXfbClamp_range [of "xs_height s" y row "y + h"]
    by (auto simp: LmXfbBox_def Let_def row_def [symmetric] i_def [symmetric] g_def)
next
  case False
  then show ?thesis by (auto simp: LmXfbBox_def Let_def)
qed


section \<open>Polygons\<close>


definition confined :: "int set \<Rightarrow> (frame_bytes \<Rightarrow> frame_bytes) \<Rightarrow> bool" where
  "confined A f \<longleftrightarrow> (\<forall>m. {a. f m a \<noteq> m a} \<subseteq> A)"



lemma confined_mono: "confined A f \<Longrightarrow> A \<subseteq> B \<Longrightarrow> confined B f"
  by (auto simp: confined_def)





subsection \<open>Filling\<close>











subsection \<open>Stroking\<close>










end
